(* ===== verification/Prelude.thy ===== *)
theory Prelude
  imports Complex_Main "HOL-Library.Multiset"
begin

text \<open>
  What every component shares: JavaScript's truthiness and \<open>trim\<close> on strings, the list idioms of
  the TypeScript sources (\<open>findIndex\<close>, first hit of a loop with early return, \<open>splice\<close>),
  updates that say whether they changed anything, results with an error branch, and a locale for
  transition systems in which every component's invariant is lifted to its reachable states.

  Strings are lists of characters; a character stands for one UTF-16 code unit below 256, so
  the model speaks of Latin-1 text. Optional fields are \<open>option\<close>: an absent key and a key holding
  \<open>undefined\<close> are both \<^const>\<open>None\<close>, which is how every reader in the sources treats them.
\<close>

named_theorems leaves_simps \<open>how an operation on a pane tree acts on the list of its leaves\<close>
named_theorems wf_intros \<open>operations keep the well-formedness of their component\<close>

section \<open>JavaScript values\<close>

text \<open>An optional string in a condition: absent and empty both count as false.\<close>

fun truthy :: "string option \<Rightarrow> bool" where
  "truthy None = False"
| "truthy (Some s) = (s \<noteq> [])"

lemma truthy_iff: "truthy x \<longleftrightarrow> (\<exists>s. x = Some s \<and> s \<noteq> [])"
  by (cases x) auto

text \<open>\<open>...(x ? { field: x } : {})\<close>: a field that is absent or empty is left out.\<close>

definition drop_empty :: "string option \<Rightarrow> string option" where
  "drop_empty s = (if truthy s then s else None)"

text \<open>The white space \<open>String.prototype.trim\<close> strips, restricted to the Latin-1 range.\<close>

definition is_js_space :: "char \<Rightarrow> bool" where
  "is_js_space c \<longleftrightarrow> of_char c \<in> set [9, 10, 11, 12, 13, 32, 160 :: nat]"

definition js_trim :: "string \<Rightarrow> string" where
  "js_trim s = rev (dropWhile is_js_space (rev (dropWhile is_js_space s)))"

lemma js_trim_Nil [simp]: "js_trim [] = []"
  by (simp add: js_trim_def)

lemma dropWhile_twice [simp]: "dropWhile P (dropWhile P xs) = dropWhile P xs"
  by (induction xs) auto

lemma hd_dropWhile_rev:
  assumes "xs \<noteq> []" and "\<not> P (hd xs)"
  shows "dropWhile P (rev (dropWhile P (rev xs))) = rev (dropWhile P (rev xs))"
proof -
  obtain x ys where xs: "xs = x # ys" and x: "\<not> P x"
    using assms by (cases xs) auto
  have "dropWhile P (rev ys @ [x]) = dropWhile P (rev ys) @ [x]"
    using x by (simp add: dropWhile_append3)
  then show ?thesis using xs x by simp
qed

lemma js_trim_idem [simp]: "js_trim (js_trim s) = js_trim s"
proof (cases "dropWhile is_js_space s")
  case Nil
  then show ?thesis by (simp only: js_trim_def) simp
next
  case (Cons c cs)
  then have "\<not> is_js_space (hd (dropWhile is_js_space s))"
    using hd_dropWhile [of is_js_space s] by simp
  then show ?thesis
    using Cons hd_dropWhile_rev [of "dropWhile is_js_space s" is_js_space]
    by (simp add: js_trim_def)
qed

text \<open>Text joined with a separator the last part does not contain can be taken apart again.\<close>

lemma append_last_sep_inj:
  assumes "a @ c # x = b @ c # y" and "c \<notin> set x" and "c \<notin> set y"
  shows "a = b \<and> x = y"
proof -
  have tw: "takeWhile (\<lambda>d. d \<noteq> c) (rev (w @ c # z)) = rev z" if "c \<notin> set z" for w z
    using that by (induction z rule: rev_induct) auto
  have "rev x = rev y" using tw [OF assms(2), of a] tw [OF assms(3), of b] assms(1) by simp
  then have "x = y" by simp
  with assms(1) show ?thesis by simp
qed

text \<open>
  A value of unknown type, as read from a file or received from another device. A finite number is a
  rational; \<open>typeof\<close> says number of \<open>NaN\<close> and the infinities too.
\<close>

datatype js_num = Fin rat | NaN | PosInf | NegInf

datatype js =
    JUndef | JNull | JBool bool | JNum js_num | JStr string | JArr "js list" | JObj "(string \<times> js) list"

text \<open>\<open>v.field\<close> on a value that is neither \<open>null\<close> nor \<open>undefined\<close>.\<close>

fun js_get :: "js \<Rightarrow> string \<Rightarrow> js" where
  "js_get (JObj fs) k = (case map_of fs k of None \<Rightarrow> JUndef | Some v \<Rightarrow> v)"
| "js_get _ k = JUndef"

text \<open>\<open>typeof v === "object" && v !== null\<close>.\<close>

fun is_object :: "js \<Rightarrow> bool" where
  "is_object (JObj _) = True"
| "is_object (JArr _) = True"
| "is_object _ = False"

text \<open>\<open>String(v)\<close>; how a number prints is a parameter.\<close>

fun js_String :: "(js_num \<Rightarrow> string) \<Rightarrow> js \<Rightarrow> string" where
  "js_String num JUndef = ''undefined''"
| "js_String num JNull = ''null''"
| "js_String num (JBool b) = (if b then ''true'' else ''false'')"
| "js_String num (JNum n) = num n"
| "js_String num (JStr s) = s"
| "js_String num (JArr vs) = concat (case map (\<lambda>v. case v of JUndef \<Rightarrow> [] | JNull \<Rightarrow> [] | _ \<Rightarrow> js_String num v) vs of
     [] \<Rightarrow> [] | x # xs \<Rightarrow> x # map (\<lambda>y. '','' @ y) xs)"
| "js_String num (JObj _) = ''[object Object]''"

section \<open>Loops with an early return, indices\<close>

text \<open>A loop that returns the first result that is not \<open>null\<close>.\<close>

fun first_some :: "'a option list \<Rightarrow> 'a option" where
  "first_some [] = None"
| "first_some (None # xs) = first_some xs"
| "first_some (Some x # xs) = Some x"

lemma first_some_None: "first_some xs = None \<longleftrightarrow> (\<forall>x \<in> set xs. x = None)"
  by (induction xs rule: first_some.induct) auto

lemma first_some_SomeD: "first_some xs = Some y \<Longrightarrow> Some y \<in> set xs"
  by (induction xs rule: first_some.induct) auto

lemma first_some_map_ex: "x \<in> set xs \<Longrightarrow> f x = Some z \<Longrightarrow> \<exists>y. first_some (map f xs) = Some y"
  by (metis first_some_None imageI list.set_map not_None_eq option.distinct(1))

lemma first_some_mapD: "first_some (map f xs) = Some y \<Longrightarrow> \<exists>x \<in> set xs. f x = Some y"
  using first_some_SomeD by fastforce

lemma find_SomeD: "find P xs = Some x \<Longrightarrow> x \<in> set xs \<and> P x"
  by (auto simp: find_Some_iff)

lemma find_append: "find P (xs @ ys) = (case find P xs of None \<Rightarrow> find P ys | Some x \<Rightarrow> Some x)"
  by (induction xs) auto

lemma first_some_map_find:
  assumes "\<And>x. x \<in> set xs \<Longrightarrow> f x = find P (g x)"
  shows "first_some (map f xs) = find P (concat (map g xs))"
  using assms
proof (induction xs)
  case (Cons x xs)
  then show ?case by (cases "f x") (auto simp: find_append)
qed simp

text \<open>\<open>Array.prototype.findIndex\<close>, with \<^const>\<open>None\<close> for its \<open>-1\<close>.\<close>

fun find_index :: "('a \<Rightarrow> bool) \<Rightarrow> 'a list \<Rightarrow> nat option" where
  "find_index P [] = None"
| "find_index P (x # xs) = (if P x then Some 0 else map_option Suc (find_index P xs))"

lemma find_index_None: "find_index P xs = None \<longleftrightarrow> (\<forall>x \<in> set xs. \<not> P x)"
  by (induction xs) auto

lemma find_index_SomeD:
  "find_index P xs = Some i \<Longrightarrow>
    i < length xs \<and> P (xs ! i) \<and> (\<forall>x \<in> set (take i xs). \<not> P x)"
  by (induction xs arbitrary: i) (auto split: if_splits simp: less_Suc_eq_0_disj)

lemma find_index_split:
  assumes "find_index P xs = Some i"
  shows "xs = take i xs @ xs ! i # drop (Suc i) xs"
  using find_index_SomeD [OF assms] id_take_nth_drop by blast

text \<open>Inserting at a position, as the sources write it with two slices.\<close>

definition insert_at :: "nat \<Rightarrow> 'a \<Rightarrow> 'a list \<Rightarrow> 'a list" where
  "insert_at i x xs = take i xs @ x # drop i xs"

lemma mset_insert_at [simp]: "mset (insert_at i x xs) = add_mset x (mset xs)"
  unfolding insert_at_def by (metis append_take_drop_id mset_append mset.simps(2) union_mset_add_mset_right)

lemma set_insert_at [simp]: "set (insert_at i x xs) = insert x (set xs)"
  by (metis mset_insert_at set_mset_add_mset_insert set_mset_mset)

lemma length_insert_at [simp]: "length (insert_at i x xs) = Suc (length xs)"
  by (metis mset_insert_at size_add_mset size_mset)

lemma insert_at_nth:
  "i < length xs \<Longrightarrow> insert_at i x xs = take i xs @ x # xs ! i # drop (Suc i) xs"
  by (simp add: insert_at_def Cons_nth_drop_Suc)

lemma insert_at_Suc_nth:
  "i < length xs \<Longrightarrow> insert_at (Suc i) x xs = take i xs @ xs ! i # x # drop (Suc i) xs"
  by (simp add: insert_at_def take_Suc_conv_app_nth)

text \<open>\<open>map\<close> with a callback that reads and writes a counter outside it.\<close>

fun map_acc :: "('a \<Rightarrow> 's \<Rightarrow> 'b \<times> 's) \<Rightarrow> 'a list \<Rightarrow> 's \<Rightarrow> 'b list \<times> 's" where
  "map_acc f [] s = ([], s)"
| "map_acc f (x # xs) s =
     (let (y, s') = f x s; (ys, s'') = map_acc f xs s' in (y # ys, s''))"

lemma map_acc_idle:
  "(\<And>x. x \<in> set xs \<Longrightarrow> f x s = (x, s)) \<Longrightarrow> map_acc f xs s = (xs, s)"
  by (induction xs) auto

lemma map_acc_one:
  assumes "\<And>x s. x \<in> set xs \<Longrightarrow> x \<noteq> z \<Longrightarrow> f x s = (x, s)"
    and "\<And>x s. x \<in> set ys \<Longrightarrow> x \<noteq> z \<Longrightarrow> f x s = (x, s)"
    and "z \<notin> set xs" and "z \<notin> set ys"
  shows "map_acc f (xs @ z # ys) s = (xs @ fst (f z s) # ys, snd (f z s))"
  using assms
proof (induction xs)
  case Nil
  have "map_acc f ys s' = (ys, s')" for s'
    using Nil by (intro map_acc_idle) (metis)
  then show ?case by (auto split: prod.splits)
next
  case (Cons x xs)
  have "f x s = (x, s)" using Cons.prems(1) [of x] Cons.prems(3) by auto
  moreover have "map_acc f (xs @ z # ys) s = (xs @ fst (f z s) # ys, snd (f z s))"
    using Cons.prems by (intro Cons.IH) auto
  ultimately show ?case by simp
qed

section \<open>Sorting with a comparator\<close>

text \<open>
  \<open>Array.prototype.sort\<close> is stable. For a comparator that is a total preorder its result is the
  one stable sorted permutation, which insertion from the right computes.
\<close>

fun cmp_insert :: "('a \<Rightarrow> 'a \<Rightarrow> int) \<Rightarrow> 'a \<Rightarrow> 'a list \<Rightarrow> 'a list" where
  "cmp_insert cmp x [] = [x]"
| "cmp_insert cmp x (y # ys) = (if cmp x y \<le> 0 then x # y # ys else y # cmp_insert cmp x ys)"

definition js_sort :: "('a \<Rightarrow> 'a \<Rightarrow> int) \<Rightarrow> 'a list \<Rightarrow> 'a list" where
  "js_sort cmp xs = foldr (cmp_insert cmp) xs []"

lemma mset_cmp_insert [simp]: "mset (cmp_insert cmp x ys) = add_mset x (mset ys)"
  by (induction ys) auto

lemma mset_js_sort [simp]: "mset (js_sort cmp xs) = mset xs"
  by (induction xs) (auto simp: js_sort_def)

lemma set_js_sort [simp]: "set (js_sort cmp xs) = set xs"
  by (metis mset_js_sort set_mset_mset)

text \<open>A comparator JavaScript can sort with: antisymmetric in sign, and transitive.\<close>

definition consistent_cmp :: "('a \<Rightarrow> 'a \<Rightarrow> int) \<Rightarrow> bool" where
  "consistent_cmp cmp \<longleftrightarrow>
     (\<forall>a b. cmp a b \<le> 0 \<or> cmp b a \<le> 0) \<and>
     (\<forall>a b c. cmp a b \<le> 0 \<longrightarrow> cmp b c \<le> 0 \<longrightarrow> cmp a c \<le> 0)"

lemma sorted_cmp_insert:
  "consistent_cmp cmp \<Longrightarrow> sorted_wrt (\<lambda>a b. cmp a b \<le> 0) ys \<Longrightarrow>
    sorted_wrt (\<lambda>a b. cmp a b \<le> 0) (cmp_insert cmp x ys)"
proof (induction ys)
  case (Cons y ys)
  have mem: "set (cmp_insert cmp x ys) = insert x (set ys)"
    by (metis mset_cmp_insert set_mset_add_mset_insert set_mset_mset)
  show ?case
  proof (cases "cmp x y \<le> 0")
    case True
    then have "cmp x z \<le> 0" if "z \<in> set (y # ys)" for z
      using Cons.prems that by (auto simp: consistent_cmp_def)
    then show ?thesis using Cons.prems True by simp
  next
    case False
    then have "cmp y x \<le> 0" using Cons.prems(1) by (auto simp: consistent_cmp_def)
    then show ?thesis using Cons False mem by simp
  qed
qed simp

lemma sorted_js_sort: "consistent_cmp cmp \<Longrightarrow> sorted_wrt (\<lambda>a b. cmp a b \<le> 0) (js_sort cmp xs)"
  by (induction xs) (auto simp: js_sort_def sorted_cmp_insert)

text \<open>The documented contract of \<open>localeCompare\<close>: opposite signs when swapped, and transitive.\<close>

definition proper_cmp :: "('a \<Rightarrow> 'a \<Rightarrow> int) \<Rightarrow> bool" where
  "proper_cmp cmp \<longleftrightarrow> (\<forall>a b. cmp b a \<le> 0 \<longleftrightarrow> 0 \<le> cmp a b) \<and>
     (\<forall>a b c. cmp a b \<le> 0 \<longrightarrow> cmp b c \<le> 0 \<longrightarrow> cmp a c \<le> 0)"

lemma proper_swap: "proper_cmp cmp \<Longrightarrow> cmp b a \<le> 0 \<longleftrightarrow> 0 \<le> cmp a b"
  unfolding proper_cmp_def by blast

lemma proper_trans: "proper_cmp cmp \<Longrightarrow> cmp a b \<le> 0 \<Longrightarrow> cmp b c \<le> 0 \<Longrightarrow> cmp a c \<le> 0"
  unfolding proper_cmp_def by blast

lemma proper_consistent: "proper_cmp cmp \<Longrightarrow> consistent_cmp cmp"
  unfolding consistent_cmp_def using proper_swap proper_trans by (metis linorder_linear)

text \<open>Comparing by a key, and by two comparators in turn (\<open>a || b\<close>).\<close>

lemma proper_by_key: "proper_cmp cmp \<Longrightarrow> proper_cmp (\<lambda>a b. cmp (f a) (f b))"
  unfolding proper_cmp_def by blast

lemma proper_then:
  assumes "proper_cmp c" and "proper_cmp d"
  shows "proper_cmp (\<lambda>a b. if c a b \<noteq> 0 then c a b else d a b)" (is "proper_cmp ?e")
proof -
  have "?e b a \<le> 0 \<longleftrightarrow> 0 \<le> ?e a b" for a b
    using proper_swap [OF assms(1), of a b] proper_swap [OF assms(1), of b a] proper_swap [OF assms(2), of b a]
    by (cases "c a b = 0"; cases "c b a = 0") auto
  moreover have "?e x z \<le> 0" if "?e x y \<le> 0" "?e y z \<le> 0" for x y z
  proof -
    have le: "c x y \<le> 0" "c y z \<le> 0" using that by (auto split: if_splits)
    then have xz: "c x z \<le> 0" using proper_trans [OF assms(1)] by blast
    have "c x y = 0 \<and> c y z = 0" if "c x z = 0"
    proof -
      have "c z x \<le> 0" using that proper_swap [OF assms(1)] by simp
      then have "c y x \<le> 0" "c z y \<le> 0" using le proper_trans [OF assms(1)] by blast+
      then show ?thesis using le proper_swap [OF assms(1), of y x] proper_swap [OF assms(1), of z y] by simp
    qed
    then show ?thesis using that xz proper_trans [OF assms(2)] by (auto split: if_splits)
  qed
  ultimately show ?thesis unfolding proper_cmp_def by blast
qed

text \<open>A comparator that satisfies the contract.\<close>

definition by_length :: "string \<Rightarrow> string \<Rightarrow> int" where
  "by_length a b = int (length a) - int (length b)"

lemma proper_by_length: "proper_cmp by_length"
  unfolding proper_cmp_def by_length_def by auto

section \<open>Updates that report a change\<close>

text \<open>
  Several functions of the sources return their argument \<^emph>\<open>by reference\<close> when nothing changed, and
  their callers test \<open>===\<close>. Such a function is modelled with an \<open>option\<close> result: \<^const>\<open>None\<close> is
  "the same object back", \<^const>\<open>Some\<close> a freshly built one.
\<close>

definition upd_val :: "'a \<Rightarrow> 'a option \<Rightarrow> 'a" where
  "upd_val old u = (case u of None \<Rightarrow> old | Some new \<Rightarrow> new)"

lemma upd_val_simps [simp]: "upd_val old None = old" "upd_val old (Some new) = new"
  by (simp_all add: upd_val_def)

section \<open>Transition systems\<close>

text \<open>
  A component with state is an initial condition and a step relation. An invariant that holds
  initially and is kept by every step holds in all reachable states.
\<close>

inductive reachable :: "('s \<Rightarrow> bool) \<Rightarrow> ('s \<Rightarrow> 's \<Rightarrow> bool) \<Rightarrow> 's \<Rightarrow> bool"
  for start and step where
  reach_start: "start s \<Longrightarrow> reachable start step s"
| reach_step: "reachable start step s \<Longrightarrow> step s t \<Longrightarrow> reachable start step t"

locale invariant_system =
  fixes start :: "'s \<Rightarrow> bool"
    and step :: "'s \<Rightarrow> 's \<Rightarrow> bool"
    and inv :: "'s \<Rightarrow> bool"
  assumes inv_start: "start s \<Longrightarrow> inv s"
    and inv_step: "inv s \<Longrightarrow> step s t \<Longrightarrow> inv t"
begin

lemma reachable_inv: "reachable start step s \<Longrightarrow> inv s"
  by (induction rule: reachable.induct) (auto intro: inv_start inv_step)

lemma steps_inv: "step\<^sup>*\<^sup>* s t \<Longrightarrow> inv s \<Longrightarrow> inv t"
  by (induction rule: rtranclp_induct) (auto intro: inv_step)

end

end
