(* ===== verification/Panes.thy ===== *)
theory Panes
  imports Prelude
begin

text \<open>
  The pane tree of a tab (\<^verbatim>\<open>src/modules/terminal/lib/panes.ts\<close>): its leaf states and nodes, the
  readers, and the setters that rewrite one leaf or one split in place. The operations that change
  the shape of the tree are in the theory \<open>Pane_Edit\<close>.

  The abstraction used throughout is the list of leaves in visual order. A lemma in
  \<open>leaves_simps\<close> says what an operation does to that list; \<open>wf_pane\<close> is the type invariant (a
  split holds at least two children, no leaf id occurs twice).
\<close>

section \<open>Data\<close>

type_synonym pane_id = nat

datatype split_dir = Row | Col

datatype pane_edge = EdgeLeft | EdgeRight | EdgeTop | EdgeBottom

datatype ai_cli_kind = Claude | Codex | Opencode | Copilot | Pi | Aider | Gemini | Grok | AmazonQ
  | Cody | Goose | Cursor | Ollama

record terminal_leaf_state =
  t_cwd :: "string option"
  t_hostId :: "string option"
  t_terminalOrdinal :: "nat option"
  t_customTitle :: "string option"
  t_ptyId :: "string option"
  t_savedPtyId :: "string option"
  t_terminalThemeId :: "string option"
  t_activeTool :: "ai_cli_kind option"

record editor_leaf_state =
  e_path :: string
  e_dirty :: bool
  e_preview :: bool
  e_hostId :: "string option"
  e_sshSessionId :: "nat option"
  e_sshHostLabel :: "string option"
  e_customTitle :: "string option"

record board_leaf_state =
  b_customTitle :: "string option"

record rdp_leaf_state =
  r_rdpConnectionId :: string
  r_customTitle :: "string option"

datatype page_kind = PageHosts | PageVault | PageForwards | PageKnownHosts

text \<open>Only Hosts may be a pane leaf.\<close>

datatype tab_page_kind = TabHosts

record page_leaf_state =
  p_page :: tab_page_kind
  p_customTitle :: "string option"

datatype leaf_state =
    Terminal terminal_leaf_state
  | Editor editor_leaf_state
  | Rdp rdp_leaf_state
  | Board board_leaf_state
  | Page page_leaf_state

record pane_leaf =
  leaf_id :: pane_id
  leaf_state :: leaf_state

text \<open>Divider positions are percentages; a finite JavaScript number is a rational.\<close>

datatype pane_node =
    Leaf pane_leaf
  | Split pane_id split_dir "pane_node list" "rat list option"

definition PAGE_KINDS :: "page_kind list" where
  "PAGE_KINDS = [PageHosts, PageVault, PageForwards, PageKnownHosts]"

fun page_name :: "page_kind \<Rightarrow> string" where
  "page_name PageHosts = ''hosts''"
| "page_name PageVault = ''vault''"
| "page_name PageForwards = ''forwards''"
| "page_name PageKnownHosts = ''known-hosts''"

definition isPageKind :: "string \<Rightarrow> bool" where
  "isPageKind v \<longleftrightarrow> v \<in> set (map page_name PAGE_KINDS)"

fun PAGE_LABELS :: "page_kind \<Rightarrow> string" where
  "PAGE_LABELS PageHosts = ''Hosts''"
| "PAGE_LABELS PageVault = ''Vault''"
| "PAGE_LABELS PageForwards = ''Port Forwarding''"
| "PAGE_LABELS PageKnownHosts = ''Known Hosts''"

fun page_of_tab :: "tab_page_kind \<Rightarrow> page_kind" where
  "page_of_tab TabHosts = PageHosts"

fun customTitle :: "leaf_state \<Rightarrow> string option" where
  "customTitle (Terminal t) = t_customTitle t"
| "customTitle (Editor e) = e_customTitle e"
| "customTitle (Rdp r) = r_customTitle r"
| "customTitle (Board b) = b_customTitle b"
| "customTitle (Page p) = p_customTitle p"

fun with_customTitle :: "string option \<Rightarrow> leaf_state \<Rightarrow> leaf_state" where
  "with_customTitle c (Terminal t) = Terminal (t\<lparr>t_customTitle := c\<rparr>)"
| "with_customTitle c (Editor e) = Editor (e\<lparr>e_customTitle := c\<rparr>)"
| "with_customTitle c (Rdp r) = Rdp (r\<lparr>r_customTitle := c\<rparr>)"
| "with_customTitle c (Board b) = Board (b\<lparr>b_customTitle := c\<rparr>)"
| "with_customTitle c (Page p) = Page (p\<lparr>p_customTitle := c\<rparr>)"

fun is_page :: "leaf_state \<Rightarrow> bool" where
  "is_page (Page _) = True"
| "is_page _ = False"

section \<open>Readers\<close>

fun isLeaf :: "pane_node \<Rightarrow> bool" where
  "isLeaf (Leaf _) = True"
| "isLeaf (Split _ _ _ _) = False"

text \<open>The test \<open>isLeaf(c) \<and> c.id === id\<close> that the sources pass to \<open>findIndex\<close>.\<close>

fun leaf_with :: "pane_id \<Rightarrow> pane_node \<Rightarrow> bool" where
  "leaf_with i (Leaf l) = (leaf_id l = i)"
| "leaf_with i (Split _ _ _ _) = False"

fun isRemoteEditorLeaf :: "pane_leaf \<Rightarrow> bool" where
  "isRemoteEditorLeaf l =
     (case leaf_state l of
        Editor e \<Rightarrow> e_hostId e \<noteq> None \<or> e_sshSessionId e \<noteq> None
      | _ \<Rightarrow> False)"

text \<open>What an editor pane may read and write through: \<open>undefined\<close>, a session, or \<open>"blocked"\<close>.\<close>

datatype editor_session = LocalFs | Session nat | Blocked

definition editorPaneSession :: "pane_leaf \<Rightarrow> nat option \<Rightarrow> nat option \<Rightarrow> editor_session" where
  "editorPaneSession l resolved lastBound =
     (if \<not> isRemoteEditorLeaf l then LocalFs
      else case resolved of
        Some s \<Rightarrow> Session s
      | None \<Rightarrow> (case lastBound of Some s \<Rightarrow> Session s | None \<Rightarrow> Blocked))"

fun leafIds :: "pane_node \<Rightarrow> pane_id list" where
  "leafIds (Leaf l) = [leaf_id l]"
| "leafIds (Split _ _ cs _) = concat (map leafIds cs)"

fun leafParentDir :: "pane_node \<Rightarrow> pane_id \<Rightarrow> split_dir option" where
  "leafParentDir (Leaf _) i = None"
| "leafParentDir (Split _ d cs _) i =
     (if list_ex (leaf_with i) cs then Some d
      else first_some (map (\<lambda>c. leafParentDir c i) cs))"

fun leaves :: "pane_node \<Rightarrow> pane_leaf list" where
  "leaves (Leaf l) = [l]"
| "leaves (Split _ _ cs _) = concat (map leaves cs)"

fun findLeaf :: "pane_node \<Rightarrow> pane_id \<Rightarrow> pane_leaf option" where
  "findLeaf (Leaf l) i = (if leaf_id l = i then Some l else None)"
| "findLeaf (Split _ _ cs _) i = first_some (map (\<lambda>c. findLeaf c i) cs)"

definition hasLeaf :: "pane_node \<Rightarrow> pane_id \<Rightarrow> bool" where
  "hasLeaf t i \<longleftrightarrow> findLeaf t i \<noteq> None"

section \<open>Setters\<close>

text \<open>
  Every setter walks the tree and rewrites the leaf with the given id. \<open>map_leaf\<close> is that walk;
  each setter below instantiates it with what the source does at the leaf, a function named after
  the field with the suffix \<open>_at\<close>. The setters whose
  callers compare references return an update: a leaf that is left alone is the same object, a
  split is always rebuilt (\<open>{ ...n, children: ... }\<close>), so it is always a fresh one.
\<close>

fun map_leaf :: "(pane_leaf \<Rightarrow> pane_leaf) \<Rightarrow> pane_node \<Rightarrow> pane_node" where
  "map_leaf f (Leaf l) = Leaf (f l)"
| "map_leaf f (Split i d cs sz) = Split i d (map (map_leaf f) cs) sz"

fun upd_leaf :: "(pane_leaf \<Rightarrow> pane_leaf option) \<Rightarrow> pane_node \<Rightarrow> pane_node option" where
  "upd_leaf f (Leaf l) = map_option Leaf (f l)"
| "upd_leaf f (Split i d cs sz) = Some (Split i d (map (\<lambda>c. upd_val c (upd_leaf f c)) cs) sz)"

definition cwd_at :: "pane_id \<Rightarrow> string \<Rightarrow> pane_leaf \<Rightarrow> pane_leaf" where
  "cwd_at i cwd l =
     (if leaf_id l \<noteq> i then l
      else case leaf_state l of
        Terminal t \<Rightarrow> l\<lparr>leaf_state := Terminal (t\<lparr>t_cwd := Some cwd\<rparr>)\<rparr>
      | _ \<Rightarrow> l)"

definition setLeafCwd :: "pane_node \<Rightarrow> pane_id \<Rightarrow> string \<Rightarrow> pane_node" where
  "setLeafCwd n i cwd = map_leaf (cwd_at i cwd) n"

definition ptyId_at :: "pane_id \<Rightarrow> string \<Rightarrow> pane_leaf \<Rightarrow> pane_leaf option" where
  "ptyId_at i pty l =
     (if leaf_id l \<noteq> i then None
      else case leaf_state l of
        Terminal t \<Rightarrow>
          (if t_ptyId t = Some pty \<and> t_savedPtyId t = None then None
           else Some (l\<lparr>leaf_state := Terminal (t\<lparr>t_ptyId := Some pty, t_savedPtyId := None\<rparr>)\<rparr>))
      | _ \<Rightarrow> None)"

definition setLeafPtyId :: "pane_node \<Rightarrow> pane_id \<Rightarrow> string \<Rightarrow> pane_node option" where
  "setLeafPtyId n i pty = upd_leaf (ptyId_at i pty) n"

definition activeTool_at :: "pane_id \<Rightarrow> ai_cli_kind option \<Rightarrow> pane_leaf \<Rightarrow> pane_leaf option" where
  "activeTool_at i tool l =
     (if leaf_id l \<noteq> i then None
      else case leaf_state l of
        Terminal t \<Rightarrow>
          (if t_activeTool t = tool then None
           else Some (l\<lparr>leaf_state := Terminal (t\<lparr>t_activeTool := tool\<rparr>)\<rparr>))
      | _ \<Rightarrow> None)"

definition setLeafActiveTool :: "pane_node \<Rightarrow> pane_id \<Rightarrow> ai_cli_kind option \<Rightarrow> pane_node option" where
  "setLeafActiveTool n i tool = upd_leaf (activeTool_at i tool) n"

text \<open>\<open>Math.round\<close>: halves go up.\<close>

definition js_round :: "rat \<Rightarrow> int" where
  "js_round x = \<lfloor>x + 1 / 2\<rfloor>"

definition same_sizes :: "rat list option \<Rightarrow> rat list \<Rightarrow> bool" where
  "same_sizes old sizes = (case old of None \<Rightarrow> False
     | Some vs \<Rightarrow> length vs = length sizes \<and> map js_round vs = map js_round sizes)"

fun setSplitSizes :: "pane_node \<Rightarrow> pane_id \<Rightarrow> rat list \<Rightarrow> pane_node option" where
  "setSplitSizes (Leaf l) splitId sizes = None"
| "setSplitSizes (Split i d cs sz) splitId sizes =
     (if i = splitId then
        (if length sizes \<noteq> length cs then None
         else if same_sizes sz sizes then None
         else Some (Split i d cs (Some sizes)))
      else
        (let rs = map (\<lambda>c. setSplitSizes c splitId sizes) cs
         in if list_all (\<lambda>r. r = None) rs then None
            else Some (Split i d (map2 upd_val cs rs) sz)))"

definition theme_at :: "pane_id \<Rightarrow> string option \<Rightarrow> pane_leaf \<Rightarrow> pane_leaf option" where
  "theme_at i themeId l =
     (if leaf_id l \<noteq> i then None
      else case leaf_state l of
        Terminal t \<Rightarrow>
          (if truthy themeId then
             (if t_terminalThemeId t = themeId then None
              else Some (l\<lparr>leaf_state := Terminal (t\<lparr>t_terminalThemeId := themeId\<rparr>)\<rparr>))
           else if t_terminalThemeId t = None then None
           else Some (l\<lparr>leaf_state := Terminal (t\<lparr>t_terminalThemeId := None\<rparr>)\<rparr>))
      | _ \<Rightarrow> None)"

definition setLeafTerminalTheme :: "pane_node \<Rightarrow> pane_id \<Rightarrow> string option \<Rightarrow> pane_node option" where
  "setLeafTerminalTheme n i themeId = upd_leaf (theme_at i themeId) n"

definition title_at :: "pane_id \<Rightarrow> string option \<Rightarrow> pane_leaf \<Rightarrow> pane_leaf option" where
  "title_at i title l =
     (if leaf_id l \<noteq> i then None
      else
        (let nxt = map_option js_trim title in
         if truthy nxt then
           (if customTitle (leaf_state l) = nxt then None
            else Some (l\<lparr>leaf_state := with_customTitle nxt (leaf_state l)\<rparr>))
         else if customTitle (leaf_state l) = None then None
         else Some (l\<lparr>leaf_state := with_customTitle None (leaf_state l)\<rparr>)))"

definition setLeafCustomTitle :: "pane_node \<Rightarrow> pane_id \<Rightarrow> string option \<Rightarrow> pane_node option" where
  "setLeafCustomTitle n i title = upd_leaf (title_at i title) n"

text \<open>The patch of \<open>updateEditorLeaf\<close>: a field that is \<^const>\<open>None\<close> is not in the patch object.\<close>

record editor_patch =
  patch_path :: "string option"
  patch_dirty :: "bool option"
  patch_preview :: "bool option"

definition no_patch :: editor_patch where
  "no_patch = \<lparr>patch_path = None, patch_dirty = None, patch_preview = None\<rparr>"

definition apply_patch :: "editor_patch \<Rightarrow> editor_leaf_state \<Rightarrow> editor_leaf_state" where
  "apply_patch p e = e\<lparr>e_path := upd_val (e_path e) (patch_path p),
     e_dirty := upd_val (e_dirty e) (patch_dirty p),
     e_preview := upd_val (e_preview e) (patch_preview p)\<rparr>"

definition patch_at :: "pane_id \<Rightarrow> editor_patch \<Rightarrow> pane_leaf \<Rightarrow> pane_leaf" where
  "patch_at i p l =
     (if leaf_id l \<noteq> i then l
      else case leaf_state l of
        Editor e \<Rightarrow> l\<lparr>leaf_state := Editor (apply_patch p e)\<rparr>
      | _ \<Rightarrow> l)"

definition updateEditorLeaf :: "pane_node \<Rightarrow> pane_id \<Rightarrow> editor_patch \<Rightarrow> pane_node" where
  "updateEditorLeaf n i p = map_leaf (patch_at i p) n"

definition cloneLeafState :: "pane_leaf \<Rightarrow> leaf_state" where
  "cloneLeafState l =
     (case leaf_state l of
        Terminal t \<Rightarrow> Terminal
          \<lparr>t_cwd = t_cwd t, t_hostId = t_hostId t, t_terminalOrdinal = t_terminalOrdinal t,
           t_customTitle = None, t_ptyId = None, t_savedPtyId = None,
           t_terminalThemeId = (if truthy (t_terminalThemeId t) then t_terminalThemeId t else None),
           t_activeTool = t_activeTool t\<rparr>
      | Editor e \<Rightarrow> Editor
          \<lparr>e_path = e_path e, e_dirty = e_dirty e, e_preview = e_preview e,
           e_hostId = e_hostId e, e_sshSessionId = e_sshSessionId e,
           e_sshHostLabel = e_sshHostLabel e, e_customTitle = None\<rparr>
      | Rdp r \<Rightarrow> Rdp \<lparr>r_rdpConnectionId = r_rdpConnectionId r, r_customTitle = None\<rparr>
      | Board b \<Rightarrow> Board \<lparr>b_customTitle = None\<rparr>
      | Page p \<Rightarrow> Page \<lparr>p_page = p_page p, p_customTitle = None\<rparr>)"

section \<open>The type invariant\<close>

text \<open>Every split holds at least two children; no two leaves share an id.\<close>

fun wf_shape :: "pane_node \<Rightarrow> bool" where
  "wf_shape (Leaf _) = True"
| "wf_shape (Split _ _ cs _) = (2 \<le> length cs \<and> list_all wf_shape cs)"

definition wf_pane :: "pane_node \<Rightarrow> bool" where
  "wf_pane t \<longleftrightarrow> wf_shape t \<and> distinct (leafIds t)"

text \<open>The ids of all nodes, splits included.\<close>

fun nodeIds :: "pane_node \<Rightarrow> pane_id list" where
  "nodeIds (Leaf l) = [leaf_id l]"
| "nodeIds (Split i _ cs _) = i # concat (map nodeIds cs)"

section \<open>Readers in terms of the list of leaves\<close>

lemma leafIds_leaves: "leafIds t = map leaf_id (leaves t)"
  by (induction t) (auto simp: map_concat intro!: arg_cong [where f = concat])

lemma findLeaf_eq: "findLeaf t i = find (\<lambda>l. leaf_id l = i) (leaves t)"
  by (induction t) (auto intro: first_some_map_find)

lemma findLeaf_None_iff: "findLeaf t i = None \<longleftrightarrow> i \<notin> set (leafIds t)"
  by (auto simp: findLeaf_eq leafIds_leaves find_None_iff)

lemma hasLeaf_iff [simp]: "hasLeaf t i \<longleftrightarrow> i \<in> set (leafIds t)"
  by (simp add: hasLeaf_def findLeaf_None_iff)

lemma findLeaf_SomeD: "findLeaf t i = Some l \<Longrightarrow> l \<in> set (leaves t) \<and> leaf_id l = i"
  by (auto simp: findLeaf_eq find_Some_iff)

lemma distinct_leaf_eq:
  "distinct (leafIds t) \<Longrightarrow> l \<in> set (leaves t) \<Longrightarrow> k \<in> set (leaves t) \<Longrightarrow>
    leaf_id l = leaf_id k \<Longrightarrow> l = k"
  by (metis distinct_map inj_on_eq_iff leafIds_leaves)

lemma findLeaf_iff:
  assumes "distinct (leafIds t)"
  shows "findLeaf t i = Some l \<longleftrightarrow> l \<in> set (leaves t) \<and> leaf_id l = i"
proof
  assume "l \<in> set (leaves t) \<and> leaf_id l = i"
  then have "findLeaf t i \<noteq> None" by (auto simp: findLeaf_None_iff leafIds_leaves)
  then obtain k where "findLeaf t i = Some k" by auto
  then show "findLeaf t i = Some l"
    using assms \<open>l \<in> set (leaves t) \<and> leaf_id l = i\<close>
    by (metis distinct_leaf_eq findLeaf_SomeD)
qed (rule findLeaf_SomeD)

lemma leaf_with_iff: "leaf_with i c \<longleftrightarrow> (\<exists>l. c = Leaf l \<and> leaf_id l = i)"
  by (cases c) auto

lemma leafIds_subset_nodeIds: "set (leafIds t) \<subseteq> set (nodeIds t)"
  by (induction t) auto

lemma wf_shape_leaves_nonempty: "wf_shape t \<Longrightarrow> leaves t \<noteq> []"
proof (induction t)
  case (Split i d cs sz)
  then obtain c cs' where cs: "cs = c # cs'" by (cases cs) auto
  with Split show ?case by auto
qed simp

lemma wf_shape_leafIds_nonempty: "wf_shape t \<Longrightarrow> leafIds t \<noteq> []"
  by (simp add: leafIds_leaves wf_shape_leaves_nonempty)

lemma leafParentDir_isLeaf: "isLeaf t \<Longrightarrow> leafParentDir t i = None"
  by (cases t) auto

lemma leafParentDir_Some:
  "i \<in> set (leafIds t) \<Longrightarrow> \<not> isLeaf t \<Longrightarrow> \<exists>d. leafParentDir t i = Some d"
proof (induction t)
  case (Split j d cs sz)
  then obtain c where c: "c \<in> set cs" "i \<in> set (leafIds c)" by auto
  show ?case
  proof (cases "isLeaf c")
    case True
    then have "leaf_with i c" using c by (cases c) auto
    then show ?thesis using c by (auto simp: list_ex_iff)
  next
    case False
    then obtain e where "leafParentDir c i = Some e" using Split.IH c by blast
    then obtain d' where "first_some (map (\<lambda>c. leafParentDir c i) cs) = Some d'"
      using first_some_map_ex [OF c(1), where f = "\<lambda>c. leafParentDir c i"] by blast
    then show ?thesis by simp
  qed
qed simp

section \<open>Setters keep the shape\<close>

lemma leaves_map_leaf [leaves_simps]: "leaves (map_leaf f t) = map f (leaves t)"
  by (induction t) (auto simp: map_concat intro!: arg_cong [where f = concat])

definition upd_fun :: "('a \<Rightarrow> 'a option) \<Rightarrow> 'a \<Rightarrow> 'a" where
  "upd_fun f x = upd_val x (f x)"

lemma upd_leaf_map_leaf: "upd_val t (upd_leaf f t) = map_leaf (upd_fun f) t"
proof (induction t)
  case (Leaf l)
  then show ?case by (cases "f l") (auto simp: upd_fun_def)
qed auto

lemma leaves_upd_leaf [leaves_simps]:
  "leaves (upd_val t (upd_leaf f t)) = map (upd_fun f) (leaves t)"
  by (simp add: upd_leaf_map_leaf leaves_map_leaf)

text \<open>A leaf function that keeps ids gives a tree operation that keeps shape and ids.\<close>

definition keeps_id :: "(pane_leaf \<Rightarrow> pane_leaf) \<Rightarrow> bool" where
  "keeps_id f \<longleftrightarrow> (\<forall>l. leaf_id (f l) = leaf_id l)"

lemma map_leaf_leafIds: "keeps_id f \<Longrightarrow> leafIds (map_leaf f t) = leafIds t"
  by (simp add: leafIds_leaves leaves_map_leaf keeps_id_def)

lemma map_leaf_nodeIds: "keeps_id f \<Longrightarrow> nodeIds (map_leaf f t) = nodeIds t"
  by (induction t) (auto simp: keeps_id_def intro!: arg_cong [where f = concat])

lemma map_leaf_wf_shape: "wf_shape (map_leaf f t) = wf_shape t"
  by (induction t) (auto simp: list_all_iff)

lemma map_leaf_wf: "keeps_id f \<Longrightarrow> wf_pane (map_leaf f t) = wf_pane t"
  by (simp add: wf_pane_def map_leaf_wf_shape map_leaf_leafIds)

text \<open>
  The leaf functions of the setters, all with the same frame: the id stays, and so does every
  leaf with another id.
\<close>

definition touches_only :: "pane_id \<Rightarrow> (pane_leaf \<Rightarrow> pane_leaf) \<Rightarrow> bool" where
  "touches_only i f \<longleftrightarrow> keeps_id f \<and> (\<forall>l. leaf_id l \<noteq> i \<longrightarrow> f l = l)"

lemmas leaf_setter_defs = cwd_at_def ptyId_at_def activeTool_at_def theme_at_def title_at_def patch_at_def

lemma touches_only_setters:
  "touches_only i (cwd_at i cwd)"
  "touches_only i (upd_fun (ptyId_at i pty))"
  "touches_only i (upd_fun (activeTool_at i tool))"
  "touches_only i (upd_fun (theme_at i themeId))"
  "touches_only i (upd_fun (title_at i title))"
  "touches_only i (patch_at i patch)"
  by (auto simp: leaf_setter_defs touches_only_def keeps_id_def upd_fun_def Let_def split: leaf_state.splits)

text \<open>Every setter is a walk with a leaf function of that frame.\<close>

lemma setters_are_map_leaf:
  "setLeafCwd t i cwd = map_leaf (cwd_at i cwd) t"
  "upd_val t (setLeafPtyId t i pty) = map_leaf (upd_fun (ptyId_at i pty)) t"
  "upd_val t (setLeafActiveTool t i tool) = map_leaf (upd_fun (activeTool_at i tool)) t"
  "upd_val t (setLeafTerminalTheme t i themeId) = map_leaf (upd_fun (theme_at i themeId)) t"
  "upd_val t (setLeafCustomTitle t i title) = map_leaf (upd_fun (title_at i title)) t"
  "updateEditorLeaf t i patch = map_leaf (patch_at i patch) t"
  unfolding setLeafCwd_def setLeafPtyId_def setLeafActiveTool_def setLeafTerminalTheme_def
    setLeafCustomTitle_def updateEditorLeaf_def upd_leaf_map_leaf by (rule refl)+

lemma touches_only_frame:
  assumes "touches_only i f" and "leaf_id l \<noteq> i" and "l \<in> set (leaves t)"
  shows "l \<in> set (leaves (map_leaf f t))"
  using assms by (force simp: touches_only_def leaves_map_leaf)

lemma map2_upd_val_map:
  "map2 upd_val cs (map f cs) = map (\<lambda>c. upd_val c (f c)) cs"
  by (induction cs) auto

lemma setSplitSizes_keeps:
  "leaves (upd_val t (setSplitSizes t i sizes)) = leaves t
   \<and> nodeIds (upd_val t (setSplitSizes t i sizes)) = nodeIds t
   \<and> wf_shape (upd_val t (setSplitSizes t i sizes)) = wf_shape t"
proof (induction t)
  case (Split j d cs sz)
  then show ?case
    by (auto simp: Let_def map2_upd_val_map list_all_iff o_def cong: map_cong)
qed simp

end
