(* ===== verification/Pane_Edit.thy ===== *)
theory Pane_Edit
  imports Panes
begin

text \<open>
  The operations of \<^verbatim>\<open>src/modules/terminal/lib/panes.ts\<close> that change the shape of a pane tree:
  building a tree in a layout, splitting, removing, focus movement, rotation, reordering, the
  drag-and-drop move and the canonical form. Each is related to an operation on the list of leaves
  (\<open>insert_after\<close>, \<open>insert_before\<close>, \<^const>\<open>filter\<close>, the identity), and each keeps
  \<^const>\<open>wf_pane\<close>.
\<close>

section \<open>Operations\<close>

datatype pane_layout = LayoutRow | LayoutCol | LayoutGrid

datatype pane_error = NeedsAtLeastOneLeaf

definition layoutsFor :: "nat \<Rightarrow> pane_layout list" where
  "layoutsFor n =
     (if n < 2 then []
      else if n < 3 then [LayoutRow, LayoutCol]
      else [LayoutRow, LayoutCol, LayoutGrid])"

definition mk_leaf :: "pane_id \<Rightarrow> leaf_state \<Rightarrow> pane_leaf" where
  "mk_leaf i s = \<lparr>leaf_id = i, leaf_state = s\<rparr>"

text \<open>The leaves of \<open>states.map((s) => leaf(s))\<close>: ids are taken from the counter in order.\<close>

definition alloc_leaves :: "leaf_state list \<Rightarrow> pane_id \<Rightarrow> pane_node list" where
  "alloc_leaves states n = map2 (\<lambda>i s. Leaf (mk_leaf i s)) [n ..< n + length states] states"

text \<open>
  \<open>allocId\<close> is the counter \<open>n\<close>; the result carries its new value. JavaScript evaluates the
  children before the split that holds them, so inner nodes get the smaller ids.
\<close>

definition buildPaneTree ::
  "leaf_state list \<Rightarrow> pane_layout \<Rightarrow> pane_id \<Rightarrow> pane_error + (pane_node \<times> pane_id)" where
  "buildPaneTree states layout n =
     (let k = length states; cells = alloc_leaves states n; n' = n + k in
      case states of
        [] \<Rightarrow> Inl NeedsAtLeastOneLeaf
      | [s] \<Rightarrow> Inr (Leaf (mk_leaf n s), Suc n)
      | _ \<Rightarrow>
        (if layout = LayoutGrid \<and> k = 3 then
           Inr (Split (n' + 1) Row [cells ! 0, Split n' Col [cells ! 1, cells ! 2] None] None, n' + 2)
         else if layout = LayoutGrid \<and> 4 \<le> k then
           (let top = (k + 1) div 2 in
            Inr (Split (n' + 2) Col
                   [Split n' Row (take top cells) None, Split (n' + 1) Row (drop top cells) None]
                   None, n' + 3))
         else Inr (Split n' (if layout = LayoutCol then Col else Row) cells None, Suc n')))"

fun splitLeaf ::
  "pane_node \<Rightarrow> pane_id \<Rightarrow> pane_id \<Rightarrow> pane_id \<Rightarrow> split_dir \<Rightarrow> leaf_state \<Rightarrow> pane_node" where
  "splitLeaf (Leaf l) target newSplit newLeaf dir st =
     (if leaf_id l \<noteq> target then Leaf l
      else Split newSplit dir [Leaf l, Leaf (mk_leaf newLeaf st)] None)"
| "splitLeaf (Split i d cs sz) target newSplit newLeaf dir st =
     (case (if d = dir then find_index (leaf_with target) cs else None) of
        Some idx \<Rightarrow> Split i d (insert_at (Suc idx) (Leaf (mk_leaf newLeaf st)) cs) None
      | None \<Rightarrow> Split i d (map (\<lambda>c. splitLeaf c target newSplit newLeaf dir st) cs) sz)"

fun removeLeaf :: "pane_node \<Rightarrow> pane_id \<Rightarrow> pane_node option" where
  "removeLeaf (Leaf l) target = (if leaf_id l = target then None else Some (Leaf l))"
| "removeLeaf (Split i d cs sz) target =
     (let newChildren = concat (map (\<lambda>c. case removeLeaf c target of None \<Rightarrow> [] | Some r \<Rightarrow> [r]) cs)
      in case newChildren of
           [] \<Rightarrow> None
         | [c] \<Rightarrow> Some c
         | _ \<Rightarrow> Some (Split i d newChildren (if length newChildren = length cs then sz else None)))"

text \<open>\<open>delta\<close> is \<open>1\<close> or \<open>-1\<close>.\<close>

definition nextLeafId :: "pane_node \<Rightarrow> pane_id \<Rightarrow> int \<Rightarrow> pane_id" where
  "nextLeafId t cur delta =
     (let ids = leafIds t in
      if ids = [] then cur
      else case find_index (\<lambda>i. i = cur) ids of
        None \<Rightarrow> hd ids
      | Some idx \<Rightarrow> ids ! nat ((int idx + delta + int (length ids)) mod int (length ids)))"

text \<open>The child beside position \<open>i\<close>: the right one if there is one, else the left.\<close>

definition neighbour_index :: "nat \<Rightarrow> 'a list \<Rightarrow> nat option" where
  "neighbour_index i cs =
     (if Suc i < length cs then Some (Suc i) else if i = 0 then None else Some (i - 1))"

fun siblingLeafOf :: "pane_node \<Rightarrow> pane_id \<Rightarrow> pane_id option" where
  "siblingLeafOf (Leaf _) lid = None"
| "siblingLeafOf (Split i d cs sz) lid =
     (case find_index (leaf_with lid) cs of
        Some idx \<Rightarrow>
          (case neighbour_index idx cs of
             None \<Rightarrow> None
           | Some j \<Rightarrow> (case leafIds (cs ! j) of [] \<Rightarrow> None | x # _ \<Rightarrow> Some x))
      | None \<Rightarrow> first_some (map (\<lambda>c. siblingLeafOf c lid) cs))"

fun flip_dir :: "split_dir \<Rightarrow> split_dir" where
  "flip_dir Row = Col"
| "flip_dir Col = Row"

fun rotateLeafWithNeighbor :: "pane_node \<Rightarrow> pane_id \<Rightarrow> pane_id \<Rightarrow> pane_node option" where
  "rotateLeafWithNeighbor (Leaf _) lid newSplit = None"
| "rotateLeafWithNeighbor (Split i d cs sz) lid newSplit =
     (case find_index (leaf_with lid) cs of
        Some idx \<Rightarrow>
          (case neighbour_index idx cs of
             None \<Rightarrow> None
           | Some j \<Rightarrow>
             (let lo = min idx j; hi = max idx j;
                  pair = Split newSplit (flip_dir d) [cs ! lo, cs ! hi] None;
                  newChildren = take lo cs @ pair # drop (lo + 2) cs
              in case newChildren of
                   [c] \<Rightarrow> Some c
                 | _ \<Rightarrow> Some (Split i d newChildren None)))
      | None \<Rightarrow>
          (let rs = map (\<lambda>c. rotateLeafWithNeighbor c lid newSplit) cs in
           if list_all (\<lambda>r. r = None) rs then None
           else Some (Split i d (map2 upd_val cs rs) sz)))"

text \<open>\<^const>\<open>None\<close> is "the same tree by reference".\<close>

fun reorderLeafInTree :: "pane_node \<Rightarrow> pane_id \<Rightarrow> pane_id option \<Rightarrow> pane_node option" where
  "reorderLeafInTree (Leaf _) lid before = None"
| "reorderLeafInTree (Split i d cs sz) lid before =
     (case find_index (leaf_with lid) cs of
        Some fromIdx \<Rightarrow>
          (case (case before of None \<Rightarrow> Some (length cs)
                 | Some b \<Rightarrow> find_index (leaf_with b) cs) of
             None \<Rightarrow> None
           | Some insertIdx \<Rightarrow>
             (if fromIdx = insertIdx \<or> fromIdx + 1 = insertIdx then None
              else
                (let without = take fromIdx cs @ drop (Suc fromIdx) cs;
                     targetIdx = (if fromIdx < insertIdx then insertIdx - 1 else insertIdx)
                 in Some (Split i d (insert_at targetIdx (cs ! fromIdx) without) None))))
      | None \<Rightarrow>
          (let rs = map (\<lambda>c. reorderLeafInTree c lid before) cs in
           if list_all (\<lambda>r. r = None) rs then None
           else Some (Split i d (map2 upd_val cs rs) sz)))"

fun insertLeafBeside ::
  "pane_node \<Rightarrow> pane_id \<Rightarrow> pane_leaf \<Rightarrow> split_dir \<Rightarrow> bool \<Rightarrow> pane_id \<Rightarrow> pane_node" where
  "insertLeafBeside (Leaf l) target source dir before newSplit =
     (if leaf_id l \<noteq> target then Leaf l
      else Split newSplit dir
             (if before then [Leaf source, Leaf l] else [Leaf l, Leaf source]) None)"
| "insertLeafBeside (Split i d cs sz) target source dir before newSplit =
     (case find_index (leaf_with target) cs of
        Some idx \<Rightarrow>
          (if d = dir then
             Split i d (insert_at (if before then idx else Suc idx) (Leaf source) cs) None
           else
             Split i d
               (cs[idx := Split newSplit dir
                     (if before then [Leaf source, cs ! idx] else [cs ! idx, Leaf source]) None])
               sz)
      | None \<Rightarrow>
          Split i d (map (\<lambda>c. insertLeafBeside c target source dir before newSplit) cs) sz)"

fun splice_child :: "split_dir \<Rightarrow> pane_node \<Rightarrow> pane_node list" where
  "splice_child dir (Leaf l) = [Leaf l]"
| "splice_child dir (Split i d cs sz) = (if d = dir then cs else [Split i d cs sz])"

fun normalizePaneTree :: "pane_node \<Rightarrow> pane_node" where
  "normalizePaneTree (Leaf l) = Leaf l"
| "normalizePaneTree (Split i d cs sz) =
     (let flattened = concat (map (\<lambda>raw. splice_child d (normalizePaneTree raw)) cs)
      in case flattened of
           [c] \<Rightarrow> c
         | _ \<Rightarrow> Split i d flattened (if length flattened = length cs then sz else None))"

fun edge_dir :: "pane_edge \<Rightarrow> split_dir" where
  "edge_dir EdgeLeft = Row"
| "edge_dir EdgeRight = Row"
| "edge_dir EdgeTop = Col"
| "edge_dir EdgeBottom = Col"

fun edge_before :: "pane_edge \<Rightarrow> bool" where
  "edge_before EdgeLeft = True"
| "edge_before EdgeTop = True"
| "edge_before EdgeRight = False"
| "edge_before EdgeBottom = False"

definition movePaneLeafToEdge ::
  "pane_node \<Rightarrow> pane_id \<Rightarrow> pane_id \<Rightarrow> pane_edge \<Rightarrow> pane_id \<Rightarrow> pane_node option" where
  "movePaneLeafToEdge t source target edge newSplit =
     (if source = target then None
      else case findLeaf t source of
        None \<Rightarrow> None
      | Some src \<Rightarrow>
        (if \<not> hasLeaf t target then None
         else case removeLeaf t source of
           None \<Rightarrow> None
         | Some without \<Rightarrow>
           (if \<not> hasLeaf without target then None
            else Some (normalizePaneTree
                   (insertLeafBeside without target src (edge_dir edge) (edge_before edge) newSplit)))))"

section \<open>The list-level specification\<close>

text \<open>Insert \<open>k\<close> before or after the first leaf with id \<open>i\<close>; no such leaf, no change.\<close>

fun insert_beside :: "bool \<Rightarrow> pane_id \<Rightarrow> pane_leaf \<Rightarrow> pane_leaf list \<Rightarrow> pane_leaf list" where
  "insert_beside b i k [] = []"
| "insert_beside b i k (l # ls) =
     (if leaf_id l = i then (if b then k # l # ls else l # k # ls)
      else l # insert_beside b i k ls)"

abbreviation ids_of :: "pane_leaf list \<Rightarrow> pane_id list" where
  "ids_of \<equiv> map leaf_id"

lemma insert_beside_absent: "i \<notin> set (ids_of ls) \<Longrightarrow> insert_beside b i k ls = ls"
  by (induction ls) auto

lemma insert_beside_append1:
  "i \<in> set (ids_of xs) \<Longrightarrow> insert_beside b i k (xs @ ys) = insert_beside b i k xs @ ys"
  by (induction xs) auto

lemma insert_beside_append2:
  "i \<notin> set (ids_of xs) \<Longrightarrow> insert_beside b i k (xs @ ys) = xs @ insert_beside b i k ys"
  by (induction xs) auto

lemma mset_insert_beside:
  "i \<in> set (ids_of ls) \<Longrightarrow> mset (insert_beside b i k ls) = add_mset k (mset ls)"
  by (induction ls) auto

lemma set_insert_beside:
  "i \<in> set (ids_of ls) \<Longrightarrow> set (insert_beside b i k ls) = insert k (set ls)"
  by (metis mset_insert_beside set_mset_add_mset_insert set_mset_mset)

lemma distinct_insert_beside:
  assumes "i \<in> set (ids_of ls)" and "distinct (ids_of ls)" and "leaf_id k \<notin> set (ids_of ls)"
  shows "distinct (ids_of (insert_beside b i k ls))"
proof -
  have "mset (ids_of (insert_beside b i k ls)) = mset (leaf_id k # ids_of ls)"
    using assms(1) by (induction ls) auto
  then show ?thesis
    using assms(2,3) by (metis distinct.simps(2) mset_eq_imp_distinct_iff)
qed

lemma concat_insert_beside:
  assumes "distinct (ids_of (concat xss))"
  shows "concat (map (insert_beside b i k) xss) = insert_beside b i k (concat xss)"
  using assms
proof (induction xss)
  case (Cons xs xss)
  show ?case
  proof (cases "i \<in> set (ids_of xs)")
    case True
    then have "i \<notin> set (ids_of (concat xss))" using Cons.prems by auto
    then have "map (insert_beside b i k) xss = xss"
      by (intro map_idI insert_beside_absent) auto
    with True show ?thesis by (simp add: insert_beside_append1)
  next
    case False
    with Cons show ?thesis by (simp add: insert_beside_append2 insert_beside_absent)
  qed
qed simp

lemma concat_map_insert_beside:
  assumes "distinct (ids_of (concat (map g cs)))"
    and "\<And>c. c \<in> set cs \<Longrightarrow> f c = insert_beside b i k (g c)"
  shows "concat (map f cs) = insert_beside b i k (concat (map g cs))"
proof -
  have "map f cs = map (insert_beside b i k) (map g cs)" using assms(2) by simp
  then show ?thesis by (simp only: concat_insert_beside [OF assms(1)])
qed

lemma distinct_child:
  "distinct (leafIds (Split i d cs sz)) \<Longrightarrow> c \<in> set cs \<Longrightarrow> distinct (leafIds c)"
  by (auto simp: distinct_concat_iff)

text \<open>A child that is the leaf \<open>i\<close>: what lies left of it does not hold \<open>i\<close>.\<close>

lemma find_leaf_child:
  assumes "find_index (leaf_with i) cs = Some idx"
    and "distinct (leafIds (Split j d cs sz))"
  obtains l where "cs = take idx cs @ Leaf l # drop (Suc idx) cs" and "cs ! idx = Leaf l"
    and "leaf_id l = i" and "i \<notin> set (ids_of (concat (map leaves (take idx cs))))"
proof -
  obtain l where l: "cs ! idx = Leaf l" "leaf_id l = i"
    using find_index_SomeD [OF assms(1)] by (auto simp: leaf_with_iff)
  then have cs: "cs = take idx cs @ Leaf l # drop (Suc idx) cs"
    using find_index_split [OF assms(1)] by simp
  have "leafIds (Split j d cs sz) = concat (map leafIds (take idx cs)) @ i # concat (map leafIds (drop (Suc idx) cs))"
    by (subst cs) (simp add: l)
  then have "i \<notin> set (concat (map leafIds (take idx cs)))" using assms(2) by auto
  then have "i \<notin> set (ids_of (concat (map leaves (take idx cs))))" by (auto simp: leafIds_leaves)
  with that cs l show thesis by blast
qed

section \<open>Splitting\<close>

lemma leaves_splitLeaf [leaves_simps]:
  "distinct (leafIds t) \<Longrightarrow>
    leaves (splitLeaf t tgt s n dir st) = insert_beside False tgt (mk_leaf n st) (leaves t)"
proof (induction t)
  case (Split i d cs sz)
  show ?case
  proof (cases "if d = dir then find_index (leaf_with tgt) cs else None")
    case None
    have "concat (map (\<lambda>c. leaves (splitLeaf c tgt s n dir st)) cs)
        = insert_beside False tgt (mk_leaf n st) (concat (map leaves cs))"
      using Split distinct_child [OF Split.prems]
      by (intro concat_map_insert_beside) (simp_all add: leafIds_leaves map_concat o_def)
    then show ?thesis using None by (simp add: o_def)
  next
    case (Some idx)
    then have idx: "d = dir" "find_index (leaf_with tgt) cs = Some idx" by (auto split: if_splits)
    obtain l where l: "cs = take idx cs @ Leaf l # drop (Suc idx) cs" "leaf_id l = tgt"
      "tgt \<notin> set (ids_of (concat (map leaves (take idx cs))))" "cs ! idx = Leaf l"
      using find_leaf_child [OF idx(2) Split.prems] by metis
    have ins: "insert_at (Suc idx) (Leaf (mk_leaf n st)) cs
        = take idx cs @ Leaf l # Leaf (mk_leaf n st) # drop (Suc idx) cs"
      using l find_index_SomeD [OF idx(2)] by (simp add: insert_at_Suc_nth)
    have "leaves (Split i d cs sz) = concat (map leaves (take idx cs)) @ l # concat (map leaves (drop (Suc idx) cs))"
      by (subst l(1)) simp
    then show ?thesis using Some l(2,3) by (simp add: ins insert_beside_append2)
  qed
qed simp

lemma wf_shape_splitLeaf [wf_intros]: "wf_shape t \<Longrightarrow> wf_shape (splitLeaf t tgt s n dir st)"
  by (induction t) (auto simp: list_all_iff insert_at_def dest: in_set_takeD in_set_dropD split: option.splits)

lemma nodeIds_splitLeaf:
  "set (nodeIds (splitLeaf t tgt s n dir st)) \<subseteq> {s, n} \<union> set (nodeIds t)"
proof (induction t)
  case (Split i d cs sz)
  then show ?case by (fastforce simp: insert_at_def mk_leaf_def dest: in_set_takeD in_set_dropD split: option.splits)
qed (simp add: mk_leaf_def)

section \<open>Removal\<close>

text \<open>The children a removal keeps, and the split as a function of them.\<close>

definition kept_children :: "pane_node list \<Rightarrow> pane_id \<Rightarrow> pane_node list" where
  "kept_children cs x = concat (map (\<lambda>c. case removeLeaf c x of None \<Rightarrow> [] | Some r \<Rightarrow> [r]) cs)"

lemma removeLeaf_Split:
  "removeLeaf (Split i d cs sz) x =
     (case kept_children cs x of [] \<Rightarrow> None | [c] \<Rightarrow> Some c
      | nc \<Rightarrow> Some (Split i d nc (if length nc = length cs then sz else None)))"
  unfolding removeLeaf.simps Let_def kept_children_def [symmetric]
  by (cases "kept_children cs x" rule: remdups_adj.cases) auto

lemma in_kept_children: "r \<in> set (kept_children cs x) \<Longrightarrow> \<exists>c \<in> set cs. removeLeaf c x = Some r"
  by (auto simp: kept_children_def split: option.splits)

declare removeLeaf.simps(2) [simp del]
declare removeLeaf_Split [simp]

lemma leaves_removeLeaf:
  "concat (map leaves (case removeLeaf t x of None \<Rightarrow> [] | Some r \<Rightarrow> [r])) = filter (\<lambda>l. leaf_id l \<noteq> x) (leaves t)"
proof (induction t)
  case (Split i d cs sz)
  let ?nc = "kept_children cs x"
  have nc: "concat (map leaves ?nc) = filter (\<lambda>l. leaf_id l \<noteq> x) (concat (map leaves cs))"
    using Split by (induction cs) (auto simp: kept_children_def)
  then show ?case by (cases ?nc rule: remdups_adj.cases) auto
qed simp

lemma removeLeaf_Some_leaves [leaves_simps]:
  "removeLeaf t x = Some r \<Longrightarrow> leaves r = filter (\<lambda>l. leaf_id l \<noteq> x) (leaves t)"
  using leaves_removeLeaf [of t x] by simp

lemma removeLeaf_nonempty: "removeLeaf t x = Some r \<Longrightarrow> leaves r \<noteq> []"
proof (induction t arbitrary: r)
  case (Split i d cs sz)
  let ?nc = "kept_children cs x"
  obtain c1 rest where nc: "?nc = c1 # rest" using Split.prems by (cases ?nc) auto
  then have "c1 \<in> set ?nc" by simp
  then have "leaves c1 \<noteq> []" using Split.IH in_kept_children by blast
  then show ?case using Split.prems nc by (cases rest) auto
qed (auto split: if_splits)

lemma removeLeaf_None_iff:
  "removeLeaf t x = None \<longleftrightarrow> (\<forall>l \<in> set (leaves t). leaf_id l = x)"
proof (cases "removeLeaf t x")
  case None
  then have "filter (\<lambda>l. leaf_id l \<noteq> x) (leaves t) = []" using leaves_removeLeaf [of t x] by simp
  with None show ?thesis by (simp add: filter_empty_conv)
next
  case (Some r)
  then show ?thesis
    using removeLeaf_nonempty [OF Some] removeLeaf_Some_leaves [OF Some]
    by (auto simp: filter_empty_conv)
qed

lemma removeLeaf_leafIds:
  "removeLeaf t x = Some r \<Longrightarrow> leafIds r = filter (\<lambda>i. i \<noteq> x) (leafIds t)"
  by (simp add: leafIds_leaves removeLeaf_Some_leaves filter_map o_def)

lemma wf_shape_removeLeaf: "wf_shape t \<Longrightarrow> removeLeaf t x = Some r \<Longrightarrow> wf_shape r"
proof (induction t arbitrary: r)
  case (Split i d cs sz)
  let ?nc = "kept_children cs x"
  have "\<forall>c \<in> set ?nc. wf_shape c"
    using Split by (auto simp: list_all_iff dest!: in_kept_children)
  then show ?case using Split.prems
    by (auto simp: list_all_iff split: list.splits)
qed (auto split: if_splits)

lemma wf_pane_removeLeaf [wf_intros]: "wf_pane t \<Longrightarrow> removeLeaf t x = Some r \<Longrightarrow> wf_pane r"
  by (auto simp: wf_pane_def removeLeaf_leafIds intro: wf_shape_removeLeaf)

lemma nodeIds_removeLeaf: "removeLeaf t x = Some r \<Longrightarrow> set (nodeIds r) \<subseteq> set (nodeIds t)"
proof (induction t arbitrary: r)
  case (Split i d cs sz)
  let ?nc = "kept_children cs x"
  have "set (concat (map nodeIds ?nc)) \<subseteq> set (concat (map nodeIds cs))"
    using Split.IH by (fastforce dest!: in_kept_children)
  moreover have "set (nodeIds r) \<subseteq> insert i (set (concat (map nodeIds ?nc)))"
    using Split.prems by (auto split: list.splits)
  ultimately show ?case unfolding nodeIds.simps list.set by (meson insert_mono subset_trans)
qed (auto split: if_splits)

section \<open>The canonical form\<close>

fun top_dir :: "pane_node \<Rightarrow> split_dir option" where
  "top_dir (Leaf _) = None"
| "top_dir (Split _ d _ _) = Some d"

text \<open>No split of fewer than two children, none directly inside one of its own direction.\<close>

fun canonical :: "pane_node \<Rightarrow> bool" where
  "canonical (Leaf _) = True"
| "canonical (Split _ d cs _) =
     (2 \<le> length cs \<and> list_all (\<lambda>c. canonical c \<and> top_dir c \<noteq> Some d) cs)"

fun no_empty_split :: "pane_node \<Rightarrow> bool" where
  "no_empty_split (Leaf _) = True"
| "no_empty_split (Split _ _ cs _) = (cs \<noteq> [] \<and> list_all no_empty_split cs)"

lemma canonical_wf_shape: "canonical t \<Longrightarrow> wf_shape t"
  by (induction t) (auto simp: list_all_iff)

lemma wf_shape_no_empty: "wf_shape t \<Longrightarrow> no_empty_split t"
  by (induction t) (auto simp: list_all_iff)

definition flat_children :: "split_dir \<Rightarrow> pane_node list \<Rightarrow> pane_node list" where
  "flat_children d cs = concat (map (\<lambda>raw. splice_child d (normalizePaneTree raw)) cs)"

lemma normalize_Split:
  "normalizePaneTree (Split i d cs sz) =
     (case flat_children d cs of [c] \<Rightarrow> c
      | fl \<Rightarrow> Split i d fl (if length fl = length cs then sz else None))"
  unfolding normalizePaneTree.simps Let_def flat_children_def [symmetric]
  by (cases "flat_children d cs" rule: remdups_adj.cases) auto

lemma in_flat_children:
  "x \<in> set (flat_children d cs) \<longleftrightarrow> (\<exists>c \<in> set cs. x \<in> set (splice_child d (normalizePaneTree c)))"
  by (auto simp: flat_children_def)

declare normalizePaneTree.simps(2) [simp del]
declare normalize_Split [simp]

lemma leaves_splice_child: "concat (map leaves (splice_child d c)) = leaves c"
  by (cases c) auto

lemma leaves_normalizePaneTree [leaves_simps]: "leaves (normalizePaneTree t) = leaves t"
proof (induction t)
  case (Split i d cs sz)
  let ?fl = "flat_children d cs"
  have fl: "concat (map leaves ?fl) = concat (map leaves cs)"
    using Split by (induction cs) (auto simp: flat_children_def leaves_splice_child)
  then show ?case by (cases ?fl rule: remdups_adj.cases) auto
qed simp

lemma splice_child_canonical:
  assumes "canonical c" and "x \<in> set (splice_child d c)"
  shows "canonical x \<and> top_dir x \<noteq> Some d"
  using assms by (cases c) (auto simp: list_all_iff split: if_splits)

lemma splice_child_nonempty: "canonical c \<Longrightarrow> splice_child d c \<noteq> []"
  by (cases c) auto

lemma canonical_normalizePaneTree: "no_empty_split t \<Longrightarrow> canonical (normalizePaneTree t)"
proof (induction t)
  case (Split i d cs sz)
  let ?fl = "flat_children d cs"
  have can: "\<forall>c \<in> set cs. canonical (normalizePaneTree c)"
    using Split by (auto simp: list_all_iff)
  then have all: "\<forall>x \<in> set ?fl. canonical x \<and> top_dir x \<noteq> Some d"
    using splice_child_canonical by (fastforce simp: in_flat_children)
  have "?fl \<noteq> []"
    using can Split.prems by (cases cs) (auto simp: flat_children_def splice_child_nonempty)
  with all show ?case by (cases ?fl rule: remdups_adj.cases) (auto simp: list_all_iff)
qed simp

lemma normalize_canonical: "canonical t \<Longrightarrow> normalizePaneTree t = t"
proof (induction t)
  case (Split i d cs sz)
  have "splice_child d (normalizePaneTree c) = [c]" if "c \<in> set cs" for c
  proof -
    have "normalizePaneTree c = c" "top_dir c \<noteq> Some d"
      using Split that by (auto simp: list_all_iff)
    then show ?thesis by (cases c) (auto simp del: normalize_Split)
  qed
  then have "flat_children d cs = cs"
    by (induction cs) (auto simp: flat_children_def)
  then show ?case
    using Split.prems by (cases cs rule: remdups_adj.cases) auto
qed simp

lemma nodeIds_splice_child: "set (concat (map nodeIds (splice_child d c))) \<subseteq> set (nodeIds c)"
  by (cases c) auto

lemma nodeIds_normalizePaneTree: "set (nodeIds (normalizePaneTree t)) \<subseteq> set (nodeIds t)"
proof (induction t)
  case (Split i d cs sz)
  let ?fl = "flat_children d cs"
  have "set (concat (map nodeIds ?fl)) \<subseteq> set (concat (map nodeIds cs))"
  proof -
    have "set (nodeIds x) \<subseteq> set (nodeIds c)"
      if "c \<in> set cs" "x \<in> set (splice_child d (normalizePaneTree c))" for c x
      using that Split.IH nodeIds_splice_child [of d "normalizePaneTree c"] by fastforce
    then show ?thesis by (fastforce simp: in_flat_children)
  qed
  then show ?case by (cases ?fl rule: remdups_adj.cases) auto
qed simp

section \<open>The drag-and-drop move\<close>

lemma leaves_insertLeafBeside [leaves_simps]:
  "distinct (leafIds t) \<Longrightarrow>
    leaves (insertLeafBeside t tgt src dir before s) = insert_beside before tgt src (leaves t)"
proof (induction t)
  case (Split i d cs sz)
  show ?case
  proof (cases "find_index (leaf_with tgt) cs")
    case None
    have "concat (map (\<lambda>c. leaves (insertLeafBeside c tgt src dir before s)) cs)
        = insert_beside before tgt src (concat (map leaves cs))"
      using Split distinct_child [OF Split.prems]
      by (intro concat_map_insert_beside) (simp_all add: leafIds_leaves map_concat o_def)
    then show ?thesis using None by (simp add: o_def)
  next
    case (Some idx)
    obtain l where l: "cs = take idx cs @ Leaf l # drop (Suc idx) cs" "leaf_id l = tgt"
      "tgt \<notin> set (ids_of (concat (map leaves (take idx cs))))" "cs ! idx = Leaf l"
      using find_leaf_child [OF Some Split.prems] by metis
    have idx: "idx < length cs" using find_index_SomeD [OF Some] by simp
    have "leaves (Split i d cs sz) = concat (map leaves (take idx cs)) @ l # concat (map leaves (drop (Suc idx) cs))"
      by (subst l(1)) simp
    then show ?thesis using Some l(2,3,4) idx
      by (simp add: insert_beside_append2 insert_at_nth insert_at_Suc_nth upd_conv_take_nth_drop)
  qed
qed simp

lemma wf_shape_insertLeafBeside [wf_intros]:
  "wf_shape t \<Longrightarrow> wf_shape (insertLeafBeside t tgt src dir before s)"
proof (induction t)
  case (Split i d cs sz)
  have wf: "\<forall>c \<in> set cs. wf_shape c" "2 \<le> length cs" using Split.prems by (auto simp: list_all_iff)
  show ?case
  proof (cases "find_index (leaf_with tgt) cs")
    case None
    then show ?thesis using Split wf by (auto simp: list_all_iff)
  next
    case (Some idx)
    then have "wf_shape (cs ! idx)" using wf(1) find_index_SomeD [OF Some] by simp
    then show ?thesis using Some wf by (auto simp: list_all_iff dest!: set_update_subset_insert [THEN subsetD])
  qed
qed simp

lemma nodeIds_insertLeafBeside:
  "set (nodeIds (insertLeafBeside t tgt src dir before s)) \<subseteq> {s, leaf_id src} \<union> set (nodeIds t)"
proof (induction t)
  case (Split i d cs sz)
  show ?case
  proof (cases "find_index (leaf_with tgt) cs")
    case None
    then show ?thesis using Split.IH by fastforce
  next
    case (Some idx)
    then have "cs ! idx \<in> set cs" using find_index_SomeD [OF Some] by simp
    then show ?thesis using Some by (auto dest!: set_update_subset_insert [THEN subsetD])
  qed
qed simp

lemma move_Some_iff:
  assumes "wf_pane t"
  shows "(\<exists>t'. movePaneLeafToEdge t source target edge s = Some t') \<longleftrightarrow>
    source \<noteq> target \<and> source \<in> set (leafIds t) \<and> target \<in> set (leafIds t)"
proof
  assume "\<exists>t'. movePaneLeafToEdge t source target edge s = Some t'"
  then obtain src where "source \<noteq> target" "findLeaf t source = Some src" "hasLeaf t target"
    by (auto simp: movePaneLeafToEdge_def split: option.splits if_splits)
  then show "source \<noteq> target \<and> source \<in> set (leafIds t) \<and> target \<in> set (leafIds t)"
    using findLeaf_None_iff [of t source] by simp
next
  assume mem: "source \<noteq> target \<and> source \<in> set (leafIds t) \<and> target \<in> set (leafIds t)"
  then obtain src where src: "findLeaf t source = Some src"
    using findLeaf_None_iff [of t source] by blast
  obtain l where "l \<in> set (leaves t)" "leaf_id l = target"
    using mem by (auto simp: leafIds_leaves)
  then have "removeLeaf t source \<noteq> None" using mem removeLeaf_None_iff by metis
  then obtain r where r: "removeLeaf t source = Some r" by blast
  then have "target \<in> set (leafIds r)" using mem by (simp add: removeLeaf_leafIds)
  then show "\<exists>t'. movePaneLeafToEdge t source target edge s = Some t'"
    using mem src r by (simp add: movePaneLeafToEdge_def)
qed

lemma leaves_move:
  assumes "wf_pane t" and "movePaneLeafToEdge t source target edge s = Some t'"
    and "findLeaf t source = Some src"
  shows "leaves t' = insert_beside (edge_before edge) target src (filter (\<lambda>l. leaf_id l \<noteq> source) (leaves t))"
proof -
  obtain r where r: "removeLeaf t source = Some r"
    "t' = normalizePaneTree (insertLeafBeside r target src (edge_dir edge) (edge_before edge) s)"
    using assms(2,3) by (auto simp: movePaneLeafToEdge_def split: option.splits if_splits)
  have "distinct (leafIds r)" using assms(1) r(1) wf_pane_removeLeaf wf_pane_def by blast
  then show ?thesis using r by (simp add: leaves_simps)
qed

lemma canonical_move:
  assumes "wf_pane t" and "movePaneLeafToEdge t source target edge s = Some t'"
  shows "canonical t'"
proof -
  obtain r src where r: "removeLeaf t source = Some r"
    "t' = normalizePaneTree (insertLeafBeside r target src (edge_dir edge) (edge_before edge) s)"
    using assms(2) by (auto simp: movePaneLeafToEdge_def split: option.splits if_splits)
  then show ?thesis using assms(1) unfolding wf_pane_def
    by (metis canonical_normalizePaneTree wf_shape_insertLeafBeside wf_shape_no_empty wf_shape_removeLeaf)
qed

lemma mset_filter_other:
  assumes "distinct (ids_of ls)" and "k \<in> set ls"
  shows "add_mset k (mset (filter (\<lambda>l. leaf_id l \<noteq> leaf_id k) ls)) = mset ls"
  using assms
proof (induction ls)
  case (Cons l ls)
  show ?case
  proof (cases "l = k")
    case True
    then have "filter (\<lambda>x. leaf_id x \<noteq> leaf_id k) ls = ls"
      using Cons.prems by (auto simp: filter_id_conv) (metis imageI)
    with True show ?thesis by simp
  next
    case False
    then have "leaf_id l \<noteq> leaf_id k" using Cons.prems by auto
    with False Cons show ?thesis by (simp add: add_mset_commute)
  qed
qed simp

lemma mset_leaves_move:
  assumes "wf_pane t" and "movePaneLeafToEdge t source target edge s = Some t'"
  shows "mset (leaves t') = mset (leaves t)"
proof -
  have mem: "source \<noteq> target" "target \<in> set (leafIds t)"
    using move_Some_iff [OF assms(1)] assms(2) by blast+
  obtain src where src: "findLeaf t source = Some src"
    using assms(2) by (auto simp: movePaneLeafToEdge_def split: option.splits if_splits)
  have "target \<in> set (ids_of (filter (\<lambda>l. leaf_id l \<noteq> source) (leaves t)))"
    using mem by (auto simp: leafIds_leaves)
  then have "mset (leaves t') = add_mset src (mset (filter (\<lambda>l. leaf_id l \<noteq> source) (leaves t)))"
    using leaves_move [OF assms src] by (simp add: mset_insert_beside)
  also have "\<dots> = mset (leaves t)"
    using mset_filter_other [of "leaves t" src] findLeaf_SomeD [OF src] assms(1)
    by (auto simp: wf_pane_def leafIds_leaves)
  finally show ?thesis .
qed

lemma distinct_leafIds_mset:
  "mset (leaves t') = mset (leaves t) \<Longrightarrow> distinct (leafIds t') = distinct (leafIds t)"
  by (simp add: leafIds_leaves) (metis mset_eq_imp_distinct_iff mset_map)

lemma wf_pane_move [wf_intros]:
  assumes "wf_pane t" and "movePaneLeafToEdge t source target edge s = Some t'"
  shows "wf_pane t'"
  using canonical_wf_shape [OF canonical_move [OF assms]]
    distinct_leafIds_mset [OF mset_leaves_move [OF assms]] assms(1)
  by (simp add: wf_pane_def)

lemma nodeIds_move:
  assumes "movePaneLeafToEdge t source target edge s = Some t'"
  shows "set (nodeIds t') \<subseteq> insert s (set (nodeIds t))"
proof -
  obtain r src where r: "removeLeaf t source = Some r" "findLeaf t source = Some src"
    "t' = normalizePaneTree (insertLeafBeside r target src (edge_dir edge) (edge_before edge) s)"
    using assms by (auto simp: movePaneLeafToEdge_def split: option.splits if_splits)
  have "leaf_id src \<in> set (nodeIds t)"
    using findLeaf_SomeD [OF r(2)] leafIds_subset_nodeIds [of t] by (auto simp: leafIds_leaves)
  then show ?thesis
    using r(3) nodeIds_removeLeaf [OF r(1)] nodeIds_normalizePaneTree
      nodeIds_insertLeafBeside [of r target src "edge_dir edge" "edge_before edge" s]
    by fast
qed

section \<open>Focus movement\<close>

lemma nextLeafId_in: "leafIds t \<noteq> [] \<Longrightarrow> nextLeafId t cur delta \<in> set (leafIds t)"
proof -
  assume ne: "leafIds t \<noteq> []"
  have "nat ((int idx + delta + int (length (leafIds t))) mod int (length (leafIds t))) < length (leafIds t)" for idx
    using ne by (simp add: nat_less_iff)
  then show ?thesis using ne by (auto simp: nextLeafId_def Let_def split: option.splits)
qed

lemma find_index_nth:
  "distinct xs \<Longrightarrow> i < length xs \<Longrightarrow> find_index (\<lambda>x. x = xs ! i) xs = Some i"
proof (induction xs arbitrary: i)
  case (Cons x xs)
  then show ?case by (cases i) auto
qed simp

lemma nextLeafId_nth:
  assumes "distinct (leafIds t)" and "i < length (leafIds t)"
  shows "nextLeafId t (leafIds t ! i) delta
    = leafIds t ! nat ((int i + delta) mod int (length (leafIds t)))"
  using assms by (auto simp: nextLeafId_def Let_def find_index_nth)

lemma nextLeafId_inverse:
  assumes "distinct (leafIds t)" and "cur \<in> set (leafIds t)"
  shows "nextLeafId t (nextLeafId t cur delta) (- delta) = cur"
proof -
  let ?n = "length (leafIds t)"
  obtain i where i: "i < ?n" "cur = leafIds t ! i" using assms(2) by (metis in_set_conv_nth)
  let ?j = "nat ((int i + delta) mod int ?n)"
  have pos: "0 < int ?n" using i(1) by linarith
  have j: "?j < ?n"
    using pos_mod_bound [OF pos, of "int i + delta"] pos_mod_sign [OF pos, of "int i + delta"]
    by linarith
  have "int ?j = (int i + delta) mod int ?n"
    using pos_mod_sign [OF pos, of "int i + delta"] by simp
  then have "(int ?j + - delta) mod int ?n = (int i + delta + - delta) mod int ?n"
    by (simp only: mod_add_left_eq)
  then have "nat ((int ?j + - delta) mod int ?n) = i" using i(1) by simp
  then show ?thesis using assms(1) i j by (simp add: nextLeafId_nth)
qed

lemma neighbour_index_SomeD:
  "i < length cs \<Longrightarrow> neighbour_index i cs = Some j \<Longrightarrow> j < length cs \<and> (j = Suc i \<or> i = Suc j)"
  by (auto simp: neighbour_index_def split: if_splits)

lemma neighbour_index_ex: "2 \<le> length cs \<Longrightarrow> i < length cs \<Longrightarrow> \<exists>j. neighbour_index i cs = Some j"
  by (auto simp: neighbour_index_def)

lemma distinct_concat_nth_disjoint:
  assumes "distinct (concat xss)" "i < length xss" "j < length xss" "i \<noteq> j"
  shows "set (xss ! i) \<inter> set (xss ! j) = {}"
  using assms
proof (induction xss arbitrary: i j)
  case (Cons xs xss)
  then show ?case by (cases i; cases j) (auto dest!: nth_mem)
qed simp

lemma siblingLeafOf_SomeD: "siblingLeafOf t lid = Some s \<Longrightarrow> lid \<in> set (leafIds t)"
proof (induction t)
  case (Split i d cs sz)
  show ?case
  proof (cases "find_index (leaf_with lid) cs")
    case (Some idx)
    then have "cs ! idx \<in> set cs" "leaf_with lid (cs ! idx)" using find_index_SomeD [OF Some] by auto
    then show ?thesis by (force simp: leaf_with_iff)
  next
    case None
    then show ?thesis using Split by (auto dest!: first_some_mapD)
  qed
qed simp

text \<open>
  A leaf of a well-formed tree that is not its only one has a sibling: another leaf of the tree.
\<close>

lemma siblingLeafOf_sound:
  assumes "wf_pane t" and "lid \<in> set (leafIds t)" and "\<not> isLeaf t"
  shows "\<exists>s. siblingLeafOf t lid = Some s \<and> s \<in> set (leafIds t) \<and> s \<noteq> lid"
  using assms
proof (induction t)
  case (Split i d cs sz)
  have wf: "2 \<le> length cs" "\<And>c. c \<in> set cs \<Longrightarrow> wf_pane c" "distinct (concat (map leafIds cs))"
    using Split.prems(1) distinct_child [of i d cs sz] by (auto simp: wf_pane_def list_all_iff)
  show ?case
  proof (cases "find_index (leaf_with lid) cs")
    case (Some idx)
    have idx: "idx < length cs" "leaf_with lid (cs ! idx)" using find_index_SomeD [OF Some] by auto
    obtain j where j: "neighbour_index idx cs = Some j" using neighbour_index_ex wf(1) idx(1) by blast
    then have jl: "j < length cs" "j \<noteq> idx" using neighbour_index_SomeD [OF idx(1) j] by auto
    then have "leafIds (cs ! j) \<noteq> []"
      using wf(2) wf_shape_leafIds_nonempty by (simp add: wf_pane_def)
    then obtain x xs where x: "leafIds (cs ! j) = x # xs" by (cases "leafIds (cs ! j)") auto
    have "lid \<in> set (leafIds (cs ! idx))" using idx(2) by (auto simp: leaf_with_iff)
    then have "x \<noteq> lid"
      using distinct_concat_nth_disjoint [OF wf(3), of idx j] idx(1) jl x by auto
    moreover have "x \<in> set (leafIds (Split i d cs sz))"
      using x nth_mem [OF jl(1)] by (auto intro!: bexI [of _ "cs ! j"])
    ultimately show ?thesis using Some j x by simp
  next
    case None
    obtain c where c: "c \<in> set cs" "lid \<in> set (leafIds c)" using Split.prems(2) by auto
    have "\<not> isLeaf c" using None c by (cases c) (auto simp: find_index_None)
    then obtain s where "siblingLeafOf c lid = Some s" using Split.IH c wf(2) by blast
    then obtain s' where s': "first_some (map (\<lambda>c. siblingLeafOf c lid) cs) = Some s'"
      using first_some_map_ex [OF c(1), where f = "\<lambda>c. siblingLeafOf c lid"] by blast
    then obtain c' where c': "c' \<in> set cs" "siblingLeafOf c' lid = Some s'"
      using first_some_mapD by fast
    have "\<not> isLeaf c'"
      using c'(2) by (metis isLeaf.elims(2) option.distinct(1) siblingLeafOf.simps(1))
    then have "s' \<in> set (leafIds c') \<and> s' \<noteq> lid"
      using Split.IH [OF c'(1) wf(2) [OF c'(1)] siblingLeafOf_SomeD [OF c'(2)]] c'(2) by auto
    then show ?thesis using None s' c'(1) by auto
  qed
qed simp

section \<open>Rotation\<close>

lemma take_pair_drop:
  assumes "Suc lo < length cs"
  shows "cs = take lo cs @ cs ! lo # cs ! Suc lo # drop (lo + 2) cs"
  using assms by (metis Cons_nth_drop_Suc Suc_lessD add_2_eq_Suc' append_take_drop_id)

text \<open>The children of a split after the pairing step, and the split as a function of them.\<close>

definition paired :: "pane_id \<Rightarrow> split_dir \<Rightarrow> nat \<Rightarrow> pane_node list \<Rightarrow> pane_node list" where
  "paired s d lo cs = take lo cs @ Split s (flip_dir d) [cs ! lo, cs ! Suc lo] None # drop (lo + 2) cs"

lemma rotate_Split_here:
  assumes "find_index (leaf_with lid) cs = Some idx" and "2 \<le> length cs"
  obtains lo where "Suc lo < length cs" and "idx = lo \<or> idx = Suc lo"
    and "rotateLeafWithNeighbor (Split i d cs sz) lid s =
      Some (case paired s d lo cs of [c] \<Rightarrow> c | nc \<Rightarrow> Split i d nc None)"
proof -
  have idx: "idx < length cs" using find_index_SomeD [OF assms(1)] by simp
  obtain j where j: "neighbour_index idx cs = Some j"
    using neighbour_index_ex [OF assms(2) idx] by blast
  have jl: "j < length cs \<and> (j = Suc idx \<or> idx = Suc j)" by (rule neighbour_index_SomeD [OF idx j])
  define lo where "lo = min idx j"
  have hi: "max idx j = Suc lo" and lo: "Suc lo < length cs" "idx = lo \<or> idx = Suc lo"
    using jl idx by (auto simp: lo_def)
  show thesis
  proof (rule that [OF lo])
    show "rotateLeafWithNeighbor (Split i d cs sz) lid s =
      Some (case paired s d lo cs of [c] \<Rightarrow> c | nc \<Rightarrow> Split i d nc None)"
      unfolding rotateLeafWithNeighbor.simps assms(1) j option.case Let_def lo_def [symmetric] hi
        paired_def [symmetric]
      by (cases "paired s d lo cs" rule: remdups_adj.cases) auto
  qed
qed

lemma leaves_paired:
  "Suc lo < length cs \<Longrightarrow> concat (map leaves (paired s d lo cs)) = concat (map leaves cs)"
  by (subst (2) take_pair_drop [of lo cs]) (auto simp: paired_def)

lemma rotate_Split_below:
  assumes "find_index (leaf_with lid) cs = None"
    and "rotateLeafWithNeighbor (Split i d cs sz) lid s = Some t'"
  shows "t' = Split i d (map (\<lambda>c. upd_val c (rotateLeafWithNeighbor c lid s)) cs) sz"
  using assms by (auto simp: Let_def map2_upd_val_map split: if_splits)

lemma rotate_leaves:
  "wf_shape t \<Longrightarrow> leaves (upd_val t (rotateLeafWithNeighbor t lid s)) = leaves t"
proof (induction t)
  case (Split i d cs sz)
  show ?case
  proof (cases "find_index (leaf_with lid) cs")
    case (Some idx)
    have two: "2 \<le> length cs" using Split.prems by simp
    obtain lo where lo: "Suc lo < length cs" "idx = lo \<or> idx = Suc lo"
      "rotateLeafWithNeighbor (Split i d cs sz) lid s =
        Some (case paired s d lo cs of [c] \<Rightarrow> c | nc \<Rightarrow> Split i d nc None)"
      by (rule rotate_Split_here [OF Some two])
    then show ?thesis using leaves_paired [OF lo(1), of s d]
      by (cases "paired s d lo cs" rule: remdups_adj.cases) (auto simp del: rotateLeafWithNeighbor.simps)
  next
    case None
    have ch: "leaves (upd_val c (rotateLeafWithNeighbor c lid s)) = leaves c" if "c \<in> set cs" for c
      using Split that by (auto simp: list_all_iff)
    show ?thesis
    proof (cases "rotateLeafWithNeighbor (Split i d cs sz) lid s")
      case (Some t')
      show ?thesis unfolding Some using rotate_Split_below [OF None Some] ch
        by (simp add: o_def cong: map_cong)
    qed (simp del: rotateLeafWithNeighbor.simps)
  qed
qed simp

lemma rotate_wf_shape:
  "wf_shape t \<Longrightarrow> wf_shape (upd_val t (rotateLeafWithNeighbor t lid s))"
proof (induction t)
  case (Split i d cs sz)
  have wf: "2 \<le> length cs" "\<And>c. c \<in> set cs \<Longrightarrow> wf_shape c" using Split.prems by (auto simp: list_all_iff)
  show ?case
  proof (cases "find_index (leaf_with lid) cs")
    case (Some idx)
    obtain lo where lo: "Suc lo < length cs" "idx = lo \<or> idx = Suc lo"
      "rotateLeafWithNeighbor (Split i d cs sz) lid s =
        Some (case paired s d lo cs of [c] \<Rightarrow> c | nc \<Rightarrow> Split i d nc None)"
      by (rule rotate_Split_here [OF Some wf(1)])
    have "\<forall>c \<in> set (paired s d lo cs). wf_shape c"
      using wf(2) lo(1) by (auto simp: paired_def dest: in_set_takeD in_set_dropD)
    moreover have "paired s d lo cs \<noteq> []" by (simp add: paired_def)
    ultimately show ?thesis using lo(3)
      by (cases "paired s d lo cs" rule: remdups_adj.cases)
        (auto simp: list_all_iff simp del: rotateLeafWithNeighbor.simps)
  next
    case None
    show ?thesis
    proof (cases "rotateLeafWithNeighbor (Split i d cs sz) lid s")
      case (Some t')
      show ?thesis unfolding Some using rotate_Split_below [OF None Some] Split.IH wf
        by (simp add: list_all_iff)
    next
      case n: None
      show ?thesis unfolding n using Split.prems by simp
    qed
  qed
qed simp

lemma rotate_nodeIds:
  "set (nodeIds (upd_val t (rotateLeafWithNeighbor t lid s))) \<subseteq> insert s (set (nodeIds t))"
proof (induction t)
  case (Split i d cs sz)
  show ?case
  proof (cases "rotateLeafWithNeighbor (Split i d cs sz) lid s")
    case (Some t')
    show ?thesis
    proof (cases "find_index (leaf_with lid) cs")
      case None
      show ?thesis unfolding Some using rotate_Split_below [OF None Some] Split.IH by auto
    next
      case (Some idx)
      have two: "2 \<le> length cs"
        using find_index_SomeD [OF Some] \<open>rotateLeafWithNeighbor (Split i d cs sz) lid s = Some t'\<close> Some
        by (auto simp: neighbour_index_def split: if_splits)
      obtain lo where lo: "Suc lo < length cs" "idx = lo \<or> idx = Suc lo"
        "rotateLeafWithNeighbor (Split i d cs sz) lid s =
          Some (case paired s d lo cs of [c] \<Rightarrow> c | nc \<Rightarrow> Split i d nc None)"
        by (rule rotate_Split_here [OF Some two])
      have "set (concat (map nodeIds (paired s d lo cs))) \<subseteq> insert s (set (concat (map nodeIds cs)))"
        using lo(1) by (auto simp: paired_def dest: in_set_takeD in_set_dropD)
      then show ?thesis unfolding lo(3)
        by (cases "paired s d lo cs" rule: remdups_adj.cases) auto
    qed
  qed auto
qed simp

text \<open>A rotation happens exactly when the leaf is in the tree and is not all of it.\<close>

lemma rotate_Some_iff:
  "wf_shape t \<Longrightarrow>
    (\<exists>t'. rotateLeafWithNeighbor t lid s = Some t') \<longleftrightarrow> \<not> isLeaf t \<and> lid \<in> set (leafIds t)"
proof (induction t)
  case (Split i d cs sz)
  have wf: "2 \<le> length cs" "\<And>c. c \<in> set cs \<Longrightarrow> wf_shape c" using Split.prems by (auto simp: list_all_iff)
  show ?case
  proof (cases "find_index (leaf_with lid) cs")
    case (Some idx)
    then have "cs ! idx \<in> set cs" "leaf_with lid (cs ! idx)" using find_index_SomeD [OF Some] by auto
    then have "lid \<in> set (leafIds (Split i d cs sz))" by (force simp: leaf_with_iff)
    moreover have "\<exists>t'. rotateLeafWithNeighbor (Split i d cs sz) lid s = Some t'"
      by (rule rotate_Split_here [OF Some wf(1)]) blast
    ultimately show ?thesis by (simp del: rotateLeafWithNeighbor.simps)
  next
    case None
    have leaf: "lid \<notin> set (leafIds c)" if "c \<in> set cs" "isLeaf c" for c
      using None that by (cases c) (auto simp: find_index_None)
    have "(\<exists>t'. rotateLeafWithNeighbor (Split i d cs sz) lid s = Some t') \<longleftrightarrow>
        (\<exists>c \<in> set cs. \<exists>r. rotateLeafWithNeighbor c lid s = Some r)"
      using None by (auto simp: Let_def list_all_iff)
    also have "\<dots> \<longleftrightarrow> (\<exists>c \<in> set cs. \<not> isLeaf c \<and> lid \<in> set (leafIds c))"
      using Split.IH wf(2) by blast
    finally show ?thesis using leaf by auto
  qed
qed simp

section \<open>Reordering among siblings\<close>

text \<open>The children of a split without the one at position \<open>i\<close>.\<close>

definition without_nth :: "nat \<Rightarrow> 'a list \<Rightarrow> 'a list" where
  "without_nth i cs = take i cs @ drop (Suc i) cs"

lemma mset_without_nth: "i < length cs \<Longrightarrow> add_mset (cs ! i) (mset (without_nth i cs)) = mset cs"
  by (subst (3) id_take_nth_drop [of i cs]) (auto simp: without_nth_def)

lemma reorder_Split_here:
  assumes "find_index (leaf_with lid) cs = Some fi"
    and "reorderLeafInTree (Split i d cs sz) lid before = Some t'"
  obtains k where "t' = Split i d (insert_at k (cs ! fi) (without_nth fi cs)) None"
    and "fi < length cs"
    and "\<And>b. before = Some b \<Longrightarrow> k < length (without_nth fi cs) \<and> leaf_with b (without_nth fi cs ! k)"
proof -
  have fi: "fi < length cs" using find_index_SomeD [OF assms(1)] by simp
  obtain ins where ins: "(case before of None \<Rightarrow> Some (length cs) | Some b \<Rightarrow> find_index (leaf_with b) cs) = Some ins"
    "fi \<noteq> ins" "fi + 1 \<noteq> ins"
    "t' = Split i d (insert_at (if fi < ins then ins - 1 else ins) (cs ! fi) (without_nth fi cs)) None"
    using assms by (auto simp: Let_def without_nth_def split: option.splits if_splits)
  show thesis
  proof (rule that [OF ins(4) fi])
    fix b assume "before = Some b"
    then have f: "find_index (leaf_with b) cs = Some ins" using ins(1) by simp
    have "ins < length cs" "leaf_with b (cs ! ins)" using find_index_SomeD [OF f] by auto
    then show "(if fi < ins then ins - 1 else ins) < length (without_nth fi cs) \<and>
        leaf_with b (without_nth fi cs ! (if fi < ins then ins - 1 else ins))"
      using ins(2,3) fi by (auto simp: without_nth_def nth_append min_def)
  qed
qed

lemma reorder_Split_below:
  assumes "find_index (leaf_with lid) cs = None"
    and "reorderLeafInTree (Split i d cs sz) lid before = Some t'"
  shows "t' = Split i d (map (\<lambda>c. upd_val c (reorderLeafInTree c lid before)) cs) sz"
  using assms by (auto simp: Let_def map2_upd_val_map split: if_splits)

lemma mset_concat_map_cong:
  "mset cs = mset cs' \<Longrightarrow> mset (concat (map f cs)) = mset (concat (map f cs'))"
  by (simp add: mset_concat) (metis mset_map sum_mset_sum_list)

lemma mset_reordered: "fi < length cs \<Longrightarrow> mset (insert_at k (cs ! fi) (without_nth fi cs)) = mset cs"
  by (simp add: mset_without_nth)

lemma reorder_keeps:
  "mset (leaves (upd_val t (reorderLeafInTree t lid before))) = mset (leaves t)
   \<and> (wf_shape t \<longrightarrow> wf_shape (upd_val t (reorderLeafInTree t lid before)))
   \<and> set (nodeIds (upd_val t (reorderLeafInTree t lid before))) = set (nodeIds t)"
proof (induction t)
  case (Split i d cs sz)
  show ?case
  proof (cases "reorderLeafInTree (Split i d cs sz) lid before")
    case (Some t')
    show ?thesis
    proof (cases "find_index (leaf_with lid) cs")
      case None
      have ch: "mset (concat (map (\<lambda>c. leaves (upd_val c (reorderLeafInTree c lid before))) cs)) = mset (concat (map leaves cs))"
        using Split.IH by (induction cs) auto
      then show ?thesis unfolding Some using reorder_Split_below [OF None Some] Split.IH
        by (simp add: list_all_iff o_def)
    next
      case (Some fi)
      then obtain k where k: "t' = Split i d (insert_at k (cs ! fi) (without_nth fi cs)) None" "fi < length cs"
        using reorder_Split_here \<open>reorderLeafInTree (Split i d cs sz) lid before = Some t'\<close> by blast
      define cs' where "cs' = insert_at k (cs ! fi) (without_nth fi cs)"
      have m: "mset cs' = mset cs" using mset_reordered [OF k(2)] by (simp add: cs'_def)
      then have "set cs' = set cs" "length cs' = length cs"
        by (metis set_mset_mset, metis size_mset)
      then show ?thesis
        using mset_concat_map_cong [OF m, of leaves]
        unfolding \<open>reorderLeafInTree (Split i d cs sz) lid before = Some t'\<close> k(1) cs'_def [symmetric]
        by (auto simp: list_all_iff)
    qed
  qed (auto simp del: reorderLeafInTree.simps)
qed simp

lemma filter_other_children:
  assumes "find_index (leaf_with lid) cs = Some fi" and "distinct (leafIds (Split i d cs sz))"
  shows "concat (map leaves (without_nth fi cs)) = filter (\<lambda>l. leaf_id l \<noteq> lid) (concat (map leaves cs))"
proof -
  obtain l where l: "cs = take fi cs @ Leaf l # drop (Suc fi) cs" "leaf_id l = lid"
    "lid \<notin> set (ids_of (concat (map leaves (take fi cs))))"
    using find_leaf_child [OF assms] by metis
  have eq: "concat (map leaves cs) = concat (map leaves (take fi cs)) @ l # concat (map leaves (drop (Suc fi) cs))"
    by (subst l(1)) simp
  have "distinct (ids_of (concat (map leaves cs)))" using assms(2) by (simp add: leafIds_leaves map_concat o_def)
  then have "lid \<notin> set (ids_of (concat (map leaves (drop (Suc fi) cs))))"
    using l(2) by (simp add: eq)
  then have "filter (\<lambda>x. leaf_id x \<noteq> lid) (concat (map leaves (take fi cs))) = concat (map leaves (take fi cs))"
    "filter (\<lambda>x. leaf_id x \<noteq> lid) (concat (map leaves (drop (Suc fi) cs))) = concat (map leaves (drop (Suc fi) cs))"
    using l(3) by (force simp: filter_id_conv)+
  then show ?thesis by (simp add: eq l(2) without_nth_def)
qed

lemma reorder_Some_in: "reorderLeafInTree t lid before = Some t' \<Longrightarrow> lid \<in> set (leafIds t)"
proof (induction t arbitrary: t')
  case (Split i d cs sz)
  show ?case
  proof (cases "find_index (leaf_with lid) cs")
    case (Some idx)
    then have "cs ! idx \<in> set cs" "leaf_with lid (cs ! idx)" using find_index_SomeD [OF Some] by auto
    then show ?thesis by (force simp: leaf_with_iff)
  next
    case None
    then obtain c r where "c \<in> set cs" "reorderLeafInTree c lid before = Some r"
      using Split.prems by (auto simp: Let_def list_all_iff split: if_splits)
    then show ?thesis using Split.IH by auto
  qed
qed simp

lemma reorder_Some_before_in:
  "reorderLeafInTree t lid (Some b) = Some t' \<Longrightarrow> b \<in> set (leafIds t)"
proof (induction t arbitrary: t')
  case (Split i d cs sz)
  show ?case
  proof (cases "find_index (leaf_with lid) cs")
    case (Some idx)
    then obtain j where j: "find_index (leaf_with b) cs = Some j"
      using Split.prems by (auto split: option.splits)
    then have "cs ! j \<in> set cs" "leaf_with b (cs ! j)" using find_index_SomeD [OF j] by auto
    then show ?thesis by (force simp: leaf_with_iff)
  next
    case None
    then obtain c r where "c \<in> set cs" "reorderLeafInTree c lid (Some b) = Some r"
      using Split.prems by (auto simp: Let_def list_all_iff split: if_splits)
    then show ?thesis using Split.IH by auto
  qed
qed simp

lemma concat_leaves_insert_before:
  assumes "k < length w" and "leaf_with b (w ! k)" and "distinct (ids_of (concat (map leaves w)))"
  shows "concat (map leaves (insert_at k (Leaf l) w)) = insert_beside True b l (concat (map leaves w))"
proof -
  obtain lb where lb: "w ! k = Leaf lb" "leaf_id lb = b" using assms(2) by (auto simp: leaf_with_iff)
  have w: "concat (map leaves w) = concat (map leaves (take k w)) @ lb # concat (map leaves (drop (Suc k) w))"
    by (subst id_take_nth_drop [OF assms(1)]) (simp add: lb)
  then have "b \<notin> set (ids_of (concat (map leaves (take k w))))"
    using assms(3) lb(2) by auto
  then show ?thesis by (simp add: w insert_at_nth [OF assms(1)] lb insert_beside_append2)
qed

lemma leaves_reorder_here:
  assumes "find_index (leaf_with lid) cs = Some fi" and "distinct (leafIds (Split i d cs sz))"
    and "reorderLeafInTree (Split i d cs sz) lid (Some b) = Some t'"
  obtains src where "src \<in> set (leaves (Split i d cs sz))" and "leaf_id src = lid"
    and "leaves t' = insert_beside True b src (filter (\<lambda>l. leaf_id l \<noteq> lid) (leaves (Split i d cs sz)))"
proof -
  obtain k where k: "t' = Split i d (insert_at k (cs ! fi) (without_nth fi cs)) None" "fi < length cs"
    "k < length (without_nth fi cs) \<and> leaf_with b (without_nth fi cs ! k)"
    using reorder_Split_here [OF assms(1,3)] by metis
  obtain src where src: "cs ! fi = Leaf src" "leaf_id src = lid"
    using find_index_SomeD [OF assms(1)] by (auto simp: leaf_with_iff)
  have w: "concat (map leaves (without_nth fi cs)) = filter (\<lambda>l. leaf_id l \<noteq> lid) (concat (map leaves cs))"
    by (rule filter_other_children [OF assms(1,2)])
  have "distinct (ids_of (concat (map leaves cs)))"
    using assms(2) by (simp add: leafIds_leaves map_concat o_def)
  then have "distinct (ids_of (concat (map leaves (without_nth fi cs))))"
    unfolding w by (rule distinct_map_filter)
  then have "leaves t' = insert_beside True b src (filter (\<lambda>l. leaf_id l \<noteq> lid) (leaves (Split i d cs sz)))"
    using k concat_leaves_insert_before [of k "without_nth fi cs" b src] by (simp add: src w)
  moreover have "src \<in> set (leaves (Split i d cs sz))"
    using src(1) nth_mem [OF k(2)] by force
  ultimately show thesis using that src(2) by blast
qed

lemma same_child:
  assumes "distinct (leafIds (Split i d cs sz))" and "c \<in> set cs" and "c' \<in> set cs"
    and "x \<in> set (leafIds c)" and "x \<in> set (leafIds c')"
  shows "c = c'"
proof -
  obtain p q where pq: "p < length cs" "c = cs ! p" "q < length cs" "c' = cs ! q"
    using assms(2,3) by (metis in_set_conv_nth)
  have "p = q"
    using distinct_concat_nth_disjoint [of "map leafIds cs" p q] assms(1,4,5) pq by auto
  with pq show ?thesis by simp
qed

lemma leaves_reorder_before:
  assumes "distinct (leafIds t)" and "reorderLeafInTree t lid (Some b) = Some t'"
  shows "\<exists>src \<in> set (leaves t). leaf_id src = lid \<and>
    leaves t' = insert_beside True b src (filter (\<lambda>l. leaf_id l \<noteq> lid) (leaves t))"
  using assms
proof (induction t arbitrary: t')
  case (Split i d cs sz)
  show ?case
  proof (cases "find_index (leaf_with lid) cs")
    case (Some fi)
    show ?thesis by (rule leaves_reorder_here [OF Some Split.prems]) blast
  next
    case None
    then obtain c0 r where c0: "c0 \<in> set cs" "reorderLeafInTree c0 lid (Some b) = Some r"
      using Split.prems(2) by (auto simp: Let_def list_all_iff split: if_splits)
    obtain src where src: "src \<in> set (leaves c0)" "leaf_id src = lid"
      "leaves r = insert_beside True b src (filter (\<lambda>l. leaf_id l \<noteq> lid) (leaves c0))"
      using Split.IH [OF c0(1) distinct_child [OF Split.prems(1) c0(1)] c0(2)] by blast
    have in0: "lid \<in> set (leafIds c0)" "b \<in> set (leafIds c0)"
      using reorder_Some_in [OF c0(2)] reorder_Some_before_in [OF c0(2)] .
    have child: "leaves (upd_val c (reorderLeafInTree c lid (Some b)))
        = insert_beside True b src (filter (\<lambda>l. leaf_id l \<noteq> lid) (leaves c))" if c: "c \<in> set cs" for c
    proof (cases "c = c0")
      case True
      then show ?thesis using c0(2) src(3) by simp
    next
      case False
      then have ni: "lid \<notin> set (leafIds c)" "b \<notin> set (leafIds c)"
        using same_child [OF Split.prems(1) c c0(1)] in0 by blast+
      then have "reorderLeafInTree c lid (Some b) = None"
        by (metis not_None_eq reorder_Some_in)
      moreover have "filter (\<lambda>l. leaf_id l \<noteq> lid) (leaves c) = leaves c"
        using ni(1) by (auto simp: filter_id_conv leafIds_leaves)
      ultimately show ?thesis using ni(2) by (simp add: insert_beside_absent leafIds_leaves)
    qed
    let ?g = "\<lambda>c. filter (\<lambda>l. leaf_id l \<noteq> lid) (leaves c)"
    have g: "concat (map ?g cs) = filter (\<lambda>l. leaf_id l \<noteq> lid) (concat (map leaves cs))"
      by (simp add: filter_concat o_def)
    have "distinct (ids_of (concat (map leaves cs)))"
      using Split.prems(1) by (simp add: leafIds_leaves map_concat o_def)
    then have "distinct (ids_of (concat (map ?g cs)))" unfolding g by (rule distinct_map_filter)
    then have "concat (map (\<lambda>c. leaves (upd_val c (reorderLeafInTree c lid (Some b)))) cs)
        = insert_beside True b src (concat (map ?g cs))"
      using child by (rule concat_map_insert_beside)
    then have "leaves t' = insert_beside True b src (filter (\<lambda>l. leaf_id l \<noteq> lid) (leaves (Split i d cs sz)))"
      using reorder_Split_below [OF None Split.prems(2)] g by (simp add: o_def)
    then show ?thesis using src(1,2) c0(1) by auto
  qed
qed simp

section \<open>Building a tree\<close>

lemma length_alloc_leaves [simp]: "length (alloc_leaves states n) = length states"
  by (simp add: alloc_leaves_def)

lemma leaves_map_Leaf: "concat (map leaves (map (\<lambda>(i, s). Leaf (mk_leaf i s)) ps)) = map (\<lambda>(i, s). mk_leaf i s) ps"
  by (induction ps) auto

lemma leaves_alloc_leaves:
  "concat (map leaves (alloc_leaves states n)) = map2 mk_leaf [n ..< n + length states] states"
  unfolding alloc_leaves_def leaves_map_Leaf by (rule refl)

lemma concat_leafIds: "concat (map leafIds cs) = ids_of (concat (map leaves cs))"
  by (induction cs) (auto simp: leafIds_leaves)

lemma leafIds_alloc_leaves: "concat (map leafIds (alloc_leaves states n)) = [n ..< n + length states]"
proof -
  have "concat (map leafIds (alloc_leaves states n)) = ids_of (concat (map leaves (alloc_leaves states n)))"
    by (rule concat_leafIds)
  also have "\<dots> = [n ..< n + length states]"
    by (simp add: leaves_alloc_leaves mk_leaf_def split_def o_def)
  finally show ?thesis .
qed

lemma alloc_leaves_isLeaf: "c \<in> set (alloc_leaves states n) \<Longrightarrow> isLeaf c"
  by (auto simp: alloc_leaves_def)

lemma isLeaf_canonical: "isLeaf c \<Longrightarrow> canonical c \<and> top_dir c = None \<and> nodeIds c = leafIds c"
  by (cases c) auto

lemma buildPaneTree_leaves:
  assumes "buildPaneTree states layout n = Inr (t, n')"
  shows "leaves t = map2 mk_leaf [n ..< n + length states] states"
proof (cases states rule: remdups_adj.cases)
  case (3 a b rest)
  define cells where "cells = alloc_leaves states n"
  have len: "length cells = length states" by (simp add: cells_def)
  have cells: "concat (map leaves cells) = map2 mk_leaf [n ..< n + length states] states"
    by (simp add: cells_def leaves_alloc_leaves)
  have three: "concat (map leaves cells) = leaves (cells ! 0) @ leaves (cells ! 1) @ leaves (cells ! 2)"
    if "length states = 3"
    using that len by (auto simp: numeral_3_eq_3 length_Suc_conv)
  have halves: "concat (map leaves (take k cells)) @ concat (map leaves (drop k cells)) = concat (map leaves cells)" for k
    by (simp flip: concat_append map_append)
  show ?thesis
    using assms three cells halves 3
    unfolding buildPaneTree_def Let_def cells_def [symmetric]
    by (auto split: if_splits)
qed (use assms in \<open>auto simp: buildPaneTree_def Let_def\<close>)

lemma buildPaneTree_shape:
  assumes "buildPaneTree states layout n = Inr (t, n')"
  shows "canonical t \<and> set (nodeIds t) \<subseteq> {n ..< n'} \<and> n < n'"
proof (cases states rule: remdups_adj.cases)
  case (3 a b rest)
  define cells where "cells = alloc_leaves states n"
  have len: "length cells = length states" by (simp add: cells_def)
  have cell: "canonical c \<and> top_dir c = None \<and> (\<forall>x \<in> set (nodeIds c). n \<le> x \<and> x < n + length states)"
    if "c \<in> set cells" for c
  proof -
    have "set (leafIds c) \<subseteq> set (concat (map leafIds cells))" using that by auto
    then show ?thesis
      using isLeaf_canonical [OF alloc_leaves_isLeaf] that
      by (auto simp: cells_def leafIds_alloc_leaves)
  qed
  have three: "cells ! 0 \<in> set cells" "cells ! 1 \<in> set cells" "cells ! 2 \<in> set cells" if "length states = 3"
    using len that by auto
  consider (grid3) "layout = LayoutGrid" "length states = 3"
    | (grid4) "layout = LayoutGrid" "4 \<le> length states"
    | (flat) "\<not> (layout = LayoutGrid \<and> 3 \<le> length states)"
    by linarith
  then show ?thesis
  proof cases
    case grid3
    have t: "t = Split (n + 4) Row [cells ! 0, Split (n + 3) Col [cells ! 1, cells ! 2] None] None"
        "n' = n + 5"
      using assms 3 grid3 unfolding buildPaneTree_def Let_def cells_def [symmetric] by auto
    note c = cell [OF three(1)] cell [OF three(2)] cell [OF three(3)]
    have "canonical t" using c grid3 by (simp add: t)
    moreover have "n \<le> x \<and> x < n'" if "x \<in> set (nodeIds t)" for x
      using that c grid3 by (fastforce simp: t)
    moreover have "n < n'" by (simp add: t)
    ultimately show ?thesis by (simp add: subset_iff)
  next
    case grid4
    let ?top = "(length states + 1) div 2"
    have t: "t = Split (n + length states + 2) Col
        [Split (n + length states) Row (take ?top cells) None,
         Split (n + length states + 1) Row (drop ?top cells) None] None" "n' = n + length states + 3"
      using assms 3 grid4 unfolding buildPaneTree_def Let_def cells_def [symmetric] by auto
    have "2 \<le> ?top" "?top + 2 \<le> length states" using grid4 by linarith+
    then have lens: "2 \<le> length (take ?top cells)" "2 \<le> length (drop ?top cells)" using len by auto
    have part: "canonical c" "top_dir c \<noteq> Some Row" "\<And>x. x \<in> set (nodeIds c) \<Longrightarrow> n \<le> x \<and> x < n + length states"
      if "c \<in> set (take ?top cells) \<or> c \<in> set (drop ?top cells)" for c
      using cell [of c] that by (auto dest: in_set_takeD in_set_dropD)
    have "canonical t" using lens part(1,2) by (simp add: t list_all_iff del: length_take length_drop)
    moreover have "n \<le> x \<and> x < n'" if "x \<in> set (nodeIds t)" for x
      using that part(3) by (fastforce simp: t)
    moreover have "n < n'" by (simp add: t)
    ultimately show ?thesis by (simp add: subset_iff)
  next
    case flat
    then have t: "t = Split (n + length states) (if layout = LayoutCol then Col else Row) cells None"
        "n' = Suc (n + length states)"
      using assms 3 unfolding buildPaneTree_def Let_def cells_def [symmetric] by (auto split: if_splits)
    show ?thesis using cell len 3 by (fastforce simp: t list_all_iff)
  qed
qed (use assms in \<open>auto simp: buildPaneTree_def Let_def mk_leaf_def\<close>)

lemma buildPaneTree_error_iff: "(\<exists>e. buildPaneTree states layout n = Inl e) \<longleftrightarrow> states = []"
  by (auto simp: buildPaneTree_def Let_def split: list.splits)

end
