(* ===== verification/Paths.thy ===== *)
theory Paths
  imports Prelude
begin

text \<open>
  The path helpers of \<^verbatim>\<open>src/lib/path.ts\<close>. Both separators are accepted on input; the display
  name of a file and the parent directory are computed here for every part of the program.
\<close>

section \<open>Operations\<close>

definition backslash :: char where
  "backslash = CHR 0x5C"

definition is_sep :: "char \<Rightarrow> bool" where
  "is_sep c \<longleftrightarrow> c = CHR ''/'' \<or> c = backslash"

definition toForwardSlash :: "string \<Rightarrow> string" where
  "toForwardSlash p = map (\<lambda>c. if c = backslash then CHR ''/'' else c) p"

text \<open>\<open>String.prototype.split\<close> at a class of single characters.\<close>

fun split_at :: "(char \<Rightarrow> bool) \<Rightarrow> string \<Rightarrow> string list" where
  "split_at P [] = [[]]"
| "split_at P (c # cs) =
     (if P c then [] # split_at P cs
      else case split_at P cs of [] \<Rightarrow> [[c]] | s # ss \<Rightarrow> (c # s) # ss)"

definition pathSegments :: "string \<Rightarrow> string list" where
  "pathSegments p = filter (\<lambda>s. s \<noteq> []) (split_at is_sep p)"

definition basename :: "string \<Rightarrow> string" where
  "basename p = (let parts = pathSegments p in if parts \<noteq> [] then last parts else p)"

text \<open>\<open>replace(/\/+$/, "")\<close>.\<close>

definition strip_trailing_slashes :: "string \<Rightarrow> string" where
  "strip_trailing_slashes p = rev (dropWhile (\<lambda>c. c = CHR ''/'') (rev p))"

text \<open>\<open>lastIndexOf("/")\<close>, with \<open>-1\<close> for "not found".\<close>

definition last_slash :: "string \<Rightarrow> int" where
  "last_slash p =
     (case find_index (\<lambda>c. c = CHR ''/'') (rev p) of
        None \<Rightarrow> -1
      | Some j \<Rightarrow> int (length p) - 1 - int j)"

definition dirname :: "string \<Rightarrow> string" where
  "dirname p =
     (let parts = pathSegments p in
      if length parts \<le> 1 then []
      else
        (let norm = strip_trailing_slashes (toForwardSlash p); i = last_slash norm in
         if i \<le> 0 then [] else take (nat i) norm))"

section \<open>Segments\<close>

lemma split_at_nonempty [simp]: "split_at P s \<noteq> []"
  by (induction s) (auto split: list.splits)

lemma split_at_append_sep: "P c \<Longrightarrow> split_at P (xs @ c # ys) = split_at P xs @ split_at P ys"
  by (induction xs) (auto split: list.splits)

lemma split_at_no_sep: "\<forall>c \<in> set s. \<not> P c \<Longrightarrow> split_at P s = [s]"
  by (induction s) auto

lemma split_at_parts: "s \<in> set (split_at P p) \<Longrightarrow> c \<in> set s \<Longrightarrow> \<not> P c"
proof (induction p arbitrary: s)
  case (Cons d p)
  then show ?case by (cases "split_at P p") (force split: if_splits)+
qed simp

lemma pathSegments_parts: "s \<in> set (pathSegments p) \<Longrightarrow> s \<noteq> [] \<and> (\<forall>c \<in> set s. \<not> is_sep c)"
  using split_at_parts by (auto simp: pathSegments_def)

lemma pathSegments_append_sep:
  "is_sep c \<Longrightarrow> pathSegments (xs @ c # ys) = pathSegments xs @ pathSegments ys"
  by (simp add: pathSegments_def split_at_append_sep)

lemma pathSegments_no_sep: "\<forall>c \<in> set s. \<not> is_sep c \<Longrightarrow> pathSegments s = (if s = [] then [] else [s])"
  by (simp add: pathSegments_def split_at_no_sep)

lemma pathSegments_Nil [simp]: "pathSegments [] = []"
  by (simp add: pathSegments_def)

lemma split_at_toForwardSlash: "split_at is_sep (toForwardSlash p) = split_at is_sep p"
  by (induction p) (auto simp: toForwardSlash_def is_sep_def backslash_def split: list.splits)

lemma pathSegments_toForwardSlash [simp]: "pathSegments (toForwardSlash p) = pathSegments p"
  by (simp add: pathSegments_def split_at_toForwardSlash)

lemma pathSegments_seps: "\<forall>c \<in> set s. is_sep c \<Longrightarrow> pathSegments (xs @ s) = pathSegments xs"
proof (induction s arbitrary: xs)
  case (Cons c s)
  then have "pathSegments ([] @ s) = pathSegments []" by (metis list.set_intros(2))
  then show ?case using Cons.prems by (simp add: pathSegments_append_sep)
qed simp

lemma strip_trailing_slashes_decomp:
  obtains s where "p = strip_trailing_slashes p @ s" and "\<forall>c \<in> set s. c = CHR ''/''"
    and "strip_trailing_slashes p = [] \<or> last (strip_trailing_slashes p) \<noteq> CHR ''/''"
proof
  let ?P = "\<lambda>c. c = CHR ''/''"
  show "p = strip_trailing_slashes p @ rev (takeWhile ?P (rev p))"
    unfolding strip_trailing_slashes_def by (metis rev_append rev_rev_ident takeWhile_dropWhile_id)
  show "\<forall>c \<in> set (rev (takeWhile ?P (rev p))). ?P c" by (auto dest: set_takeWhileD)
  show "strip_trailing_slashes p = [] \<or> last (strip_trailing_slashes p) \<noteq> CHR ''/''"
    unfolding strip_trailing_slashes_def using hd_dropWhile [of ?P "rev p"] by (auto simp: last_rev)
qed

lemma last_slash_decomp:
  assumes "0 \<le> last_slash p"
  obtains ys where "p = take (nat (last_slash p)) p @ CHR ''/'' # ys" and "CHR ''/'' \<notin> set ys"
proof -
  obtain j where j: "find_index (\<lambda>c. c = CHR ''/'') (rev p) = Some j"
    using assms by (auto simp: last_slash_def split: option.splits)
  note s = find_index_split [OF j] find_index_SomeD [OF j]
  let ?a = "take j (rev p)" and ?b = "drop (Suc j) (rev p)"
  have p: "p = rev ?b @ CHR ''/'' # rev ?a"
  proof -
    have "rev p = ?a @ CHR ''/'' # ?b" using s by simp
    then have "rev (rev p) = rev (?a @ CHR ''/'' # ?b)" by (rule arg_cong)
    then show ?thesis by simp
  qed
  have "nat (last_slash p) = length (rev ?b)" using s(2) j by (simp add: last_slash_def)
  then have "take (nat (last_slash p)) p = rev ?b" using p
    by (metis append_eq_conv_conj)
  moreover have "CHR ''/'' \<notin> set (rev ?a)" using s(2) by auto
  ultimately show thesis using that p by simp
qed

lemma last_slash_neg: "last_slash p < 0 \<Longrightarrow> CHR ''/'' \<notin> set p"
  using find_index_SomeD [of "\<lambda>c. c = CHR ''/''" "rev p"]
  by (fastforce simp: last_slash_def find_index_None split: option.splits)

lemma no_backslash_toForwardSlash: "backslash \<notin> set (toForwardSlash p)"
  by (auto simp: toForwardSlash_def backslash_def)

section \<open>Parent and name\<close>

text \<open>The segments of the parent directory are the segments of the path less the last one.\<close>

lemma dirname_segments:
  assumes "2 \<le> length (pathSegments p)"
  shows "pathSegments (dirname p) = butlast (pathSegments p)"
proof -
  let ?n = "strip_trailing_slashes (toForwardSlash p)"
  obtain s where s: "toForwardSlash p = ?n @ s" "\<forall>c \<in> set s. c = CHR ''/''"
    "?n = [] \<or> last ?n \<noteq> CHR ''/''" by (rule strip_trailing_slashes_decomp)
  have seg: "pathSegments ?n = pathSegments p"
    using pathSegments_seps [of s ?n] s by (metis is_sep_def pathSegments_toForwardSlash)
  have nb: "backslash \<notin> set ?n" using no_backslash_toForwardSlash [of p] s(1) by (metis Un_iff set_append)
  have "0 \<le> last_slash ?n"
  proof (rule ccontr)
    assume "\<not> 0 \<le> last_slash ?n"
    then have "\<forall>c \<in> set ?n. \<not> is_sep c" using last_slash_neg [of ?n] nb by (auto simp: is_sep_def)
    then have "length (pathSegments ?n) \<le> 1" using pathSegments_no_sep [of ?n] by simp
    then show False using assms seg by simp
  qed
  then obtain ys where ys: "?n = take (nat (last_slash ?n)) ?n @ CHR ''/'' # ys" "CHR ''/'' \<notin> set ys"
    by (rule last_slash_decomp)
  have no: "\<forall>c \<in> set ys. \<not> is_sep c"
    using ys nb by (metis Un_iff is_sep_def list.set_intros(2) set_append)
  have "ys \<noteq> []" using s(3) ys by (metis append_is_Nil_conv last.simps last_appendR list.discI)
  then have eq: "pathSegments p = pathSegments (take (nat (last_slash ?n)) ?n) @ [ys]"
    using seg ys(1) no by (metis is_sep_def pathSegments_append_sep pathSegments_no_sep)
  have "0 < last_slash ?n"
    using assms eq \<open>0 \<le> last_slash ?n\<close> by (cases "last_slash ?n = 0") auto
  then have "dirname p = take (nat (last_slash ?n)) ?n"
    using assms by (simp add: dirname_def Let_def)
  then show ?thesis using eq by simp
qed

lemma basename_no_sep: "pathSegments p \<noteq> [] \<Longrightarrow> c \<in> set (basename p) \<Longrightarrow> \<not> is_sep c"
  using pathSegments_parts [of "last (pathSegments p)" p] by (auto simp: basename_def Let_def)

lemma basename_append: "\<lbrakk>is_sep c; n \<noteq> []; \<forall>x \<in> set n. \<not> is_sep x\<rbrakk> \<Longrightarrow> basename (d @ c # n) = n"
  by (simp add: basename_def pathSegments_append_sep pathSegments_no_sep)

lemma basename_idem [simp]: "basename (basename p) = basename p"
proof (cases "pathSegments p = []")
  case False
  then have "\<forall>c \<in> set (basename p). \<not> is_sep c" "basename p \<noteq> []"
    using basename_no_sep pathSegments_parts [of "last (pathSegments p)" p] by (auto simp: basename_def Let_def)
  then show ?thesis using pathSegments_no_sep [of "basename p"] by (simp add: basename_def [of "basename p"])
qed (simp add: basename_def)

end
