(* ===== verification/Vault_Types.thy ===== *)
theory Vault_Types
  imports Prelude
begin

text \<open>
  The records of the vault (\<^verbatim>\<open>src/modules/vault/types.ts\<close>): identities, keys, the credential
  bindings hosts carry, the keychain account names and the stamps an editor compares to detect that
  a record moved underneath it.

  Unix times are \<^typ>\<open>int\<close>; a field the record may lack is an \<open>option\<close>.
\<close>

section \<open>Records\<close>

datatype vault_auth_mode = AuthPassword | AuthKey | AuthAgent

record vault_identity =
  vi_id :: string
  vi_name :: string
  vi_username :: string
  vi_domain :: "string option"
  vi_authMode :: vault_auth_mode
  vi_hasPassword :: bool
  vi_keyId :: "string option"
  vi_description :: "string option"
  vi_updatedAt :: "int option"
  vi_lastConnectedAt :: "int option"

datatype vault_key_type = KtRsa | KtEd25519 | KtEcdsa | KtUnknown

datatype vault_key_kind = KindCert | KindHardware

record vault_key =
  vk_id :: string
  vk_kind :: "vault_key_kind option"
  vk_name :: string
  vk_keyType :: "vault_key_type option"
  vk_fingerprint :: "string option"
  vk_publicKey :: "string option"
  vk_hasPrivateKey :: bool
  vk_hasPassphrase :: bool
  vk_encrypted :: "bool option"
  vk_description :: "string option"
  vk_updatedAt :: "int option"
  vk_lastConnectedAt :: "int option"
  vk_certificate :: "string option"
  vk_certCaFingerprint :: "string option"
  vk_certKeyId :: "string option"
  vk_certPrincipals :: "string list option"
  vk_certValidAfter :: "int option"
  vk_certValidBefore :: "int option"

record ssh_inline_credentials =
  si_hostId :: string
  si_user :: string
  si_authMode :: vault_auth_mode
  si_hasPassword :: bool
  si_hasPrivateKey :: bool
  si_hasKeyPassphrase :: bool

record rdp_inline_credentials =
  ri_hostId :: string
  ri_username :: string
  ri_domain :: "string option"
  ri_hasPassword :: bool

text \<open>A binding: a shared identity by id, or the host's own credentials.\<close>

datatype ssh_credential_binding = SshBoundTo string | SshInline ssh_inline_credentials

datatype rdp_credential_binding = RdpBoundTo string | RdpInline rdp_inline_credentials

record vault_ref =
  vr_id :: string
  vr_name :: string

datatype vault_error =
    IdentityGone string
  | IdentityNamesNoKey string
  | IdentityKeyGone string
  | KeyAuthWithoutKey
  | HardwareKeyWithoutFingerprint string
  | CertKeyWithoutCertificate string
  | BindingOwnerMissing
  | BindingOwnerMismatch string string

section \<open>Keychain accounts\<close>

definition VAULT_KEYRING_SERVICE :: string where "VAULT_KEYRING_SERVICE = ''tervia-vault''"
definition HOST_KEYRING_SERVICE :: string where "HOST_KEYRING_SERVICE = ''tervia-hosts''"
definition IDENTITY_PASSWORD_FIELD :: string where "IDENTITY_PASSWORD_FIELD = ''password''"
definition KEY_PRIVATE_KEY_FIELD :: string where "KEY_PRIVATE_KEY_FIELD = ''privateKey''"
definition KEY_PASSPHRASE_FIELD :: string where "KEY_PASSPHRASE_FIELD = ''passphrase''"
definition HOST_SSH_PASSWORD_FIELD :: string where "HOST_SSH_PASSWORD_FIELD = ''password''"
definition HOST_SSH_PRIVATE_KEY_FIELD :: string where "HOST_SSH_PRIVATE_KEY_FIELD = ''privateKey''"
definition HOST_SSH_KEY_PASSPHRASE_FIELD :: string where "HOST_SSH_KEY_PASSPHRASE_FIELD = ''keyPassphrase''"
definition HOST_RDP_PASSWORD_FIELD :: string where "HOST_RDP_PASSWORD_FIELD = ''password''"

lemmas keychain_names = VAULT_KEYRING_SERVICE_def HOST_KEYRING_SERVICE_def IDENTITY_PASSWORD_FIELD_def
  KEY_PRIVATE_KEY_FIELD_def KEY_PASSPHRASE_FIELD_def HOST_SSH_PASSWORD_FIELD_def
  HOST_SSH_PRIVATE_KEY_FIELD_def HOST_SSH_KEY_PASSPHRASE_FIELD_def HOST_RDP_PASSWORD_FIELD_def

definition vaultAccount :: "string \<Rightarrow> string \<Rightarrow> string" where
  "vaultAccount i field = i @ ''::'' @ field"

text \<open>Every field of either service.\<close>

definition secret_fields :: "string list" where
  "secret_fields = [IDENTITY_PASSWORD_FIELD, KEY_PRIVATE_KEY_FIELD, KEY_PASSPHRASE_FIELD,
     HOST_SSH_PASSWORD_FIELD, HOST_SSH_PRIVATE_KEY_FIELD, HOST_SSH_KEY_PASSPHRASE_FIELD,
     HOST_RDP_PASSWORD_FIELD]"

lemma vaultAccount_inj:
  assumes "vaultAccount i f = vaultAccount j g" and "CHR '':'' \<notin> set f" and "CHR '':'' \<notin> set g"
  shows "i = j \<and> f = g"
  using append_last_sep_inj [of "i @ '':''" "CHR '':''" f "j @ '':''" g] assms
  by (simp add: vaultAccount_def)

lemma secret_fields_no_colon: "f \<in> set secret_fields \<Longrightarrow> CHR '':'' \<notin> set f"
  by (auto simp: secret_fields_def keychain_names)

lemma vaultAccount_eq_iff:
  assumes "f \<in> set secret_fields" and "g \<in> set secret_fields"
  shows "vaultAccount i f = vaultAccount j g \<longleftrightarrow> i = j \<and> f = g"
  using vaultAccount_inj [of i f j g] assms secret_fields_no_colon by blast

section \<open>Owner of an inline binding\<close>

text \<open>The check both protocols share; the argument is the \<open>hostId\<close> of an inline binding.\<close>

definition check_owner :: "string \<Rightarrow> string \<Rightarrow> vault_error option" where
  "check_owner hostId ownerId =
     (if ownerId = [] \<or> hostId = [] then Some BindingOwnerMissing
      else if hostId \<noteq> ownerId then Some (BindingOwnerMismatch hostId ownerId)
      else None)"

fun assertBindingOwner_ssh :: "ssh_credential_binding \<Rightarrow> string \<Rightarrow> vault_error option" where
  "assertBindingOwner_ssh (SshBoundTo _) owner = None"
| "assertBindingOwner_ssh (SshInline c) owner = check_owner (si_hostId c) owner"

fun assertBindingOwner_rdp :: "rdp_credential_binding \<Rightarrow> string \<Rightarrow> vault_error option" where
  "assertBindingOwner_rdp (RdpBoundTo _) owner = None"
| "assertBindingOwner_rdp (RdpInline c) owner = check_owner (ri_hostId c) owner"

section \<open>Stamps\<close>

definition VAULT_STAMP_ABSENT :: string where "VAULT_STAMP_ABSENT = ''absent''"

fun flag_char :: "bool \<Rightarrow> char" where
  "flag_char True = CHR ''1''"
| "flag_char False = CHR ''0''"

fun encrypted_char :: "bool option \<Rightarrow> char" where
  "encrypted_char None = CHR ''-''"
| "encrypted_char (Some b) = flag_char b"

fun kind_name :: "vault_key_kind option \<Rightarrow> string" where
  "kind_name None = ''pem''"
| "kind_name (Some KindCert) = ''cert''"
| "kind_name (Some KindHardware) = ''hardware''"

fun auth_mode_name :: "vault_auth_mode \<Rightarrow> string" where
  "auth_mode_name AuthPassword = ''password''"
| "auth_mode_name AuthKey = ''key''"
| "auth_mode_name AuthAgent = ''agent''"

text \<open>\<open>x ?? ""\<close>.\<close>

definition or_empty :: "string option \<Rightarrow> string" where
  "or_empty x = (case x of None \<Rightarrow> [] | Some s \<Rightarrow> s)"

fun vaultKeyStamp :: "vault_key option \<Rightarrow> string" where
  "vaultKeyStamp None = VAULT_STAMP_ABSENT"
| "vaultKeyStamp (Some k) =
     (let cert = (if vk_kind k = Some KindCert then or_empty (vk_certificate k) else []) in
      ''key:'' @ kind_name (vk_kind k) @ '':'' @
      [flag_char (vk_hasPrivateKey k), flag_char (vk_hasPassphrase k), encrypted_char (vk_encrypted k)]
      @ '':'' @ or_empty (vk_fingerprint k) @ '':'' @ cert)"

fun vaultIdentityStamp :: "vault_identity option \<Rightarrow> string" where
  "vaultIdentityStamp None = VAULT_STAMP_ABSENT"
| "vaultIdentityStamp (Some i) =
     ''identity:'' @ [flag_char (vi_hasPassword i)] @ '':'' @ auth_mode_name (vi_authMode i)
     @ '':'' @ or_empty (vi_keyId i)"

definition describeVaultStamp :: "string \<Rightarrow> string" where
  "describeVaultStamp s =
     (if s = VAULT_STAMP_ABSENT then ''deleted'' else ''holding different secret material'')"

lemma flag_char_eq [simp]: "flag_char a = flag_char b \<longleftrightarrow> a = b"
  by (cases a; cases b) auto

lemma encrypted_char_eq [simp]: "encrypted_char a = encrypted_char b \<longleftrightarrow> a = b"
proof -
  have "flag_char b \<noteq> CHR ''-''" for b by (cases b) auto
  then show ?thesis by (cases a; cases b) (auto dest: sym)
qed

lemma kind_name_prefix:
  "kind_name a @ '':'' @ x = kind_name b @ '':'' @ y \<longleftrightarrow> a = b \<and> x = y"
  by (cases a rule: kind_name.cases; cases b rule: kind_name.cases) auto

lemma auth_mode_prefix:
  "auth_mode_name a @ '':'' @ x = auth_mode_name b @ '':'' @ y \<longleftrightarrow> a = b \<and> x = y"
  by (cases a; cases b) auto

lemma vaultKeyStamp_absent_iff: "vaultKeyStamp k = VAULT_STAMP_ABSENT \<longleftrightarrow> k = None"
  by (cases k) (auto simp: VAULT_STAMP_ABSENT_def Let_def)

lemma vaultIdentityStamp_absent_iff: "vaultIdentityStamp i = VAULT_STAMP_ABSENT \<longleftrightarrow> i = None"
  by (cases i) (auto simp: VAULT_STAMP_ABSENT_def)

end
