(* ===== verification/Host_Types.thy ===== *)
theory Host_Types
  imports Vault_Types
begin

text \<open>
  The host records (\<^verbatim>\<open>src/modules/hosts/types.ts\<close>): one record per machine, a union over the
  protocol, with the pinned server keys by address, the tags and the appearance ids, and the stamp
  of a host's credential binding. Locale-dependent string comparison is the parameter
  \<open>localeCompare\<close>; ports and sizes are \<^typ>\<open>nat\<close>, Unix times \<^typ>\<open>int\<close>.
\<close>

section \<open>Records\<close>

datatype rdp_size_mode = SizePreset | SizeFit

datatype rdp_clipboard_mode = ClipBoth | ClipHostToRemote | ClipRemoteToHost | ClipOff

text \<open>Pins keyed by address. The list keeps the insertion order \<open>Object.entries\<close> reports.\<close>

type_synonym host_pins = "(string \<times> string) list"

record host_base =
  h_id :: string
  h_name :: string
  h_host :: string
  h_port :: nat
  h_groupId :: "string option"
  h_tags :: "string list option"
  h_icon :: "string option"
  h_color :: "string option"
  h_description :: "string option"
  h_lastConnectedAt :: "int option"
  h_pins :: "host_pins option"
  h_updatedAt :: "int option"

record ssh_part =
  s_credential :: ssh_credential_binding
  s_proxyJumpId :: "string option"
  s_lastFingerprint :: "string option"

record rdp_part =
  d_credential :: rdp_credential_binding
  d_desktopWidth :: nat
  d_desktopHeight :: nat
  d_sizeMode :: rdp_size_mode
  d_certFingerprint :: "string option"
  d_tunnel_sshHostId :: "string option"
  d_clipboard :: "rdp_clipboard_mode option"

datatype host = SshHost (base: host_base) (ssh_of: ssh_part) | RdpHost (base: host_base) (rdp_of: rdp_part)

abbreviation host_id :: "host \<Rightarrow> string" where
  "host_id h \<equiv> h_id (base h)"

record host_group =
  g_id :: string
  g_name :: string
  g_parentId :: "string option"
  g_order :: "rat option"
  g_updatedAt :: "int option"
  g_defaultIdentityId :: "string option"

definition SSH_DEFAULT_PORT :: nat where "SSH_DEFAULT_PORT = 22"
definition RDP_DEFAULT_PORT :: nat where "RDP_DEFAULT_PORT = 3389"

section \<open>Desktop sizes\<close>

record rdp_size_preset =
  pr_id :: string
  pr_width :: nat
  pr_height :: nat
  pr_label :: string

text \<open>The label's multiplication sign is the Latin-1 character 215.\<close>

definition times_sign :: string where
  "times_sign = [CHR '' '', char_of (215 :: nat), CHR '' '']"

definition RDP_SIZE_PRESETS :: "rdp_size_preset list" where
  "RDP_SIZE_PRESETS =
    [\<lparr>pr_id = ''1024x768'', pr_width = 1024, pr_height = 768, pr_label = ''1024'' @ times_sign @ ''768 (4:3)''\<rparr>,
     \<lparr>pr_id = ''1280x720'', pr_width = 1280, pr_height = 720, pr_label = ''1280'' @ times_sign @ ''720 (720p)''\<rparr>,
     \<lparr>pr_id = ''1280x800'', pr_width = 1280, pr_height = 800, pr_label = ''1280'' @ times_sign @ ''800 (16:10)''\<rparr>,
     \<lparr>pr_id = ''1366x768'', pr_width = 1366, pr_height = 768, pr_label = ''1366'' @ times_sign @ ''768''\<rparr>,
     \<lparr>pr_id = ''1600x900'', pr_width = 1600, pr_height = 900, pr_label = ''1600'' @ times_sign @ ''900''\<rparr>,
     \<lparr>pr_id = ''1920x1080'', pr_width = 1920, pr_height = 1080, pr_label = ''1920'' @ times_sign @ ''1080 (1080p)''\<rparr>,
     \<lparr>pr_id = ''2560x1440'', pr_width = 2560, pr_height = 1440, pr_label = ''2560'' @ times_sign @ ''1440 (1440p)''\<rparr>]"

definition RDP_DEFAULT_PRESET :: rdp_size_preset where
  "RDP_DEFAULT_PRESET = RDP_SIZE_PRESETS ! 4"

definition presetIdFor :: "nat \<Rightarrow> nat \<Rightarrow> string" where
  "presetIdFor w h =
     (case find (\<lambda>p. pr_width p = w \<and> pr_height p = h) RDP_SIZE_PRESETS of
        None \<Rightarrow> [] | Some p \<Rightarrow> pr_id p)"

definition presetById :: "string \<Rightarrow> rdp_size_preset option" where
  "presetById i = find (\<lambda>p. pr_id p = i) RDP_SIZE_PRESETS"

lemma preset_round_trip:
  "(case presetById i of None \<Rightarrow> presetIdFor w h \<noteq> i \<or> i = []
    | Some p \<Rightarrow> presetIdFor (pr_width p) (pr_height p) = i)"
  unfolding presetById_def presetIdFor_def RDP_SIZE_PRESETS_def by auto

section \<open>Tags and appearance\<close>

definition HOST_TAG_MAX_LENGTH :: nat where "HOST_TAG_MAX_LENGTH = 40"
definition HOST_TAG_MAX_COUNT :: nat where "HOST_TAG_MAX_COUNT = 24"

text \<open>An entry of the untrusted array: a string, or anything else.\<close>

datatype tag_entry = TagString string | TagOther

text \<open>\<open>toLowerCase\<close> on Latin-1.\<close>

definition js_lower_char :: "char \<Rightarrow> char" where
  "js_lower_char c =
     (let n = of_char c :: nat in
      if (65 \<le> n \<and> n \<le> 90) \<or> (192 \<le> n \<and> n \<le> 222 \<and> n \<noteq> 215) then char_of (n + 32) else c)"

definition js_lower :: "string \<Rightarrow> string" where
  "js_lower = map js_lower_char"

definition js_trim_end :: "string \<Rightarrow> string" where
  "js_trim_end s = rev (dropWhile is_js_space (rev s))"

definition clean_tag :: "string \<Rightarrow> string" where
  "clean_tag raw = js_trim_end (take HOST_TAG_MAX_LENGTH (js_trim raw))"

text \<open>The loop of \<open>normalizeHostTags\<close>: \<open>seen\<close> holds the lower-cased tags of \<open>out\<close>.\<close>

fun tag_loop :: "tag_entry list \<Rightarrow> string list \<Rightarrow> string list \<Rightarrow> string list" where
  "tag_loop [] seen out = out"
| "tag_loop (TagOther # ts) seen out = tag_loop ts seen out"
| "tag_loop (TagString raw # ts) seen out =
     (let trimmed = clean_tag raw; key = js_lower trimmed in
      if trimmed = [] then tag_loop ts seen out
      else if key \<in> set seen then tag_loop ts seen out
      else
        (let out' = out @ [trimmed] in
         if HOST_TAG_MAX_COUNT \<le> length out' then out'
         else tag_loop ts (key # seen) out'))"

text \<open>The argument is \<^const>\<open>None\<close> for a value that is not an array.\<close>

definition normalizeHostTags :: "tag_entry list option \<Rightarrow> string list option" where
  "normalizeHostTags tags =
     (case tags of None \<Rightarrow> None
      | Some ts \<Rightarrow> (let out = tag_loop ts [] [] in if out \<noteq> [] then Some out else None))"

definition HOST_ICON_IDS :: "string list" where
  "HOST_ICON_IDS = [''server'', ''database'', ''globe'', ''cloud'', ''monitor'', ''laptop'',
     ''terminal'', ''shield'', ''router'', ''container'']"

definition HOST_COLOR_IDS :: "string list" where
  "HOST_COLOR_IDS = [''red'', ''yellow'', ''green'', ''cyan'', ''blue'', ''magenta'']"

definition hostIconId :: "string \<Rightarrow> string option" where
  "hostIconId v = find (\<lambda>i. i = v) HOST_ICON_IDS"

definition hostColorId :: "string \<Rightarrow> string option" where
  "hostColorId v = find (\<lambda>i. i = v) HOST_COLOR_IDS"

section \<open>Protocol, pins, stamps\<close>

fun isSshHost :: "host \<Rightarrow> bool" where
  "isSshHost (SshHost _ _) = True"
| "isSshHost (RdpHost _ _) = False"

fun isRdpHost :: "host \<Rightarrow> bool" where
  "isRdpHost (RdpHost _ _) = True"
| "isRdpHost (SshHost _ _) = False"

fun hostFingerprint :: "host \<Rightarrow> string option" where
  "hostFingerprint (SshHost b s) = s_lastFingerprint s"
| "hostFingerprint (RdpHost b d) = d_certFingerprint d"

definition hostPins :: "host \<Rightarrow> host_pins" where
  "hostPins h =
     (case h_pins (base h) of
        Some ps \<Rightarrow> ps
      | None \<Rightarrow>
        (case hostFingerprint h of
           Some f \<Rightarrow> if f \<noteq> [] then [(h_host (base h), f)] else []
         | None \<Rightarrow> []))"

record known_host_row =
  kh_hostId :: string
  kh_hostName :: string
  kh_isSsh :: bool
  kh_address :: string
  kh_fingerprint :: string

text \<open>\<open>a || b\<close> on comparison results.\<close>

definition or_else :: "int \<Rightarrow> int \<Rightarrow> int" where
  "or_else a b = (if a \<noteq> 0 then a else b)"

definition known_host_cmp ::
  "(string \<Rightarrow> string \<Rightarrow> int) \<Rightarrow> known_host_row \<Rightarrow> known_host_row \<Rightarrow> int" where
  "known_host_cmp localeCompare a b =
     or_else (localeCompare (js_lower (kh_hostName a)) (js_lower (kh_hostName b)))
       (or_else (localeCompare (js_lower (kh_address a)) (js_lower (kh_address b)))
          (localeCompare (kh_hostId a) (kh_hostId b)))"

definition host_rows :: "host \<Rightarrow> known_host_row list" where
  "host_rows h = map (\<lambda>(addr, fp). \<lparr>kh_hostId = host_id h, kh_hostName = h_name (base h),
     kh_isSsh = isSshHost h, kh_address = addr, kh_fingerprint = fp\<rparr>) (hostPins h)"

definition knownHostRows :: "(string \<Rightarrow> string \<Rightarrow> int) \<Rightarrow> host list \<Rightarrow> known_host_row list" where
  "knownHostRows localeCompare hosts =
     js_sort (known_host_cmp localeCompare) (concat (map host_rows hosts))"

definition CREDENTIAL_STAMP_ABSENT :: string where "CREDENTIAL_STAMP_ABSENT = ''absent''"
definition CREDENTIAL_STAMP_INLINE :: string where "CREDENTIAL_STAMP_INLINE = ''inline''"

text \<open>The identity a host is bound to; \<^const>\<open>None\<close> for a host owning its credentials.\<close>

fun bound_identity :: "host \<Rightarrow> string option" where
  "bound_identity (SshHost b s) = (case s_credential s of SshBoundTo i \<Rightarrow> Some i | SshInline _ \<Rightarrow> None)"
| "bound_identity (RdpHost b d) = (case d_credential d of RdpBoundTo i \<Rightarrow> Some i | RdpInline _ \<Rightarrow> None)"

definition credentialStamp :: "host option \<Rightarrow> string" where
  "credentialStamp h =
     (case h of None \<Rightarrow> CREDENTIAL_STAMP_ABSENT
      | Some h \<Rightarrow> (case bound_identity h of
          None \<Rightarrow> CREDENTIAL_STAMP_INLINE
        | Some i \<Rightarrow> ''identity:'' @ i))"

definition describeStamp :: "string \<Rightarrow> string" where
  "describeStamp s =
     (if s = CREDENTIAL_STAMP_ABSENT then ''deleted''
      else if s = CREDENTIAL_STAMP_INLINE then ''using credentials of its own''
      else ''bound to a shared vault identity'')"

lemma credentialStamp_eq_iff:
  "credentialStamp a = credentialStamp b \<longleftrightarrow> map_option bound_identity a = map_option bound_identity b"
  by (cases a; cases b)
    (auto simp: credentialStamp_def CREDENTIAL_STAMP_ABSENT_def CREDENTIAL_STAMP_INLINE_def split: option.splits)

section \<open>Normalised tags\<close>

definition tag_ok :: "string \<Rightarrow> bool" where
  "tag_ok t \<longleftrightarrow> t \<noteq> [] \<and> js_trim t = t \<and> length t \<le> HOST_TAG_MAX_LENGTH"

definition tags_ok :: "string list \<Rightarrow> bool" where
  "tags_ok ts \<longleftrightarrow> list_all tag_ok ts \<and> distinct (map js_lower ts) \<and> length ts \<le> HOST_TAG_MAX_COUNT"

lemma js_trim_fixed:
  assumes "s = [] \<or> (\<not> is_js_space (hd s) \<and> \<not> is_js_space (last s))"
  shows "js_trim s = s"
proof (cases s)
  case (Cons c cs)
  then have "dropWhile is_js_space s = s" using assms by simp
  moreover have "dropWhile is_js_space (rev s) = rev s"
    using assms Cons by (cases "rev s") (auto simp: last_conv_nth rev_nth hd_conv_nth simp flip: hd_rev)
  ultimately show ?thesis by (simp add: js_trim_def)
qed simp

lemma js_trim_end_last: "js_trim_end s \<noteq> [] \<Longrightarrow> \<not> is_js_space (last (js_trim_end s))"
  unfolding js_trim_end_def using hd_dropWhile [of is_js_space "rev s"] by (auto simp: last_rev)

lemma js_trim_end_prefix: obtains w where "s = js_trim_end s @ w"
  unfolding js_trim_end_def by (metis rev_append rev_rev_ident takeWhile_dropWhile_id)

lemma js_trim_hd: "js_trim s \<noteq> [] \<Longrightarrow> \<not> is_js_space (hd (js_trim s))"
proof -
  assume ne: "js_trim s \<noteq> []"
  obtain w where w: "dropWhile is_js_space s = js_trim s @ w"
    using js_trim_end_prefix [of "dropWhile is_js_space s"] by (auto simp: js_trim_def js_trim_end_def)
  then have "dropWhile is_js_space s \<noteq> []" using ne by auto
  then have "\<not> is_js_space (hd (dropWhile is_js_space s))" by (rule hd_dropWhile)
  then show ?thesis using w ne by simp
qed

lemma clean_tag_trimmed: "js_trim (clean_tag raw) = clean_tag raw"
proof (rule js_trim_fixed, cases "clean_tag raw = []")
  case False
  let ?t = "take HOST_TAG_MAX_LENGTH (js_trim raw)"
  obtain w where w: "?t = clean_tag raw @ w"
    unfolding clean_tag_def by (rule js_trim_end_prefix)
  have "hd (clean_tag raw) = hd (js_trim raw)" "js_trim raw \<noteq> []"
    using w False by (metis append_take_drop_id hd_append2 append_is_Nil_conv, metis take_eq_Nil append_is_Nil_conv w)
  then have "\<not> is_js_space (hd (clean_tag raw))" using js_trim_hd by simp
  moreover have "\<not> is_js_space (last (clean_tag raw))"
    using False unfolding clean_tag_def by (rule js_trim_end_last)
  ultimately show "clean_tag raw = [] \<or> \<not> is_js_space (hd (clean_tag raw)) \<and> \<not> is_js_space (last (clean_tag raw))"
    by blast
qed simp

lemma length_clean_tag: "length (clean_tag raw) \<le> HOST_TAG_MAX_LENGTH"
proof -
  obtain w where "take HOST_TAG_MAX_LENGTH (js_trim raw) = clean_tag raw @ w"
    unfolding clean_tag_def by (rule js_trim_end_prefix)
  then have "length (clean_tag raw) \<le> length (take HOST_TAG_MAX_LENGTH (js_trim raw))" by simp
  then show ?thesis by simp
qed

lemma clean_tag_ok: "clean_tag raw \<noteq> [] \<Longrightarrow> tag_ok (clean_tag raw)"
  by (simp add: tag_ok_def clean_tag_trimmed length_clean_tag)

lemma tag_ok_clean: "tag_ok t \<Longrightarrow> clean_tag t = t"
proof -
  assume ok: "tag_ok t"
  then have "js_trim_end t = t"
    unfolding tag_ok_def js_trim_def js_trim_end_def
    by (metis dropWhile_twice rev_rev_ident)
  then show ?thesis using ok by (simp add: clean_tag_def tag_ok_def)
qed

lemma tag_loop_ok:
  "tags_ok out \<Longrightarrow> set seen = js_lower ` set out \<Longrightarrow> length out < HOST_TAG_MAX_COUNT \<Longrightarrow>
    tags_ok (tag_loop ts seen out)"
proof (induction ts seen out rule: tag_loop.induct)
  case (3 raw ts seen out)
  let ?t = "clean_tag raw"
  show ?case
  proof (cases "?t = [] \<or> js_lower ?t \<in> set seen")
    case False
    then have "tags_ok (out @ [?t])"
      using 3 clean_tag_ok [of raw] by (auto simp: tags_ok_def)
    then show ?thesis using 3 False by (auto simp: Let_def)
  qed (use 3 in \<open>auto simp: Let_def\<close>)
qed auto

lemma tag_loop_fixed:
  "tags_ok (out @ ts) \<Longrightarrow> set seen = js_lower ` set out \<Longrightarrow>
    tag_loop (map TagString ts) seen out = out @ ts"
proof (induction ts arbitrary: seen out)
  case (Cons t ts)
  have t: "clean_tag t = t" "t \<noteq> []" using Cons.prems(1) by (auto simp: tags_ok_def tag_ok_clean tag_ok_def)
  have new: "js_lower t \<notin> set seen" using Cons.prems by (auto simp: tags_ok_def)
  show ?case
  proof (cases "HOST_TAG_MAX_COUNT \<le> length (out @ [t])")
    case True
    moreover have "length (out @ t # ts) \<le> HOST_TAG_MAX_COUNT" using Cons.prems(1) by (simp add: tags_ok_def)
    ultimately have "ts = []" by (cases ts) auto
    then show ?thesis using t new True by (simp add: Let_def)
  next
    case False
    have "tag_loop (map TagString ts) (js_lower t # seen) (out @ [t]) = (out @ [t]) @ ts"
      using Cons.prems by (intro Cons.IH) auto
    then show ?thesis using t new False by (simp add: Let_def)
  qed
qed simp

lemma normalizeHostTags_ok: "normalizeHostTags tags = Some out \<Longrightarrow> tags_ok out \<and> out \<noteq> []"
  using tag_loop_ok [of "[]" "[]"]
  by (auto simp: normalizeHostTags_def tags_ok_def HOST_TAG_MAX_COUNT_def Let_def split: option.splits if_splits)

lemma normalizeHostTags_fixed: "tags_ok out \<Longrightarrow> out \<noteq> [] \<Longrightarrow> normalizeHostTags (Some (map TagString out)) = Some out"
  using tag_loop_fixed [of "[]" out "[]"] by (simp add: normalizeHostTags_def)

section \<open>Known hosts\<close>

lemma proper_known_host_cmp:
  assumes "proper_cmp lc"
  shows "proper_cmp (known_host_cmp lc)"
proof -
  note by_key = proper_by_key [OF assms]
  show ?thesis
    unfolding known_host_cmp_def [abs_def] or_else_def
    using proper_then [OF by_key [of "\<lambda>r. js_lower (kh_hostName r)"]
      proper_then [OF by_key [of "\<lambda>r. js_lower (kh_address r)"] by_key [of kh_hostId]]] .
qed

lemma set_knownHostRows: "set (knownHostRows lc hosts) = (\<Union>h \<in> set hosts. set (host_rows h))"
  by (simp add: knownHostRows_def)

lemma mset_knownHostRows: "mset (knownHostRows lc hosts) = mset (concat (map host_rows hosts))"
  by (simp add: knownHostRows_def)

end
