(* ===== verification/Tab_Types.thy ===== *)
theory Tab_Types
  imports Pane_Edit Paths Host_Types
begin

text \<open>
  What a tab is and how it is named: \<^verbatim>\<open>src/modules/tabs/lib/{tabTypes,tabHelpers,pages,tabView}.ts\<close>.
  A tab holds a pane tree and the id of its focused leaf; its title, cwd, path and flags mirror that
  leaf. The view pairs the active tab with the rail view that may cover the tab area.
\<close>

section \<open>Tabs\<close>

record pane_tab =
  tab_id :: nat
  tab_title :: string
  paneTree :: pane_node
  activeLeafId :: pane_id
  tab_cwd :: "string option"
  tab_path :: "string option"
  tab_dirty :: "bool option"
  tab_preview :: "bool option"

text \<open>A literal \<open>{ id, kind, title, paneTree, activeLeafId }\<close>.\<close>

definition mk_tab :: "nat \<Rightarrow> string \<Rightarrow> pane_node \<Rightarrow> pane_id \<Rightarrow> pane_tab" where
  "mk_tab i title t a = \<lparr>tab_id = i, tab_title = title, paneTree = t, activeLeafId = a,
     tab_cwd = None, tab_path = None, tab_dirty = None, tab_preview = None\<rparr>"

section \<open>Labels\<close>

definition leafKindTag :: "pane_leaf \<Rightarrow> string option" where
  "leafKindTag l =
     (case leaf_state l of
        Terminal t \<Rightarrow> if truthy (t_hostId t) then Some ''ssh'' else None
      | Rdp _ \<Rightarrow> Some ''rdp''
      | _ \<Rightarrow> None)"

type_synonym host_map = "string \<Rightarrow> host option"

text \<open>\<open>host.name.trim() || host.host\<close>.\<close>

definition host_display :: "host \<Rightarrow> string" where
  "host_display h = (let n = js_trim (h_name (base h)) in if n \<noteq> [] then n else h_host (base h))"

text \<open>The ladder SSH and RDP share: \<open>tag:<name>\<close>, or the bare tag without a known host.\<close>

definition host_label :: "string \<Rightarrow> host_map option \<Rightarrow> string \<Rightarrow> string" where
  "host_label tag hosts i =
     (case Option.bind hosts (\<lambda>m. m i) of None \<Rightarrow> tag | Some h \<Rightarrow> tag @ '':'' @ host_display h)"

text \<open>The loop over the leaf's and the tab's directory: the first with a non-empty base name.\<close>

definition cwd_label :: "string option \<Rightarrow> string option" where
  "cwd_label cwd = (if truthy cwd \<and> basename (the cwd) \<noteq> [] then Some (basename (the cwd)) else None)"

definition leafLabel :: "pane_leaf \<Rightarrow> host_map option \<Rightarrow> string option \<Rightarrow> string" where
  "leafLabel l hosts fallbackCwd =
     (if truthy (customTitle (leaf_state l)) then
        (let c = the (customTitle (leaf_state l)) in
         case leafKindTag l of None \<Rightarrow> c | Some tag \<Rightarrow> tag @ '':'' @ c)
      else
        (case leaf_state l of
           Editor e \<Rightarrow> basename (e_path e)
         | Board _ \<Rightarrow> ''Board''
         | Page p \<Rightarrow> PAGE_LABELS (page_of_tab (p_page p))
         | Rdp r \<Rightarrow> host_label ''rdp'' hosts (r_rdpConnectionId r)
         | Terminal t \<Rightarrow>
             (if truthy (t_hostId t) then host_label ''ssh'' hosts (the (t_hostId t))
              else (case first_some [cwd_label (t_cwd t), cwd_label fallbackCwd] of
                      Some b \<Rightarrow> b | None \<Rightarrow> ''shell''))))"

text \<open>\<open>startsWith\<close> followed by a slice.\<close>

definition strip_prefix :: "string \<Rightarrow> string \<Rightarrow> string" where
  "strip_prefix p s = (if take (length p) s = p then drop (length p) s else s)"

definition leafRenameSeed :: "pane_leaf \<Rightarrow> host_map option \<Rightarrow> string option \<Rightarrow> string" where
  "leafRenameSeed l hosts fallbackCwd =
     (if truthy (customTitle (leaf_state l)) then the (customTitle (leaf_state l))
      else
        (let label = leafLabel l hosts fallbackCwd in
         case leafKindTag l of
           None \<Rightarrow> label
         | Some tag \<Rightarrow> if label = tag then [] else strip_prefix (tag @ '':'') label))"

section \<open>Mirrors of the focused leaf\<close>

definition syncPaneMirror :: "pane_tab \<Rightarrow> pane_tab" where
  "syncPaneMirror t =
     (case findLeaf (paneTree t) (activeLeafId t) of
        None \<Rightarrow> t
      | Some l \<Rightarrow>
        (let nxt = t\<lparr>tab_title := leafLabel l None None\<rparr> in
         case leaf_state l of
           Terminal s \<Rightarrow> nxt\<lparr>tab_cwd := t_cwd s, tab_path := None, tab_dirty := None, tab_preview := None\<rparr>
         | Editor e \<Rightarrow> nxt\<lparr>tab_cwd := None, tab_path := Some (e_path e), tab_dirty := Some (e_dirty e),
             tab_preview := Some (e_preview e)\<rparr>
         | _ \<Rightarrow> nxt\<lparr>tab_cwd := None, tab_path := None, tab_dirty := None, tab_preview := None\<rparr>))"

definition activeLeaf :: "pane_tab \<Rightarrow> pane_leaf option" where
  "activeLeaf t = findLeaf (paneTree t) (activeLeafId t)"

datatype chrome_kind = ChromeTerminal | ChromeEditor | ChromeRdp

definition activeLeafKind :: "pane_tab \<Rightarrow> chrome_kind option" where
  "activeLeafKind t =
     (case activeLeaf t of
        None \<Rightarrow> None
      | Some l \<Rightarrow>
        (case leaf_state l of
           Terminal _ \<Rightarrow> Some ChromeTerminal
         | Editor _ \<Rightarrow> Some ChromeEditor
         | Rdp _ \<Rightarrow> Some ChromeRdp
         | Board _ \<Rightarrow> None
         | Page _ \<Rightarrow> None))"

definition isTerminalLikeTab :: "pane_tab \<Rightarrow> bool" where
  "isTerminalLikeTab t \<longleftrightarrow> activeLeafKind t = Some ChromeTerminal"

definition isEditorLikeTab :: "pane_tab \<Rightarrow> bool" where
  "isEditorLikeTab t \<longleftrightarrow> activeLeafKind t = Some ChromeEditor"

lemma syncPaneMirror_simps [simp]:
  "tab_id (syncPaneMirror t) = tab_id t"
  "paneTree (syncPaneMirror t) = paneTree t"
  "activeLeafId (syncPaneMirror t) = activeLeafId t"
  by (auto simp: syncPaneMirror_def Let_def split: option.splits leaf_state.splits)

lemma syncPaneMirror_idem [simp]: "syncPaneMirror (syncPaneMirror t) = syncPaneMirror t"
proof (cases "findLeaf (paneTree t) (activeLeafId t)")
  case (Some l)
  then show ?thesis
    by (cases "leaf_state l") (simp_all add: syncPaneMirror_def Let_def)
qed (simp add: syncPaneMirror_def)

text \<open>The mirrors agree with the focused leaf.\<close>

definition mirrored :: "pane_tab \<Rightarrow> bool" where
  "mirrored t \<longleftrightarrow> syncPaneMirror t = t"

lemma mirrored_sync [simp]: "mirrored (syncPaneMirror t)"
  by (simp add: mirrored_def)

lemma mirrored_fields:
  assumes "mirrored t" and "activeLeaf t = Some l"
  shows "tab_title t = leafLabel l None None
    \<and> tab_cwd t = (case leaf_state l of Terminal s \<Rightarrow> t_cwd s | _ \<Rightarrow> None)
    \<and> tab_path t = (case leaf_state l of Editor e \<Rightarrow> Some (e_path e) | _ \<Rightarrow> None)
    \<and> tab_dirty t = (case leaf_state l of Editor e \<Rightarrow> Some (e_dirty e) | _ \<Rightarrow> None)
    \<and> tab_preview t = (case leaf_state l of Editor e \<Rightarrow> Some (e_preview e) | _ \<Rightarrow> None)"
proof -
  have t: "t = syncPaneMirror t" using assms(1) by (simp add: mirrored_def)
  have l: "findLeaf (paneTree t) (activeLeafId t) = Some l" using assms(2) by (simp add: activeLeaf_def)
  show ?thesis
    by (subst (1 2 3 4 5) t, cases "leaf_state l") (simp_all add: syncPaneMirror_def l Let_def)
qed

section \<open>Renaming\<close>

lemma strip_prefix_append [simp]: "strip_prefix p (p @ s) = s"
  by (simp add: strip_prefix_def)

text \<open>A leaf under the name \<open>n\<close> that \<open>renameLeaf\<close> stores.\<close>

definition renamed_to :: "string \<Rightarrow> pane_leaf \<Rightarrow> pane_leaf" where
  "renamed_to n l = l\<lparr>leaf_state := with_customTitle (Some n) (leaf_state l)\<rparr>"

lemma customTitle_with [simp]: "customTitle (with_customTitle c s) = c"
  by (cases s) auto

lemma leafKindTag_renamed [simp]: "leafKindTag (renamed_to n l) = leafKindTag l"
  by (cases "leaf_state l") (auto simp: leafKindTag_def renamed_to_def)

lemma leafLabel_renamed:
  "n \<noteq> [] \<Longrightarrow> leafLabel (renamed_to n l) hosts fb =
    (case leafKindTag l of None \<Rightarrow> n | Some tag \<Rightarrow> tag @ '':'' @ n)"
  using leafKindTag_renamed [of n l] by (simp add: leafLabel_def Let_def renamed_to_def)

text \<open>The label of a tagged leaf is the tag alone or starts with the tag and a colon.\<close>

lemma leafLabel_tagged:
  assumes "leafKindTag l = Some tag"
  shows "leafLabel l hosts fb = tag \<or> (\<exists>n. leafLabel l hosts fb = tag @ '':'' @ n)"
  using assms
  by (auto simp: leafLabel_def leafKindTag_def host_label_def Let_def
      split: leaf_state.splits if_splits option.splits)

section \<open>Pages and the rail\<close>

text \<open>\<open>RailViewKind = Exclude<PageKind, TabPageKind>\<close>: the pages that are never tabs.\<close>

datatype rail_view_kind = RailVault | RailForwards | RailKnownHosts

fun page_of_rail :: "rail_view_kind \<Rightarrow> page_kind" where
  "page_of_rail RailVault = PageVault"
| "page_of_rail RailForwards = PageForwards"
| "page_of_rail RailKnownHosts = PageKnownHosts"

definition RAIL_VIEW_KINDS :: "rail_view_kind list" where
  "RAIL_VIEW_KINDS = [RailVault, RailForwards, RailKnownHosts]"

definition TAB_PAGE_KIND :: tab_page_kind where
  "TAB_PAGE_KIND = TabHosts"

definition isTabPageKind :: "string \<Rightarrow> bool" where
  "isTabPageKind v \<longleftrightarrow> v = page_name (page_of_tab TAB_PAGE_KIND)"

definition isRailViewKind :: "string \<Rightarrow> bool" where
  "isRailViewKind v \<longleftrightarrow> v \<in> set (map (page_name \<circ> page_of_rail) RAIL_VIEW_KINDS)"

lemma page_partition:
  "isPageKind v \<longleftrightarrow> (isTabPageKind v \<or> isRailViewKind v)"
  "\<not> (isTabPageKind v \<and> isRailViewKind v)"
  by (auto simp: isPageKind_def PAGE_KINDS_def isTabPageKind_def isRailViewKind_def TAB_PAGE_KIND_def
      RAIL_VIEW_KINDS_def)

record tab_view =
  activeId :: nat
  railView :: "rail_view_kind option"

definition INITIAL_TAB_VIEW :: tab_view where
  "INITIAL_TAB_VIEW = \<lparr>activeId = 0, railView = None\<rparr>"

definition focusTabView :: "tab_view \<Rightarrow> nat \<Rightarrow> tab_view" where
  "focusTabView cur i =
     (if activeId cur = i \<and> railView cur = None then cur
      else \<lparr>activeId = i, railView = None\<rparr>)"

definition rehomeTabView :: "tab_view \<Rightarrow> nat \<Rightarrow> tab_view" where
  "rehomeTabView cur i = (if activeId cur = i then cur else cur\<lparr>activeId := i\<rparr>)"

definition showTabsIn :: "tab_view \<Rightarrow> tab_view" where
  "showTabsIn cur = (if railView cur = None then cur else cur\<lparr>railView := None\<rparr>)"

definition toggleRailViewIn :: "tab_view \<Rightarrow> rail_view_kind \<Rightarrow> tab_view" where
  "toggleRailViewIn cur v = cur\<lparr>railView := (if railView cur = Some v then None else Some v)\<rparr>"

lemma focusTabView_eq: "focusTabView v i = \<lparr>activeId = i, railView = None\<rparr>"
  by (auto simp: focusTabView_def)

lemma rehomeTabView_eq: "rehomeTabView v i = v\<lparr>activeId := i\<rparr>"
  by (auto simp: rehomeTabView_def)

lemma showTabsIn_eq: "showTabsIn v = v\<lparr>railView := None\<rparr>"
  by (auto simp: showTabsIn_def)

lemmas view_simps = focusTabView_eq rehomeTabView_eq showTabsIn_eq toggleRailViewIn_def

end
