(* ===== verification/Tab_Entries.thy ===== *)
theory Tab_Entries
  imports Tab_Types
begin

text \<open>
  The tab strip and the rules for closing: \<^verbatim>\<open>src/modules/tabs/lib/{entries,closable}.ts\<close>.
  One entry per pane leaf. A page leaf and the last entry are permanent; a close that would discard
  unsaved edits or kill a process has to be confirmed.
\<close>

section \<open>Entries\<close>

datatype leaf_kind = KTerminal | KEditor | KRdp | KBoard | KPage

fun kind_of :: "leaf_state \<Rightarrow> leaf_kind" where
  "kind_of (Terminal _) = KTerminal"
| "kind_of (Editor _) = KEditor"
| "kind_of (Rdp _) = KRdp"
| "kind_of (Board _) = KBoard"
| "kind_of (Page _) = KPage"

text \<open>Decimal digits of a number in a template string.\<close>

fun show_nat :: "nat \<Rightarrow> string" where
  "show_nat n = (if n < 10 then [char_of (48 + n)] else show_nat (n div 10) @ [char_of (48 + n mod 10)])"

declare show_nat.simps [simp del]

record ('st, 'ai) entry =
  en_key :: string
  en_tabId :: nat
  en_label :: string
  en_italic :: bool
  en_dirty :: bool
  en_leafId :: pane_id
  en_leafKind :: leaf_kind
  en_ordinal :: "nat option"
  en_cwd :: "string option"
  en_hostId :: "string option"
  en_rdpConnectionId :: "string option"
  en_sshStatus :: "'st option"
  en_aiCliStatus :: "'ai option"
  en_remoteHost :: "string option"
  en_page :: "page_kind option"
  en_renamed :: bool
  en_renameSeed :: string

definition tabAccentClass :: "('st, 'ai) entry \<Rightarrow> string" where
  "tabAccentClass e =
     (case en_leafKind e of
        KTerminal \<Rightarrow> if truthy (en_hostId e) then ''bg-[color:var(--tervia-tab-ssh)]''
                     else ''bg-[color:var(--tervia-tab-terminal)]''
      | KRdp \<Rightarrow> ''bg-[color:var(--tervia-tab-ssh)]''
      | KBoard \<Rightarrow> ''bg-[color:var(--tervia-tab-ai-diff)]''
      | KPage \<Rightarrow> ''bg-[color:var(--tervia-tab-ai-diff)]''
      | KEditor \<Rightarrow> ''bg-[color:var(--tervia-tab-editor)]'')"

definition terminal_of :: "pane_leaf \<Rightarrow> terminal_leaf_state option" where
  "terminal_of l = (case leaf_state l of Terminal t \<Rightarrow> Some t | _ \<Rightarrow> None)"

definition editor_of :: "pane_leaf \<Rightarrow> editor_leaf_state option" where
  "editor_of l = (case leaf_state l of Editor e \<Rightarrow> Some e | _ \<Rightarrow> None)"

text \<open>The body of the inner loop of \<open>buildEntries\<close>.\<close>

definition entry_of ::
  "host_map \<Rightarrow> (pane_id \<Rightarrow> 'st option) \<Rightarrow> (pane_id \<Rightarrow> 'ai option) \<Rightarrow> pane_tab \<Rightarrow> pane_leaf \<Rightarrow> ('st, 'ai) entry" where
  "entry_of hosts sshStatuses aiCliStatuses t l =
     (let hostId = Option.bind (terminal_of l) t_hostId in
      \<lparr>en_key = ''leaf-'' @ show_nat (leaf_id l),
       en_tabId = tab_id t,
       en_label = leafLabel l (Some hosts) (tab_cwd t),
       en_italic = (case editor_of l of Some e \<Rightarrow> e_preview e | None \<Rightarrow> False),
       en_dirty = (case editor_of l of Some e \<Rightarrow> e_dirty e | None \<Rightarrow> False),
       en_leafId = leaf_id l,
       en_leafKind = kind_of (leaf_state l),
       en_ordinal = Option.bind (terminal_of l) t_terminalOrdinal,
       en_cwd = Option.bind (terminal_of l) t_cwd,
       en_hostId = hostId,
       en_rdpConnectionId = (case leaf_state l of Rdp r \<Rightarrow> Some (r_rdpConnectionId r) | _ \<Rightarrow> None),
       en_sshStatus = (if truthy hostId then sshStatuses (leaf_id l) else None),
       en_aiCliStatus = (if terminal_of l \<noteq> None then aiCliStatuses (leaf_id l) else None),
       en_remoteHost = (case editor_of l of
           Some e \<Rightarrow> if isRemoteEditorLeaf l
             then Some (case e_sshHostLabel e of Some s \<Rightarrow> s | None \<Rightarrow> ''remote'') else None
         | None \<Rightarrow> None),
       en_page = (case leaf_state l of Page p \<Rightarrow> Some (page_of_tab (p_page p)) | _ \<Rightarrow> None),
       en_renamed = (customTitle (leaf_state l) \<noteq> None),
       en_renameSeed = leafRenameSeed l (Some hosts) (tab_cwd t)\<rparr>)"

text \<open>The two status maps are optional arguments; an absent one answers nothing.\<close>

definition buildEntries ::
  "pane_tab list \<Rightarrow> host_map \<Rightarrow> (pane_id \<Rightarrow> 'st option) \<Rightarrow> (pane_id \<Rightarrow> 'ai option) \<Rightarrow> ('st, 'ai) entry list" where
  "buildEntries tabs hosts sshStatuses aiCliStatuses =
     concat (map (\<lambda>t. map (entry_of hosts sshStatuses aiCliStatuses t) (leaves (paneTree t))) tabs)"

fun countTabEntries :: "pane_tab list \<Rightarrow> nat" where
  "countTabEntries [] = 0"
| "countTabEntries (t # ts) = length (leaves (paneTree t)) + countTabEntries ts"

definition isLastEntryInWorkspace :: "pane_tab list \<Rightarrow> pane_id \<Rightarrow> bool" where
  "isLastEntryInWorkspace tabs i \<longleftrightarrow>
     countTabEntries tabs = 1 \<and> list_ex (\<lambda>t. hasLeaf (paneTree t) i) tabs"

section \<open>Closing\<close>

datatype close_refusal = UnknownLeaf | PermanentPage | LastEntry

definition leafInTabs :: "pane_tab list \<Rightarrow> pane_id \<Rightarrow> pane_leaf option" where
  "leafInTabs tabs i = first_some (map (\<lambda>t. findLeaf (paneTree t) i) tabs)"

definition leafCloseRefusal :: "pane_tab list \<Rightarrow> pane_id \<Rightarrow> close_refusal option" where
  "leafCloseRefusal tabs i =
     (case leafInTabs tabs i of
        None \<Rightarrow> Some UnknownLeaf
      | Some l \<Rightarrow>
        (if is_page (leaf_state l) then Some PermanentPage
         else if countTabEntries tabs \<le> 1 then Some LastEntry
         else None))"

definition canCloseLeaf :: "pane_tab list \<Rightarrow> pane_id \<Rightarrow> bool" where
  "canCloseLeaf tabs i \<longleftrightarrow> leafCloseRefusal tabs i = None"

definition tabCloseRefusal :: "pane_tab list \<Rightarrow> nat \<Rightarrow> close_refusal option" where
  "tabCloseRefusal tabs i =
     (case find (\<lambda>t. tab_id t = i) tabs of
        None \<Rightarrow> Some UnknownLeaf
      | Some t \<Rightarrow>
        (if list_ex (\<lambda>l. is_page (leaf_state l)) (leaves (paneTree t)) then Some PermanentPage
         else if length tabs \<le> 1 then Some LastEntry
         else None))"

definition canCloseTab :: "pane_tab list \<Rightarrow> nat \<Rightarrow> bool" where
  "canCloseTab tabs i \<longleftrightarrow> tabCloseRefusal tabs i = None"

datatype close_confirm_reason = Unsaved | Running

definition leafIsDirty :: "pane_leaf \<Rightarrow> bool" where
  "leafIsDirty l = (case leaf_state l of Editor e \<Rightarrow> e_dirty e | _ \<Rightarrow> False)"

definition leafIsBusy :: "pane_leaf \<Rightarrow> (pane_id \<Rightarrow> bool) \<Rightarrow> bool" where
  "leafIsBusy l isProcessRunning =
     (case leaf_state l of Terminal _ \<Rightarrow> isProcessRunning (leaf_id l) | _ \<Rightarrow> False)"

definition leafCloseConfirmReason ::
  "pane_tab list \<Rightarrow> pane_id \<Rightarrow> (pane_id \<Rightarrow> bool) \<Rightarrow> close_confirm_reason option" where
  "leafCloseConfirmReason tabs i running =
     (case leafInTabs tabs i of
        None \<Rightarrow> None
      | Some l \<Rightarrow>
        (if leafIsDirty l then Some Unsaved
         else if leafIsBusy l running then Some Running
         else None))"

definition tabCloseConfirmReason ::
  "pane_tab list \<Rightarrow> nat \<Rightarrow> (pane_id \<Rightarrow> bool) \<Rightarrow> close_confirm_reason option" where
  "tabCloseConfirmReason tabs i running =
     (case find (\<lambda>t. tab_id t = i) tabs of
        None \<Rightarrow> None
      | Some t \<Rightarrow>
        (let all = leaves (paneTree t) in
         if list_ex leafIsDirty all then Some Unsaved
         else if list_ex (\<lambda>l. leafIsBusy l running) all then Some Running
         else None))"

text \<open>The loop of \<open>splitBatchClose\<close>: the pair of lists \<open>silent\<close> and \<open>confirm\<close>.\<close>

fun splitBatchClose ::
  "pane_tab list \<Rightarrow> pane_id list \<Rightarrow> (pane_id \<Rightarrow> bool) \<Rightarrow>
    pane_id list \<times> (pane_id \<times> close_confirm_reason) list" where
  "splitBatchClose tabs [] running = ([], [])"
| "splitBatchClose tabs (i # is) running =
     (let (silent, confirm) = splitBatchClose tabs is running in
      if \<not> canCloseLeaf tabs i then (silent, confirm)
      else case leafCloseConfirmReason tabs i running of
        None \<Rightarrow> (i # silent, confirm)
      | Some r \<Rightarrow> (silent, (i, r) # confirm))"

section \<open>All leaves of a workspace\<close>

text \<open>The leaves of all tabs, in strip order: what the strip shows and what a workspace holds.\<close>

definition all_leaves :: "pane_tab list \<Rightarrow> pane_leaf list" where
  "all_leaves tabs = concat (map (\<lambda>t. leaves (paneTree t)) tabs)"

abbreviation all_ids :: "pane_tab list \<Rightarrow> pane_id list" where
  "all_ids tabs \<equiv> ids_of (all_leaves tabs)"

lemma all_leaves_simps [simp]:
  "all_leaves [] = []"
  "all_leaves (t # ts) = leaves (paneTree t) @ all_leaves ts"
  "all_leaves (ts @ us) = all_leaves ts @ all_leaves us"
  by (simp_all add: all_leaves_def)

lemma in_all_leaves: "l \<in> set (all_leaves tabs) \<longleftrightarrow> (\<exists>t \<in> set tabs. l \<in> set (leaves (paneTree t)))"
  by (auto simp: all_leaves_def)

lemma hasLeaf_in_all_ids: "t \<in> set tabs \<Longrightarrow> hasLeaf (paneTree t) i \<Longrightarrow> i \<in> set (all_ids tabs)"
  by (auto simp: leafIds_leaves in_all_leaves intro!: imageI)

lemma countTabEntries_all_leaves: "countTabEntries tabs = length (all_leaves tabs)"
  by (induction tabs) auto

lemma leafInTabs_find: "leafInTabs tabs i = find (\<lambda>l. leaf_id l = i) (all_leaves tabs)"
  unfolding leafInTabs_def all_leaves_def by (rule first_some_map_find) (simp add: findLeaf_eq)

lemma leafInTabs_SomeD: "leafInTabs tabs i = Some l \<Longrightarrow> l \<in> set (all_leaves tabs) \<and> leaf_id l = i"
  by (auto simp: leafInTabs_find find_Some_iff)

lemma leafInTabs_None_iff: "leafInTabs tabs i = None \<longleftrightarrow> i \<notin> set (all_ids tabs)"
  by (auto simp: leafInTabs_find find_None_iff)

lemma leafInTabs_iff:
  assumes "distinct (all_ids tabs)"
  shows "leafInTabs tabs i = Some l \<longleftrightarrow> l \<in> set (all_leaves tabs) \<and> leaf_id l = i"
proof
  assume l: "l \<in> set (all_leaves tabs) \<and> leaf_id l = i"
  then have "leafInTabs tabs i \<noteq> None" by (auto simp: leafInTabs_None_iff)
  then obtain k where "leafInTabs tabs i = Some k" by auto
  with l assms show "leafInTabs tabs i = Some l"
    by (metis distinct_map inj_on_eq_iff leafInTabs_SomeD)
qed (rule leafInTabs_SomeD)

lemma splitBatchClose_fst: "fst (splitBatchClose tabs is running) =
    filter (\<lambda>i. canCloseLeaf tabs i \<and> leafCloseConfirmReason tabs i running = None) is"
  by (induction "is") (auto simp: Let_def split: prod.splits option.splits)

lemma splitBatchClose_snd: "map fst (snd (splitBatchClose tabs is running)) =
    filter (\<lambda>i. canCloseLeaf tabs i \<and> leafCloseConfirmReason tabs i running \<noteq> None) is"
  by (induction "is") (auto simp: Let_def split: prod.splits option.splits)

lemma splitBatchClose_reason: "(i, r) \<in> set (snd (splitBatchClose tabs is running)) \<Longrightarrow>
    leafCloseConfirmReason tabs i running = Some r"
  by (induction "is") (auto simp: Let_def split: prod.splits option.splits if_splits)

end
