(* ===== verification/Tabs.thy ===== *)
theory Tabs
  imports Tab_Entries
begin

text \<open>
  The tab state and its operations: \<^verbatim>\<open>src/modules/tabs/lib/{useTabs,useAuxTabs}.ts\<close>. The
  hook's state is the record \<open>tabs_state\<close>: the tab list, the view, the id counter and the
  terminal number counter. Each callback is one function of that state; a callback that returns a
  value returns the pair of it and the new state.

  A state updater passed to \<open>setTabs\<close> or \<open>setView\<close> is run when it is passed, in the order of the
  calls, and \<open>tabsRef.current\<close> is the current list: this is the order in which React applies
  queued updates.
\<close>

section \<open>State and the four writers of the view\<close>

record tabs_state =
  tabs :: "pane_tab list"
  view :: tab_view
  nextId :: nat
  nextOrdinal :: nat

definition init_tabs :: tabs_state where
  "init_tabs = \<lparr>tabs = [], view = INITIAL_TAB_VIEW, nextId = 1, nextOrdinal = 2\<rparr>"

definition MAX_PANES_PER_TAB :: nat where
  "MAX_PANES_PER_TAB = 6"

definition setActiveId :: "nat \<Rightarrow> tabs_state \<Rightarrow> tabs_state" where
  "setActiveId i s = s\<lparr>view := focusTabView (view s) i\<rparr>"

definition rehomeActiveId :: "(nat \<Rightarrow> nat) \<Rightarrow> tabs_state \<Rightarrow> tabs_state" where
  "rehomeActiveId pick s = s\<lparr>view := rehomeTabView (view s) (pick (activeId (view s)))\<rparr>"

definition showTabs :: "tabs_state \<Rightarrow> tabs_state" where
  "showTabs s = s\<lparr>view := showTabsIn (view s)\<rparr>"

definition toggleRailView :: "rail_view_kind \<Rightarrow> tabs_state \<Rightarrow> tabs_state" where
  "toggleRailView v s = s\<lparr>view := toggleRailViewIn (view s) v\<rparr>"

section \<open>Terminal numbers\<close>

definition leaf_ordinals :: "pane_leaf \<Rightarrow> nat list" where
  "leaf_ordinals l =
     (case leaf_state l of
        Terminal t \<Rightarrow> (case t_terminalOrdinal t of None \<Rightarrow> [] | Some o' \<Rightarrow> [o'])
      | _ \<Rightarrow> [])"

definition ordinals :: "pane_leaf list \<Rightarrow> nat list" where
  "ordinals ls = concat (map leaf_ordinals ls)"

definition peekMaxOrdinal :: "pane_tab list \<Rightarrow> nat" where
  "peekMaxOrdinal ts = foldl max 0 (ordinals (all_leaves ts))"

text \<open>The number and the advanced counter.\<close>

definition allocOrdinal :: "pane_tab list \<Rightarrow> nat \<Rightarrow> nat \<times> nat" where
  "allocOrdinal ts n = (let m = max (n - 1) (peekMaxOrdinal ts) in (m + 1, m + 2))"

section \<open>Opening tabs\<close>

definition terminal_state :: "string option \<Rightarrow> nat \<Rightarrow> terminal_leaf_state" where
  "terminal_state cwd ord = \<lparr>t_cwd = cwd, t_hostId = None, t_terminalOrdinal = Some ord,
     t_customTitle = None, t_ptyId = None, t_savedPtyId = None, t_terminalThemeId = None,
     t_activeTool = None\<rparr>"

text \<open>A tab of one leaf appended to the list and activated: the shape of every opener.\<close>

definition append_tab :: "nat \<Rightarrow> string \<Rightarrow> pane_id \<Rightarrow> leaf_state \<Rightarrow> tabs_state \<Rightarrow> tabs_state" where
  "append_tab tabId title lid st s =
     setActiveId tabId
       (s\<lparr>tabs := tabs s @ [syncPaneMirror (mk_tab tabId title (Leaf (mk_leaf lid st)) lid)]\<rparr>)"

definition newTab :: "string option \<Rightarrow> string option \<Rightarrow> tabs_state \<Rightarrow> nat \<times> tabs_state" where
  "newTab cwd savedPtyId s =
     (let tabId = nextId s; lid = nextId s + 1; (ord, o') = allocOrdinal (tabs s) (nextOrdinal s);
          st = Terminal ((terminal_state cwd ord)\<lparr>t_savedPtyId := drop_empty savedPtyId\<rparr>)
      in (tabId, append_tab tabId ''shell'' lid st (s\<lparr>nextId := nextId s + 2, nextOrdinal := o'\<rparr>)))"

text \<open>The states of \<open>Array.from\<close>: one number per element, all from the same tab list.\<close>

fun group_states :: "nat \<Rightarrow> string option \<Rightarrow> pane_tab list \<Rightarrow> nat \<Rightarrow> leaf_state list \<times> nat" where
  "group_states 0 cwd ts n = ([], n)"
| "group_states (Suc k) cwd ts n =
     (let (ord, n') = allocOrdinal ts n; (rest, n'') = group_states k cwd ts n'
      in (Terminal (terminal_state cwd ord) # rest, n''))"

text \<open>An \<open>Inl\<close> is \<open>buildPaneTree\<close> throwing inside the updater; the count is clamped so that it never does.\<close>

definition newPaneGroupTab ::
  "int \<Rightarrow> pane_layout \<Rightarrow> string option \<Rightarrow> string \<Rightarrow> tabs_state \<Rightarrow> pane_error + (nat \<times> tabs_state)" where
  "newPaneGroupTab cnt layout cwd title s =
     (let tabId = nextId s;
          n = nat (max 1 (min cnt (int MAX_PANES_PER_TAB)));
          (states, o') = group_states n cwd (tabs s) (nextOrdinal s)
      in case buildPaneTree states layout (nextId s + 1) of
           Inl e \<Rightarrow> Inl e
         | Inr (tree, n') \<Rightarrow>
           Inr (tabId, setActiveId tabId
             (s\<lparr>tabs := tabs s @ [syncPaneMirror (mk_tab tabId title tree (hd (leafIds tree)))],
                nextId := n', nextOrdinal := o'\<rparr>)))"

definition newSshTab :: "string \<Rightarrow> string \<Rightarrow> tabs_state \<Rightarrow> nat \<times> tabs_state" where
  "newSshTab hostId title s =
     (let tabId = nextId s; lid = nextId s + 1; (ord, o') = allocOrdinal (tabs s) (nextOrdinal s);
          st = Terminal ((terminal_state None ord)\<lparr>t_hostId := Some hostId\<rparr>)
      in (tabId, append_tab tabId title lid st (s\<lparr>nextId := nextId s + 2, nextOrdinal := o'\<rparr>)))"

definition openBoardTab :: "tabs_state \<Rightarrow> nat \<times> tabs_state" where
  "openBoardTab s =
     (case find (\<lambda>t. list_ex (\<lambda>l. kind_of (leaf_state l) = KBoard) (leaves (paneTree t))) (tabs s) of
        Some t \<Rightarrow> (tab_id t, setActiveId (tab_id t) s)
      | None \<Rightarrow>
        (nextId s, append_tab (nextId s) ''Board'' (nextId s + 1) (Board \<lparr>b_customTitle = None\<rparr>)
           (s\<lparr>nextId := nextId s + 2\<rparr>)))"

definition newRdpTab :: "string \<Rightarrow> string \<Rightarrow> tabs_state \<Rightarrow> nat \<times> tabs_state" where
  "newRdpTab rdpConnectionId title s =
     (nextId s, append_tab (nextId s) title (nextId s + 1)
        (Rdp \<lparr>r_rdpConnectionId = rdpConnectionId, r_customTitle = None\<rparr>)
        (s\<lparr>nextId := nextId s + 2\<rparr>))"

text \<open>The first page leaf of the kind, with its tab.\<close>

definition find_page :: "tab_page_kind \<Rightarrow> pane_tab list \<Rightarrow> (nat \<times> pane_id) option" where
  "find_page page ts =
     first_some (map (\<lambda>t. map_option (\<lambda>l. (tab_id t, leaf_id l))
       (find (\<lambda>l. case leaf_state l of Page p \<Rightarrow> p_page p = page | _ \<Rightarrow> False) (leaves (paneTree t)))) ts)"

definition openPageTab :: "tab_page_kind \<Rightarrow> tabs_state \<Rightarrow> nat \<times> tabs_state" where
  "openPageTab page s =
     (case find_page page (tabs s) of
        Some (tid, lid) \<Rightarrow>
          (let s' = setActiveId tid s
           in (tid, s'\<lparr>tabs := map (\<lambda>t.
                if tab_id t = tid \<and> activeLeafId t \<noteq> lid
                then syncPaneMirror (t\<lparr>activeLeafId := lid\<rparr>) else t) (tabs s')\<rparr>))
      | None \<Rightarrow>
          (let tabId = nextId s; lid = nextId s + 1;
               t = syncPaneMirror (mk_tab tabId (PAGE_LABELS (page_of_tab page))
                     (Leaf (mk_leaf lid (Page \<lparr>p_page = page, p_customTitle = None\<rparr>))) lid)
           in (tabId, setActiveId tabId (s\<lparr>tabs := t # tabs s, nextId := nextId s + 2\<rparr>))))"

section \<open>Opening files\<close>

datatype remote_key = KeyHost string | KeySession nat

text \<open>\<open>hostId ?? sshSessionId ?? null\<close>.\<close>

definition editorRemoteKey :: "string option \<Rightarrow> nat option \<Rightarrow> remote_key option" where
  "editorRemoteKey hostId sessionId =
     (case hostId of Some h \<Rightarrow> Some (KeyHost h) | None \<Rightarrow> map_option KeySession sessionId)"

definition editor_hit :: "string \<Rightarrow> (editor_leaf_state \<Rightarrow> bool) \<Rightarrow> remote_key option \<Rightarrow> pane_leaf \<Rightarrow> bool" where
  "editor_hit path pred key l =
     (case editor_of l of
        None \<Rightarrow> False
      | Some e \<Rightarrow> e_path e = path \<and> editorRemoteKey (e_hostId e) (e_sshSessionId e) = key \<and> pred e)"

definition findEditorLeafIn ::
  "pane_tab list \<Rightarrow> string \<Rightarrow> (editor_leaf_state \<Rightarrow> bool) \<Rightarrow> remote_key option \<Rightarrow> (pane_tab \<times> pane_leaf) option" where
  "findEditorLeafIn ts path pred key =
     first_some (map (\<lambda>t. map_option (Pair t) (find (editor_hit path pred key) (leaves (paneTree t)))) ts)"

record remote_file =
  rf_hostId :: "string option"
  rf_sshSessionId :: nat
  rf_sshHostLabel :: string

definition editor_state :: "string \<Rightarrow> bool \<Rightarrow> remote_file option \<Rightarrow> editor_leaf_state" where
  "editor_state path preview remote =
     \<lparr>e_path = path, e_dirty = False, e_preview = preview,
      e_hostId = Option.bind remote (\<lambda>r. drop_empty (rf_hostId r)),
      e_sshSessionId = map_option rf_sshSessionId remote,
      e_sshHostLabel = map_option rf_sshHostLabel remote,
      e_customTitle = None\<rparr>"

text \<open>Focus a leaf that was found, after an update of its tree.\<close>

definition focus_hit :: "(pane_node \<Rightarrow> pane_node) \<Rightarrow> pane_tab \<Rightarrow> pane_leaf \<Rightarrow> pane_tab list \<Rightarrow> pane_tab list" where
  "focus_hit upd tab l ts = map (\<lambda>t.
     if tab_id t \<noteq> tab_id tab then t
     else syncPaneMirror (t\<lparr>paneTree := upd (paneTree t), activeLeafId := leaf_id l\<rparr>)) ts"

definition leaf_preview :: "pane_leaf \<Rightarrow> bool" where
  "leaf_preview l = (case leaf_state l of Editor e \<Rightarrow> e_preview e | _ \<Rightarrow> False)"

definition is_preview_tab :: "pane_tab \<Rightarrow> bool" where
  "is_preview_tab t \<longleftrightarrow> length (leafIds (paneTree t)) = 1 \<and>
     (case findLeaf (paneTree t) (activeLeafId t) of None \<Rightarrow> False | Some l \<Rightarrow> leaf_preview l)"

definition openFileTab :: "string \<Rightarrow> bool \<Rightarrow> remote_file option \<Rightarrow> tabs_state \<Rightarrow> nat \<times> tabs_state" where
  "openFileTab path pin remote s =
     (let key = Option.bind remote (\<lambda>r. editorRemoteKey (rf_hostId r) (Some (rf_sshSessionId r)));
          tid = nextId s; lid = nextId s + 1;
          tab = syncPaneMirror (mk_tab tid (basename path)
                  (Leaf (mk_leaf lid (Editor (editor_state path (\<not> pin) remote)))) lid)
      in if pin then
           (case findEditorLeafIn (tabs s) path (\<lambda>_. True) key of
              Some (t, l) \<Rightarrow>
                (tab_id t, setActiveId (tab_id t) (s\<lparr>tabs := focus_hit
                   (\<lambda>tree. if leaf_preview l
                           then updateEditorLeaf tree (leaf_id l) (no_patch\<lparr>patch_preview := Some False\<rparr>)
                           else tree) t l (tabs s)\<rparr>))
            | None \<Rightarrow> (tid, setActiveId tid (s\<lparr>tabs := tabs s @ [tab], nextId := nextId s + 2\<rparr>)))
         else
           (case first_some [findEditorLeafIn (tabs s) path (\<lambda>e. \<not> e_preview e) key,
                             findEditorLeafIn (tabs s) path e_preview key] of
              Some (t, l) \<Rightarrow> (tab_id t, setActiveId (tab_id t) (s\<lparr>tabs := focus_hit id t l (tabs s)\<rparr>))
            | None \<Rightarrow>
              (tid, setActiveId tid (s\<lparr>tabs := (case find_index is_preview_tab (tabs s) of
                                                  None \<Rightarrow> tabs s @ [tab]
                                                | Some i \<Rightarrow> (tabs s)[i := tab]),
                                       nextId := nextId s + 2\<rparr>))))"

definition pinTab :: "nat \<Rightarrow> tabs_state \<Rightarrow> tabs_state" where
  "pinTab i s = s\<lparr>tabs := map (\<lambda>t.
     if tab_id t \<noteq> i then t
     else case findLeaf (paneTree t) (activeLeafId t) of
       None \<Rightarrow> t
     | Some l \<Rightarrow>
       (if \<not> leaf_preview l then t
        else syncPaneMirror (t\<lparr>paneTree :=
          updateEditorLeaf (paneTree t) (leaf_id l) (no_patch\<lparr>patch_preview := Some False\<rparr>)\<rparr>))) (tabs s)\<rparr>"

section \<open>Closing\<close>

text \<open>\<open>next[Math.max(0, idx - 1)] ?? next[0]\<close>, and the id to re-home to.\<close>

definition landing :: "pane_tab list \<Rightarrow> nat \<Rightarrow> nat" where
  "landing nxt idx =
     (if idx - 1 < length nxt then tab_id (nxt ! (idx - 1))
      else case nxt of [] \<Rightarrow> 0 | t # _ \<Rightarrow> tab_id t)"

definition drop_tab :: "nat \<Rightarrow> tabs_state \<Rightarrow> tabs_state" where
  "drop_tab i s =
     (let idx = (case find_index (\<lambda>t. tab_id t = i) (tabs s) of Some k \<Rightarrow> k | None \<Rightarrow> 0);
          nxt = filter (\<lambda>t. tab_id t \<noteq> i) (tabs s)
      in rehomeActiveId (\<lambda>active. if i = active then landing nxt idx else active) (s\<lparr>tabs := nxt\<rparr>))"

definition closeTab :: "nat \<Rightarrow> tabs_state \<Rightarrow> tabs_state" where
  "closeTab i s = (if tabCloseRefusal (tabs s) i \<noteq> None then s else drop_tab i s)"

text \<open>The leaf to focus in a tree that lost \<open>lid\<close>: \<open>sib && remaining.includes(sib) ? sib : remaining[0]\<close>.\<close>

definition focus_after_removal :: "pane_node \<Rightarrow> pane_node \<Rightarrow> pane_id \<Rightarrow> pane_id \<Rightarrow> pane_id" where
  "focus_after_removal old new active lid =
     (if active \<noteq> lid then active
      else case siblingLeafOf old lid of
        Some sib \<Rightarrow> if sib \<noteq> 0 \<and> sib \<in> set (leafIds new) then sib else hd (leafIds new)
      | None \<Rightarrow> hd (leafIds new))"

definition closePaneByLeaf :: "pane_id \<Rightarrow> tabs_state \<Rightarrow> tabs_state" where
  "closePaneByLeaf lid s =
     (case find (\<lambda>t. hasLeaf (paneTree t) lid) (tabs s) of
        None \<Rightarrow> s
      | Some tab \<Rightarrow>
        (if leafCloseRefusal (tabs s) lid \<noteq> None then s
         else case removeLeaf (paneTree tab) lid of
           None \<Rightarrow> drop_tab (tab_id tab) s
         | Some newTree \<Rightarrow>
           (let newActive = focus_after_removal (paneTree tab) newTree (activeLeafId tab) lid
            in s\<lparr>tabs := map (\<lambda>x. if tab_id x \<noteq> tab_id tab then x
                 else syncPaneMirror (x\<lparr>paneTree := newTree, activeLeafId := newActive\<rparr>)) (tabs s)\<rparr>)))"

section \<open>Selecting, and writing one leaf\<close>

definition selectByIndex :: "nat \<Rightarrow> tabs_state \<Rightarrow> tabs_state" where
  "selectByIndex idx s = (if idx < length (tabs s) then setActiveId (tab_id (tabs s ! idx)) s else s)"

text \<open>Rewrite the tree of every tab holding the leaf; \<^const>\<open>None\<close> from the tree function keeps the tab.\<close>

definition upd_holders :: "pane_id \<Rightarrow> (pane_node \<Rightarrow> pane_node option) \<Rightarrow> pane_tab list \<Rightarrow> pane_tab list" where
  "upd_holders lid f ts = map (\<lambda>t.
     if \<not> hasLeaf (paneTree t) lid then t
     else case f (paneTree t) of None \<Rightarrow> t | Some tree \<Rightarrow> syncPaneMirror (t\<lparr>paneTree := tree\<rparr>)) ts"

text \<open>The terminal state of the leaf in the first tab that holds it.\<close>

definition owner_terminal :: "pane_tab list \<Rightarrow> pane_id \<Rightarrow> terminal_leaf_state option" where
  "owner_terminal ts lid =
     (case find (\<lambda>t. hasLeaf (paneTree t) lid) ts of
        None \<Rightarrow> None
      | Some owner \<Rightarrow> Option.bind (findLeaf (paneTree owner) lid) terminal_of)"

definition setLeafCwd_tabs :: "pane_id \<Rightarrow> string \<Rightarrow> tabs_state \<Rightarrow> tabs_state" where
  "setLeafCwd_tabs lid cwd s =
     (if (case owner_terminal (tabs s) lid of None \<Rightarrow> False | Some t \<Rightarrow> t_cwd t = Some cwd) then s
      else s\<lparr>tabs := upd_holders lid (\<lambda>tree. Some (setLeafCwd tree lid cwd)) (tabs s)\<rparr>)"

definition renameLeaf :: "pane_id \<Rightarrow> string option \<Rightarrow> tabs_state \<Rightarrow> tabs_state" where
  "renameLeaf lid title s = s\<lparr>tabs := upd_holders lid (\<lambda>tree. setLeafCustomTitle tree lid title) (tabs s)\<rparr>"

definition setLeafTerminalTheme_tabs :: "pane_id \<Rightarrow> string option \<Rightarrow> tabs_state \<Rightarrow> tabs_state" where
  "setLeafTerminalTheme_tabs lid themeId s =
     s\<lparr>tabs := upd_holders lid (\<lambda>tree. setLeafTerminalTheme tree lid themeId) (tabs s)\<rparr>"

definition setLeafPtyId_tabs :: "pane_id \<Rightarrow> string \<Rightarrow> tabs_state \<Rightarrow> tabs_state" where
  "setLeafPtyId_tabs lid ptyId s =
     s\<lparr>tabs := upd_holders lid (\<lambda>tree. setLeafPtyId tree lid ptyId) (tabs s)\<rparr>"

definition setLeafActiveTool_tabs :: "pane_id \<Rightarrow> ai_cli_kind option \<Rightarrow> tabs_state \<Rightarrow> tabs_state" where
  "setLeafActiveTool_tabs lid tool s =
     (if (case owner_terminal (tabs s) lid of None \<Rightarrow> False | Some t \<Rightarrow> t_activeTool t = tool) then s
      else s\<lparr>tabs := upd_holders lid (\<lambda>tree. setLeafActiveTool tree lid tool) (tabs s)\<rparr>)"

definition setSplitSizes_tabs :: "pane_id \<Rightarrow> rat list \<Rightarrow> tabs_state \<Rightarrow> tabs_state" where
  "setSplitSizes_tabs splitId sizes s = s\<lparr>tabs := map (\<lambda>t.
     case setSplitSizes (paneTree t) splitId sizes of
       None \<Rightarrow> t
     | Some tree \<Rightarrow> syncPaneMirror (t\<lparr>paneTree := tree\<rparr>)) (tabs s)\<rparr>"

text \<open>The two editor setters, over the patch they build from the leaf they found.\<close>

definition patch_editor :: "pane_id \<Rightarrow> (editor_leaf_state \<Rightarrow> editor_patch) \<Rightarrow> tabs_state \<Rightarrow> tabs_state" where
  "patch_editor lid mk s = s\<lparr>tabs := map (\<lambda>t.
     case Option.bind (findLeaf (paneTree t) lid) editor_of of
       None \<Rightarrow> t
     | Some e \<Rightarrow> syncPaneMirror (t\<lparr>paneTree := updateEditorLeaf (paneTree t) lid (mk e)\<rparr>)) (tabs s)\<rparr>"

definition setEditorLeafDirty :: "pane_id \<Rightarrow> bool \<Rightarrow> tabs_state \<Rightarrow> tabs_state" where
  "setEditorLeafDirty lid dirty = patch_editor lid (\<lambda>e.
     no_patch\<lparr>patch_dirty := Some dirty,
       patch_preview := (if dirty \<and> e_preview e then Some False else None)\<rparr>)"

definition setEditorLeafPath :: "pane_id \<Rightarrow> string \<Rightarrow> tabs_state \<Rightarrow> tabs_state" where
  "setEditorLeafPath lid path = patch_editor lid (\<lambda>_. no_patch\<lparr>patch_path := Some path\<rparr>)"

section \<open>Focus\<close>

text \<open>
  Both focus callbacks return the old array when no tab moved. The array they would otherwise
  return has the same elements, so the value of the state does not depend on it.
\<close>

definition focusPane :: "nat \<Rightarrow> pane_id \<Rightarrow> tabs_state \<Rightarrow> tabs_state" where
  "focusPane tid lid s =
     (let s' = showTabs s in
      s'\<lparr>tabs := map (\<lambda>t.
        if tab_id t \<noteq> tid \<or> \<not> hasLeaf (paneTree t) lid \<or> activeLeafId t = lid then t
        else syncPaneMirror (t\<lparr>activeLeafId := lid\<rparr>)) (tabs s')\<rparr>)"

definition focusNextPaneInTab :: "nat \<Rightarrow> int \<Rightarrow> tabs_state \<Rightarrow> tabs_state" where
  "focusNextPaneInTab tid delta s =
     (let s' = showTabs s in
      s'\<lparr>tabs := map (\<lambda>t.
        if tab_id t \<noteq> tid then t
        else
          (let nl = nextLeafId (paneTree t) (activeLeafId t) delta in
           if nl = activeLeafId t then t else syncPaneMirror (t\<lparr>activeLeafId := nl\<rparr>))) (tabs s')\<rparr>)"

section \<open>Splitting the focused pane\<close>

datatype new_kind = NewTerminal | NewEditor

text \<open>What the callback threads through \<open>curr.map\<close>: both counters and the id to return.\<close>

type_synonym split_acc = "nat \<times> nat \<times> pane_id option"

definition split_terminal_cwd :: "string option \<Rightarrow> pane_leaf \<Rightarrow> pane_tab \<Rightarrow> string option" where
  "split_terminal_cwd cwdOverride active t =
     (case cwdOverride of
        Some c \<Rightarrow> Some c
      | None \<Rightarrow> (case terminal_of active of Some ts \<Rightarrow> t_cwd ts | None \<Rightarrow> tab_cwd t))"

definition split_editor_source :: "pane_leaf \<Rightarrow> pane_tab \<Rightarrow> editor_leaf_state option" where
  "split_editor_source active t =
     (case editor_of active of
        Some e \<Rightarrow> Some e
      | None \<Rightarrow> Option.bind (find (\<lambda>l. editor_of l \<noteq> None) (leaves (paneTree t))) editor_of)"

definition clone_editor :: "editor_leaf_state \<Rightarrow> editor_leaf_state" where
  "clone_editor e = \<lparr>e_path = e_path e, e_dirty = False, e_preview = False,
     e_hostId = drop_empty (e_hostId e), e_sshSessionId = e_sshSessionId e,
     e_sshHostLabel = drop_empty (e_sshHostLabel e), e_customTitle = None\<rparr>"

definition split_tab ::
  "pane_tab list \<Rightarrow> split_dir \<Rightarrow> new_kind \<Rightarrow> string option \<Rightarrow> pane_tab \<Rightarrow> split_acc \<Rightarrow> pane_tab \<times> split_acc" where
  "split_tab ts dir kind cwdOverride t acc =
     (let (n, ord, ret) = acc in
      if MAX_PANES_PER_TAB \<le> length (leafIds (paneTree t)) then (t, acc)
      else case findLeaf (paneTree t) (activeLeafId t) of
        None \<Rightarrow> (t, acc)
      | Some active \<Rightarrow>
        (let put = (\<lambda>st. syncPaneMirror (t\<lparr>paneTree :=
               splitLeaf (paneTree t) (activeLeafId t) n (n + 1) dir st, activeLeafId := n + 1\<rparr>))
         in case kind of
              NewTerminal \<Rightarrow>
                (let (o1, o2) = allocOrdinal ts ord in
                 (put (Terminal (terminal_state (split_terminal_cwd cwdOverride active t) o1)),
                  (n + 2, o2, Some (n + 1))))
            | NewEditor \<Rightarrow>
                (case split_editor_source active t of
                   None \<Rightarrow> (t, (n + 2, ord, None))
                 | Some e \<Rightarrow> (put (Editor (clone_editor e)), (n + 2, ord, Some (n + 1))))))"

definition splitActivePane ::
  "nat \<Rightarrow> split_dir \<Rightarrow> new_kind option \<Rightarrow> string option \<Rightarrow> tabs_state \<Rightarrow> pane_id option \<times> tabs_state" where
  "splitActivePane tid dir newKind cwdOverride s =
     (let s' = showTabs s;
          kind = (case newKind of None \<Rightarrow> NewTerminal | Some k \<Rightarrow> k);
          (ts, n, ord, ret) = map_acc (\<lambda>t acc.
             if tab_id t \<noteq> tid then (t, acc)
             else split_tab (tabs s') dir kind cwdOverride t acc)
             (tabs s') (nextId s', nextOrdinal s', None)
      in (ret, s'\<lparr>tabs := ts, nextId := n, nextOrdinal := ord\<rparr>))"

section \<open>Replacing the workspace\<close>

text \<open>\<open>stamp\<close>: number every terminal leaf that has none, in tree order.\<close>

definition stamp_leaf :: "pane_leaf \<Rightarrow> nat \<Rightarrow> pane_leaf \<times> nat" where
  "stamp_leaf l n =
     (case leaf_state l of
        Terminal t \<Rightarrow>
          (if t_terminalOrdinal t = None
           then (l\<lparr>leaf_state := Terminal (t\<lparr>t_terminalOrdinal := Some n\<rparr>)\<rparr>, n + 1)
           else (l, n))
      | _ \<Rightarrow> (l, n))"

fun stamp :: "pane_node \<Rightarrow> nat \<Rightarrow> pane_node \<times> nat"
  and stamp_list :: "pane_node list \<Rightarrow> nat \<Rightarrow> pane_node list \<times> nat" where
  "stamp (Leaf l) n = (let (l', n') = stamp_leaf l n in (Leaf l', n'))"
| "stamp (Split i d cs sz) n = (let (cs', n') = stamp_list cs n in (Split i d cs' sz, n'))"
| "stamp_list [] n = ([], n)"
| "stamp_list (c # cs) n =
     (let (c', n') = stamp c n; (cs', n'') = stamp_list cs n' in (c' # cs', n''))"

definition max_id :: "pane_tab list \<Rightarrow> nat" where
  "max_id ts = foldl max 0 (concat (map (\<lambda>t. tab_id t # leafIds (paneTree t)) ts))"

definition replaceAllTabs :: "pane_tab list \<Rightarrow> nat option \<Rightarrow> tabs_state \<Rightarrow> tabs_state" where
  "replaceAllTabs nextTabs nextActiveId s =
     (let (stamped, nextOrd) = map_acc (\<lambda>t n.
            let (tree, n') = stamp (paneTree t) n in (syncPaneMirror (t\<lparr>paneTree := tree\<rparr>), n'))
            nextTabs (peekMaxOrdinal nextTabs + 1);
          s1 = s\<lparr>tabs := stamped\<rparr>;
          s2 = (case nextActiveId of Some i \<Rightarrow> setActiveId i s1 | None \<Rightarrow> showTabs s1)
      in s2\<lparr>nextId := max (nextId s) (max_id nextTabs + 1), nextOrdinal := nextOrd\<rparr>)"

definition allocId :: "tabs_state \<Rightarrow> nat \<times> tabs_state" where
  "allocId s = (nextId s, s\<lparr>nextId := nextId s + 1\<rparr>)"

section \<open>Moving leaves and tabs\<close>

datatype move_result = MoveOk | MoveFull | MoveInvalid

definition moveLeafToTab :: "pane_id \<Rightarrow> nat \<Rightarrow> tabs_state \<Rightarrow> move_result \<times> tabs_state" where
  "moveLeafToTab lid targetId s =
     (case find (\<lambda>t. hasLeaf (paneTree t) lid) (tabs s) of
        None \<Rightarrow> (MoveInvalid, s)
      | Some source \<Rightarrow>
        (if tab_id source = targetId then (MoveInvalid, s)
         else case find (\<lambda>t. tab_id t = targetId) (tabs s) of
           None \<Rightarrow> (MoveInvalid, s)
         | Some target \<Rightarrow>
           (if MAX_PANES_PER_TAB \<le> length (leafIds (paneTree target)) then (MoveFull, s)
            else case findLeaf (paneTree source) lid of
              None \<Rightarrow> (MoveInvalid, s)
            | Some l \<Rightarrow>
              (let newSource = removeLeaf (paneTree source) lid;
                   newTarget = splitLeaf (paneTree target) (activeLeafId target) (nextId s) lid Row
                                 (cloneLeafState l);
                   ts = concat (map (\<lambda>t.
                     if tab_id t = tab_id source then
                       (case newSource of
                          None \<Rightarrow> []
                        | Some tree \<Rightarrow>
                          [syncPaneMirror (t\<lparr>paneTree := tree,
                             activeLeafId := focus_after_removal (paneTree t) tree (activeLeafId t) lid\<rparr>)])
                     else if tab_id t = targetId then
                       [syncPaneMirror (t\<lparr>paneTree := newTarget, activeLeafId := lid\<rparr>)]
                     else [t]) (tabs s))
               in (MoveOk, setActiveId targetId (s\<lparr>tabs := ts, nextId := nextId s + 1\<rparr>))))))"

definition moveLeafToNewTab :: "pane_id \<Rightarrow> tabs_state \<Rightarrow> move_result \<times> tabs_state" where
  "moveLeafToNewTab lid s =
     (case find (\<lambda>t. hasLeaf (paneTree t) lid) (tabs s) of
        None \<Rightarrow> (MoveInvalid, s)
      | Some source \<Rightarrow>
        (if length (leafIds (paneTree source)) < 2 then (MoveInvalid, s)
         else case findLeaf (paneTree source) lid of
           None \<Rightarrow> (MoveInvalid, s)
         | Some l \<Rightarrow>
           (case removeLeaf (paneTree source) lid of
              None \<Rightarrow> (MoveInvalid, s)
            | Some newSource \<Rightarrow>
              (let tabId = nextId s;
                   newTab = syncPaneMirror (mk_tab tabId (tab_title source)
                              (Leaf (mk_leaf lid (cloneLeafState l))) lid);
                   sourceActive = focus_after_removal (paneTree source) newSource (activeLeafId source) lid;
                   ts = concat (map (\<lambda>t.
                     if tab_id t = tab_id source then
                       [syncPaneMirror (source\<lparr>paneTree := newSource, activeLeafId := sourceActive\<rparr>), newTab]
                     else [t]) (tabs s))
               in (MoveOk, setActiveId tabId (s\<lparr>tabs := ts, nextId := nextId s + 1\<rparr>))))))"

definition rotateLeafSplit :: "pane_id \<Rightarrow> tabs_state \<Rightarrow> tabs_state" where
  "rotateLeafSplit lid s =
     (let s' = showTabs s;
          (ts, n) = map_acc (\<lambda>t n.
            if \<not> hasLeaf (paneTree t) lid then (t, n)
            else case rotateLeafWithNeighbor (paneTree t) lid n of
              None \<Rightarrow> (t, n + 1)
            | Some rotated \<Rightarrow> (syncPaneMirror (t\<lparr>paneTree := normalizePaneTree rotated\<rparr>), n + 1))
            (tabs s') (nextId s')
      in s'\<lparr>tabs := ts, nextId := n\<rparr>)"

definition reorderLeafInGroup :: "pane_id \<Rightarrow> pane_id option \<Rightarrow> tabs_state \<Rightarrow> tabs_state" where
  "reorderLeafInGroup lid before s =
     (let s' = showTabs s in
      s'\<lparr>tabs := upd_holders lid (\<lambda>tree. reorderLeafInTree tree lid before) (tabs s')\<rparr>)"

definition movePaneLeafToEdge_tabs :: "pane_id \<Rightarrow> pane_id \<Rightarrow> pane_edge \<Rightarrow> tabs_state \<Rightarrow> tabs_state" where
  "movePaneLeafToEdge_tabs source target edge s =
     (if source = target then s
      else
        (let s' = showTabs s;
             (ts, n) = map_acc (\<lambda>t n.
               if \<not> hasLeaf (paneTree t) source \<or> \<not> hasLeaf (paneTree t) target then (t, n)
               else case movePaneLeafToEdge (paneTree t) source target edge n of
                 None \<Rightarrow> (t, n + 1)
               | Some moved \<Rightarrow> (syncPaneMirror (t\<lparr>paneTree := moved, activeLeafId := source\<rparr>), n + 1))
               (tabs s') (nextId s')
         in s'\<lparr>tabs := ts, nextId := n\<rparr>))"

definition reorderTabs :: "nat \<Rightarrow> nat option \<Rightarrow> tabs_state \<Rightarrow> tabs_state" where
  "reorderTabs fromId beforeId s =
     (case find (\<lambda>t. tab_id t = fromId) (tabs s) of
        None \<Rightarrow> s
      | Some t \<Rightarrow>
        (let others = filter (\<lambda>x. tab_id x \<noteq> fromId) (tabs s)
         in s\<lparr>tabs :=
              (case Option.bind beforeId (\<lambda>b. find_index (\<lambda>x. tab_id x = b) others) of
                 None \<Rightarrow> others @ [t]
               | Some i \<Rightarrow> insert_at i t others)\<rparr>))"

end
