(* ===== verification/Tabs_Inv.thy ===== *)
theory Tabs_Inv
  imports Tabs
begin

text \<open>
  The invariant of the tab state and its preservation. The part that concerns leaves depends only
  on the multiset of all leaves of the workspace, the rest only on one tab at a time; the locale
  \<open>tree_update\<close> states what an operation on one pane tree has to promise for the tab layer, and
  is interpreted on every such operation of \<^verbatim>\<open>panes.ts\<close>.
\<close>

section \<open>The invariant\<close>

text \<open>A previewed editor has no unsaved edits.\<close>

definition leaf_clean :: "pane_leaf \<Rightarrow> bool" where
  "leaf_clean l = (case leaf_state l of Editor e \<Rightarrow> \<not> (e_preview e \<and> e_dirty e) | _ \<Rightarrow> True)"

definition count_kind :: "leaf_kind \<Rightarrow> pane_leaf list \<Rightarrow> nat" where
  "count_kind k ls = length (filter (\<lambda>l. kind_of (leaf_state l) = k) ls)"

text \<open>
  Leaf ids are unique across the workspace, and so are terminal numbers, all of them below the
  counter; there is at most one board and at most one page leaf; no preview is dirty.
\<close>

definition leaves_ok :: "nat \<Rightarrow> pane_leaf list \<Rightarrow> bool" where
  "leaves_ok ord ls \<longleftrightarrow> distinct (ids_of ls) \<and> distinct (ordinals ls) \<and> (\<forall>x \<in> set (ordinals ls). x < ord)
     \<and> list_all leaf_clean ls \<and> count_kind KBoard ls \<le> 1 \<and> count_kind KPage ls \<le> 1"

text \<open>
  One tab: its tree is well formed with all ids allocated, the focused leaf is in the tree, the
  mirrors agree with it, and the number of panes is within the cap.
\<close>

definition tab_ok :: "nat \<Rightarrow> pane_tab \<Rightarrow> bool" where
  "tab_ok n t \<longleftrightarrow> 0 < tab_id t \<and> tab_id t < n \<and> wf_shape (paneTree t) \<and> distinct (leafIds (paneTree t))
     \<and> (\<forall>i \<in> set (nodeIds (paneTree t)). 0 < i \<and> i < n)
     \<and> activeLeafId t \<in> set (leafIds (paneTree t)) \<and> mirrored t
     \<and> length (leafIds (paneTree t)) \<le> MAX_PANES_PER_TAB"

definition tabs_ok :: "nat \<Rightarrow> nat \<Rightarrow> pane_tab list \<Rightarrow> bool" where
  "tabs_ok n ord ts \<longleftrightarrow> distinct (map tab_id ts) \<and> list_all (tab_ok n) ts \<and> leaves_ok ord (all_leaves ts)"

definition view_ok :: "pane_tab list \<Rightarrow> tab_view \<Rightarrow> bool" where
  "view_ok ts v \<longleftrightarrow> activeId v = 0 \<or> activeId v \<in> tab_id ` set ts"

definition tabs_inv :: "tabs_state \<Rightarrow> bool" where
  "tabs_inv s \<longleftrightarrow> 0 < nextId s \<and> 0 < nextOrdinal s \<and> tabs_ok (nextId s) (nextOrdinal s) (tabs s)
     \<and> view_ok (tabs s) (view s)"

section \<open>Leaves as a multiset\<close>

lemma mset_ordinals: "mset ls = mset ks \<Longrightarrow> mset (ordinals ls) = mset (ordinals ks)"
  unfolding ordinals_def by (rule mset_concat_map_cong)

lemma count_kind_mset: "mset ls = mset ks \<Longrightarrow> count_kind k ls = count_kind k ks"
  unfolding count_kind_def by (metis mset_filter size_mset)

lemma leaves_ok_mset:
  assumes "mset ls = mset ks"
  shows "leaves_ok ord ls \<longleftrightarrow> leaves_ok ord ks"
proof -
  have "mset (ids_of ls) = mset (ids_of ks)" using assms by simp
  moreover have "set ls = set ks" using assms by (rule mset_eq_setD)
  moreover have "set (ordinals ls) = set (ordinals ks)" using mset_ordinals [OF assms] by (rule mset_eq_setD)
  ultimately show ?thesis
    using assms mset_ordinals [OF assms] count_kind_mset [OF assms]
    unfolding leaves_ok_def list_all_iff by (metis mset_eq_imp_distinct_iff)
qed

text \<open>A leaf function no invariant can tell from the identity.\<close>

definition neutral :: "(pane_leaf \<Rightarrow> pane_leaf) \<Rightarrow> bool" where
  "neutral f \<longleftrightarrow> (\<forall>l. leaf_id (f l) = leaf_id l \<and> leaf_ordinals (f l) = leaf_ordinals l
     \<and> kind_of (leaf_state (f l)) = kind_of (leaf_state l) \<and> (leaf_clean l \<longrightarrow> leaf_clean (f l)))"

lemma neutral_id [simp]: "neutral (\<lambda>l. l)" "neutral id"
  by (auto simp: neutral_def)

lemma neutral_ids: "neutral f \<Longrightarrow> ids_of (map f ls) = ids_of ls"
  by (simp add: neutral_def)

lemma neutral_ordinals: "neutral f \<Longrightarrow> ordinals (map f ls) = ordinals ls"
  by (induction ls) (auto simp: ordinals_def neutral_def)

lemma neutral_count: "neutral f \<Longrightarrow> count_kind k (map f ls) = count_kind k ls"
  by (induction ls) (auto simp: count_kind_def neutral_def)

lemma leaves_ok_neutral: "neutral f \<Longrightarrow> leaves_ok ord ls \<Longrightarrow> leaves_ok ord (map f ls)"
  unfolding leaves_ok_def
  by (simp only: neutral_ids neutral_ordinals neutral_count) (auto simp: list_all_iff neutral_def)

lemma leaves_ok_mono: "leaves_ok ord ls \<Longrightarrow> ord \<le> ord' \<Longrightarrow> leaves_ok ord' ls"
  by (auto simp: leaves_ok_def)

lemma ordinals_simps [simp]:
  "ordinals [] = []" "ordinals (l # ls) = leaf_ordinals l @ ordinals ls"
  "ordinals (ls @ ks) = ordinals ls @ ordinals ks"
  by (simp_all add: ordinals_def)

lemma count_kind_simps [simp]:
  "count_kind k [] = 0"
  "count_kind k (l # ls) = (if kind_of (leaf_state l) = k then 1 else 0) + count_kind k ls"
  "count_kind k (ls @ ks) = count_kind k ls + count_kind k ks"
  by (simp_all add: count_kind_def)

lemma set_ordinals: "x \<in> set (ordinals ls) \<longleftrightarrow> (\<exists>l \<in> set ls. x \<in> set (leaf_ordinals l))"
  by (auto simp: ordinals_def)

lemma leaves_ok_part:
  assumes "leaves_ok ord (ls @ ks)"
  shows "leaves_ok ord ls" "leaves_ok ord ks"
  using assms by (auto simp: leaves_ok_def)

lemma leaves_ok_filter:
  assumes "leaves_ok ord ls"
  shows "leaves_ok ord (filter P ls)"
proof -
  have "mset ls = mset (filter P ls @ filter (\<lambda>l. \<not> P l) ls)" by (simp add: multiset_partition)
  then show ?thesis using assms leaves_ok_mset leaves_ok_part(1) by blast
qed

text \<open>Adding leaves with fresh ids and fresh numbers.\<close>

lemma leaves_ok_add:
  assumes "leaves_ok ord ls" and "leaves_ok ord' new" and "ord \<le> ord'"
    and "set (ids_of new) \<inter> set (ids_of ls) = {}"
    and "\<And>x y. x \<in> set (ordinals new) \<Longrightarrow> y \<in> set (ordinals ls) \<Longrightarrow> y < x"
    and "count_kind KBoard new + count_kind KBoard ls \<le> 1"
    and "count_kind KPage new + count_kind KPage ls \<le> 1"
  shows "leaves_ok ord' (ls @ new)"
proof -
  have "set (ordinals ls) \<inter> set (ordinals new) = {}" using assms(5) by blast
  moreover have "\<forall>x \<in> set (ordinals ls). x < ord'" using assms(1,3) by (auto simp: leaves_ok_def)
  moreover have "set (ids_of ls) \<inter> set (ids_of new) = {}" using assms(4) by blast
  ultimately show ?thesis using assms(1,2,6,7) by (auto simp: leaves_ok_def)
qed

section \<open>Tabs one by one\<close>

lemma tab_ok_mono: "tab_ok n t \<Longrightarrow> n \<le> n' \<Longrightarrow> tab_ok n' t"
  by (auto simp: tab_ok_def)

text \<open>A step of one tab: its id stays, its leaves change by \<open>f\<close> up to order.\<close>

definition tab_steps :: "(pane_leaf \<Rightarrow> pane_leaf) \<Rightarrow> nat \<Rightarrow> pane_tab \<Rightarrow> pane_tab \<Rightarrow> bool" where
  "tab_steps f n t t' \<longleftrightarrow> tab_id t' = tab_id t \<and> tab_ok n t' \<and>
     mset (leaves (paneTree t')) = mset (map f (leaves (paneTree t)))"

lemma tab_steps_stay:
  assumes "tab_ok n t" and "n \<le> n'" and "\<And>l. l \<in> set (leaves (paneTree t)) \<Longrightarrow> f l = l"
  shows "tab_steps f n' t t"
proof -
  have "map f (leaves (paneTree t)) = leaves (paneTree t)" using assms(3) by (rule map_idI)
  then show ?thesis using tab_ok_mono [OF assms(1,2)] by (simp add: tab_steps_def)
qed

lemma tab_steps_mono: "tab_steps f n t t' \<Longrightarrow> n \<le> n' \<Longrightarrow> tab_steps f n' t t'"
  by (auto simp: tab_steps_def intro: tab_ok_mono)

lemma steps_all_leaves:
  "list_all2 (tab_steps f n) ts ts' \<Longrightarrow> mset (all_leaves ts') = mset (map f (all_leaves ts))"
  by (induction rule: list_all2_induct) (auto simp: tab_steps_def)

lemma steps_ids: "list_all2 (tab_steps f n) ts ts' \<Longrightarrow> map tab_id ts' = map tab_id ts"
  by (induction rule: list_all2_induct) (auto simp: tab_steps_def)

lemma steps_tab_ok: "list_all2 (tab_steps f n) ts ts' \<Longrightarrow> list_all (tab_ok n) ts'"
  by (induction rule: list_all2_induct) (auto simp: tab_steps_def)

lemma tabs_ok_steps:
  assumes "tabs_ok n ord ts" and "neutral f" and "list_all2 (tab_steps f n') ts ts'"
  shows "tabs_ok n' ord ts'"
  using assms leaves_ok_neutral [OF assms(2)] leaves_ok_mset [OF steps_all_leaves [OF assms(3)]]
    steps_ids [OF assms(3)] steps_tab_ok [OF assms(3)]
  by (auto simp: tabs_ok_def)

lemma view_ok_ids: "map tab_id ts' = map tab_id ts \<Longrightarrow> view_ok ts' v = view_ok ts v"
  unfolding view_ok_def by (metis list.set_map)

text \<open>A state whose tabs each took a step.\<close>

lemma tabs_inv_steps:
  assumes "tabs_inv s" and "neutral f" and "list_all2 (tab_steps f (nextId s')) (tabs s) (tabs s')"
    and "nextId s \<le> nextId s'" and "nextOrdinal s' = nextOrdinal s"
    and "activeId (view s') = activeId (view s)"
  shows "tabs_inv s'"
  using assms tabs_ok_steps [OF _ assms(2,3)] view_ok_ids [OF steps_ids [OF assms(3)]]
  by (auto simp: tabs_inv_def view_ok_def)

lemma list_all2_map_iff: "list_all2 P xs (map g xs) \<longleftrightarrow> (\<forall>x \<in> set xs. P x (g x))"
  by (induction xs) auto

text \<open>The same for a callback that takes ids from the counter as it goes.\<close>

lemma map_acc_steps:
  assumes "list_all (tab_ok n) ts"
    and "\<And>t m. t \<in> set ts \<Longrightarrow> tab_ok m t \<Longrightarrow> m \<le> snd (g t m) \<and> tab_steps f (snd (g t m)) t (fst (g t m))"
  shows "n \<le> snd (map_acc g ts n) \<and> list_all2 (tab_steps f (snd (map_acc g ts n))) ts (fst (map_acc g ts n))"
  using assms
proof (induction ts arbitrary: n)
  case (Cons t ts)
  obtain t' n' where t': "g t n = (t', n')" by (cases "g t n")
  obtain ts' n'' where ts': "map_acc g ts n' = (ts', n'')" by (cases "map_acc g ts n'")
  have step: "n \<le> n'" "tab_steps f n' t t'" using Cons.prems(2) [of t n] Cons.prems(1) t' by auto
  then have "list_all (tab_ok n') ts" using Cons.prems(1) by (auto simp: list_all_iff intro: tab_ok_mono)
  then have "n' \<le> n''" "list_all2 (tab_steps f n'') ts ts'"
    using Cons.IH [of n'] Cons.prems(2) ts' by auto
  then show ?case using step t' ts' by (auto intro: tab_steps_mono)
qed simp

section \<open>Operations on one tree\<close>

text \<open>
  What the tab layer relies on from an operation on a pane tree: it changes the leaves by a neutral
  function, keeps the shape, and uses no ids but those of the tree and the ones it was given.
  \<^const>\<open>None\<close> leaves the tree alone.
\<close>

locale tree_update =
  fixes f :: "pane_leaf \<Rightarrow> pane_leaf"
    and fresh :: "nat set"
    and upd :: "pane_node \<Rightarrow> pane_node option"
  assumes f_neutral: "neutral f"
    and upd_leaves: "wf_pane t \<Longrightarrow> upd t = Some t' \<Longrightarrow> mset (leaves t') = mset (map f (leaves t))"
    and upd_shape: "wf_pane t \<Longrightarrow> upd t = Some t' \<Longrightarrow> wf_shape t'"
    and upd_nodes: "wf_pane t \<Longrightarrow> upd t = Some t' \<Longrightarrow> set (nodeIds t') \<subseteq> fresh \<union> set (nodeIds t)"
begin

lemma upd_leafIds:
  assumes "wf_pane t" and "upd t = Some t'"
  shows "mset (leafIds t') = mset (leafIds t)"
proof -
  have "mset (ids_of (leaves t')) = image_mset leaf_id (mset (map f (leaves t)))"
    by (simp only: mset_map upd_leaves [OF assms])
  also have "\<dots> = mset (ids_of (map f (leaves t)))" by (simp only: mset_map)
  finally show ?thesis by (simp only: leafIds_leaves neutral_ids [OF f_neutral])
qed

text \<open>The tab with the new tree, focused on any leaf of the old one, is a step.\<close>

lemma upd_tab:
  assumes "tab_ok n t" and "n \<le> n'" and "\<And>i. i \<in> fresh \<Longrightarrow> 0 < i \<and> i < n'"
    and "upd (paneTree t) = Some tree" and "a \<in> set (leafIds (paneTree t))"
  shows "tab_steps f n' t (syncPaneMirror (t\<lparr>paneTree := tree, activeLeafId := a\<rparr>))"
proof -
  have wf: "wf_pane (paneTree t)" using assms(1) by (simp add: tab_ok_def wf_pane_def)
  have ids: "mset (leafIds tree) = mset (leafIds (paneTree t))" by (rule upd_leafIds [OF wf assms(4)])
  have nodes: "\<forall>i \<in> set (nodeIds tree). 0 < i \<and> i < n'"
  proof
    fix i assume "i \<in> set (nodeIds tree)"
    then have "i \<in> fresh \<or> i \<in> set (nodeIds (paneTree t))" using upd_nodes [OF wf assms(4)] by auto
    then show "0 < i \<and> i < n'" using assms(1,2,3) by (fastforce simp: tab_ok_def)
  qed
  have "set (leafIds tree) = set (leafIds (paneTree t))" using ids by (rule mset_eq_setD)
  moreover have "distinct (leafIds tree)" using ids wf by (metis mset_eq_imp_distinct_iff wf_pane_def)
  moreover have "length (leafIds tree) = length (leafIds (paneTree t))" using ids by (rule mset_eq_length)
  ultimately show ?thesis
    using assms(1,2,5) nodes upd_shape [OF wf assms(4)] upd_leaves [OF wf assms(4)]
    by (auto simp: tab_steps_def tab_ok_def)
qed

lemma upd_tab_keep_focus:
  assumes "tab_ok n t" and "n \<le> n'" and "\<And>i. i \<in> fresh \<Longrightarrow> 0 < i \<and> i < n'"
    and "upd (paneTree t) = Some tree"
  shows "tab_steps f n' t (syncPaneMirror (t\<lparr>paneTree := tree\<rparr>))"
  using upd_tab [OF assms, of "activeLeafId t"] assms(1) by (simp add: tab_ok_def)

end

text \<open>An update that takes no ids and touches one leaf, applied to every tab holding that leaf.\<close>

locale leaf_update = tree_update f "{}" upd for f upd +
  fixes lid :: pane_id
  assumes f_only: "leaf_id l \<noteq> lid \<Longrightarrow> f l = l"
begin

lemma upd_holders_steps:
  assumes "list_all (tab_ok n) ts"
    and "\<And>t. upd t = None \<Longrightarrow> map f (leaves t) = leaves t"
  shows "list_all2 (tab_steps f n) ts (upd_holders lid upd ts)"
  unfolding upd_holders_def list_all2_map_iff
proof
  fix t assume t: "t \<in> set ts"
  then have ok: "tab_ok n t" using assms(1) by (auto simp: list_all_iff)
  show "tab_steps f n t (if \<not> hasLeaf (paneTree t) lid then t
      else case upd (paneTree t) of None \<Rightarrow> t | Some tree \<Rightarrow> syncPaneMirror (t\<lparr>paneTree := tree\<rparr>))"
  proof (cases "hasLeaf (paneTree t) lid")
    case False
    then have "f l = l" if "l \<in> set (leaves (paneTree t))" for l
      using that f_only [of l] by (force simp: leafIds_leaves)
    then show ?thesis using False tab_steps_stay [OF ok] by simp
  next
    case True
    show ?thesis
    proof (cases "upd (paneTree t)")
      case None
      then have "tab_steps f n t t" using assms(2) ok by (simp add: tab_steps_def del: mset_map)
      then show ?thesis using None by simp
    next
      case (Some tree)
      then show ?thesis using True upd_tab_keep_focus [OF ok order_refl] by simp
    qed
  qed
qed

lemma upd_holders_inv:
  assumes "tabs_inv s" and "\<And>t. upd t = None \<Longrightarrow> map f (leaves t) = leaves t"
  shows "tabs_inv (s\<lparr>tabs := upd_holders lid upd (tabs s)\<rparr>)"
  using assms(1) upd_holders_steps [OF _ assms(2), of "nextId s" "tabs s"]
  by (intro tabs_inv_steps [OF assms(1) f_neutral]) (auto simp: tabs_inv_def tabs_ok_def)

end

text \<open>A setter: a partial leaf function with a neutral effect, walked over the tree.\<close>

locale leaf_setter =
  fixes g :: "pane_leaf \<Rightarrow> pane_leaf option"
    and lid :: pane_id
  assumes g_neutral: "neutral (upd_fun g)"
    and g_only: "touches_only lid (upd_fun g)"
begin

lemma upd_leaf_SomeD: "upd_leaf g t = Some t' \<Longrightarrow> t' = map_leaf (upd_fun g) t"
  using upd_leaf_map_leaf [of t g] by simp

lemma upd_leaf_NoneD: "upd_leaf g t = None \<Longrightarrow> map (upd_fun g) (leaves t) = leaves t"
  using leaves_upd_leaf [of t g] by simp

end

sublocale leaf_setter \<subseteq> leaf_update "upd_fun g" "upd_leaf g" lid
proof
  show "neutral (upd_fun g)" by (rule g_neutral)
  show "leaf_id l \<noteq> lid \<Longrightarrow> upd_fun g l = l" for l using g_only by (simp add: touches_only_def)
  have keeps: "keeps_id (upd_fun g)" using g_only by (simp add: touches_only_def)
  fix t t' assume t: "wf_pane t" "upd_leaf g t = Some t'"
  then have t': "t' = map_leaf (upd_fun g) t" by (simp add: upd_leaf_SomeD)
  show "mset (leaves t') = mset (map (upd_fun g) (leaves t))" by (simp add: t' leaves_map_leaf)
  show "wf_shape t'" using t by (simp add: t' map_leaf_wf_shape wf_pane_def)
  show "set (nodeIds t') \<subseteq> {} \<union> set (nodeIds t)" by (simp add: t' map_leaf_nodeIds [OF keeps])
qed

context leaf_setter
begin

lemma setter_inv: "tabs_inv s \<Longrightarrow> tabs_inv (s\<lparr>tabs := upd_holders lid (upd_leaf g) (tabs s)\<rparr>)"
  by (rule upd_holders_inv) (auto simp: upd_leaf_NoneD)

end

section \<open>The setters of the tree satisfy the interface\<close>

lemma upd_leaf_Some: "upd_leaf (\<lambda>l. Some (h l)) t = Some (map_leaf h t)"
  by (induction t) auto

lemma upd_leaf_Some_fun: "upd_leaf (\<lambda>l. Some (h l)) = (\<lambda>t. Some (map_leaf h t))"
  by (rule ext) (rule upd_leaf_Some)

lemma upd_fun_Some [simp]: "upd_fun (\<lambda>l. Some (h l)) = h"
  by (auto simp: upd_fun_def)

lemma with_customTitle_neutral:
  "leaf_ordinals (l\<lparr>leaf_state := with_customTitle c (leaf_state l)\<rparr>) = leaf_ordinals l"
  "kind_of (with_customTitle c (leaf_state l)) = kind_of (leaf_state l)"
  "leaf_clean (l\<lparr>leaf_state := with_customTitle c (leaf_state l)\<rparr>) = leaf_clean l"
  by (cases "leaf_state l"; simp add: leaf_ordinals_def leaf_clean_def)+

lemma neutral_setters:
  "neutral (cwd_at i cwd)"
  "neutral (upd_fun (ptyId_at i pty))"
  "neutral (upd_fun (activeTool_at i tool))"
  "neutral (upd_fun (theme_at i themeId))"
  "neutral (upd_fun (title_at i title))"
  by (auto simp: neutral_def leaf_setter_defs upd_fun_def leaf_ordinals_def leaf_clean_def Let_def
      with_customTitle_neutral [unfolded leaf_ordinals_def leaf_clean_def] split: leaf_state.splits)

interpretation cwd: leaf_setter "\<lambda>l. Some (cwd_at i cwd l)" i for i cwd
  by unfold_locales (auto simp: neutral_setters touches_only_setters)

interpretation pty: leaf_setter "ptyId_at i pty" i for i pty
  by unfold_locales (auto simp: neutral_setters touches_only_setters)

interpretation tool: leaf_setter "activeTool_at i tool" i for i tool
  by unfold_locales (auto simp: neutral_setters touches_only_setters)

interpretation theme: leaf_setter "theme_at i themeId" i for i themeId
  by unfold_locales (auto simp: neutral_setters touches_only_setters)

interpretation title: leaf_setter "title_at i title" i for i title
  by unfold_locales (auto simp: neutral_setters touches_only_setters)

lemma setLeafCwd_inv: "tabs_inv s \<Longrightarrow> tabs_inv (setLeafCwd_tabs i cwd s)"
  using cwd.setter_inv [of s i cwd] by (simp add: setLeafCwd_tabs_def setLeafCwd_def upd_leaf_Some_fun)

lemma setLeafPtyId_inv: "tabs_inv s \<Longrightarrow> tabs_inv (setLeafPtyId_tabs i pty s)"
  using pty.setter_inv [of s i pty] by (simp add: setLeafPtyId_tabs_def setLeafPtyId_def)

lemma setLeafActiveTool_inv: "tabs_inv s \<Longrightarrow> tabs_inv (setLeafActiveTool_tabs i tool s)"
  using tool.setter_inv [of s i tool] by (simp add: setLeafActiveTool_tabs_def setLeafActiveTool_def)

lemma setLeafTerminalTheme_inv: "tabs_inv s \<Longrightarrow> tabs_inv (setLeafTerminalTheme_tabs i themeId s)"
  using theme.setter_inv [of s i themeId]
  by (simp add: setLeafTerminalTheme_tabs_def setLeafTerminalTheme_def)

lemma renameLeaf_inv: "tabs_inv s \<Longrightarrow> tabs_inv (renameLeaf i title s)"
  using title.setter_inv [of s i title] by (simp add: renameLeaf_def setLeafCustomTitle_def)

section \<open>Whole-tree operations satisfy the interface\<close>

interpretation sizes: tree_update id "{}" "\<lambda>t. setSplitSizes t i sz" for i sz
proof
  fix t t' assume t: "wf_pane t" "setSplitSizes t i sz = Some t'"
  note k = setSplitSizes_keeps [of t i sz]
  show "mset (leaves t') = mset (map id (leaves t))" using k t by simp
  show "wf_shape t'" using k t by (simp add: wf_pane_def)
  show "set (nodeIds t') \<subseteq> {} \<union> set (nodeIds t)" using k t by simp
qed simp

interpretation reorder: tree_update id "{}" "\<lambda>t. reorderLeafInTree t i before" for i before
proof
  fix t t' assume t: "wf_pane t" "reorderLeafInTree t i before = Some t'"
  note k = reorder_keeps [of t i before]
  show "mset (leaves t') = mset (map id (leaves t))" using k t by simp
  show "wf_shape t'" using k t by (simp add: wf_pane_def)
  show "set (nodeIds t') \<subseteq> {} \<union> set (nodeIds t)" using k t by simp
qed simp

text \<open>Reordering keeps every tab's leaves, so the frame condition on other leaves is immediate.\<close>

interpretation reorder_holders: leaf_update id "\<lambda>t. reorderLeafInTree t i before" i for i before
  by unfold_locales simp

definition rotate_and_normalize :: "pane_node \<Rightarrow> pane_id \<Rightarrow> pane_id \<Rightarrow> pane_node option" where
  "rotate_and_normalize t i s = map_option normalizePaneTree (rotateLeafWithNeighbor t i s)"

interpretation rotate: tree_update id "{s}" "\<lambda>t. rotate_and_normalize t i s" for i s
proof
  fix t t' assume t: "wf_pane t" "rotate_and_normalize t i s = Some t'"
  then obtain r where r: "rotateLeafWithNeighbor t i s = Some r" "t' = normalizePaneTree r"
    by (auto simp: rotate_and_normalize_def)
  have wf: "wf_shape t" using t by (simp add: wf_pane_def)
  note k = rotate_leaves [OF wf, of i s] rotate_wf_shape [OF wf, of i s] rotate_nodeIds [of t i s]
  show "mset (leaves t') = mset (map id (leaves t))" using k r by (simp add: leaves_normalizePaneTree)
  show "wf_shape t'"
    using k r by (simp add: canonical_wf_shape canonical_normalizePaneTree wf_shape_no_empty)
  show "set (nodeIds t') \<subseteq> {s} \<union> set (nodeIds t)"
    using k r nodeIds_normalizePaneTree [of r] by auto
qed simp

interpretation move: tree_update id "{s}" "\<lambda>t. movePaneLeafToEdge t source target edge s" for source target edge s
proof
  fix t t' assume t: "wf_pane t" "movePaneLeafToEdge t source target edge s = Some t'"
  show "mset (leaves t') = mset (map id (leaves t))" using mset_leaves_move [OF t] by simp
  show "wf_shape t'" using wf_pane_move [OF t] by (simp add: wf_pane_def)
  show "set (nodeIds t') \<subseteq> {s} \<union> set (nodeIds t)" using nodeIds_move [OF t(2)] by auto
qed simp

interpretation keep: tree_update id "{}" Some
  by unfold_locales (auto simp: wf_pane_def)

lemma setSplitSizes_inv:
  assumes "tabs_inv s"
  shows "tabs_inv (setSplitSizes_tabs i sz s)"
proof (rule tabs_inv_steps [OF assms neutral_id(2)])
  show "list_all2 (tab_steps id (nextId (setSplitSizes_tabs i sz s))) (tabs s) (tabs (setSplitSizes_tabs i sz s))"
    using assms sizes.upd_tab_keep_focus [OF _ order_refl] tab_steps_stay [OF _ order_refl, of _ _ id]
    by (auto simp: setSplitSizes_tabs_def list_all2_map_iff tabs_inv_def tabs_ok_def list_all_iff split: option.splits)
qed (simp_all add: setSplitSizes_tabs_def)

lemma showTabs_inv [simp]: "tabs_inv (showTabs s) = tabs_inv s"
  by (simp add: showTabs_def tabs_inv_def view_ok_def showTabsIn_eq)

lemma reorderLeafInGroup_inv: "tabs_inv s \<Longrightarrow> tabs_inv (reorderLeafInGroup i before s)"
  using reorder_holders.upd_holders_inv [of "showTabs s"] by (simp add: reorderLeafInGroup_def Let_def)

section \<open>Focus\<close>

lemma tab_steps_focus:
  "tab_ok n t \<Longrightarrow> a \<in> set (leafIds (paneTree t)) \<Longrightarrow>
    tab_steps id n t (syncPaneMirror (t\<lparr>activeLeafId := a\<rparr>))"
  using keep.upd_tab [OF _ order_refl, of n t "paneTree t" a] by simp

lemma focusPane_inv:
  assumes "tabs_inv s"
  shows "tabs_inv (focusPane tid lid s)"
proof (rule tabs_inv_steps [OF assms neutral_id(2)])
  show "list_all2 (tab_steps id (nextId (focusPane tid lid s))) (tabs s) (tabs (focusPane tid lid s))"
    using assms tab_steps_focus tab_steps_stay [OF _ order_refl, of _ _ id]
    by (auto simp: focusPane_def showTabs_def Let_def list_all2_map_iff tabs_inv_def tabs_ok_def list_all_iff)
qed (simp_all add: focusPane_def showTabs_def Let_def showTabsIn_eq)

lemma focusNextPaneInTab_inv:
  assumes "tabs_inv s"
  shows "tabs_inv (focusNextPaneInTab tid delta s)"
proof (rule tabs_inv_steps [OF assms neutral_id(2)])
  have ne: "nextLeafId (paneTree t) (activeLeafId t) delta \<in> set (leafIds (paneTree t))" if "tab_ok n t" for n t
    using that by (intro nextLeafId_in) (auto simp: tab_ok_def)
  show "list_all2 (tab_steps id (nextId (focusNextPaneInTab tid delta s))) (tabs s) (tabs (focusNextPaneInTab tid delta s))"
    using assms tab_steps_focus ne tab_steps_stay [OF _ order_refl, of _ _ id]
    by (auto simp: focusNextPaneInTab_def showTabs_def Let_def list_all2_map_iff tabs_inv_def tabs_ok_def list_all_iff)
qed (simp_all add: focusNextPaneInTab_def showTabs_def Let_def showTabsIn_eq)

section \<open>Operations that draw split ids\<close>

lemma tabs_inv_map_acc:
  assumes "tabs_inv s" and "neutral f"
    and "\<And>t m. t \<in> set (tabs s) \<Longrightarrow> tab_ok m t \<Longrightarrow> m \<le> snd (g t m) \<and> tab_steps f (snd (g t m)) t (fst (g t m))"
    and "map_acc g (tabs s) (nextId s) = (ts, n)"
  shows "tabs_inv (s\<lparr>tabs := ts, nextId := n\<rparr>)"
proof -
  have "list_all (tab_ok (nextId s)) (tabs s)" using assms(1) by (simp add: tabs_inv_def tabs_ok_def)
  from map_acc_steps [OF this assms(3)] assms(4)
  have "nextId s \<le> n" "list_all2 (tab_steps f n) (tabs s) ts" by simp_all
  then show ?thesis by (intro tabs_inv_steps [OF assms(1,2)]) auto
qed

lemma fresh_id: "tab_ok m t \<Longrightarrow> i \<in> {m} \<Longrightarrow> 0 < i \<and> i < m + 1"
  by (auto simp: tab_ok_def)

lemma rotateLeafSplit_inv:
  assumes "tabs_inv s"
  shows "tabs_inv (rotateLeafSplit lid s)"
proof -
  define g where "g = (\<lambda>t n. if \<not> hasLeaf (paneTree t) lid then (t, n)
    else case rotateLeafWithNeighbor (paneTree t) lid n of
      None \<Rightarrow> (t, n + 1)
    | Some rotated \<Rightarrow> (syncPaneMirror (t\<lparr>paneTree := normalizePaneTree rotated\<rparr>), n + 1))"
  have "m \<le> snd (g t m) \<and> tab_steps id (snd (g t m)) t (fst (g t m))" if ok: "tab_ok m t" for t m
  proof (cases "hasLeaf (paneTree t) lid")
    case False
    then show ?thesis using tab_steps_stay [OF ok order_refl, of id] by (simp add: g_def)
  next
    case True
    have "tab_steps id (m + 1) t (syncPaneMirror (t\<lparr>paneTree := tree\<rparr>))"
      if "rotate_and_normalize (paneTree t) lid m = Some tree" for tree
      by (rule rotate.upd_tab_keep_focus [OF ok _ fresh_id [OF ok] that]) simp
    then show ?thesis using True tab_steps_stay [OF ok, of "m + 1" id]
      by (auto simp: g_def rotate_and_normalize_def split: option.splits)
  qed
  then show ?thesis
    using tabs_inv_map_acc [of "showTabs s" id g] assms
    unfolding rotateLeafSplit_def Let_def g_def [symmetric] by (auto split: prod.splits)
qed

lemma movePaneLeafToEdge_inv:
  assumes "tabs_inv s"
  shows "tabs_inv (movePaneLeafToEdge_tabs source target edge s)"
proof -
  define g where "g = (\<lambda>t n. if \<not> hasLeaf (paneTree t) source \<or> \<not> hasLeaf (paneTree t) target then (t, n)
    else case movePaneLeafToEdge (paneTree t) source target edge n of
      None \<Rightarrow> (t, n + 1)
    | Some moved \<Rightarrow> (syncPaneMirror (t\<lparr>paneTree := moved, activeLeafId := source\<rparr>), n + 1))"
  have "m \<le> snd (g t m) \<and> tab_steps id (snd (g t m)) t (fst (g t m))" if ok: "tab_ok m t" for t m
  proof (cases "\<not> hasLeaf (paneTree t) source \<or> \<not> hasLeaf (paneTree t) target")
    case True
    then show ?thesis using tab_steps_stay [OF ok order_refl, of id] by (auto simp: g_def)
  next
    case False
    have "tab_steps id (m + 1) t (syncPaneMirror (t\<lparr>paneTree := tree, activeLeafId := source\<rparr>))"
      if "movePaneLeafToEdge (paneTree t) source target edge m = Some tree" for tree
      by (rule move.upd_tab [OF ok _ fresh_id [OF ok] that]) (use False in auto)
    then show ?thesis using False tab_steps_stay [OF ok, of "m + 1" id]
      by (auto simp: g_def split: option.splits)
  qed
  then show ?thesis
    using tabs_inv_map_acc [of "showTabs s" id g] assms
    unfolding movePaneLeafToEdge_tabs_def Let_def g_def [symmetric] by (auto split: prod.splits)
qed

section \<open>Editor flags\<close>

text \<open>The patch each editor leaf with the id gets, built from that leaf itself.\<close>

definition patch_from :: "pane_id \<Rightarrow> (editor_leaf_state \<Rightarrow> editor_patch) \<Rightarrow> pane_leaf \<Rightarrow> pane_leaf" where
  "patch_from i mk l = (case editor_of l of None \<Rightarrow> l | Some e \<Rightarrow> patch_at i (mk e) l)"

definition keeps_clean :: "(editor_leaf_state \<Rightarrow> editor_patch) \<Rightarrow> bool" where
  "keeps_clean mk \<longleftrightarrow> (\<forall>e. \<not> (e_preview e \<and> e_dirty e) \<longrightarrow>
     \<not> (e_preview (apply_patch (mk e) e) \<and> e_dirty (apply_patch (mk e) e)))"

lemma neutral_patch_from: "keeps_clean mk \<Longrightarrow> neutral (patch_from i mk)"
  by (auto simp: neutral_def patch_from_def editor_of_def patch_at_def leaf_ordinals_def leaf_clean_def
      keeps_clean_def split: leaf_state.splits)

lemma touches_only_patch_from: "touches_only i (patch_from i mk)"
  by (auto simp: touches_only_def keeps_id_def patch_from_def patch_at_def editor_of_def split: leaf_state.splits)

lemma map_leaf_cong: "(\<And>l. l \<in> set (leaves t) \<Longrightarrow> f l = g l) \<Longrightarrow> map_leaf f t = map_leaf g t"
  by (induction t) auto

lemma updateEditorLeaf_from:
  assumes "distinct (leafIds t)" and "Option.bind (findLeaf t i) editor_of = Some e"
  shows "updateEditorLeaf t i (mk e) = map_leaf (patch_from i mk) t"
  unfolding updateEditorLeaf_def
proof (rule map_leaf_cong)
  fix l assume l: "l \<in> set (leaves t)"
  obtain k where k: "findLeaf t i = Some k" "editor_of k = Some e" using assms(2) by (cases "findLeaf t i") auto
  show "patch_at i (mk e) l = patch_from i mk l"
  proof (cases "leaf_id l = i")
    case True
    then have "l = k" using l k assms(1) by (metis findLeaf_iff option.inject)
    then show ?thesis using k by (simp add: patch_from_def)
  qed (auto simp: patch_at_def patch_from_def split: option.splits)
qed

lemma patch_tab_steps:
  assumes "tab_ok n t" and "keeps_clean mk" and "Option.bind (findLeaf (paneTree t) i) editor_of = Some e"
    and "a \<in> set (leafIds (paneTree t))"
  shows "tab_steps (patch_from i mk) n t
    (syncPaneMirror (t\<lparr>paneTree := updateEditorLeaf (paneTree t) i (mk e), activeLeafId := a\<rparr>))"
proof -
  have wf: "tree_update (patch_from i mk) {} (\<lambda>t. Some (map_leaf (patch_from i mk) t))"
    using neutral_patch_from [OF assms(2)] touches_only_patch_from [of i mk]
    by unfold_locales
      (auto simp: leaves_map_leaf map_leaf_wf_shape wf_pane_def map_leaf_nodeIds touches_only_def)
  have "updateEditorLeaf (paneTree t) i (mk e) = map_leaf (patch_from i mk) (paneTree t)"
    using assms(1) updateEditorLeaf_from [OF _ assms(3)] by (simp add: tab_ok_def)
  then show ?thesis
    using tree_update.upd_tab [OF wf assms(1) order_refl _ refl assms(4)] by simp
qed

lemma patch_from_idle:
  assumes "distinct (leafIds t)" and "Option.bind (findLeaf t i) editor_of = None" and "l \<in> set (leaves t)"
  shows "patch_from i mk l = l"
proof (cases "leaf_id l = i")
  case True
  then have "findLeaf t i = Some l" using assms by (simp add: findLeaf_iff)
  then show ?thesis using assms(2) by (simp add: patch_from_def)
qed (auto simp: patch_from_def patch_at_def split: option.splits)

lemma patch_editor_inv:
  assumes "tabs_inv s" and "keeps_clean mk"
  shows "tabs_inv (patch_editor i mk s)"
proof (rule tabs_inv_steps [OF assms(1) neutral_patch_from [OF assms(2)]])
  have "tab_steps (patch_from i mk) (nextId s) t
      (case Option.bind (findLeaf (paneTree t) i) editor_of of None \<Rightarrow> t
       | Some e \<Rightarrow> syncPaneMirror (t\<lparr>paneTree := updateEditorLeaf (paneTree t) i (mk e)\<rparr>))"
    if ok: "tab_ok (nextId s) t" for t
  proof (cases "Option.bind (findLeaf (paneTree t) i) editor_of")
    case None
    have "tab_steps (patch_from i mk) (nextId s) t t"
      by (rule tab_steps_stay [OF ok order_refl]) (use ok patch_from_idle [OF _ None] in \<open>simp add: tab_ok_def\<close>)
    then show ?thesis using None by simp
  next
    case (Some e)
    then show ?thesis using patch_tab_steps [OF ok assms(2) Some, of "activeLeafId t"] ok by (simp add: tab_ok_def)
  qed
  then show "list_all2 (tab_steps (patch_from i mk) (nextId (patch_editor i mk s))) (tabs s) (tabs (patch_editor i mk s))"
    using assms(1) by (auto simp: patch_editor_def list_all2_map_iff tabs_inv_def tabs_ok_def list_all_iff)
qed (simp_all add: patch_editor_def)

lemma setEditorLeafDirty_inv: "tabs_inv s \<Longrightarrow> tabs_inv (setEditorLeafDirty i d s)"
  unfolding setEditorLeafDirty_def
  by (rule patch_editor_inv) (auto simp: keeps_clean_def apply_patch_def no_patch_def)

lemma setEditorLeafPath_inv: "tabs_inv s \<Longrightarrow> tabs_inv (setEditorLeafPath i p s)"
  unfolding setEditorLeafPath_def
  by (rule patch_editor_inv) (auto simp: keeps_clean_def apply_patch_def no_patch_def)

section \<open>Changing one tab\<close>

lemma tabs_invD:
  assumes "tabs_inv s" and "t \<in> set (tabs s)"
  shows "tab_ok (nextId s) t" and "distinct (map tab_id (tabs s))" and "distinct (all_ids (tabs s))"
  using assms by (auto simp: tabs_inv_def tabs_ok_def leaves_ok_def list_all_iff)

lemma same_tab_id: "distinct (map tab_id ts) \<Longrightarrow> t \<in> set ts \<Longrightarrow> x \<in> set ts \<Longrightarrow> tab_id x = tab_id t \<Longrightarrow> x = t"
  by (metis distinct_map inj_onD)

lemma other_tab_disjoint:
  assumes "distinct (all_ids ts)" and "t \<in> set ts" and "x \<in> set ts" and "x \<noteq> t"
  shows "set (leafIds (paneTree x)) \<inter> set (leafIds (paneTree t)) = {}"
  using assms
proof (induction ts)
  case (Cons y ts)
  have sub: "set (leafIds (paneTree z)) \<subseteq> set (all_ids ts)" if "z \<in> set ts" for z
    using that by (auto simp: leafIds_leaves in_all_leaves intro!: imageI)
  have "set (leafIds (paneTree y)) \<inter> set (all_ids ts) = {}" using Cons.prems(1) by (auto simp: leafIds_leaves)
  moreover have "distinct (all_ids ts)" using Cons.prems(1) by simp
  ultimately show ?case using Cons sub [of t] sub [of x] by (cases "x = y"; cases "t = y") auto
qed simp

lemma map_only_tab:
  assumes "distinct (map tab_id ts)" and "t \<in> set ts"
  shows "map (\<lambda>x. if tab_id x \<noteq> tab_id t then x else g x) ts = map (\<lambda>x. if x = t then g t else x) ts"
  using same_tab_id [OF assms] by (intro map_cong) auto

lemma one_tab_inv:
  assumes "tabs_inv s" and "t \<in> set (tabs s)" and "neutral f" and "tab_steps f (nextId s) t (g t)"
    and "\<And>l. leaf_id l \<notin> set (leafIds (paneTree t)) \<Longrightarrow> f l = l"
  shows "tabs_inv (s\<lparr>tabs := map (\<lambda>x. if tab_id x \<noteq> tab_id t then x else g x) (tabs s)\<rparr>)"
proof (rule tabs_inv_steps [OF assms(1,3)])
  note d = tabs_invD [OF assms(1)]
  have "tab_steps f (nextId s) x (if x = t then g t else x)" if x: "x \<in> set (tabs s)" for x
  proof (cases "x = t")
    case False
    have "set (leafIds (paneTree x)) \<inter> set (leafIds (paneTree t)) = {}"
      using other_tab_disjoint [OF d(3) [OF x] assms(2) x False] .
    moreover have "leaf_id l \<in> set (leafIds (paneTree x))" if "l \<in> set (leaves (paneTree x))" for l
      using that by (simp add: leafIds_leaves)
    ultimately have "f l = l" if "l \<in> set (leaves (paneTree x))" for l
      using assms(5) that by blast
    then show ?thesis using False tab_steps_stay [OF d(1) [OF x] order_refl] by simp
  qed (simp add: assms(4))
  then show "list_all2 (tab_steps f (nextId (s\<lparr>tabs := map (\<lambda>x. if tab_id x \<noteq> tab_id t then x else g x) (tabs s)\<rparr>)))
      (tabs s) (tabs (s\<lparr>tabs := map (\<lambda>x. if tab_id x \<noteq> tab_id t then x else g x) (tabs s)\<rparr>))"
    using map_only_tab [OF d(2) [OF assms(2)] assms(2), of g] by (simp add: list_all2_map_iff)
qed simp_all

text \<open>Activating a tab that exists, and the rail.\<close>

lemma setActiveId_inv: "tabs_inv s \<Longrightarrow> i \<in> tab_id ` set (tabs s) \<Longrightarrow> tabs_inv (setActiveId i s)"
  by (simp add: tabs_inv_def setActiveId_def view_ok_def focusTabView_eq)

lemma toggleRailView_inv: "tabs_inv s \<Longrightarrow> tabs_inv (toggleRailView v s)"
  by (simp add: tabs_inv_def toggleRailView_def toggleRailViewIn_def view_ok_def)

lemma selectByIndex_inv: "tabs_inv s \<Longrightarrow> tabs_inv (selectByIndex k s)"
  by (auto simp: selectByIndex_def intro: setActiveId_inv)

lemma map_if_absent: "\<forall>x \<in> set ts. tab_id x \<noteq> i \<Longrightarrow> map (\<lambda>x. if tab_id x \<noteq> i then x else g x) ts = ts"
  by (rule map_idI) auto

definition unpreview :: "editor_leaf_state \<Rightarrow> editor_patch" where
  "unpreview e = no_patch\<lparr>patch_preview := Some False\<rparr>"

lemma keeps_clean_unpreview: "keeps_clean unpreview"
  by (auto simp: keeps_clean_def unpreview_def apply_patch_def no_patch_def)

lemma leaf_preview_editor: "leaf_preview l \<Longrightarrow> \<exists>e. editor_of l = Some e \<and> e_preview e"
  by (auto simp: leaf_preview_def editor_of_def split: leaf_state.splits)

lemma patch_from_other: "leaf_id l \<notin> I \<Longrightarrow> i \<in> I \<Longrightarrow> patch_from i mk l = l"
  using touches_only_patch_from [of i mk] by (metis touches_only_def)

lemma patch_one_tab_inv:
  assumes "tabs_inv s" and "t \<in> set (tabs s)" and "keeps_clean mk"
    and "Option.bind (findLeaf (paneTree t) i) editor_of = Some e" and "a \<in> set (leafIds (paneTree t))"
    and "g t = syncPaneMirror (t\<lparr>paneTree := updateEditorLeaf (paneTree t) i (mk e), activeLeafId := a\<rparr>)"
  shows "tabs_inv (s\<lparr>tabs := map (\<lambda>x. if tab_id x \<noteq> tab_id t then x else g x) (tabs s)\<rparr>)"
proof (rule one_tab_inv [OF assms(1,2) neutral_patch_from [OF assms(3)]])
  show "tab_steps (patch_from i mk) (nextId s) t (g t)"
    using patch_tab_steps [OF tabs_invD(1) [OF assms(1,2)] assms(3,4,5)] assms(6) by simp
  have "i \<in> set (leafIds (paneTree t))" using assms(4) by (metis bind.bind_lzero findLeaf_None_iff option.distinct(1))
  then show "patch_from i mk l = l" if "leaf_id l \<notin> set (leafIds (paneTree t))" for l
    using patch_from_other that by blast
qed

lemma pinTab_inv:
  assumes "tabs_inv s"
  shows "tabs_inv (pinTab i s)"
proof (cases "\<exists>t \<in> set (tabs s). tab_id t = i")
  case False
  then have "\<forall>x \<in> set (tabs s). tab_id x \<noteq> i" by auto
  then show ?thesis using assms unfolding pinTab_def by (simp add: map_if_absent)
next
  case True
  then obtain t where t: "t \<in> set (tabs s)" "tab_id t = i" by auto
  note ok = tabs_invD(1) [OF assms t(1)]
  define g where "g = (\<lambda>t. case findLeaf (paneTree t) (activeLeafId t) of None \<Rightarrow> t
     | Some l \<Rightarrow> (if \<not> leaf_preview l then t else syncPaneMirror (t\<lparr>paneTree :=
          updateEditorLeaf (paneTree t) (leaf_id l) (no_patch\<lparr>patch_preview := Some False\<rparr>)\<rparr>)))"
  obtain l where l: "findLeaf (paneTree t) (activeLeafId t) = Some l" "leaf_id l = activeLeafId t"
    using ok by (metis findLeaf_None_iff findLeaf_SomeD not_None_eq tab_ok_def)
  have "tabs_inv (s\<lparr>tabs := map (\<lambda>x. if tab_id x \<noteq> tab_id t then x else g x) (tabs s)\<rparr>)"
  proof (cases "leaf_preview l")
    case True
    then obtain e where "Option.bind (findLeaf (paneTree t) (activeLeafId t)) editor_of = Some e"
      using leaf_preview_editor l by auto
    then show ?thesis
      by (rule patch_one_tab_inv [OF assms t(1) keeps_clean_unpreview, of _ _ "activeLeafId t"])
        (use ok l True in \<open>auto simp: g_def tab_ok_def unpreview_def\<close>)
  next
    case False
    then have "g t = t" using l by (simp add: g_def)
    then show ?thesis
      by (intro one_tab_inv [OF assms t(1) neutral_id(2)]) (use tab_steps_stay [OF ok order_refl, of id] in auto)
  qed
  then show ?thesis by (simp only: pinTab_def g_def t(2))
qed

section \<open>Adding and removing tabs\<close>

lemma mset_all_leaves: "mset ts = mset ts' \<Longrightarrow> mset (all_leaves ts) = mset (all_leaves ts')"
  unfolding all_leaves_def by (rule mset_concat_map_cong)

lemma tabs_ok_mset:
  assumes "mset ts = mset ts'"
  shows "tabs_ok n ord ts \<longleftrightarrow> tabs_ok n ord ts'"
proof -
  have "mset (map tab_id ts) = mset (map tab_id ts')" using assms by simp
  then show ?thesis
    using leaves_ok_mset [OF mset_all_leaves [OF assms]] mset_eq_setD [OF assms] mset_eq_imp_distinct_iff
    unfolding tabs_ok_def list_all_iff by blast
qed

lemma tabs_ok_add:
  assumes "tabs_ok n ord ts" and "tab_ok n' t" and "n \<le> n'" and "tab_id t \<notin> tab_id ` set ts"
    and "leaves_ok ord' (all_leaves ts @ leaves (paneTree t))"
  shows "tabs_ok n' ord' (ts @ [t])"
  using assms tab_ok_mono [OF _ assms(3)] by (auto simp: tabs_ok_def list_all_iff)

lemma tabs_ok_filter: "tabs_ok n ord ts \<Longrightarrow> tabs_ok n ord (filter P ts)"
proof -
  assume ok: "tabs_ok n ord ts"
  have "mset ts = mset (filter P ts @ filter (\<lambda>t. \<not> P t) ts)" by (simp add: multiset_partition)
  from ok [unfolded tabs_ok_mset [OF this]] show ?thesis
    by (auto simp: tabs_ok_def dest: leaves_ok_part(1))
qed

lemma all_ids_bound: "list_all (tab_ok n) ts \<Longrightarrow> i \<in> set (all_ids ts) \<Longrightarrow> 0 < i \<and> i < n"
  using leafIds_subset_nodeIds by (fastforce simp: in_all_leaves list_all_iff tab_ok_def leafIds_leaves)

lemma tab_ids_bound: "list_all (tab_ok n) ts \<Longrightarrow> i \<in> tab_id ` set ts \<Longrightarrow> 0 < i \<and> i < n"
  by (auto simp: list_all_iff tab_ok_def)

lemma single_tab_ok:
  "0 < i \<Longrightarrow> i < n \<Longrightarrow> 0 < lid \<Longrightarrow> lid < n \<Longrightarrow> tab_ok n (syncPaneMirror (mk_tab i title (Leaf (mk_leaf lid st)) lid))"
  by (auto simp: tab_ok_def mk_tab_def mk_leaf_def MAX_PANES_PER_TAB_def)

lemma foldl_max: "(\<forall>x \<in> set xs. x \<le> foldl max (a :: nat) xs) \<and> a \<le> foldl max a xs"
proof (induction xs arbitrary: a)
  case (Cons x xs)
  from Cons [of "max a x"] show ?case by auto
qed simp

lemma peekMaxOrdinal_ge: "x \<in> set (ordinals (all_leaves ts)) \<Longrightarrow> x \<le> peekMaxOrdinal ts"
  using foldl_max [of "ordinals (all_leaves ts)" 0] by (simp add: peekMaxOrdinal_def)

lemma allocOrdinal_fresh:
  assumes "allocOrdinal ts n = (ord, n')" and "0 < n"
  shows "n \<le> ord" and "n' = ord + 1" and "\<And>x. x \<in> set (ordinals (all_leaves ts)) \<Longrightarrow> x < ord"
  using assms peekMaxOrdinal_ge [of _ ts] by (fastforce simp: allocOrdinal_def Let_def)+

text \<open>A new tab of one leaf, anywhere in the list, focused.\<close>

lemma new_leaf_tab_inv:
  assumes inv: "tabs_inv s"
    and t: "t = syncPaneMirror (mk_tab (nextId s) title (Leaf (mk_leaf (nextId s + 1) st)) (nextId s + 1))"
    and s': "mset (tabs s') = add_mset t (mset (tabs s))" "nextId s' = nextId s + 2"
      "nextOrdinal s \<le> nextOrdinal s'" "activeId (view s') = nextId s"
    and clean: "leaf_clean (mk_leaf (nextId s + 1) st)"
    and ords: "\<And>x. x \<in> set (leaf_ordinals (mk_leaf (nextId s + 1) st)) \<Longrightarrow>
      x < nextOrdinal s' \<and> (\<forall>y \<in> set (ordinals (all_leaves (tabs s))). y < x)"
    and board: "kind_of st = KBoard \<Longrightarrow> count_kind KBoard (all_leaves (tabs s)) = 0"
    and page: "kind_of st = KPage \<Longrightarrow> count_kind KPage (all_leaves (tabs s)) = 0"
  shows "tabs_inv s'"
proof -
  let ?l = "mk_leaf (nextId s + 1) st"
  have ok: "tabs_ok (nextId s) (nextOrdinal s) (tabs s)" "0 < nextId s" using inv by (auto simp: tabs_inv_def)
  have all: "list_all (tab_ok (nextId s)) (tabs s)" "leaves_ok (nextOrdinal s) (all_leaves (tabs s))"
    using ok by (auto simp: tabs_ok_def)
  have one: "leaves_ok (nextOrdinal s') [?l]"
    using clean ords by (auto simp: leaves_ok_def leaf_ordinals_def mk_leaf_def split: leaf_state.splits option.splits)
  have fresh: "leaf_id ?l \<notin> set (all_ids (tabs s))"
    using all_ids_bound [OF all(1), of "nextId s + 1"] by (auto simp: mk_leaf_def)
  have "leaves_ok (nextOrdinal s') (all_leaves (tabs s) @ [?l])"
    by (rule leaves_ok_add [OF all(2) one s'(3)])
      (use fresh ords board page all(2) in \<open>auto simp: leaves_ok_def mk_leaf_def\<close>)
  moreover have "leaves (paneTree t) = [?l]" "tab_id t = nextId s" by (simp_all add: t mk_tab_def)
  moreover have "tab_id t \<notin> tab_id ` set (tabs s)"
    using tab_ids_bound [OF all(1), of "nextId s"] \<open>tab_id t = nextId s\<close> by auto
  moreover have "tab_ok (nextId s') t"
    unfolding t s'(2) using ok(2) by (intro single_tab_ok) auto
  ultimately have "tabs_ok (nextId s') (nextOrdinal s') (tabs s @ [t])"
    using ok(1) s'(2) by (intro tabs_ok_add [OF ok(1)]) auto
  then have "tabs_ok (nextId s') (nextOrdinal s') (tabs s')"
    using tabs_ok_mset [of "tabs s'" "tabs s @ [t]"] s'(1) by simp
  moreover have "t \<in> set (tabs s')" using s'(1) by (metis set_mset_mset union_single_eq_member)
  ultimately show ?thesis
    using s' \<open>tab_id t = nextId s\<close> inv by (force simp: tabs_inv_def view_ok_def)
qed

lemma append_tab_simps [simp]:
  "tabs (append_tab i title lid st s) = tabs s @ [syncPaneMirror (mk_tab i title (Leaf (mk_leaf lid st)) lid)]"
  "nextId (append_tab i title lid st s) = nextId s"
  "nextOrdinal (append_tab i title lid st s) = nextOrdinal s"
  "view (append_tab i title lid st s) = \<lparr>activeId = i, railView = None\<rparr>"
  by (simp_all add: append_tab_def setActiveId_def focusTabView_eq)

lemma leaf_facts [simp]:
  "leaf_ordinals (mk_leaf i (Terminal t)) = (case t_terminalOrdinal t of None \<Rightarrow> [] | Some x \<Rightarrow> [x])"
  "leaf_ordinals (mk_leaf i (Editor e)) = []" "leaf_ordinals (mk_leaf i (Rdp r)) = []"
  "leaf_ordinals (mk_leaf i (Board b)) = []" "leaf_ordinals (mk_leaf i (Page p)) = []"
  "leaf_clean (mk_leaf i (Terminal t))" "leaf_clean (mk_leaf i (Rdp r))"
  "leaf_clean (mk_leaf i (Board b))" "leaf_clean (mk_leaf i (Page p))"
  "leaf_clean (mk_leaf i (Editor e)) \<longleftrightarrow> \<not> (e_preview e \<and> e_dirty e)"
  by (simp_all add: leaf_ordinals_def leaf_clean_def mk_leaf_def)

lemma newTab_inv: "tabs_inv s \<Longrightarrow> tabs_inv (snd (newTab cwd pty s))"
proof -
  assume inv: "tabs_inv s"
  obtain ord o' where a: "allocOrdinal (tabs s) (nextOrdinal s) = (ord, o')" by fastforce
  have "0 < nextOrdinal s" using inv by (simp add: tabs_inv_def)
  note f = allocOrdinal_fresh [OF a this]
  show ?thesis
    by (rule new_leaf_tab_inv [OF inv refl]) (use f in \<open>auto simp: newTab_def Let_def a terminal_state_def\<close>)
qed

lemma newSshTab_inv: "tabs_inv s \<Longrightarrow> tabs_inv (snd (newSshTab h title s))"
proof -
  assume inv: "tabs_inv s"
  obtain ord o' where a: "allocOrdinal (tabs s) (nextOrdinal s) = (ord, o')" by fastforce
  have "0 < nextOrdinal s" using inv by (simp add: tabs_inv_def)
  note f = allocOrdinal_fresh [OF a this]
  show ?thesis
    by (rule new_leaf_tab_inv [OF inv refl]) (use f in \<open>auto simp: newSshTab_def Let_def a terminal_state_def\<close>)
qed

lemma newRdpTab_inv: "tabs_inv s \<Longrightarrow> tabs_inv (snd (newRdpTab h title s))"
  by (rule new_leaf_tab_inv [OF _ refl]) (auto simp: newRdpTab_def)

lemma count_kind_zero: "count_kind k ls = 0 \<longleftrightarrow> (\<forall>l \<in> set ls. kind_of (leaf_state l) \<noteq> k)"
  by (auto simp: count_kind_def filter_empty_conv)

lemma openBoardTab_inv:
  assumes "tabs_inv s"
  shows "tabs_inv (snd (openBoardTab s))"
proof (cases "find (\<lambda>t. list_ex (\<lambda>l. kind_of (leaf_state l) = KBoard) (leaves (paneTree t))) (tabs s)")
  case None
  then have "count_kind KBoard (all_leaves (tabs s)) = 0"
    by (auto simp: find_None_iff count_kind_zero in_all_leaves list_ex_iff)
  then show ?thesis using None by (intro new_leaf_tab_inv [OF assms refl]) (auto simp: openBoardTab_def)
next
  case (Some t)
  then have "t \<in> set (tabs s)" by (auto simp: find_Some_iff)
  then show ?thesis using Some assms by (auto simp: openBoardTab_def intro: setActiveId_inv)
qed

lemma find_page_SomeD:
  assumes "find_page page ts = Some (tid, lid)"
  obtains t l where "t \<in> set ts" and "tab_id t = tid" and "l \<in> set (leaves (paneTree t))" and "leaf_id l = lid"
    and "is_page (leaf_state l)"
proof -
  from first_some_mapD [OF assms [unfolded find_page_def]] obtain t where t: "t \<in> set ts"
    "map_option (\<lambda>l. (tab_id t, leaf_id l))
      (find (\<lambda>l. case leaf_state l of Page p \<Rightarrow> p_page p = page | _ \<Rightarrow> False) (leaves (paneTree t))) = Some (tid, lid)"
    by blast
  then obtain l where "find (\<lambda>l. case leaf_state l of Page p \<Rightarrow> p_page p = page | _ \<Rightarrow> False) (leaves (paneTree t)) = Some l"
    "tab_id t = tid" "leaf_id l = lid" by auto
  moreover from this(1) have "l \<in> set (leaves (paneTree t))" "is_page (leaf_state l)"
    using find_SomeD by (fastforce, cases "leaf_state l") (fastforce dest: find_SomeD)+
  ultimately show thesis using that t(1) by blast
qed

lemma find_page_None: "find_page page ts = None \<Longrightarrow> count_kind KPage (all_leaves ts) = 0"
proof -
  assume "find_page page ts = None"
  then have none: "\<forall>l \<in> set (all_leaves ts). \<not> (case leaf_state l of Page p \<Rightarrow> p_page p = page | _ \<Rightarrow> False)"
    by (auto simp: find_page_def first_some_None find_None_iff in_all_leaves)
  have "p_page p = page" for p by (metis (full_types) tab_page_kind.exhaust)
  then have "\<forall>l \<in> set (all_leaves ts). kind_of (leaf_state l) \<noteq> KPage"
    using none by (force split: leaf_state.splits elim!: kind_of.elims)
  then show ?thesis by (simp add: count_kind_zero)
qed

lemma openPageTab_inv:
  assumes "tabs_inv s"
  shows "tabs_inv (snd (openPageTab page s))"
proof (cases "find_page page (tabs s)")
  case None
  then show ?thesis
    using find_page_None [OF None]
    by (intro new_leaf_tab_inv [OF assms refl])
      (auto simp: openPageTab_def Let_def setActiveId_def focusTabView_eq)
next
  case (Some p)
  obtain tid lid where p: "p = (tid, lid)" by (cases p)
  obtain t l where t: "t \<in> set (tabs s)" "tab_id t = tid" "l \<in> set (leaves (paneTree t))" "leaf_id l = lid"
    using find_page_SomeD Some p by metis
  let ?g = "\<lambda>t. if activeLeafId t \<noteq> lid then syncPaneMirror (t\<lparr>activeLeafId := lid\<rparr>) else t"
  have inv': "tabs_inv (setActiveId tid s)" using assms t by (auto intro: setActiveId_inv)
  have eq: "(\<lambda>t. if tab_id t = tid \<and> activeLeafId t \<noteq> lid then syncPaneMirror (t\<lparr>activeLeafId := lid\<rparr>) else t)
      = (\<lambda>x. if tab_id x \<noteq> tab_id t then x else ?g x)" using t(2) by auto
  have "tabs_inv (setActiveId tid s\<lparr>tabs :=
      map (\<lambda>x. if tab_id x \<noteq> tab_id t then x else ?g x) (tabs (setActiveId tid s))\<rparr>)"
  proof (rule one_tab_inv [OF inv' _ neutral_id(2)])
    show "t \<in> set (tabs (setActiveId tid s))" using t by (simp add: setActiveId_def)
    have ok: "tab_ok (nextId (setActiveId tid s)) t" using tabs_invD(1) [OF assms t(1)] by (simp add: setActiveId_def)
    show "tab_steps id (nextId (setActiveId tid s)) t (?g t)"
      using tab_steps_stay [OF ok order_refl, of id] tab_steps_focus [OF ok, of lid] t(3,4)
      by (auto simp: leafIds_leaves)
  qed simp
  then show ?thesis unfolding openPageTab_def Some p by (simp add: Let_def eq)
qed

text \<open>Opening a file: an editor that is found is focused, a new one is added or takes the preview slot.\<close>

lemma findEditorLeafIn_SomeD:
  assumes "findEditorLeafIn ts path pred key = Some (t, l)"
  shows "t \<in> set ts \<and> l \<in> set (leaves (paneTree t)) \<and> editor_hit path pred key l"
proof -
  from first_some_mapD [OF assms [unfolded findEditorLeafIn_def]] obtain x where
    "x \<in> set ts" "map_option (Pair x) (find (editor_hit path pred key) (leaves (paneTree x))) = Some (t, l)"
    by blast
  then show ?thesis by (auto simp: find_Some_iff)
qed

lemma focus_hit_inv:
  assumes "tabs_inv s" and "t \<in> set (tabs s)" and "l \<in> set (leaves (paneTree t))"
  shows "tabs_inv (s\<lparr>tabs := focus_hit id t l (tabs s)\<rparr>)"
  unfolding focus_hit_def
  using tab_steps_focus [OF tabs_invD(1) [OF assms(1,2)], of "leaf_id l"] assms(3)
  by (intro one_tab_inv [OF assms(1,2) neutral_id(2)]) (auto simp: leafIds_leaves)

lemma focus_hit_pin_inv:
  assumes "tabs_inv s" and "t \<in> set (tabs s)" and "l \<in> set (leaves (paneTree t))" and "leaf_preview l"
  shows "tabs_inv (s\<lparr>tabs := focus_hit (\<lambda>tree. updateEditorLeaf tree (leaf_id l) (no_patch\<lparr>patch_preview := Some False\<rparr>)) t l (tabs s)\<rparr>)"
proof -
  obtain e where e: "editor_of l = Some e" using leaf_preview_editor [OF assms(4)] by blast
  have "findLeaf (paneTree t) (leaf_id l) = Some l"
    using tabs_invD(1) [OF assms(1,2)] assms(3) by (simp add: findLeaf_iff tab_ok_def)
  then have b: "Option.bind (findLeaf (paneTree t) (leaf_id l)) editor_of = Some e" using e by simp
  show ?thesis unfolding focus_hit_def
    by (rule patch_one_tab_inv [OF assms(1,2) keeps_clean_unpreview b, of "leaf_id l"])
      (use assms(3) in \<open>auto simp: leafIds_leaves unpreview_def\<close>)
qed

lemma setActive_commute: "setActiveId i s\<lparr>tabs := ts\<rparr> = setActiveId i (s\<lparr>tabs := ts\<rparr>)"
  by (simp add: setActiveId_def)

lemma focus_hit_ids [simp]: "tab_id ` set (focus_hit u t l ts) = tab_id ` set ts"
proof -
  have "map tab_id (focus_hit u t l ts) = map tab_id ts" by (simp add: focus_hit_def)
  then show ?thesis by (metis list.set_map)
qed

lemma replaced_tab_inv:
  assumes "tabs_inv s" and "i < length (tabs s)"
  shows "tabs_inv (s\<lparr>tabs := take i (tabs s) @ drop (Suc i) (tabs s), view := v\<lparr>activeId := 0\<rparr>\<rparr>)"
proof -
  let ?r = "take i (tabs s) @ drop (Suc i) (tabs s)"
  have "mset (tabs s) = mset (?r @ [tabs s ! i])"
    by (subst id_take_nth_drop [OF assms(2)]) simp
  then have "tabs_ok (nextId s) (nextOrdinal s) (?r @ [tabs s ! i])"
    using assms(1) tabs_ok_mset by (metis tabs_inv_def)
  then have "tabs_ok (nextId s) (nextOrdinal s) ?r"
    using leaves_ok_part(1) [of "nextOrdinal s" "all_leaves ?r"] unfolding tabs_ok_def by auto
  then show ?thesis using assms(1) by (simp add: tabs_inv_def view_ok_def)
qed

lemma openFileTab_inv:
  assumes "tabs_inv s"
  shows "tabs_inv (snd (openFileTab path pin remote s))"
proof -
  define key where "key = Option.bind remote (\<lambda>r. editorRemoteKey (rf_hostId r) (Some (rf_sshSessionId r)))"
  define hit where "hit = (if pin then findEditorLeafIn (tabs s) path (\<lambda>_. True) key
    else first_some [findEditorLeafIn (tabs s) path (\<lambda>e. \<not> e_preview e) key, findEditorLeafIn (tabs s) path e_preview key])"
  show ?thesis
  proof (cases hit)
    case (Some p)
    obtain t l where p: "p = (t, l)" by (cases p)
    have t: "t \<in> set (tabs s)" "l \<in> set (leaves (paneTree t))"
      using Some p findEditorLeafIn_SomeD unfolding hit_def
      by (auto split: if_splits dest!: first_some_SomeD, metis+)
    have a: "tabs_inv (setActiveId (tab_id t) (s\<lparr>tabs := ts\<rparr>))"
      if "tabs_inv (s\<lparr>tabs := ts\<rparr>)" "tab_id ` set ts = tab_id ` set (tabs s)" for ts
      using that t by (auto intro: setActiveId_inv)
    have unfold1: "(\<lambda>tree. if leaf_preview l then updateEditorLeaf tree (leaf_id l) (no_patch\<lparr>patch_preview := Some False\<rparr>) else tree)
      = (if leaf_preview l then (\<lambda>tree. updateEditorLeaf tree (leaf_id l) (no_patch\<lparr>patch_preview := Some False\<rparr>)) else id)"
      by auto
    have "tabs_inv (s\<lparr>tabs := focus_hit (\<lambda>tree. if leaf_preview l then updateEditorLeaf tree (leaf_id l) (no_patch\<lparr>patch_preview := Some False\<rparr>) else tree) t l (tabs s)\<rparr>)"
      unfolding unfold1 using focus_hit_inv [OF assms t] focus_hit_pin_inv [OF assms t] by simp
    then show ?thesis
      using Some a focus_hit_inv [OF assms t] unfolding openFileTab_def key_def [symmetric] Let_def hit_def p
      by (cases pin) auto
  next
    case None
    let ?lid = "nextId s + 1" and ?st = "Editor (editor_state path (\<not> pin) remote)"
    let ?tab = "syncPaneMirror (mk_tab (nextId s) (basename path) (Leaf (mk_leaf ?lid ?st)) ?lid)"
    have st: "leaf_clean (mk_leaf ?lid ?st)" by (simp add: editor_state_def)
    have add: "tabs_inv (setActiveId (nextId s) (s\<lparr>tabs := tabs s @ [?tab], nextId := nextId s + 2\<rparr>))"
      by (rule new_leaf_tab_inv [OF assms refl]) (use st in \<open>auto simp: setActiveId_def focusTabView_eq\<close>)
    have slot: "tabs_inv (setActiveId (nextId s) (s\<lparr>tabs := (tabs s)[i := ?tab], nextId := nextId s + 2\<rparr>))"
      if i: "find_index is_preview_tab (tabs s) = Some i" for i
    proof -
      have il: "i < length (tabs s)" using find_index_SomeD [OF i] by simp
      show ?thesis
        by (rule new_leaf_tab_inv [OF replaced_tab_inv [OF assms il, of "view s"],
              where t = ?tab and title = "basename path" and st = ?st])
          (use st il in \<open>auto simp: setActiveId_def focusTabView_eq upd_conv_take_nth_drop\<close>)
    qed
    show ?thesis
      using None add slot unfolding openFileTab_def key_def [symmetric] Let_def hit_def
      by (cases pin) (auto split: option.splits)
  qed
qed

lemma reorderTabs_mset: "distinct (map tab_id (tabs s)) \<Longrightarrow> mset (tabs (reorderTabs i b s)) = mset (tabs s)"
proof (cases "find (\<lambda>t. tab_id t = i) (tabs s)")
  case (Some t)
  assume d: "distinct (map tab_id (tabs s))"
  have t: "t \<in> set (tabs s)" "tab_id t = i" using find_SomeD [OF Some] by auto
  have "add_mset t (mset (filter (\<lambda>x. tab_id x \<noteq> i) (tabs s))) = mset (tabs s)"
    using d t
  proof (induction "tabs s" arbitrary: s)
    case (Cons x xs)
    have ts: "tabs s = x # xs" using Cons by simp
    show ?case
    proof (cases "x = t")
      case True
      then have "\<forall>y \<in> set xs. tab_id y \<noteq> i" using Cons.prems ts by (auto simp: image_iff)
      then show ?thesis using True Cons.prems ts by (simp add: filter_id_conv)
    next
      case False
      then have "tab_id x \<noteq> i" using Cons.prems ts by auto
      moreover have "add_mset t (mset (filter (\<lambda>x. tab_id x \<noteq> i) xs)) = mset xs"
        using Cons.hyps(1) [of "s\<lparr>tabs := xs\<rparr>"] Cons.prems ts False by simp
      ultimately show ?thesis by (simp add: ts)
    qed
  qed simp
  then show ?thesis using Some by (auto simp: reorderTabs_def Let_def split: option.splits)
qed (simp add: reorderTabs_def)

lemma reorderTabs_keeps [simp]:
  "view (reorderTabs i b s) = view s" "nextId (reorderTabs i b s) = nextId s"
  "nextOrdinal (reorderTabs i b s) = nextOrdinal s"
  by (auto simp: reorderTabs_def Let_def split: option.splits)

lemma reorderTabs_inv:
  assumes "tabs_inv s"
  shows "tabs_inv (reorderTabs i b s)"
proof -
  have "distinct (map tab_id (tabs s))" using assms by (simp add: tabs_inv_def tabs_ok_def)
  note m = reorderTabs_mset [OF this, of i b]
  show ?thesis using assms tabs_ok_mset [OF m] mset_eq_setD [OF m]
    by (simp add: tabs_inv_def view_ok_def)
qed

section \<open>Closing\<close>

lemma landing_in: "nxt \<noteq> [] \<Longrightarrow> landing nxt k \<in> tab_id ` set nxt"
  unfolding landing_def by (cases "k - 1 < length nxt") (auto split: list.splits)

lemma landing_Nil [simp]: "landing [] k = 0"
  by (simp add: landing_def)

lemma drop_tab_inv: "tabs_inv s \<Longrightarrow> tabs_inv (drop_tab i s)"
proof -
  assume inv: "tabs_inv s"
  let ?n = "filter (\<lambda>t. tab_id t \<noteq> i) (tabs s)"
  have "tabs_ok (nextId s) (nextOrdinal s) ?n" using inv by (simp add: tabs_inv_def tabs_ok_filter)
  moreover have "landing ?n k = 0 \<or> landing ?n k \<in> tab_id ` set ?n" for k
    using landing_in [of ?n k] by (cases "?n = []") auto
  ultimately show ?thesis using inv
    by (auto simp: tabs_inv_def drop_tab_def Let_def rehomeActiveId_def rehomeTabView_eq view_ok_def)
qed

lemma closeTab_inv: "tabs_inv s \<Longrightarrow> tabs_inv (closeTab i s)"
  by (simp add: closeTab_def drop_tab_inv)

text \<open>After a removal the focus is on a leaf that is still there.\<close>

lemma focus_after_removal_in:
  assumes "removeLeaf t lid = Some new" and "active \<in> set (leafIds t)"
  shows "focus_after_removal t new active lid \<in> set (leafIds new)"
proof -
  have "leafIds new \<noteq> []" using removeLeaf_nonempty [OF assms(1)] by (simp add: leafIds_leaves)
  then have hd: "hd (leafIds new) \<in> set (leafIds new)" by (rule hd_in_set)
  have "active \<in> set (leafIds new)" if "active \<noteq> lid"
    using assms that by (simp add: removeLeaf_leafIds [OF assms(1)])
  with hd show ?thesis by (auto simp: focus_after_removal_def split: option.splits)
qed

lemma shrink_tab_ok:
  assumes "tab_ok n t" and "removeLeaf (paneTree t) lid = Some new"
  shows "tab_ok n (syncPaneMirror (t\<lparr>paneTree := new,
    activeLeafId := focus_after_removal (paneTree t) new (activeLeafId t) lid\<rparr>))"
proof -
  have wf: "wf_pane (paneTree t)" using assms(1) by (simp add: tab_ok_def wf_pane_def)
  have ids: "leafIds new = filter (\<lambda>i. i \<noteq> lid) (leafIds (paneTree t))" by (rule removeLeaf_leafIds [OF assms(2)])
  have "length (leafIds new) \<le> length (leafIds (paneTree t))" by (simp add: ids)
  then show ?thesis
    using assms(1) wf_pane_removeLeaf [OF wf assms(2)] focus_after_removal_in [OF assms(2), of "activeLeafId t"]
      nodeIds_removeLeaf [OF assms(2)]
    by (auto simp: tab_ok_def wf_pane_def)
qed

lemma all_leaves_remove:
  assumes "distinct (map tab_id ts)" and "distinct (all_ids ts)" and "t \<in> set ts"
    and "leaves (paneTree t') = filter (\<lambda>l. leaf_id l \<noteq> lid) (leaves (paneTree t))"
    and "lid \<in> set (leafIds (paneTree t))"
  shows "all_leaves (map (\<lambda>x. if x = t then t' else x) ts) = filter (\<lambda>l. leaf_id l \<noteq> lid) (all_leaves ts)"
proof -
  have "leaves (paneTree (if x = t then t' else x)) = filter (\<lambda>l. leaf_id l \<noteq> lid) (leaves (paneTree x))"
    if "x \<in> set ts" for x
  proof (cases "x = t")
    case False
    then have "lid \<notin> set (leafIds (paneTree x))"
      using other_tab_disjoint [OF assms(2,3) that] assms(5) by blast
    then have "\<forall>l \<in> set (leaves (paneTree x)). leaf_id l \<noteq> lid" by (auto simp: leafIds_leaves)
    then show ?thesis using False by (simp add: filter_id_conv)
  qed (simp add: assms(4))
  then show ?thesis by (simp add: all_leaves_def filter_concat o_def cong: map_cong)
qed

lemma map_tab_ids: "(\<And>x. x \<in> set ts \<Longrightarrow> tab_id (g x) = tab_id x) \<Longrightarrow> map tab_id (map g ts) = map tab_id ts"
  by simp

lemma shrink_tabs_ok:
  assumes "tabs_ok n ord ts" and "t \<in> set ts" and "removeLeaf (paneTree t) lid = Some new"
    and "lid \<in> set (leafIds (paneTree t))"
    and "t' = syncPaneMirror (t\<lparr>paneTree := new, activeLeafId := focus_after_removal (paneTree t) new (activeLeafId t) lid\<rparr>)"
  shows "tabs_ok n ord (map (\<lambda>x. if x = t then t' else x) ts)"
proof -
  have d: "distinct (map tab_id ts)" "list_all (tab_ok n) ts" "leaves_ok ord (all_leaves ts)"
    using assms(1) by (auto simp: tabs_ok_def)
  have "all_leaves (map (\<lambda>x. if x = t then t' else x) ts) = filter (\<lambda>l. leaf_id l \<noteq> lid) (all_leaves ts)"
    by (rule all_leaves_remove [OF d(1) _ assms(2) _ assms(4)])
      (use d(3) assms(5) removeLeaf_Some_leaves [OF assms(3)] in \<open>auto simp: leaves_ok_def\<close>)
  moreover have "tab_ok n t'" using shrink_tab_ok [OF _ assms(3)] d(2) assms(2,5) by (auto simp: list_all_iff)
  moreover have "map tab_id (map (\<lambda>x. if x = t then t' else x) ts) = map tab_id ts"
    by (rule map_tab_ids) (simp add: assms(5))
  ultimately show ?thesis
    using d leaves_ok_filter [OF d(3)] unfolding tabs_ok_def list_all_iff by (simp del: map_map) blast
qed

lemma closePaneByLeaf_inv:
  assumes "tabs_inv s"
  shows "tabs_inv (closePaneByLeaf lid s)"
proof (cases "find (\<lambda>t. hasLeaf (paneTree t) lid) (tabs s)")
  case (Some t)
  have t: "t \<in> set (tabs s)" "lid \<in> set (leafIds (paneTree t))" using find_SomeD [OF Some] by auto
  have ok: "tabs_ok (nextId s) (nextOrdinal s) (tabs s)" "distinct (map tab_id (tabs s))"
    using assms by (auto simp: tabs_inv_def tabs_ok_def)
  have "tabs_inv (s\<lparr>tabs := map (\<lambda>x. if tab_id x \<noteq> tab_id t then x else syncPaneMirror (x\<lparr>paneTree := new,
      activeLeafId := focus_after_removal (paneTree t) new (activeLeafId t) lid\<rparr>)) (tabs s)\<rparr>)"
    if new: "removeLeaf (paneTree t) lid = Some new" for new
  proof -
    let ?g = "\<lambda>x. syncPaneMirror (x\<lparr>paneTree := new, activeLeafId := focus_after_removal (paneTree t) new (activeLeafId t) lid\<rparr>)"
    have "tabs_ok (nextId s) (nextOrdinal s) (map (\<lambda>x. if x = t then ?g t else x) (tabs s))"
      by (rule shrink_tabs_ok [OF ok(1) t(1) new t(2) refl])
    moreover have "map tab_id (map (\<lambda>x. if x = t then ?g t else x) (tabs s)) = map tab_id (tabs s)"
      by (rule map_tab_ids) simp
    from view_ok_ids [OF this] have "view_ok (map (\<lambda>x. if x = t then ?g t else x) (tabs s)) (view s)"
      using assms by (simp only: tabs_inv_def)
    ultimately show ?thesis
      unfolding map_only_tab [OF ok(2) t(1), of ?g] using assms by (simp add: tabs_inv_def)
  qed
  then show ?thesis using Some assms drop_tab_inv [OF assms]
    by (simp add: closePaneByLeaf_def Let_def split: option.split)
qed (simp add: closePaneByLeaf_def assms)

section \<open>Groups of terminals\<close>

definition state_ordinals :: "leaf_state list \<Rightarrow> nat list" where
  "state_ordinals states = concat (map (\<lambda>st. leaf_ordinals (mk_leaf 0 st)) states)"

lemma leaf_ordinals_mk: "leaf_ordinals (mk_leaf i st) = leaf_ordinals (mk_leaf 0 st)"
  by (simp add: leaf_ordinals_def mk_leaf_def)

lemma ordinals_map2: "length is = length states \<Longrightarrow> ordinals (map2 mk_leaf is states) = state_ordinals states"
proof (induction "is" states rule: list_induct2)
  case (Cons i "is" st states)
  then show ?case using leaf_ordinals_mk [of i st] by (simp add: state_ordinals_def)
qed (simp add: state_ordinals_def)

lemma group_states_facts:
  assumes "group_states k cwd ts n = (states, n')" and "0 < n"
  shows "length states = k \<and> n \<le> n' \<and> distinct (state_ordinals states)
    \<and> (\<forall>x \<in> set (state_ordinals states). n \<le> x \<and> x < n' \<and> (\<forall>y \<in> set (ordinals (all_leaves ts)). y < x))
    \<and> (\<forall>st \<in> set states. kind_of st = KTerminal)"
  using assms
proof (induction k arbitrary: n states)
  case (Suc k)
  obtain ord m where a: "allocOrdinal ts n = (ord, m)" by fastforce
  obtain rest m' where r: "group_states k cwd ts m = (rest, m')" by fastforce
  have st: "states = Terminal (terminal_state cwd ord) # rest" "n' = m'" using Suc.prems(1) a r by auto
  have so: "state_ordinals states = ord # state_ordinals rest"
    by (simp add: st state_ordinals_def terminal_state_def)
  note f = allocOrdinal_fresh [OF a Suc.prems(2)]
  have "length rest = k \<and> m \<le> m' \<and> distinct (state_ordinals rest)
    \<and> (\<forall>x \<in> set (state_ordinals rest). m \<le> x \<and> x < m' \<and> (\<forall>y \<in> set (ordinals (all_leaves ts)). y < x))
    \<and> (\<forall>st \<in> set rest. kind_of st = KTerminal)"
    using Suc.IH [of m rest] r f(2) st(2) by simp
  then show ?case unfolding so using f st by fastforce
qed (simp add: state_ordinals_def)

lemma count_kind_terminals: "\<forall>l \<in> set ls. kind_of (leaf_state l) = KTerminal \<Longrightarrow> k \<noteq> KTerminal \<Longrightarrow> count_kind k ls = 0"
  by (auto simp: count_kind_zero)

lemma kind_terminal_clean: "kind_of (leaf_state l) = KTerminal \<Longrightarrow> leaf_clean l"
  by (cases "leaf_state l") (auto simp: leaf_clean_def)

lemma set_map2_mk_leaf: "l \<in> set (map2 mk_leaf is states) \<Longrightarrow> leaf_state l \<in> set states"
  by (auto simp: mk_leaf_def dest: set_zip_rightD)

lemma ids_map2_mk_leaf: "length is = length states \<Longrightarrow> ids_of (map2 mk_leaf is states) = is"
  by (simp add: mk_leaf_def split_def o_def)

lemma newPaneGroupTab_inv:
  assumes inv: "tabs_inv s"
  shows "\<exists>r. newPaneGroupTab cnt layout cwd title s = Inr r \<and> tabs_inv (snd r)"
proof -
  define k where "k = nat (max 1 (min cnt (int MAX_PANES_PER_TAB)))"
  obtain states o' where g: "group_states k cwd (tabs s) (nextOrdinal s) = (states, o')" by fastforce
  have pos: "0 < nextOrdinal s" "0 < nextId s" using inv by (auto simp: tabs_inv_def)
  note f = group_states_facts [OF g pos(1)]
  have k: "0 < k" "k \<le> MAX_PANES_PER_TAB" by (auto simp: k_def MAX_PANES_PER_TAB_def)
  then have "states \<noteq> []" using f by auto
  then obtain tree n' where b: "buildPaneTree states layout (nextId s + 1) = Inr (tree, n')"
    using buildPaneTree_error_iff [of states layout "nextId s + 1"]
    by (cases "buildPaneTree states layout (nextId s + 1)") auto
  let ?is = "[nextId s + 1 ..< nextId s + 1 + length states]"
  have lv: "leaves tree = map2 mk_leaf ?is states" by (rule buildPaneTree_leaves [OF b])
  have ids: "leafIds tree = ?is" unfolding leafIds_leaves lv by (rule ids_map2_mk_leaf) (simp del: upt_Suc)
  have shape: "canonical tree" "set (nodeIds tree) \<subseteq> {nextId s + 1 ..< n'}" "nextId s + 1 < n'"
    using buildPaneTree_shape [OF b] by auto
  define t where "t = syncPaneMirror (mk_tab (nextId s) title tree (hd (leafIds tree)))"
  have tok: "tab_ok n' t"
  proof -
    have "hd (leafIds tree) \<in> set (leafIds tree)" using ids k f by (intro hd_in_set) auto
    moreover have "length (leafIds tree) \<le> MAX_PANES_PER_TAB" using ids k f by simp
    moreover have "\<forall>i \<in> set (nodeIds tree). 0 < i \<and> i < n'" using shape(2) by fastforce
    ultimately show ?thesis
      using shape pos ids by (auto simp: tab_ok_def t_def mk_tab_def canonical_wf_shape)
  qed
  have ords: "ordinals (leaves tree) = state_ordinals states" unfolding lv by (rule ordinals_map2) (simp del: upt_Suc)
  have kinds: "\<forall>l \<in> set (leaves tree). kind_of (leaf_state l) = KTerminal"
    unfolding lv using f set_map2_mk_leaf by blast
  have new: "leaves_ok o' (leaves tree)"
    using f ids kinds ords count_kind_terminals [OF kinds]
    by (auto simp: leaves_ok_def list_all_iff leafIds_leaves kind_terminal_clean)
  have ok: "tabs_ok (nextId s) (nextOrdinal s) (tabs s)" "list_all (tab_ok (nextId s)) (tabs s)"
    using inv by (auto simp: tabs_inv_def tabs_ok_def)
  have "leaves_ok o' (all_leaves (tabs s) @ leaves tree)"
  proof (rule leaves_ok_add [OF _ new])
    show "set (ids_of (leaves tree)) \<inter> set (all_ids (tabs s)) = {}"
      using all_ids_bound [OF ok(2)] ids by (fastforce simp: leafIds_leaves)
  qed (use ok f ords count_kind_terminals [OF kinds] in \<open>auto simp: tabs_ok_def leaves_ok_def\<close>)
  then have "tabs_ok n' o' (tabs s @ [t])"
    using tab_ids_bound [OF ok(2), of "nextId s"] shape(3)
    by (intro tabs_ok_add [OF ok(1) tok]) (auto simp: t_def mk_tab_def)
  then show ?thesis
    using b g pos f shape(3) unfolding newPaneGroupTab_def k_def [symmetric] Let_def t_def
    by (simp add: tabs_inv_def setActiveId_def focusTabView_eq view_ok_def mk_tab_def)
qed

lemma allocId_inv: "tabs_inv s \<Longrightarrow> tabs_inv (snd (allocId s))"
  using tab_ok_mono [of "nextId s" _ "nextId s + 1"]
  by (auto simp: allocId_def tabs_inv_def tabs_ok_def list_all_iff)

section \<open>A leaf joins a tab\<close>

lemma grow_tab:
  assumes "tab_ok n t" and "n \<le> n'" and "a \<in> set (leafIds (paneTree t))" and "lid \<notin> set (leafIds (paneTree t))"
    and "length (leafIds (paneTree t)) < MAX_PANES_PER_TAB"
    and "0 < sid" and "sid < n'" and "0 < lid" and "lid < n'"
    and "t' = syncPaneMirror (t\<lparr>paneTree := splitLeaf (paneTree t) a sid lid dir st, activeLeafId := lid\<rparr>)"
  shows "tab_ok n' t'" and "mset (leaves (paneTree t')) = add_mset (mk_leaf lid st) (mset (leaves (paneTree t)))"
    and "tab_id t' = tab_id t"
proof -
  let ?tree = "splitLeaf (paneTree t) a sid lid dir st"
  have d: "distinct (leafIds (paneTree t))" "wf_shape (paneTree t)" using assms(1) by (auto simp: tab_ok_def)
  have mem: "a \<in> set (ids_of (leaves (paneTree t)))" using assms(3) by (simp add: leafIds_leaves)
  have lv: "leaves ?tree = insert_beside False a (mk_leaf lid st) (leaves (paneTree t))"
    by (rule leaves_splitLeaf [OF d(1)])
  then show m: "mset (leaves (paneTree t')) = add_mset (mk_leaf lid st) (mset (leaves (paneTree t)))"
    using mset_insert_beside [OF mem] by (simp add: assms(10))
  then have ids: "mset (leafIds ?tree) = add_mset lid (mset (leafIds (paneTree t)))"
    unfolding leafIds_leaves by (simp add: assms(10) mk_leaf_def)
  have "distinct (lid # leafIds (paneTree t))" using d(1) assms(4) by simp
  then have "distinct (leafIds ?tree)" using ids by (metis mset.simps(2) mset_eq_imp_distinct_iff)
  moreover have "lid \<in> set (leafIds ?tree)" using ids by (metis set_mset_mset union_single_eq_member)
  moreover have "length (leafIds ?tree) = Suc (length (leafIds (paneTree t)))"
    using ids by (metis size_add_mset size_mset)
  moreover have "\<forall>i \<in> set (nodeIds ?tree). 0 < i \<and> i < n'"
    using nodeIds_splitLeaf [of "paneTree t" a sid lid dir st] assms(1,2,6-9) by (fastforce simp: tab_ok_def)
  ultimately show "tab_ok n' t'"
    using assms(1,2,5) wf_shape_splitLeaf [OF d(2)] by (auto simp: tab_ok_def assms(10))
  show "tab_id t' = tab_id t" by (simp add: assms(10))
qed

lemma tabs_ok_replace:
  assumes "tabs_ok n ord (xs @ t # ys)" and "tab_ok n' t'" and "tab_id t' = tab_id t" and "n \<le> n'"
    and "leaves_ok ord' (all_leaves (xs @ t' # ys))"
  shows "tabs_ok n' ord' (xs @ t' # ys)"
  using assms tab_ok_mono [OF _ assms(4)] by (auto simp: tabs_ok_def list_all_iff)

lemma split_tab_step:
  assumes inv: "tabs_inv s" and ts: "tabs s = xs @ t # ys"
    and r: "split_tab (tabs s) dir kind cwd t (nextId s, nextOrdinal s, None) = (t', n', ord', ret)"
  shows "tabs_ok n' ord' (xs @ t' # ys) \<and> tab_id t' = tab_id t \<and> nextId s \<le> n' \<and> nextOrdinal s \<le> ord'"
proof -
  have ok: "tabs_ok (nextId s) (nextOrdinal s) (xs @ t # ys)" and pos: "0 < nextId s" "0 < nextOrdinal s"
    using inv ts by (auto simp: tabs_inv_def)
  have all: "list_all (tab_ok (nextId s)) (tabs s)" "tab_ok (nextId s) t" "leaves_ok (nextOrdinal s) (all_leaves (tabs s))"
    using ok ts by (auto simp: tabs_ok_def)
  have same: "tabs_ok (nextId s + 2) (nextOrdinal s) (xs @ t # ys)"
    using ok tab_ok_mono [of "nextId s" _ "nextId s + 2"] by (auto simp: tabs_ok_def list_all_iff)
  have put: "tabs_ok (nextId s + 2) o2 (xs @ g st # ys) \<and> tab_id (g st) = tab_id t"
    if g: "g = (\<lambda>st. syncPaneMirror (t\<lparr>paneTree := splitLeaf (paneTree t) (activeLeafId t) (nextId s) (nextId s + 1) dir st,
        activeLeafId := nextId s + 1\<rparr>))"
      and small: "length (leafIds (paneTree t)) < MAX_PANES_PER_TAB"
      and new: "leaves_ok o2 [mk_leaf (nextId s + 1) st]" "nextOrdinal s \<le> o2"
        "kind_of st \<noteq> KBoard" "kind_of st \<noteq> KPage"
        "\<And>x y. x \<in> set (ordinals [mk_leaf (nextId s + 1) st]) \<Longrightarrow> y \<in> set (ordinals (all_leaves (tabs s))) \<Longrightarrow> y < x"
    for g st o2
  proof -
    have fresh: "nextId s + 1 \<notin> set (all_ids (tabs s))" using all_ids_bound [OF all(1), of "nextId s + 1"] by auto
    then have absent: "nextId s + 1 \<notin> set (leafIds (paneTree t))" by (auto simp: ts leafIds_leaves)
    have act: "activeLeafId t \<in> set (leafIds (paneTree t))" using all(2) by (simp add: tab_ok_def)
    note gr = grow_tab [OF all(2) _ act absent small pos(1) _ _ _ refl, of "nextId s + 2" dir st, folded g, simplified]
    have "leaves_ok o2 (all_leaves (tabs s) @ [mk_leaf (nextId s + 1) st])"
      by (rule leaves_ok_add [OF all(3) new(1,2) _ new(5)])
        (use fresh new(3,4) all(3) in \<open>auto simp: mk_leaf_def leaves_ok_def\<close>)
    moreover have "mset (all_leaves (xs @ g st # ys)) = mset (all_leaves (tabs s) @ [mk_leaf (nextId s + 1) st])"
      using gr(2) by (simp add: ts g)
    ultimately have "leaves_ok o2 (all_leaves (xs @ g st # ys))" using leaves_ok_mset by blast
    then show ?thesis using tabs_ok_replace [OF ok, of "nextId s + 2" "g st" o2] gr(1,3) by (simp add: g)
  qed
  obtain o1 o2 where a: "allocOrdinal (tabs s) (nextOrdinal s) = (o1, o2)" by fastforce
  note f = allocOrdinal_fresh [OF a pos(2)]
  have newterm: "leaves_ok o2 [mk_leaf i (Terminal (terminal_state c o1))]" for i c
    using f by (auto simp: leaves_ok_def mk_leaf_def terminal_state_def leaf_ordinals_def leaf_clean_def)
  have newed: "leaves_ok (nextOrdinal s) [mk_leaf i (Editor (clone_editor e))]" for i e
    by (auto simp: leaves_ok_def clone_editor_def mk_leaf_def leaf_ordinals_def leaf_clean_def)
  show ?thesis
  proof (cases "MAX_PANES_PER_TAB \<le> length (leafIds (paneTree t)) \<or> findLeaf (paneTree t) (activeLeafId t) = None")
    case True
    then show ?thesis using r ok ts by (auto simp: split_tab_def Let_def split: option.splits)
  next
    case False
    then obtain al where al: "findLeaf (paneTree t) (activeLeafId t) = Some al" by auto
    have small: "length (leafIds (paneTree t)) < MAX_PANES_PER_TAB" using False by simp
    show ?thesis
    proof (cases kind)
      case NewTerminal
      have "tabs_ok (nextId s + 2) o2 (xs @ t' # ys) \<and> tab_id t' = tab_id t \<and> n' = nextId s + 2 \<and> ord' = o2"
        using put [OF refl small newterm] f r al False NewTerminal a
        by (auto simp: split_tab_def Let_def terminal_state_def)
      then show ?thesis using f by auto
    next
      case NewEditor
      then show ?thesis
        using put [OF refl small newed] r al False same
        by (auto simp: split_tab_def Let_def split: option.splits)
    qed
  qed
qed

lemma splitActivePane_inv:
  assumes inv: "tabs_inv s"
  shows "tabs_inv (snd (splitActivePane tid dir kind cwd s))"
proof -
  define k where "k = (case kind of None \<Rightarrow> NewTerminal | Some k \<Rightarrow> k)"
  define g where "g = (\<lambda>t acc. if tab_id t \<noteq> tid then (t, acc) else split_tab (tabs (showTabs s)) dir k cwd t acc)"
  have inv': "tabs_inv (showTabs s)" using inv by simp
  have sh: "tabs (showTabs s) = tabs s" "nextId (showTabs s) = nextId s" "nextOrdinal (showTabs s) = nextOrdinal s"
    by (simp_all add: showTabs_def)
  obtain ts n ord ret where m: "map_acc g (tabs s) (nextId s, nextOrdinal s, None) = (ts, n, ord, ret)"
    using prod_cases4 by blast
  have "tabs_ok n ord ts \<and> map tab_id ts = map tab_id (tabs s) \<and> nextId s \<le> n \<and> nextOrdinal s \<le> ord"
  proof (cases "\<exists>t \<in> set (tabs s). tab_id t = tid")
    case False
    then have "map_acc g (tabs s) (nextId s, nextOrdinal s, None) = (tabs s, nextId s, nextOrdinal s, None)"
      by (intro map_acc_idle) (auto simp: g_def)
    then show ?thesis using m inv by (simp add: tabs_inv_def)
  next
    case True
    then obtain t xs ys where t: "tabs s = xs @ t # ys" "tab_id t = tid" by (metis split_list)
    have d: "distinct (map tab_id (tabs s))" using inv by (simp add: tabs_inv_def tabs_ok_def)
    have others: "x \<in> set xs \<or> x \<in> set ys \<Longrightarrow> tab_id x \<noteq> tid" for x using d t by (auto simp: image_iff)
    have "map_acc g (tabs s) (nextId s, nextOrdinal s, None)
        = (xs @ fst (g t (nextId s, nextOrdinal s, None)) # ys, snd (g t (nextId s, nextOrdinal s, None)))"
      unfolding t(1) by (rule map_acc_one) (use others t(2) in \<open>auto simp: g_def\<close>)
    then have ts: "ts = xs @ fst (g t (nextId s, nextOrdinal s, None)) # ys"
      and snd: "snd (g t (nextId s, nextOrdinal s, None)) = (n, ord, ret)" using m by simp_all
    obtain t' where t': "g t (nextId s, nextOrdinal s, None) = (t', n, ord, ret)" using snd by (metis prod.collapse)
    then have "split_tab (tabs s) dir k cwd t (nextId s, nextOrdinal s, None) = (t', n, ord, ret)"
      using t(2) by (simp add: g_def sh)
    from split_tab_step [OF inv t(1) this] show ?thesis using t(1) ts t' by simp
  qed
  moreover from this have "view_ok ts (view (showTabs s))" using inv' view_ok_ids sh(1) by (metis tabs_inv_def)
  ultimately show ?thesis
    using m inv unfolding splitActivePane_def Let_def k_def [symmetric] g_def [symmetric]
    by (simp add: sh tabs_inv_def)
qed

section \<open>Moving a leaf between tabs\<close>

text \<open>The effect of a move on the leaves of the workspace: the moved leaf keeps its id and gets the cloned state.\<close>

definition clone_at :: "pane_id \<Rightarrow> pane_leaf \<Rightarrow> pane_leaf" where
  "clone_at lid l = (if leaf_id l = lid then mk_leaf lid (cloneLeafState l) else l)"

lemma clone_neutral:
  "kind_of (cloneLeafState l) = kind_of (leaf_state l)"
  "leaf_ordinals (mk_leaf i (cloneLeafState l)) = leaf_ordinals l"
  "leaf_clean l \<Longrightarrow> leaf_clean (mk_leaf i (cloneLeafState l))"
  by (cases "leaf_state l"; simp add: cloneLeafState_def leaf_ordinals_def leaf_clean_def mk_leaf_def)+

lemma neutral_clone_at: "neutral (clone_at lid)"
  using clone_neutral by (auto simp: neutral_def clone_at_def) (auto simp: mk_leaf_def)

lemma clone_at_mset:
  assumes "distinct (ids_of ls)" and "l \<in> set ls" and "leaf_id l = lid"
  shows "add_mset (mk_leaf lid (cloneLeafState l)) (mset (filter (\<lambda>k. leaf_id k \<noteq> lid) ls)) = mset (map (clone_at lid) ls)"
proof -
  let ?c = "mk_leaf lid (cloneLeafState l)" and ?m = "map (clone_at lid) ls"
  have ids: "ids_of ?m = ids_of ls" by (rule neutral_ids [OF neutral_clone_at])
  have c: "?c \<in> set ?m" "leaf_id ?c = lid" using assms(2,3) by (force simp: clone_at_def, simp add: mk_leaf_def)
  have "filter (\<lambda>k. leaf_id k \<noteq> lid) ?m = filter (\<lambda>k. leaf_id k \<noteq> lid) ls"
    by (induction ls) (auto simp: clone_at_def mk_leaf_def)
  moreover have "distinct (ids_of ?m)" by (simp only: ids assms(1))
  note mset_filter_other [OF this c(1), unfolded c(2)]
  ultimately show ?thesis by simp
qed

text \<open>Taking the leaf out of its tab; the tab goes when it is left empty.\<close>

definition without_leaf :: "pane_tab \<Rightarrow> pane_id \<Rightarrow> pane_tab list \<Rightarrow> pane_tab list" where
  "without_leaf source lid ts = concat (map (\<lambda>t.
     if tab_id t = tab_id source then
       (case removeLeaf (paneTree source) lid of
          None \<Rightarrow> []
        | Some tree \<Rightarrow> [syncPaneMirror (t\<lparr>paneTree := tree,
             activeLeafId := focus_after_removal (paneTree t) tree (activeLeafId t) lid\<rparr>)])
     else [t]) ts)"

lemma concat_map_filter: "concat (map (\<lambda>t. if P t then [] else [t]) ts) = filter (\<lambda>t. \<not> P t) ts"
  by (induction ts) auto

lemma concat_map_single: "concat (map (\<lambda>t. if P t then [g t] else [t]) ts) = map (\<lambda>t. if P t then g t else t) ts"
  by (induction ts) auto

lemma without_leaf_ok:
  assumes ok: "tabs_ok n ord ts" and src: "source \<in> set ts" and lid: "lid \<in> set (leafIds (paneTree source))"
  shows "tabs_ok n ord (without_leaf source lid ts)"
    and "all_leaves (without_leaf source lid ts) = filter (\<lambda>l. leaf_id l \<noteq> lid) (all_leaves ts)"
    and "\<And>t. t \<in> set ts \<Longrightarrow> t \<noteq> source \<Longrightarrow> t \<in> set (without_leaf source lid ts)"
    and "\<And>t. t \<in> set (without_leaf source lid ts) \<Longrightarrow> tab_id t \<in> tab_id ` set ts"
proof -
  have d: "distinct (map tab_id ts)" "distinct (all_ids ts)" using ok by (auto simp: tabs_ok_def leaves_ok_def)
  let ?P = "\<lambda>l. leaf_id l \<noteq> lid"
  have "tabs_ok n ord (without_leaf source lid ts) \<and> all_leaves (without_leaf source lid ts) = filter ?P (all_leaves ts)
    \<and> (\<forall>t \<in> set ts. t \<noteq> source \<longrightarrow> t \<in> set (without_leaf source lid ts))
    \<and> tab_id ` set (without_leaf source lid ts) \<subseteq> tab_id ` set ts"
  proof (cases "removeLeaf (paneTree source) lid")
    case None
    have w: "without_leaf source lid ts = filter (\<lambda>t. tab_id t \<noteq> tab_id source) ts"
      unfolding without_leaf_def None option.case concat_map_filter by (rule refl)
    have "leaves (paneTree t) = filter ?P (leaves (paneTree t))" if "t \<in> set ts" "tab_id t \<noteq> tab_id source" for t
    proof -
      have "lid \<notin> set (leafIds (paneTree t))" using other_tab_disjoint [OF d(2) src that(1)] that(2) lid by blast
      then show ?thesis by (intro filter_id_conv [THEN iffD2, symmetric]) (auto simp: leafIds_leaves)
    qed
    moreover have "filter ?P (leaves (paneTree t)) = []" if "t \<in> set ts" "tab_id t = tab_id source" for t
      using None [unfolded removeLeaf_None_iff] same_tab_id [OF d(1) src that] by (simp add: filter_empty_conv)
    ultimately have "concat (map (\<lambda>t. leaves (paneTree t)) (filter (\<lambda>t. tab_id t \<noteq> tab_id source) us))
        = filter ?P (concat (map (\<lambda>t. leaves (paneTree t)) us))" if "set us \<subseteq> set ts" for us
      using that by (induction us) auto
    then have "all_leaves (without_leaf source lid ts) = filter ?P (all_leaves ts)" by (simp add: all_leaves_def w)
    then show ?thesis
      using tabs_ok_filter [OF ok] same_tab_id [OF d(1) src] by (auto simp: w)
  next
    case (Some tree)
    let ?g = "\<lambda>t. syncPaneMirror (t\<lparr>paneTree := tree, activeLeafId := focus_after_removal (paneTree t) tree (activeLeafId t) lid\<rparr>)"
    have "without_leaf source lid ts = map (\<lambda>x. if tab_id x \<noteq> tab_id source then x else ?g x) ts"
      unfolding without_leaf_def Some option.case concat_map_single by (intro map_cong) auto
    then have w: "without_leaf source lid ts = map (\<lambda>x. if x = source then ?g source else x) ts"
      by (simp only: map_only_tab [OF d(1) src])
    have "all_leaves (without_leaf source lid ts) = filter ?P (all_leaves ts)"
      unfolding w by (rule all_leaves_remove [OF d src _ lid]) (simp add: removeLeaf_Some_leaves [OF Some])
    then show ?thesis
      using shrink_tabs_ok [OF ok src Some lid refl] by (auto simp: w)
  qed
  then show "tabs_ok n ord (without_leaf source lid ts)"
    and "all_leaves (without_leaf source lid ts) = filter ?P (all_leaves ts)"
    and "\<And>t. t \<in> set ts \<Longrightarrow> t \<noteq> source \<Longrightarrow> t \<in> set (without_leaf source lid ts)"
    and "\<And>t. t \<in> set (without_leaf source lid ts) \<Longrightarrow> tab_id t \<in> tab_id ` set ts" by auto
qed

lemma findLeaf_in_tabs:
  assumes "tabs_inv s" and "t \<in> set (tabs s)" and "findLeaf (paneTree t) lid = Some l"
  shows "l \<in> set (all_leaves (tabs s))" and "leaf_id l = lid" and "lid \<in> set (leafIds (paneTree t))"
  using findLeaf_SomeD [OF assms(3)] assms(2) by (auto simp: in_all_leaves leafIds_leaves)

lemma moved_leaves_ok:
  assumes "tabs_inv s" and "mset ls = mset (map (clone_at lid) (all_leaves (tabs s)))"
  shows "leaves_ok (nextOrdinal s) ls"
  using leaves_ok_neutral [OF neutral_clone_at] leaves_ok_mset [OF assms(2)] assms(1)
  by (auto simp: tabs_inv_def tabs_ok_def)

lemma moveLeafToTab_ok:
  assumes inv: "tabs_inv s" and mv: "moveLeafToTab lid tid s = (MoveOk, s')"
  shows "tabs_inv s' \<and> mset (all_leaves (tabs s')) = mset (map (clone_at lid) (all_leaves (tabs s)))
    \<and> activeId (view s') = tid \<and> railView (view s') = None"
proof -
  obtain src where src: "find (\<lambda>t. hasLeaf (paneTree t) lid) (tabs s) = Some src" "tab_id src \<noteq> tid"
    using mv by (auto simp: moveLeafToTab_def split: option.splits if_splits)
  obtain tgt where tgt: "find (\<lambda>t. tab_id t = tid) (tabs s) = Some tgt"
      "length (leafIds (paneTree tgt)) < MAX_PANES_PER_TAB"
    using mv src by (auto simp: moveLeafToTab_def split: option.splits if_splits)
  obtain l where l: "findLeaf (paneTree src) lid = Some l"
    using mv src tgt by (auto simp: moveLeafToTab_def split: option.splits)
  have mem: "src \<in> set (tabs s)" "tgt \<in> set (tabs s)" "tab_id tgt = tid"
    using find_SomeD [OF src(1)] find_SomeD [OF tgt(1)] by auto
  note lf = findLeaf_in_tabs [OF inv mem(1) l]
  define w where "w = without_leaf src lid (tabs s)"
  define g where "g = (\<lambda>t. syncPaneMirror (t\<lparr>paneTree := splitLeaf (paneTree tgt) (activeLeafId tgt)
    (nextId s) lid Row (cloneLeafState l), activeLeafId := lid\<rparr>))"
  have ok: "tabs_ok (nextId s) (nextOrdinal s) (tabs s)" "0 < nextId s" using inv by (auto simp: tabs_inv_def)
  note wl = without_leaf_ok [OF ok(1) mem(1) lf(3), folded w_def]
  have ts: "tabs s' = map (\<lambda>x. if tab_id x \<noteq> tid then x else g x) w"
    "nextId s' = nextId s + 1" "nextOrdinal s' = nextOrdinal s" "view s' = \<lparr>activeId = tid, railView = None\<rparr>"
    using mv src tgt l
    by (auto simp: moveLeafToTab_def Let_def w_def without_leaf_def g_def map_concat o_def setActiveId_def focusTabView_eq
        split: option.splits intro!: arg_cong [where f = concat])
  have tw: "tgt \<in> set w" using wl(3) [OF mem(2)] src(2) mem(3) by auto
  then obtain xs ys where xy: "w = xs @ tgt # ys" by (metis split_list)
  have dw: "distinct (map tab_id w)" using wl(1) by (simp add: tabs_ok_def)
  have ts': "tabs s' = xs @ g tgt # ys"
  proof -
    have "\<forall>x \<in> set xs \<union> set ys. tab_id x \<noteq> tid" using dw xy mem(3) by (auto simp: image_iff)
    then show ?thesis unfolding ts(1) xy using mem(3) by (auto intro!: map_idI)
  qed
  have absent: "lid \<notin> set (leafIds (paneTree tgt))"
  proof -
    have "set (leaves (paneTree tgt)) \<subseteq> set (all_leaves w)" using tw by (auto simp: in_all_leaves)
    then show ?thesis unfolding wl(2) by (auto simp: leafIds_leaves)
  qed
  have bound: "0 < lid" "lid < nextId s"
    using all_ids_bound [of "nextId s" "tabs s" lid] ok(1) lf(1,2) by (auto simp: tabs_ok_def)
  have tok: "tab_ok (nextId s) tgt" "activeLeafId tgt \<in> set (leafIds (paneTree tgt))"
    using tabs_invD(1) [OF inv mem(2)] by (auto simp: tab_ok_def)
  note gr = grow_tab [OF tok(1) _ tok(2) absent tgt(2) ok(2) _ bound(1), of "nextId s + 1" "g tgt" Row "cloneLeafState l",
      unfolded g_def, simplified, folded g_def]
  have m: "mset (all_leaves (tabs s')) = mset (map (clone_at lid) (all_leaves (tabs s)))"
  proof -
    have "mset (all_leaves (tabs s')) = add_mset (mk_leaf lid (cloneLeafState l)) (mset (all_leaves w))"
      using gr(2) bound by (simp add: ts' xy g_def)
    also have "\<dots> = mset (map (clone_at lid) (all_leaves (tabs s)))"
      unfolding wl(2) by (rule clone_at_mset [OF tabs_invD(3) [OF inv mem(1)] lf(1,2)])
    finally show ?thesis .
  qed
  have "tabs_ok (nextId s') (nextOrdinal s') (tabs s')"
    unfolding ts' ts(2,3)
    by (rule tabs_ok_replace [OF wl(1) [unfolded xy]])
      (use gr bound moved_leaves_ok [OF inv m] in \<open>auto simp: ts' g_def\<close>)
  moreover have "tid \<in> tab_id ` set (tabs s')" unfolding ts' using mem(3) by (simp add: g_def)
  ultimately show ?thesis using m inv ts(2-4)
    by (simp add: tabs_inv_def view_ok_def)
qed

lemma moveLeafToTab_refused: "moveLeafToTab lid tid s = (r, s') \<Longrightarrow> r \<noteq> MoveOk \<Longrightarrow> s' = s"
  by (auto simp: moveLeafToTab_def Let_def split: option.splits if_splits)

lemma moveLeafToNewTab_ok:
  assumes inv: "tabs_inv s" and mv: "moveLeafToNewTab lid s = (MoveOk, s')"
  shows "tabs_inv s' \<and> mset (all_leaves (tabs s')) = mset (map (clone_at lid) (all_leaves (tabs s)))
    \<and> activeId (view s') = nextId s \<and> railView (view s') = None"
proof -
  obtain src where src: "find (\<lambda>t. hasLeaf (paneTree t) lid) (tabs s) = Some src"
    using mv by (auto simp: moveLeafToNewTab_def split: option.splits if_splits)
  obtain l tree where l: "findLeaf (paneTree src) lid = Some l" and tree: "removeLeaf (paneTree src) lid = Some tree"
    using mv src by (auto simp: moveLeafToNewTab_def split: option.splits if_splits)
  have mem: "src \<in> set (tabs s)" using find_SomeD [OF src] by auto
  note lf = findLeaf_in_tabs [OF inv mem l]
  define w where "w = without_leaf src lid (tabs s)"
  define nt where "nt = syncPaneMirror (mk_tab (nextId s) (tab_title src) (Leaf (mk_leaf lid (cloneLeafState l))) lid)"
  define st where "st = syncPaneMirror (src\<lparr>paneTree := tree,
    activeLeafId := focus_after_removal (paneTree src) tree (activeLeafId src) lid\<rparr>)"
  have ok: "tabs_ok (nextId s) (nextOrdinal s) (tabs s)" "0 < nextId s" "list_all (tab_ok (nextId s)) (tabs s)"
    using inv by (auto simp: tabs_inv_def tabs_ok_def)
  have d: "distinct (map tab_id (tabs s))" using ok(1) by (simp add: tabs_ok_def)
  note wl = without_leaf_ok [OF ok(1) mem lf(3), folded w_def]
  have ts: "tabs s' = concat (map (\<lambda>t. if tab_id t = tab_id src then [st, nt] else [t]) (tabs s))"
    "nextId s' = nextId s + 1" "nextOrdinal s' = nextOrdinal s" "view s' = \<lparr>activeId = nextId s, railView = None\<rparr>"
    unfolding nt_def st_def using mv src tree l
    by (auto simp: moveLeafToNewTab_def Let_def setActiveId_def focusTabView_eq split: if_splits)
  obtain xs ys where xy: "tabs s = xs @ src # ys" using mem by (metis split_list)
  have others: "\<forall>x \<in> set xs \<union> set ys. tab_id x \<noteq> tab_id src" using d xy by (auto simp: image_iff)
  then have "concat (map (\<lambda>t. if tab_id t = tab_id src then us t else [t]) zs) = zs" if "set zs \<subseteq> set xs \<union> set ys" for zs us
    using that by (induction zs) auto
  then have ts': "tabs s' = xs @ st # nt # ys" and w: "w = xs @ st # ys"
    by (simp_all add: ts xy w_def without_leaf_def tree st_def)
  have m: "mset (all_leaves (tabs s')) = mset (map (clone_at lid) (all_leaves (tabs s)))"
  proof -
    have "mset (all_leaves (tabs s')) = add_mset (mk_leaf lid (cloneLeafState l)) (mset (all_leaves w))"
      by (simp add: ts' w nt_def mk_tab_def)
    also have "\<dots> = mset (map (clone_at lid) (all_leaves (tabs s)))"
      unfolding wl(2) by (rule clone_at_mset [OF tabs_invD(3) [OF inv mem] lf(1,2)])
    finally show ?thesis .
  qed
  have bound: "0 < lid" "lid < nextId s" using all_ids_bound [OF ok(3), of lid] lf(1,2) by auto
  have "tab_id nt \<notin> tab_id ` set w"
    using wl(4) tab_ids_bound [OF ok(3), of "nextId s"] by (auto simp: nt_def mk_tab_def)
  moreover have "leaves_ok (nextOrdinal s) (all_leaves w @ leaves (paneTree nt))"
    using moved_leaves_ok [OF inv, of "all_leaves w @ leaves (paneTree nt)" lid] m by (simp add: ts' w ac_simps)
  moreover have "tab_ok (nextId s + 1) nt" unfolding nt_def using ok(2) bound by (intro single_tab_ok) auto
  ultimately have "tabs_ok (nextId s + 1) (nextOrdinal s) (w @ [nt])" by (intro tabs_ok_add [OF wl(1)]) auto
  then have "tabs_ok (nextId s') (nextOrdinal s') (tabs s')"
    using tabs_ok_mset [of "tabs s'" "w @ [nt]"] by (simp add: ts' w ts(2,3))
  moreover have "nextId s \<in> tab_id ` set (tabs s')" unfolding ts' by (simp add: nt_def mk_tab_def)
  ultimately show ?thesis using m inv ts(2-4) by (simp add: tabs_inv_def view_ok_def)
qed

lemma moveLeafToNewTab_refused: "moveLeafToNewTab lid s = (r, s') \<Longrightarrow> r \<noteq> MoveOk \<Longrightarrow> s' = s"
  by (auto simp: moveLeafToNewTab_def Let_def split: option.splits if_splits)

section \<open>Replacing the workspace\<close>

lemma map_acc_append:
  "map_acc f (xs @ ys) s = (let (xs', s') = map_acc f xs s; (ys', s'') = map_acc f ys s' in (xs' @ ys', s''))"
  by (induction xs arbitrary: s) (auto simp: Let_def split: prod.splits)

text \<open>Stamping a tree numbers the list of its leaves from left to right.\<close>

lemma stamp_leaves:
  "leaves (fst (stamp t n)) = fst (map_acc stamp_leaf (leaves t) n) \<and> snd (stamp t n) = snd (map_acc stamp_leaf (leaves t) n)"
  "concat (map leaves (fst (stamp_list cs n))) = fst (map_acc stamp_leaf (concat (map leaves cs)) n)
    \<and> snd (stamp_list cs n) = snd (map_acc stamp_leaf (concat (map leaves cs)) n)"
  by (induction t n and cs n rule: stamp_stamp_list.induct)
    (auto simp: map_acc_append Let_def split: prod.splits)

lemma stamp_leaf_id [simp]: "leaf_id (fst (stamp_leaf l n)) = leaf_id l"
  by (auto simp: stamp_leaf_def split: leaf_state.splits)

lemma stamp_leaf_idD: "stamp_leaf l n = (l', n') \<Longrightarrow> leaf_id l' = leaf_id l"
  by (metis fst_conv stamp_leaf_id)

lemma stamp_shape:
  "wf_shape (fst (stamp t n)) = wf_shape t \<and> nodeIds (fst (stamp t n)) = nodeIds t \<and> leafIds (fst (stamp t n)) = leafIds t"
  "length (fst (stamp_list cs n)) = length cs \<and> list_all wf_shape (fst (stamp_list cs n)) = list_all wf_shape cs
    \<and> concat (map nodeIds (fst (stamp_list cs n))) = concat (map nodeIds cs)
    \<and> concat (map leafIds (fst (stamp_list cs n))) = concat (map leafIds cs)"
  by (induction t n and cs n rule: stamp_stamp_list.induct)
    (auto simp: Let_def dest: stamp_leaf_idD split: prod.splits)

lemma stamp_leaf_cases:
  "(stamp_leaf l n = (l, n)) \<or>
   (\<exists>l'. stamp_leaf l n = (l', n + 1) \<and> leaf_id l' = leaf_id l \<and> leaf_ordinals l = [] \<and> leaf_ordinals l' = [n]
     \<and> kind_of (leaf_state l') = kind_of (leaf_state l) \<and> leaf_clean l' = leaf_clean l)"
  by (auto simp: stamp_leaf_def leaf_ordinals_def leaf_clean_def split: leaf_state.splits)

lemma stamped_facts:
  assumes "\<forall>x \<in> set (ordinals ls). x < n0" and "n0 \<le> n" and "distinct (ordinals ls)"
  shows "let (ls', n') = map_acc stamp_leaf ls n in
    n \<le> n' \<and> ids_of ls' = ids_of ls \<and> map (\<lambda>l. kind_of (leaf_state l)) ls' = map (\<lambda>l. kind_of (leaf_state l)) ls
    \<and> list_all leaf_clean ls' = list_all leaf_clean ls
    \<and> set (ordinals ls') \<subseteq> set (ordinals ls) \<union> {n ..< n'} \<and> distinct (ordinals ls')"
  using assms
proof (induction ls arbitrary: n)
  case (Cons l ls)
  obtain l' m where l: "stamp_leaf l n = (l', m)" by fastforce
  obtain ls' n' where ls: "map_acc stamp_leaf ls m = (ls', n')" by fastforce
  have m: "n \<le> m" using stamp_leaf_cases [of l n] l by auto
  have IH: "m \<le> n'" "ids_of ls' = ids_of ls" "map (\<lambda>l. kind_of (leaf_state l)) ls' = map (\<lambda>l. kind_of (leaf_state l)) ls"
    "list_all leaf_clean ls' = list_all leaf_clean ls"
    "set (ordinals ls') \<subseteq> set (ordinals ls) \<union> {m ..< n'}" "distinct (ordinals ls')"
    using Cons.IH [of m] Cons.prems m ls by auto
  have low: "\<forall>x \<in> set (ordinals ls). x < n" using Cons.prems(1,2) by (simp add: ball_Un) (meson less_le_trans)
  show ?case
  proof (cases "stamp_leaf l n = (l, n)")
    case True
    then have mn: "m = n" using l by simp
    have "x \<notin> set (ordinals ls')" if x: "x \<in> set (leaf_ordinals l)" for x
    proof -
      have "x < n0" using Cons.prems(1) x by simp
      moreover have "x \<notin> set (ordinals ls)" using Cons.prems(3) x by auto
      ultimately show ?thesis using IH(5) Cons.prems(2) mn by (auto dest!: subsetD)
    qed
    then have "set (leaf_ordinals l) \<inter> set (ordinals ls') = {}" by blast
    then show ?thesis using IH Cons.prems(3) l ls True by auto
  next
    case False
    then have l': "m = n + 1" "leaf_id l' = leaf_id l" "leaf_ordinals l = []" "leaf_ordinals l' = [n]"
      "kind_of (leaf_state l') = kind_of (leaf_state l)" "leaf_clean l' = leaf_clean l"
      using stamp_leaf_cases [of l n] l by auto
    have "n \<notin> set (ordinals ls')" using IH(5) low l'(1) by (auto dest!: subsetD)
    then show ?thesis using IH l' l ls by auto
  qed
qed simp

lemma count_kind_kinds:
  "map (\<lambda>l. kind_of (leaf_state l)) ls' = map (\<lambda>l. kind_of (leaf_state l)) ls \<Longrightarrow> count_kind k ls' = count_kind k ls"
proof -
  have "count_kind k ls = length (filter (\<lambda>x. x = k) (map (\<lambda>l. kind_of (leaf_state l)) ls))" for ls
    by (simp add: count_kind_def filter_map o_def)
  then show "map (\<lambda>l. kind_of (leaf_state l)) ls' = map (\<lambda>l. kind_of (leaf_state l)) ls \<Longrightarrow> count_kind k ls' = count_kind k ls" by metis
qed

definition stamp_tab :: "pane_tab \<Rightarrow> nat \<Rightarrow> pane_tab \<times> nat" where
  "stamp_tab t n = (let (tree, n') = stamp (paneTree t) n in (syncPaneMirror (t\<lparr>paneTree := tree\<rparr>), n'))"

lemma stamp_tabs_leaves:
  "all_leaves (fst (map_acc stamp_tab ts n)) = fst (map_acc stamp_leaf (all_leaves ts) n)
   \<and> snd (map_acc stamp_tab ts n) = snd (map_acc stamp_leaf (all_leaves ts) n)"
proof (induction ts arbitrary: n)
  case (Cons t ts)
  obtain tree m where t: "stamp (paneTree t) n = (tree, m)" by fastforce
  then have "map_acc stamp_leaf (leaves (paneTree t)) n = (leaves tree, m)"
    using stamp_leaves(1) [of "paneTree t" n] by (simp add: prod_eq_iff)
  moreover have "stamp_tab t n = (syncPaneMirror (t\<lparr>paneTree := tree\<rparr>), m)" by (simp add: stamp_tab_def t)
  ultimately show ?case using Cons [of m] by (simp add: map_acc_append Let_def case_prod_beta)
qed simp

text \<open>
  A tab list a restore may hand over: everything the invariant says of a tab list but the mirrors,
  which are recomputed, with split ids from the allocator and terminal numbers where they are set.
\<close>

definition restorable_tab :: "nat \<Rightarrow> pane_tab \<Rightarrow> bool" where
  "restorable_tab n t \<longleftrightarrow> 0 < tab_id t \<and> tab_id t < n \<and> wf_shape (paneTree t) \<and> distinct (leafIds (paneTree t))
     \<and> (\<forall>i \<in> set (nodeIds (paneTree t)). 0 < i \<and> i < n)
     \<and> activeLeafId t \<in> set (leafIds (paneTree t)) \<and> length (leafIds (paneTree t)) \<le> MAX_PANES_PER_TAB"

definition restorable :: "pane_tab list \<Rightarrow> nat option \<Rightarrow> tabs_state \<Rightarrow> bool" where
  "restorable ts active s \<longleftrightarrow> distinct (map tab_id ts)
     \<and> list_all (restorable_tab (max (nextId s) (max_id ts + 1))) ts
     \<and> leaves_ok (peekMaxOrdinal ts + 1) (all_leaves ts)
     \<and> (case active of Some i \<Rightarrow> i \<in> tab_id ` set ts
        | None \<Rightarrow> activeId (view s) = 0 \<or> activeId (view s) \<in> tab_id ` set ts)"

lemma stamp_tab_ok: "restorable_tab n t \<Longrightarrow> tab_ok n (fst (stamp_tab t m)) \<and> tab_id (fst (stamp_tab t m)) = tab_id t"
  using stamp_shape(1) [of "paneTree t" m]
  by (auto simp: restorable_tab_def stamp_tab_def tab_ok_def split: prod.splits)

lemma stamp_tabs_ok:
  "list_all (restorable_tab n) ts \<Longrightarrow>
    list_all (tab_ok n) (fst (map_acc stamp_tab ts m)) \<and> map tab_id (fst (map_acc stamp_tab ts m)) = map tab_id ts"
proof (induction ts arbitrary: m)
  case (Cons t ts)
  then show ?case using stamp_tab_ok [of n t m] Cons.IH [of "snd (stamp_tab t m)"]
    by (simp add: Let_def case_prod_beta)
qed simp

lemma replaceAllTabs_inv:
  assumes "tabs_inv s" and r: "restorable ts active s"
  shows "tabs_inv (replaceAllTabs ts active s)"
proof -
  let ?n = "max (nextId s) (max_id ts + 1)" and ?o = "peekMaxOrdinal ts + 1"
  obtain ts' ord where st: "map_acc stamp_tab ts ?o = (ts', ord)" by fastforce
  have ls: "leaves_ok ?o (all_leaves ts)" using r by (simp add: restorable_def)
  have f: "?o \<le> ord \<and> ids_of (all_leaves ts') = ids_of (all_leaves ts)
    \<and> map (\<lambda>l. kind_of (leaf_state l)) (all_leaves ts') = map (\<lambda>l. kind_of (leaf_state l)) (all_leaves ts)
    \<and> list_all leaf_clean (all_leaves ts') = list_all leaf_clean (all_leaves ts)
    \<and> set (ordinals (all_leaves ts')) \<subseteq> set (ordinals (all_leaves ts)) \<union> {?o ..< ord} \<and> distinct (ordinals (all_leaves ts'))"
    using stamped_facts [of "all_leaves ts" ?o ?o] ls stamp_tabs_leaves [of ts ?o] st
    by (auto simp: leaves_ok_def split: prod.splits)
  have "leaves_ok ord (all_leaves ts')"
    using f ls count_kind_kinds [of "all_leaves ts'" "all_leaves ts"] by (fastforce simp: leaves_ok_def)
  moreover have ids: "list_all (tab_ok ?n) ts'" "map tab_id ts' = map tab_id ts"
    using stamp_tabs_ok [of ?n ts ?o] r st by (auto simp: restorable_def)
  ultimately have "tabs_ok ?n ord ts'" using r by (simp add: tabs_ok_def restorable_def)
  moreover have "tab_id ` set ts' = tab_id ` set ts" using ids(2) by (metis list.set_map)
  moreover have "map_acc (\<lambda>t n. let (tree, n') = stamp (paneTree t) n in (syncPaneMirror (t\<lparr>paneTree := tree\<rparr>), n')) ts ?o = (ts', ord)"
    using st by (simp add: stamp_tab_def [abs_def])
  ultimately show ?thesis using f r
    by (cases active)
      (auto simp: replaceAllTabs_def Let_def tabs_inv_def view_ok_def restorable_def setActiveId_def showTabs_def view_simps)
qed

end
