(* ===== verification/Tab_Machine.thy ===== *)
theory Tab_Machine
  imports Tabs_Inv
begin

text \<open>
  The tab state as a transition system: one rule per callback of \<open>useTabs\<close> and \<open>useAuxTabs\<close>, in any
  order and with any arguments. Two callbacks take data from outside and carry its precondition:
  \<open>setActiveId\<close> the id of an open tab, \<open>replaceAllTabs\<close> a restorable tab list.
\<close>

section \<open>Steps\<close>

inductive tabs_step :: "tabs_state \<Rightarrow> tabs_state \<Rightarrow> bool" where
  st_newTab: "tabs_step s (snd (newTab cwd pty s))"
| st_newPaneGroupTab: "newPaneGroupTab cnt layout cwd title s = Inr r \<Longrightarrow> tabs_step s (snd r)"
| st_newSshTab: "tabs_step s (snd (newSshTab hostId title s))"
| st_newRdpTab: "tabs_step s (snd (newRdpTab conn title s))"
| st_openBoardTab: "tabs_step s (snd (openBoardTab s))"
| st_openPageTab: "tabs_step s (snd (openPageTab page s))"
| st_openFileTab: "tabs_step s (snd (openFileTab path pin remote s))"
| st_pinTab: "tabs_step s (pinTab tid s)"
| st_closeTab: "tabs_step s (closeTab tid s)"
| st_closePaneByLeaf: "tabs_step s (closePaneByLeaf lid s)"
| st_setActiveId: "tid \<in> tab_id ` set (tabs s) \<Longrightarrow> tabs_step s (setActiveId tid s)"
| st_selectByIndex: "tabs_step s (selectByIndex k s)"
| st_toggleRailView: "tabs_step s (toggleRailView v s)"
| st_setLeafCwd: "tabs_step s (setLeafCwd_tabs lid cwd' s)"
| st_renameLeaf: "tabs_step s (renameLeaf lid name s)"
| st_setLeafTerminalTheme: "tabs_step s (setLeafTerminalTheme_tabs lid theme s)"
| st_setLeafPtyId: "tabs_step s (setLeafPtyId_tabs lid pid s)"
| st_setLeafActiveTool: "tabs_step s (setLeafActiveTool_tabs lid tool s)"
| st_setSplitSizes: "tabs_step s (setSplitSizes_tabs sid sizes s)"
| st_setEditorLeafDirty: "tabs_step s (setEditorLeafDirty lid dirty s)"
| st_setEditorLeafPath: "tabs_step s (setEditorLeafPath lid path s)"
| st_focusPane: "tabs_step s (focusPane tid lid s)"
| st_focusNextPaneInTab: "tabs_step s (focusNextPaneInTab tid delta s)"
| st_splitActivePane: "tabs_step s (snd (splitActivePane tid dir kind cwd s))"
| st_replaceAllTabs: "restorable ts active s \<Longrightarrow> tabs_step s (replaceAllTabs ts active s)"
| st_allocId: "tabs_step s (snd (allocId s))"
| st_moveLeafToTab: "tabs_step s (snd (moveLeafToTab lid tid s))"
| st_moveLeafToNewTab: "tabs_step s (snd (moveLeafToNewTab lid s))"
| st_rotateLeafSplit: "tabs_step s (rotateLeafSplit lid s)"
| st_reorderLeafInGroup: "tabs_step s (reorderLeafInGroup lid before s)"
| st_movePaneLeafToEdge: "tabs_step s (movePaneLeafToEdge_tabs lid target edge s)"
| st_reorderTabs: "tabs_step s (reorderTabs tid before' s)"

lemma moveLeafToTab_inv: "tabs_inv s \<Longrightarrow> tabs_inv (snd (moveLeafToTab lid tid s))"
  using moveLeafToTab_ok [of s lid tid] moveLeafToTab_refused [of lid tid s]
  by (cases "moveLeafToTab lid tid s") (metis snd_conv)

lemma moveLeafToNewTab_inv: "tabs_inv s \<Longrightarrow> tabs_inv (snd (moveLeafToNewTab lid s))"
  using moveLeafToNewTab_ok [of s lid] moveLeafToNewTab_refused [of lid s]
  by (cases "moveLeafToNewTab lid s") (metis snd_conv)

lemmas tabs_inv_intros = newTab_inv newSshTab_inv newRdpTab_inv openBoardTab_inv openPageTab_inv
  openFileTab_inv pinTab_inv closeTab_inv closePaneByLeaf_inv setActiveId_inv selectByIndex_inv
  toggleRailView_inv setLeafCwd_inv renameLeaf_inv setLeafTerminalTheme_inv setLeafPtyId_inv
  setLeafActiveTool_inv setSplitSizes_inv setEditorLeafDirty_inv setEditorLeafPath_inv focusPane_inv
  focusNextPaneInTab_inv splitActivePane_inv replaceAllTabs_inv allocId_inv moveLeafToTab_inv
  moveLeafToNewTab_inv rotateLeafSplit_inv reorderLeafInGroup_inv movePaneLeafToEdge_inv reorderTabs_inv

lemma tabs_step_inv:
  assumes "tabs_inv s" and "tabs_step s s'"
  shows "tabs_inv s'"
  using assms(2,1)
proof cases
  case (st_newPaneGroupTab cnt layout cwd title r)
  then show ?thesis using newPaneGroupTab_inv [OF assms(1), of cnt layout cwd title] by auto
qed (simp_all add: tabs_inv_intros)

lemma init_tabs_inv: "tabs_inv init_tabs"
  by (simp add: init_tabs_def tabs_inv_def tabs_ok_def leaves_ok_def view_ok_def INITIAL_TAB_VIEW_def)

interpretation tab_machine: invariant_system "\<lambda>s. s = init_tabs" tabs_step tabs_inv
  by unfold_locales (auto simp: init_tabs_inv intro: tabs_step_inv)

abbreviation tabs_reachable :: "tabs_state \<Rightarrow> bool" where
  "tabs_reachable \<equiv> reachable (\<lambda>s. s = init_tabs) tabs_step"

text \<open>
  C1: in every state the tab callbacks can reach, tab ids are unique, leaf ids are unique across
  the whole workspace, every id has been allocated, each tab focuses a leaf of its own well-formed
  tree and mirrors it, no tab exceeds the pane cap, terminal numbers are unique, there is at most
  one board and at most one page leaf, no previewed editor is dirty, and the active tab exists.
\<close>

theorem reachable_tabs_ok:
  assumes "tabs_reachable s"
  shows "distinct (map tab_id (tabs s)) \<and> distinct (all_ids (tabs s)) \<and> distinct (ordinals (all_leaves (tabs s)))
    \<and> (\<forall>t \<in> set (tabs s). wf_pane (paneTree t) \<and> findLeaf (paneTree t) (activeLeafId t) \<noteq> None
        \<and> syncPaneMirror t = t \<and> length (leafIds (paneTree t)) \<le> MAX_PANES_PER_TAB
        \<and> (\<forall>i \<in> set (tab_id t # nodeIds (paneTree t)). 0 < i \<and> i < nextId s))
    \<and> (\<forall>l \<in> set (all_leaves (tabs s)). \<forall>e. leaf_state l = Editor e \<longrightarrow> \<not> (e_preview e \<and> e_dirty e))
    \<and> count_kind KBoard (all_leaves (tabs s)) \<le> 1 \<and> count_kind KPage (all_leaves (tabs s)) \<le> 1
    \<and> (activeId (view s) = 0 \<or> activeId (view s) \<in> tab_id ` set (tabs s))"
proof -
  have inv: "tabs_inv s" using assms by (rule tab_machine.reachable_inv)
  then have ok: "\<forall>t \<in> set (tabs s). tab_ok (nextId s) t" "leaves_ok (nextOrdinal s) (all_leaves (tabs s))"
    by (auto simp: tabs_inv_def tabs_ok_def list_all_iff)
  have "\<forall>l \<in> set (all_leaves (tabs s)). \<forall>e. leaf_state l = Editor e \<longrightarrow> \<not> (e_preview e \<and> e_dirty e)"
    using ok(2) by (auto simp: leaves_ok_def list_all_iff leaf_clean_def)
  moreover have "\<forall>t \<in> set (tabs s). wf_pane (paneTree t) \<and> findLeaf (paneTree t) (activeLeafId t) \<noteq> None
        \<and> syncPaneMirror t = t \<and> length (leafIds (paneTree t)) \<le> MAX_PANES_PER_TAB
        \<and> (\<forall>i \<in> set (tab_id t # nodeIds (paneTree t)). 0 < i \<and> i < nextId s)"
    using ok(1) by (simp add: tab_ok_def wf_pane_def mirrored_def findLeaf_None_iff)
  ultimately show ?thesis using inv by (simp add: tabs_inv_def tabs_ok_def leaves_ok_def view_ok_def)
qed

end
