(* ===== verification/Tab_Props.thy ===== *)
theory Tab_Props
  imports Tab_Machine
begin

text \<open>
  What the tab callbacks do, stated for every reachable state: closing, moving, opening, splitting,
  the view, the strip and its labels.
\<close>


section \<open>Closing\<close>

lemma closeTab_leaves:
  assumes "tabs_inv s" and "tabCloseRefusal (tabs s) i = None"
  shows "tabs (closeTab i s) = filter (\<lambda>t. tab_id t \<noteq> i) (tabs s)"
  using assms(2) by (simp add: closeTab_def drop_tab_def Let_def rehomeActiveId_def)

lemma drop_tab_simps [simp]:
  "tabs (drop_tab i s) = filter (\<lambda>t. tab_id t \<noteq> i) (tabs s)"
  "railView (view (drop_tab i s)) = railView (view s)"
  by (simp_all add: drop_tab_def Let_def rehomeActiveId_def rehomeTabView_eq)

lemma tab_nonempty: "tab_ok n t \<Longrightarrow> leaves (paneTree t) \<noteq> []"
  by (auto simp: tab_ok_def wf_shape_leaves_nonempty)

text \<open>Closing a pane that may be closed takes exactly that leaf out of the workspace.\<close>

lemma closePane_leaves:
  assumes inv: "tabs_inv s" and ok: "leafCloseRefusal (tabs s) lid = None"
  shows "all_leaves (tabs (closePaneByLeaf lid s)) = filter (\<lambda>l. leaf_id l \<noteq> lid) (all_leaves (tabs s))"
proof -
  have "lid \<in> set (all_ids (tabs s))"
    using ok leafInTabs_None_iff [of "tabs s" lid] by (auto simp: leafCloseRefusal_def split: option.splits)
  then obtain t0 where t0: "t0 \<in> set (tabs s)" "hasLeaf (paneTree t0) lid"
    by (auto simp: in_all_leaves leafIds_leaves)
  then obtain t where t: "find (\<lambda>t. hasLeaf (paneTree t) lid) (tabs s) = Some t"
    using find_None_iff [of "\<lambda>t. hasLeaf (paneTree t) lid" "tabs s"] by (cases "find (\<lambda>t. hasLeaf (paneTree t) lid) (tabs s)") auto
  have mem: "t \<in> set (tabs s)" "lid \<in> set (leafIds (paneTree t))" using find_SomeD [OF t] by auto
  have tok: "tabs_ok (nextId s) (nextOrdinal s) (tabs s)" "distinct (map tab_id (tabs s))"
    using inv by (auto simp: tabs_inv_def tabs_ok_def)
  note w = without_leaf_ok(2) [OF tok(1) mem]
  show ?thesis
  proof (cases "removeLeaf (paneTree t) lid")
    case None
    have "without_leaf t lid (tabs s) = filter (\<lambda>x. tab_id x \<noteq> tab_id t) (tabs s)"
      unfolding without_leaf_def None option.case concat_map_filter by (rule refl)
    then show ?thesis using w t ok None by (simp add: closePaneByLeaf_def)
  next
    case (Some tree)
    let ?g = "\<lambda>x. syncPaneMirror (x\<lparr>paneTree := tree, activeLeafId := focus_after_removal (paneTree t) tree (activeLeafId t) lid\<rparr>)"
    have "all_leaves (map (\<lambda>x. if x = t then ?g t else x) (tabs s)) = filter (\<lambda>l. leaf_id l \<noteq> lid) (all_leaves (tabs s))"
      by (rule all_leaves_remove [OF tok(2) tabs_invD(3) [OF inv mem(1)] mem(1) _ mem(2)])
        (simp add: removeLeaf_Some_leaves [OF Some])
    moreover have "tabs (closePaneByLeaf lid s) = map (\<lambda>x. if tab_id x \<noteq> tab_id t then x else ?g x) (tabs s)"
      using t ok Some by (simp add: closePaneByLeaf_def Let_def)
    ultimately show ?thesis by (simp only: map_only_tab [OF tok(2) mem(1)])
  qed
qed

lemma closePane_rail [simp]: "railView (view (closePaneByLeaf lid s)) = railView (view s)"
  by (auto simp: closePaneByLeaf_def Let_def split: option.splits)

lemma leafCloseRefusal_NoneD:
  assumes "leafCloseRefusal ts lid = None" and "distinct (all_ids ts)"
  shows "1 < length (all_leaves ts)" and "\<And>l. l \<in> set (all_leaves ts) \<Longrightarrow> leaf_id l = lid \<Longrightarrow> \<not> is_page (leaf_state l)"
proof -
  show "1 < length (all_leaves ts)"
    using assms(1) by (auto simp: leafCloseRefusal_def countTabEntries_all_leaves split: option.splits if_splits)
  fix l assume "l \<in> set (all_leaves ts)" "leaf_id l = lid"
  then have "leafInTabs ts lid = Some l" by (simp add: leafInTabs_iff [OF assms(2)])
  then show "\<not> is_page (leaf_state l)" using assms(1) by (simp add: leafCloseRefusal_def split: if_splits)
qed

lemma filter_one_left: "1 < length xs \<Longrightarrow> distinct (map f xs) \<Longrightarrow> filter (\<lambda>x. f x \<noteq> a) xs \<noteq> []"
proof -
  assume xs: "1 < length xs" "distinct (map f xs)"
  then obtain x y zs where "xs = x # y # zs" by (cases xs; cases "tl xs") auto
  then show ?thesis using xs(2) by (cases "f x = a") auto
qed

definition pages :: "pane_tab list \<Rightarrow> pane_leaf list" where
  "pages ts = filter (\<lambda>l. is_page (leaf_state l)) (all_leaves ts)"

lemma closeTab_keeps:
  assumes inv: "tabs_inv s"
  shows "pages (tabs (closeTab i s)) = pages (tabs s) \<and> (tabs s \<noteq> [] \<longrightarrow> tabs (closeTab i s) \<noteq> [])"
proof (cases "tabCloseRefusal (tabs s) i")
  case None
  obtain t where t: "find (\<lambda>t. tab_id t = i) (tabs s) = Some t" "1 < length (tabs s)"
      "\<not> list_ex (\<lambda>l. is_page (leaf_state l)) (leaves (paneTree t))"
    using None by (auto simp: tabCloseRefusal_def split: option.splits if_splits)
  have mem: "t \<in> set (tabs s)" "tab_id t = i" using find_SomeD [OF t(1)] by auto
  have d: "distinct (map tab_id (tabs s))" using inv by (simp add: tabs_inv_def tabs_ok_def)
  have "filter (\<lambda>l. is_page (leaf_state l)) (leaves (paneTree x)) = []" if "x \<in> set (tabs s)" "tab_id x = i" for x
    using same_tab_id [OF d mem(1) that(1)] that(2) mem(2) t(3) by (auto simp: list_ex_iff filter_empty_conv)
  then have "pages (filter (\<lambda>t. tab_id t \<noteq> i) ts) = pages ts" if "set ts \<subseteq> set (tabs s)" for ts
    using that by (induction ts) (auto simp: pages_def)
  then show ?thesis using closeTab_leaves [OF inv None] filter_one_left [OF t(2) d] by simp
qed (simp add: closeTab_def)

lemma closePane_keeps:
  assumes inv: "tabs_inv s"
  shows "pages (tabs (closePaneByLeaf lid s)) = pages (tabs s) \<and> (tabs s \<noteq> [] \<longrightarrow> tabs (closePaneByLeaf lid s) \<noteq> [])"
proof (cases "leafCloseRefusal (tabs s) lid")
  case None
  have d: "distinct (all_ids (tabs s))" using inv by (simp add: tabs_inv_def tabs_ok_def leaves_ok_def)
  note lv = closePane_leaves [OF inv None] and r = leafCloseRefusal_NoneD [OF None d]
  have "pages (tabs (closePaneByLeaf lid s)) = pages (tabs s)"
    unfolding pages_def lv filter_filter by (rule filter_cong) (use r(2) in auto)
  moreover have "all_leaves (tabs (closePaneByLeaf lid s)) \<noteq> []" unfolding lv by (rule filter_one_left [OF r(1) d])
  ultimately show ?thesis by auto
qed (auto simp: closePaneByLeaf_def split: option.splits)

text \<open>
  C2: closing never empties a workspace, never takes a page leaf away, never leaves the rail view,
  and a close that the rule refuses changes nothing at all.
\<close>

theorem closing_is_safe:
  assumes "tabs_reachable s" and "s' = closeTab i s \<or> s' = closePaneByLeaf i s"
  shows "pages (tabs s') = pages (tabs s) \<and> (tabs s \<noteq> [] \<longrightarrow> tabs s' \<noteq> [])
    \<and> railView (view s') = railView (view s)
    \<and> (tabCloseRefusal (tabs s) i \<noteq> None \<longrightarrow> closeTab i s = s)
    \<and> (leafCloseRefusal (tabs s) i \<noteq> None \<longrightarrow> closePaneByLeaf i s = s)"
proof -
  note inv = tab_machine.reachable_inv [OF assms(1)]
  have "leafCloseRefusal (tabs s) i \<noteq> None \<longrightarrow> closePaneByLeaf i s = s"
    by (auto simp: closePaneByLeaf_def split: option.splits)
  then show ?thesis
    using assms(2) closeTab_keeps [OF inv, of i] closePane_keeps [OF inv, of i] by (auto simp: closeTab_def)
qed

text \<open>
  C3: closing a pane the rule allows removes exactly that leaf, every other leaf of the workspace
  stays in place and in order, and the tab that loses it focuses one of its own remaining leaves.
\<close>

theorem closePane_exact:
  assumes "tabs_reachable s" and "leafCloseRefusal (tabs s) lid = None"
  shows "all_leaves (tabs (closePaneByLeaf lid s)) = filter (\<lambda>l. leaf_id l \<noteq> lid) (all_leaves (tabs s))
    \<and> lid \<in> set (all_ids (tabs s)) \<and> lid \<notin> set (all_ids (tabs (closePaneByLeaf lid s)))
    \<and> (\<forall>t \<in> set (tabs (closePaneByLeaf lid s)). activeLeafId t \<in> set (leafIds (paneTree t)))"
proof -
  note inv = tab_machine.reachable_inv [OF assms(1)]
  note lv = closePane_leaves [OF inv assms(2)]
  have "lid \<in> set (all_ids (tabs s))"
    using assms(2) leafInTabs_None_iff [of "tabs s" lid] by (auto simp: leafCloseRefusal_def split: option.splits)
  then show ?thesis
    using lv closePaneByLeaf_inv [OF inv, of lid] by (auto simp: tabs_inv_def tabs_ok_def list_all_iff tab_ok_def)
qed

section \<open>Opening files\<close>

text \<open>Focusing a hit leaves every leaf as it is but for the preview flag of the hit.\<close>

lemma focus_hit_leaves:
  assumes "l \<in> set (all_leaves ts)" and "\<And>tree. l \<in> set (leaves tree) \<Longrightarrow> l \<in> set (leaves (u tree))"
  shows "l \<in> set (all_leaves (focus_hit u t k ts))"
proof -
  obtain x where x: "x \<in> set ts" "l \<in> set (leaves (paneTree x))" using assms(1) by (auto simp: in_all_leaves)
  let ?g = "\<lambda>x. if tab_id x \<noteq> tab_id t then x else syncPaneMirror (x\<lparr>paneTree := u (paneTree x), activeLeafId := leaf_id k\<rparr>)"
  have "l \<in> set (leaves (paneTree (?g x)))" using x(2) assms(2) by simp
  moreover have "?g x \<in> set (focus_hit u t k ts)" unfolding focus_hit_def list.set_map using x(1) by (rule imageI)
  ultimately show ?thesis unfolding in_all_leaves by blast
qed

lemma unpreview_keeps:
  assumes "leafIsDirty l" and "leaf_clean l" and "l \<in> set (leaves tree)"
  shows "l \<in> set (leaves (updateEditorLeaf tree i (no_patch\<lparr>patch_preview := Some False\<rparr>)))"
proof -
  have "patch_at i (no_patch\<lparr>patch_preview := Some False\<rparr>) l = l"
    using assms(1,2) by (cases "leaf_state l")
      (auto simp: patch_at_def leafIsDirty_def leaf_clean_def apply_patch_def no_patch_def)
  then show ?thesis using assms(3) unfolding updateEditorLeaf_def leaves_map_leaf by (metis imageI list.set_map)
qed

lemma preview_tab_clean:
  assumes "tab_ok n t" and "is_preview_tab t" and "l \<in> set (leaves (paneTree t))" and "leaf_clean l"
  shows "\<not> leafIsDirty l"
proof -
  have "leaves (paneTree t) = [l]" using assms(2,3) by (auto simp: is_preview_tab_def leafIds_leaves length_Suc_conv)
  moreover have "findLeaf (paneTree t) (activeLeafId t) = Some l"
    using assms(1) calculation by (auto simp: tab_ok_def findLeaf_iff leafIds_leaves)
  ultimately show ?thesis
    using assms(2,4) by (auto simp: is_preview_tab_def leaf_preview_def leafIsDirty_def leaf_clean_def split: leaf_state.splits)
qed

text \<open>
  C4: opening a file never discards unsaved edits: a dirty editor of the workspace is still there,
  unchanged, after any \<open>openFileTab\<close> - also when a preview open takes over the preview slot.
\<close>

theorem openFile_keeps_unsaved:
  assumes "tabs_reachable s" and "l \<in> set (all_leaves (tabs s))" and "leafIsDirty l"
  shows "l \<in> set (all_leaves (tabs (snd (openFileTab path pin remote s))))"
proof -
  note inv = tab_machine.reachable_inv [OF assms(1)]
  have clean: "leaf_clean l" using inv assms(2) by (auto simp: tabs_inv_def tabs_ok_def leaves_ok_def list_all_iff)
  have slot: "l \<in> set (all_leaves ((tabs s)[i := tab]))" if i: "find_index is_preview_tab (tabs s) = Some i" for i tab
  proof -
    have il: "i < length (tabs s)" "is_preview_tab (tabs s ! i)" using find_index_SomeD [OF i] by auto
    then have "l \<notin> set (leaves (paneTree (tabs s ! i)))"
      using preview_tab_clean [OF tabs_invD(1) [OF inv]] clean assms(3) nth_mem by blast
    then have "l \<in> set (all_leaves (take i (tabs s) @ drop (Suc i) (tabs s)))"
      using assms(2) by (subst (asm) id_take_nth_drop [OF il(1)]) auto
    then show ?thesis using il(1) by (auto simp: upd_conv_take_nth_drop)
  qed
  have pin: "l \<in> set (all_leaves (focus_hit (\<lambda>tree. if leaf_preview k
      then updateEditorLeaf tree (leaf_id k) (no_patch\<lparr>patch_preview := Some False\<rparr>) else tree) t k (tabs s)))" for t k
    using unpreview_keeps [OF assms(3) clean] by (intro focus_hit_leaves [OF assms(2)]) simp
  have focus: "l \<in> set (all_leaves (focus_hit id t k (tabs s)))" for t k
    by (rule focus_hit_leaves [OF assms(2)]) simp
  show ?thesis
    using pin focus slot assms(2)
    by (auto simp: openFileTab_def Let_def setActiveId_def split: option.splits)
qed

section \<open>Moving\<close>

text \<open>
  C5: moving a pane to another tab, or out into a tab of its own, never loses or duplicates a leaf:
  the leaves of the workspace are the same up to order, all but the moved one unchanged, and the
  moved one keeps its id, its number and its kind. A move that is refused changes nothing.
\<close>

theorem move_keeps_leaves:
  assumes "tabs_reachable s"
    and "(r, s') = moveLeafToTab lid tid s \<or> (r, s') = moveLeafToNewTab lid s"
  shows "(if r = MoveOk then mset (all_leaves (tabs s')) = mset (map (clone_at lid) (all_leaves (tabs s))) else s' = s)
    \<and> mset (all_ids (tabs s')) = mset (all_ids (tabs s))
    \<and> mset (ordinals (all_leaves (tabs s'))) = mset (ordinals (all_leaves (tabs s)))
    \<and> (\<forall>l \<in> set (all_leaves (tabs s)). leaf_id l \<noteq> lid \<longrightarrow> l \<in> set (all_leaves (tabs s')))"
proof (cases "r = MoveOk")
  case True
  note inv = tab_machine.reachable_inv [OF assms(1)]
  have m: "mset (all_leaves (tabs s')) = mset (map (clone_at lid) (all_leaves (tabs s)))"
    using assms(2) True moveLeafToTab_ok [OF inv, of lid tid s'] moveLeafToNewTab_ok [OF inv, of lid s'] by metis
  have "mset (all_ids (tabs s')) = mset (ids_of (map (clone_at lid) (all_leaves (tabs s))))"
    by (simp only: mset_map m)
  moreover have "mset (ordinals (all_leaves (tabs s'))) = mset (ordinals (map (clone_at lid) (all_leaves (tabs s))))"
    by (rule mset_ordinals [OF m])
  moreover have "l \<in> set (all_leaves (tabs s'))" if "l \<in> set (all_leaves (tabs s))" "leaf_id l \<noteq> lid" for l
    using mset_eq_setD [OF m] that by (force simp: clone_at_def)
  ultimately show ?thesis
    using m True by (simp only: neutral_ids [OF neutral_clone_at] neutral_ordinals [OF neutral_clone_at]) simp
next
  case False
  then have "s' = s" using assms(2) moveLeafToTab_refused moveLeafToNewTab_refused by metis
  then show ?thesis using False by simp
qed

text \<open>
  C37: what the state clone of a move does not carry: a pane the user renamed loses its name when it
  is moved to another tab or extracted, although both operations document that the leaf's state
  travels with it.
\<close>

theorem move_drops_custom_title:
  assumes "tabs_reachable s" and "moveLeafToTab lid tid s = (MoveOk, s') \<or> moveLeafToNewTab lid s = (MoveOk, s')"
    and "l \<in> set (all_leaves (tabs s'))" and "leaf_id l = lid"
  shows "customTitle (leaf_state l) = None"
proof -
  note inv = tab_machine.reachable_inv [OF assms(1)]
  have m: "mset (all_leaves (tabs s')) = mset (map (clone_at lid) (all_leaves (tabs s)))"
    using assms(2) moveLeafToTab_ok [OF inv] moveLeafToNewTab_ok [OF inv] by blast
  have "l \<in> set (map (clone_at lid) (all_leaves (tabs s)))" using mset_eq_setD [OF m] assms(3) by blast
  then obtain k where "l = clone_at lid k" by auto
  then have "l = mk_leaf lid (cloneLeafState k)"
    using assms(4) neutral_clone_at by (metis clone_at_def neutral_def)
  moreover have "customTitle (cloneLeafState k) = None" by (cases "leaf_state k") (auto simp: cloneLeafState_def)
  ultimately show ?thesis by (simp add: mk_leaf_def)
qed

section \<open>Splitting and groups\<close>

lemma splitActivePane_one:
  assumes ts: "tabs s = xs @ t # ys" and d: "distinct (map tab_id (tabs s))"
    and r: "split_tab (tabs s) dir (case kind of None \<Rightarrow> NewTerminal | Some k \<Rightarrow> k) cwd t
      (nextId s, nextOrdinal s, None) = (t', n, ord, ret)"
  shows "splitActivePane (tab_id t) dir kind cwd s =
    (ret, (showTabs s)\<lparr>tabs := xs @ t' # ys, nextId := n, nextOrdinal := ord\<rparr>)"
proof -
  define g where "g = (\<lambda>x acc. if tab_id x \<noteq> tab_id t then (x, acc)
    else split_tab (tabs (showTabs s)) dir (case kind of None \<Rightarrow> NewTerminal | Some k \<Rightarrow> k) cwd x acc)"
  have sh: "tabs (showTabs s) = tabs s" "nextId (showTabs s) = nextId s" "nextOrdinal (showTabs s) = nextOrdinal s"
    by (simp_all add: showTabs_def)
  have "\<forall>x \<in> set xs \<union> set ys. tab_id x \<noteq> tab_id t" using d ts by (auto simp: image_iff)
  then have "map_acc g (tabs s) (nextId s, nextOrdinal s, None)
      = (xs @ fst (g t (nextId s, nextOrdinal s, None)) # ys, snd (g t (nextId s, nextOrdinal s, None)))"
    unfolding ts by (intro map_acc_one) (auto simp: g_def)
  moreover have "g t (nextId s, nextOrdinal s, None) = (t', n, ord, ret)" using r by (simp add: g_def sh)
  ultimately show ?thesis
    unfolding splitActivePane_def Let_def g_def [symmetric] by (simp add: sh)
qed

text \<open>
  Splitting the focused pane of a tab. It opens a terminal exactly when the tab is below the
  pane cap; the new leaf has a fresh id, comes right after the focused one and takes the focus, no
  other leaf of the tab and no other tab changes; when nothing was opened no tab changed.
\<close>

theorem splitActivePane_spec:
  assumes "tabs_reachable s" and "tabs s = xs @ t # ys"
    and "splitActivePane (tab_id t) dir kind cwd s = (ret, s')"
  shows "(kind \<noteq> Some NewEditor \<longrightarrow> (ret \<noteq> None \<longleftrightarrow> length (leafIds (paneTree t)) < MAX_PANES_PER_TAB))
    \<and> (case ret of
         None \<Rightarrow> tabs s' = tabs s
       | Some lid \<Rightarrow> lid = nextId s + 1 \<and> (\<exists>t' st. tabs s' = xs @ t' # ys \<and> tab_id t' = tab_id t \<and> activeLeafId t' = lid
           \<and> leaves (paneTree t') = insert_beside False (activeLeafId t) (mk_leaf lid st) (leaves (paneTree t))))
    \<and> railView (view s') = None"
proof -
  note inv = tab_machine.reachable_inv [OF assms(1)]
  have t: "t \<in> set (tabs s)" using assms(2) by simp
  note tok = tabs_invD [OF inv t]
  have dl: "distinct (leafIds (paneTree t))" using tok(1) by (simp add: tab_ok_def)
  obtain al where al: "findLeaf (paneTree t) (activeLeafId t) = Some al"
    using tok(1) findLeaf_None_iff [of "paneTree t" "activeLeafId t"] by (auto simp: tab_ok_def)
  obtain t' n ord r where r: "split_tab (tabs s) dir (case kind of None \<Rightarrow> NewTerminal | Some k \<Rightarrow> k) cwd t
      (nextId s, nextOrdinal s, None) = (t', n, ord, r)" using prod_cases4 by blast
  note one = splitActivePane_one [OF assms(2) tok(2) r]
  have s': "ret = r" "tabs s' = xs @ t' # ys" "railView (view s') = None"
    using one assms(3) by (auto simp: showTabs_def showTabsIn_eq)
  have core: "(case r of None \<Rightarrow> t' = t | Some lid \<Rightarrow> lid = nextId s + 1 \<and> (\<exists>st. tab_id t' = tab_id t \<and> activeLeafId t' = lid
      \<and> leaves (paneTree t') = insert_beside False (activeLeafId t) (mk_leaf lid st) (leaves (paneTree t))))
    \<and> (kind \<noteq> Some NewEditor \<longrightarrow> (r \<noteq> None \<longleftrightarrow> length (leafIds (paneTree t)) < MAX_PANES_PER_TAB))"
  proof (cases "MAX_PANES_PER_TAB \<le> length (leafIds (paneTree t))")
    case True
    then show ?thesis using r by (auto simp: split_tab_def)
  next
    case False
    then show ?thesis
      using r al leaves_splitLeaf [OF dl]
      by (cases kind) (auto simp: split_tab_def Let_def split: prod.splits option.splits new_kind.splits)
  qed
  then show ?thesis using s' assms(2) by (auto split: option.splits)
qed

text \<open>
  Opening a group never fails, clamps the number of panes to between one and the cap, numbers
  its leaves with consecutive fresh ids in visual order, focuses the first, and builds a tree in
  canonical form; the tabs there were stay as they are.
\<close>

theorem newPaneGroupTab_spec:
  "\<exists>s' t. newPaneGroupTab cnt layout cwd title s = Inr (nextId s, s') \<and> tabs s' = tabs s @ [t]
     \<and> leafIds (paneTree t) = [nextId s + 1 ..< nextId s + 1 + nat (max 1 (min cnt (int MAX_PANES_PER_TAB)))]
     \<and> activeLeafId t = nextId s + 1 \<and> canonical (paneTree t)
     \<and> view s' = \<lparr>activeId = nextId s, railView = None\<rparr>"
proof -
  define k where "k = nat (max 1 (min cnt (int MAX_PANES_PER_TAB)))"
  obtain states o' where g: "group_states k cwd (tabs s) (nextOrdinal s) = (states, o')" by fastforce
  have "length states = k" if "group_states k cwd ts m = (states, o')" for states o' ts m k
    using that by (induction k arbitrary: m states) (auto simp: Let_def split: prod.splits)
  then have len: "length states = k" using g by blast
  have k: "0 < k" by (simp add: k_def)
  then have "states \<noteq> []" using len by auto
  then obtain tree n' where b: "buildPaneTree states layout (nextId s + 1) = Inr (tree, n')"
    using buildPaneTree_error_iff [of states layout "nextId s + 1"]
    by (cases "buildPaneTree states layout (nextId s + 1)") auto
  have "leafIds tree = [nextId s + 1 ..< nextId s + 1 + k]"
    unfolding leafIds_leaves buildPaneTree_leaves [OF b] len by (rule ids_map2_mk_leaf) (simp add: len del: upt_Suc)
  then have t: "leafIds tree = [nextId s + 1 ..< nextId s + 1 + k]" "hd (leafIds tree) = nextId s + 1"
    using k by (simp_all add: upt_conv_Cons del: upt_Suc)
  show ?thesis
    unfolding newPaneGroupTab_def k_def [symmetric] Let_def g using b buildPaneTree_shape [OF b] t
    by (simp add: setActiveId_def focusTabView_eq mk_tab_def del: upt_Suc)
qed

section \<open>The view\<close>

text \<open>
  Every route into the tab area leaves the rail view that covers it, whatever it was and also
  when the tab was already active; closing, reordering the strip and the writes of one leaf do not
  touch it.
\<close>

theorem routes_and_the_rail:
  "railView (view (snd (newTab cwd pty s))) = None
   \<and> railView (view (snd (newSshTab h title s))) = None
   \<and> railView (view (snd (newRdpTab h title s))) = None
   \<and> railView (view (snd (openBoardTab s))) = None
   \<and> railView (view (snd (openPageTab page s))) = None
   \<and> railView (view (snd (openFileTab path pin remote s))) = None
   \<and> railView (view (setActiveId i s)) = None
   \<and> railView (view (focusPane i lid s)) = None
   \<and> railView (view (focusNextPaneInTab i delta s)) = None
   \<and> railView (view (snd (splitActivePane i dir kind cwd s))) = None
   \<and> railView (view (replaceAllTabs ts active s)) = None
   \<and> railView (view (rotateLeafSplit lid s)) = None
   \<and> railView (view (reorderLeafInGroup lid before s)) = None
   \<and> railView (view (closeTab i s)) = railView (view s)
   \<and> railView (view (closePaneByLeaf lid s)) = railView (view s)
   \<and> view (reorderTabs i b s) = view s
   \<and> view (setLeafCwd_tabs lid c s) = view s
   \<and> view (renameLeaf lid name s) = view s
   \<and> view (setEditorLeafDirty lid dirty s) = view s"
  by (intro conjI) (auto simp: newTab_def newSshTab_def newRdpTab_def openBoardTab_def openPageTab_def openFileTab_def Let_def
      setActiveId_def focusPane_def focusNextPaneInTab_def splitActivePane_def replaceAllTabs_def rotateLeafSplit_def
      reorderLeafInGroup_def closeTab_def setLeafCwd_tabs_def renameLeaf_def setEditorLeafDirty_def patch_editor_def
      showTabs_def view_simps split: option.splits prod.splits)

section \<open>The strip\<close>

definition digits_value :: "string \<Rightarrow> nat" where
  "digits_value s = foldl (\<lambda>a c. 10 * a + (of_char c - 48)) 0 s"

lemma digits_value_show_nat: "digits_value (show_nat n) = n"
proof (induction n rule: show_nat.induct)
  case (1 n)
  show ?case
  proof (cases "n < 10")
    case True
    then show ?thesis by (simp add: show_nat.simps [of n] digits_value_def)
  next
    case False
    then have "digits_value (show_nat n) = 10 * digits_value (show_nat (n div 10)) + n mod 10"
      by (simp add: show_nat.simps [of n] digits_value_def)
    then show ?thesis using 1 False by simp
  qed
qed

lemma show_nat_inj [simp]: "show_nat m = show_nat n \<longleftrightarrow> m = n"
  by (metis digits_value_show_nat)

lemma buildEntries_keys: "map en_key (buildEntries ts hosts st ai) = map (\<lambda>l. ''leaf-'' @ show_nat (leaf_id l)) (all_leaves ts)"
  by (induction ts) (auto simp: buildEntries_def entry_of_def Let_def)

lemma buildEntries_ids: "map en_leafId (buildEntries ts hosts st ai) = all_ids ts"
  by (induction ts) (auto simp: buildEntries_def entry_of_def Let_def)

text \<open>
  The strip shows one entry per leaf, the count the workspace badge uses agrees with it, and
  no two entries share a key.
\<close>

theorem entries_match_leaves:
  assumes "tabs_reachable s"
  shows "countTabEntries (tabs s) = length (buildEntries (tabs s) hosts st ai)
    \<and> map en_leafId (buildEntries (tabs s) hosts st ai) = all_ids (tabs s)
    \<and> distinct (map en_key (buildEntries (tabs s) hosts st ai))"
proof -
  have d: "distinct (all_ids (tabs s))"
    using tab_machine.reachable_inv [OF assms] by (simp add: tabs_inv_def tabs_ok_def leaves_ok_def)
  have "length (buildEntries (tabs s) hosts st ai) = length (all_leaves (tabs s))"
    using arg_cong [OF buildEntries_ids [of "tabs s" hosts st ai], of length] by simp
  moreover have "distinct (map (\<lambda>l. ''leaf-'' @ show_nat (leaf_id l)) (all_leaves (tabs s)))"
    using d by (simp add: distinct_map inj_on_def)
  ultimately show ?thesis
    by (simp add: countTabEntries_all_leaves buildEntries_ids buildEntries_keys)
qed

text \<open>
  A batch close asks about every leaf exactly once: each leaf that may be closed is in exactly
  one of the two lists, the ones closed silently hold neither unsaved edits nor a running process,
  and unsaved edits are what the prompt names when there are any.
\<close>

theorem batch_close_complete:
  assumes "tabs_reachable s" and "splitBatchClose (tabs s) is running = (silent, confirm)"
  shows "mset (silent @ map fst confirm) = mset (filter (canCloseLeaf (tabs s)) is)
    \<and> (\<forall>l \<in> set (all_leaves (tabs s)). leaf_id l \<in> set silent \<longrightarrow> \<not> leafIsDirty l \<and> \<not> leafIsBusy l running)
    \<and> (\<forall>l \<in> set (all_leaves (tabs s)). \<forall>r. (leaf_id l, r) \<in> set confirm \<longrightarrow>
          r = (if leafIsDirty l then Unsaved else Running) \<and> (leafIsDirty l \<or> leafIsBusy l running))"
proof -
  have d: "distinct (all_ids (tabs s))"
    using tab_machine.reachable_inv [OF assms(1)] by (simp add: tabs_inv_def tabs_ok_def leaves_ok_def)
  have reason: "leafCloseConfirmReason (tabs s) (leaf_id l) running =
      (if leafIsDirty l then Some Unsaved else if leafIsBusy l running then Some Running else None)"
    if "l \<in> set (all_leaves (tabs s))" for l
    using that by (simp add: leafCloseConfirmReason_def leafInTabs_iff [OF d, THEN iffD2])
  have s: "silent = filter (\<lambda>i. canCloseLeaf (tabs s) i \<and> leafCloseConfirmReason (tabs s) i running = None) is"
    using splitBatchClose_fst [of "tabs s" "is" running] assms(2) by simp
  have c: "map fst confirm = filter (\<lambda>i. canCloseLeaf (tabs s) i \<and> leafCloseConfirmReason (tabs s) i running \<noteq> None) is"
    using splitBatchClose_snd [of "tabs s" "is" running] assms(2) by simp
  have "mset (filter (\<lambda>i. P i \<and> Q i) zs) + mset (filter (\<lambda>i. P i \<and> \<not> Q i) zs) = mset (filter P zs)" for P Q and zs :: "nat list"
    by (induction zs) auto
  then have "mset (silent @ map fst confirm) = mset (filter (canCloseLeaf (tabs s)) is)"
    unfolding mset_append s c .
  moreover have "r = (if leafIsDirty l then Unsaved else Running) \<and> (leafIsDirty l \<or> leafIsBusy l running)"
    if "l \<in> set (all_leaves (tabs s))" "(leaf_id l, r) \<in> set confirm" for l r
    using splitBatchClose_reason [of "leaf_id l" r "tabs s" "is" running] assms(2) that reason [OF that(1)]
    by (auto split: if_splits)
  moreover have "\<not> leafIsDirty l \<and> \<not> leafIsBusy l running"
    if "l \<in> set (all_leaves (tabs s))" "leaf_id l \<in> set silent" for l
    using that s reason [OF that(1)] by (auto split: if_splits)
  ultimately show ?thesis by blast
qed

section \<open>Names\<close>

text \<open>
  Committing the text a rename field starts with changes nothing on screen: a leaf renamed to
  its own rename seed keeps its label, the kind tag applied once.
\<close>

theorem rename_seed_stable:
  assumes "leafRenameSeed l hosts fb \<noteq> []"
  shows "leafLabel (renamed_to (leafRenameSeed l hosts fb) l) hosts fb = leafLabel l hosts fb"
proof (cases "truthy (customTitle (leaf_state l))")
  case True
  then obtain c where c: "customTitle (leaf_state l) = Some c" "c \<noteq> []" by (auto simp: truthy_iff)
  then have "leafRenameSeed l hosts fb = c" by (simp add: leafRenameSeed_def)
  moreover have "leafLabel l hosts fb = (case leafKindTag l of None \<Rightarrow> c | Some tag \<Rightarrow> tag @ '':'' @ c)"
    using c by (simp add: leafLabel_def)
  ultimately show ?thesis using leafLabel_renamed [OF c(2), of l hosts fb] by simp
next
  case False
  show ?thesis
  proof (cases "leafKindTag l")
    case None
    then have "leafRenameSeed l hosts fb = leafLabel l hosts fb" using False by (simp add: leafRenameSeed_def)
    then show ?thesis using assms None by (simp add: leafLabel_renamed)
  next
    case (Some tag)
    consider "leafLabel l hosts fb = tag" | n where "leafLabel l hosts fb = tag @ '':'' @ n"
      using leafLabel_tagged [OF Some] by blast
    then show ?thesis
    proof cases
      case 1
      then have "leafRenameSeed l hosts fb = []" using False Some by (simp add: leafRenameSeed_def)
      then show ?thesis using assms by simp
    next
      case 2
      then have "leafRenameSeed l hosts fb = n"
        using False Some strip_prefix_append [of "tag @ '':''" n] by (simp add: leafRenameSeed_def)
      then show ?thesis using assms Some 2 by (simp add: leafLabel_renamed)
    qed
  qed
qed

section \<open>Concrete instances\<close>

text \<open>
  A workspace with a local shell (tab 1, pane 2), an SSH tab (tab 3, pane 4) and a pinned file with
  unsaved edits (tab 5, pane 6), built by the callbacks from the empty start.
\<close>

definition demo_shells :: tabs_state where
  "demo_shells = snd (newSshTab ''h1'' ''box'' (snd (newTab (Some ''/tmp'') None init_tabs)))"

definition demo :: tabs_state where
  "demo = setEditorLeafDirty 6 True (snd (openFileTab ''/tmp/a.txt'' True None demo_shells))"

lemma demo_reachable: "tabs_reachable demo"
  unfolding demo_def demo_shells_def
  by (rule reach_step, rule reach_step, rule reach_step, rule reach_step, rule reach_start, rule refl)
    (rule st_newTab st_newSshTab st_openFileTab st_setEditorLeafDirty)+

lemma demo_ids: "all_ids (tabs demo) = [2, 4, 6] \<and> map tab_id (tabs demo) = [1, 3, 5]"
  by code_simp

theorem reachable_tabs_ok_witness:
  "tabs_reachable demo \<and> distinct (map tab_id (tabs demo)) \<and> distinct (all_ids (tabs demo)) \<and> length (tabs demo) = 3"
proof -
  have "length (tabs demo) = 3" by code_simp
  then show ?thesis using reachable_tabs_ok [OF demo_reachable] demo_reachable by blast
qed

theorem closing_is_safe_witness:
  "tabs_reachable demo \<and> pages (tabs (closeTab 3 demo)) = pages (tabs demo) \<and> tabs (closeTab 3 demo) \<noteq> []"
proof -
  have "tabs demo \<noteq> []" by code_simp
  then show ?thesis using closing_is_safe [OF demo_reachable, of "closeTab 3 demo" 3] demo_reachable by blast
qed

theorem closePane_exact_witness:
  "tabs_reachable demo \<and> leafCloseRefusal (tabs demo) 4 = None \<and>
    all_ids (tabs (closePaneByLeaf 4 demo)) = [2, 6] \<and> 4 \<notin> set (all_ids (tabs (closePaneByLeaf 4 demo)))"
proof -
  have r: "leafCloseRefusal (tabs demo) 4 = None" by code_simp
  have "all_ids (tabs (closePaneByLeaf 4 demo)) = [2, 6]" by code_simp
  then show ?thesis using closePane_exact [OF demo_reachable r] demo_reachable r by blast
qed

definition demo_dirty :: pane_leaf where
  "demo_dirty = the (leafInTabs (tabs demo) 6)"

theorem openFile_keeps_unsaved_witness:
  "leafIsDirty demo_dirty \<and> demo_dirty \<in> set (all_leaves (tabs (snd (openFileTab ''/tmp/b.txt'' False None demo))))"
proof -
  have d: "demo_dirty \<in> set (all_leaves (tabs demo))" "leafIsDirty demo_dirty" by code_simp+
  then show ?thesis using openFile_keeps_unsaved [OF demo_reachable d] by blast
qed

theorem move_keeps_leaves_witness:
  "fst (moveLeafToTab 4 1 demo) = MoveOk \<and>
    mset (all_ids (tabs (snd (moveLeafToTab 4 1 demo)))) = mset (all_ids (tabs demo))"
proof -
  have "fst (moveLeafToTab 4 1 demo) = MoveOk" by code_simp
  then show ?thesis
    using move_keeps_leaves [OF demo_reachable, of "fst (moveLeafToTab 4 1 demo)" "snd (moveLeafToTab 4 1 demo)" 4 1,
      OF disjI1 [OF prod.collapse]] by blast
qed

definition demo_named :: tabs_state where
  "demo_named = renameLeaf 4 (Some ''build box'') demo"

lemma demo_named_reachable: "tabs_reachable demo_named"
  unfolding demo_named_def by (rule reach_step [OF demo_reachable st_renameLeaf])

theorem move_drops_custom_title_witness:
  "map_option (\<lambda>l. customTitle (leaf_state l)) (leafInTabs (tabs demo_named) 4) = Some (Some ''build box'')
   \<and> map_option (\<lambda>l. customTitle (leaf_state l)) (leafInTabs (tabs (snd (moveLeafToTab 4 1 demo_named))) 4) = Some None"
proof -
  let ?s' = "snd (moveLeafToTab 4 1 demo_named)" and ?l = "the (leafInTabs (tabs (snd (moveLeafToTab 4 1 demo_named))) 4)"
  have ok: "fst (moveLeafToTab 4 1 demo_named) = MoveOk" by code_simp
  have l: "?l \<in> set (all_leaves (tabs ?s'))" "leaf_id ?l = 4" "leafInTabs (tabs ?s') 4 \<noteq> None" by code_simp+
  have before: "map_option (\<lambda>l. customTitle (leaf_state l)) (leafInTabs (tabs demo_named) 4) = Some (Some ''build box'')"
    by code_simp
  have m: "moveLeafToTab 4 1 demo_named = (MoveOk, ?s')" using ok by (metis prod.collapse)
  have "customTitle (leaf_state ?l) = None"
    using move_drops_custom_title [OF demo_named_reachable disjI1 [OF m] l(1,2)] .
  then show ?thesis using before l(3) by auto
qed

theorem splitActivePane_spec_witness:
  "fst (splitActivePane 1 Row None None demo) = Some 8 \<and>
    railView (view (snd (splitActivePane 1 Row None None demo))) = None"
proof -
  have t: "tabs demo = [] @ hd (tabs demo) # tl (tabs demo)" "tab_id (hd (tabs demo)) = 1"
    by code_simp+
  have "fst (splitActivePane 1 Row None None demo) = Some 8" by code_simp
  then show ?thesis
    using splitActivePane_spec [OF demo_reachable t(1), of Row None None "fst (splitActivePane 1 Row None None demo)"
      "snd (splitActivePane 1 Row None None demo)", unfolded t(2), OF prod.collapse [symmetric]] by blast
qed

theorem entries_match_leaves_witness:
  "countTabEntries (tabs demo) = 3 \<and>
    map en_leafId (buildEntries (tabs demo) (\<lambda>_. None) (\<lambda>_. Some True) (\<lambda>_. Some False)) = [2, 4, 6]"
proof -
  have "countTabEntries (tabs demo) = 3" by code_simp
  then show ?thesis
    using entries_match_leaves [OF demo_reachable, of "\<lambda>_. None" "\<lambda>_. Some True" "\<lambda>_. Some False"] demo_ids by simp
qed

theorem batch_close_complete_witness:
  "splitBatchClose (tabs demo) [2, 4, 6, 9] (\<lambda>i. i = 4) = ([2], [(4, Running), (6, Unsaved)])
   \<and> mset [2, 4, 6] = mset (filter (canCloseLeaf (tabs demo)) [2, 4, 6, 9 :: nat])"
proof -
  have r: "splitBatchClose (tabs demo) [2, 4, 6, 9] (\<lambda>i. i = 4) = ([2], [(4, Running), (6, Unsaved)])" by code_simp
  show ?thesis using batch_close_complete [OF demo_reachable r] r by simp
qed

definition demo_ssh_leaf :: pane_leaf where
  "demo_ssh_leaf = the (leafInTabs (tabs demo_named) 4)"

theorem rename_seed_stable_witness:
  "leafRenameSeed demo_ssh_leaf None None = ''build box'' \<and>
    leafLabel (renamed_to ''build box'' demo_ssh_leaf) None None = ''ssh:build box''"
proof -
  have s: "leafRenameSeed demo_ssh_leaf None None = ''build box''" by code_simp
  have "leafLabel demo_ssh_leaf None None = ''ssh:build box''" by code_simp
  then show ?thesis using rename_seed_stable [of demo_ssh_leaf None None] s by simp
qed

end
