(* ===== verification/Pane_Props.thy ===== *)
theory Pane_Props
  imports Pane_Edit Paths
begin

text \<open>
  What the operations on a pane tree promise, stated over the list of leaves: each refines an
  operation on that list (insertion beside a leaf, deletion, the identity, a permutation) and keeps
  the tree well formed. Also the round trip of the path helpers.
\<close>

section \<open>Shape operations\<close>

lemma two_leaves:
  assumes "wf_shape (Split i d cs sz)"
  shows "2 \<le> length (leaves (Split i d cs sz))"
proof -
  obtain a b rest where cs: "cs = a # b # rest" using assms by (cases cs rule: remdups_adj.cases) auto
  have "leaves a \<noteq> []" "leaves b \<noteq> []" using assms cs wf_shape_leaves_nonempty by auto
  then show ?thesis using cs by (cases "leaves a"; cases "leaves b") auto
qed

text \<open>
  C36: splitting a pane puts exactly one new leaf right after the target in visual order and removing
  a leaf takes exactly that leaf out; both keep the tree well formed (no split with fewer than two
  children, no id twice), a tree is removed altogether only when the leaf was all of it, and
  removing what was just split off restores the panes.
\<close>

theorem split_and_remove:
  assumes "wf_pane t" and "target \<in> set (leafIds t)" and "n \<notin> set (leafIds t)"
  shows "leaves (splitLeaf t target s n dir st) = insert_beside False target (mk_leaf n st) (leaves t)
    \<and> wf_pane (splitLeaf t target s n dir st)
    \<and> (removeLeaf t x = None \<longleftrightarrow> t = Leaf (hd (leaves t)) \<and> leafIds t = [x])
    \<and> (case removeLeaf t x of None \<Rightarrow> True
       | Some r \<Rightarrow> leaves r = filter (\<lambda>l. leaf_id l \<noteq> x) (leaves t) \<and> wf_pane r)
    \<and> map_option leaves (removeLeaf (splitLeaf t target s n dir st) n) = Some (leaves t)"
proof (intro conjI)
  have wf: "wf_shape t" "distinct (leafIds t)" using assms(1) by (auto simp: wf_pane_def)
  show lv: "leaves (splitLeaf t target s n dir st) = insert_beside False target (mk_leaf n st) (leaves t)"
    using wf(2) by (rule leaves_splitLeaf)
  show "wf_pane (splitLeaf t target s n dir st)"
    using wf lv assms distinct_insert_beside [of target "leaves t" "mk_leaf n st" False] wf_shape_splitLeaf
    by (simp add: wf_pane_def leafIds_leaves mk_leaf_def)
  show "case removeLeaf t x of None \<Rightarrow> True
       | Some r \<Rightarrow> leaves r = filter (\<lambda>l. leaf_id l \<noteq> x) (leaves t) \<and> wf_pane r"
    using removeLeaf_Some_leaves [of t x] wf_pane_removeLeaf [OF assms(1), of x] by (auto split: option.split)
  show "removeLeaf t x = None \<longleftrightarrow> t = Leaf (hd (leaves t)) \<and> leafIds t = [x]"
  proof (cases t)
    case (Split i d cs sz)
    have "2 \<le> length (leaves t)" using two_leaves wf(1) Split by blast
    then obtain l k where "l \<in> set (leaves t)" "k \<in> set (leaves t)" "leaf_id l \<noteq> leaf_id k"
      using wf(2) by (cases "leaves t" rule: remdups_adj.cases) (auto simp: leafIds_leaves)
    then have "removeLeaf t x \<noteq> None" using removeLeaf_None_iff [of t x] by metis
    then show ?thesis using Split by simp
  qed auto
  have "filter (\<lambda>l. leaf_id l \<noteq> n) (insert_beside False target (mk_leaf n st) ls) = ls" if "n \<notin> set (ids_of ls)" for ls
    using that by (induction ls) (auto simp: mk_leaf_def filter_id_conv)
  then have f: "filter (\<lambda>l. leaf_id l \<noteq> n) (leaves (splitLeaf t target s n dir st)) = leaves t"
    using assms(3) lv by (simp add: leafIds_leaves)
  have "leaves t \<noteq> []" using assms(2) by (auto simp: leafIds_leaves)
  then show "map_option leaves (removeLeaf (splitLeaf t target s n dir st) n) = Some (leaves t)"
    using f removeLeaf_None_iff [of "splitLeaf t target s n dir st" n] removeLeaf_Some_leaves [of "splitLeaf t target s n dir st" n]
    by (cases "removeLeaf (splitLeaf t target s n dir st) n") (auto simp: filter_empty_conv [symmetric])
qed

text \<open>
  Dropping a pane on an edge of another moves it there and nothing else: the drop is honoured
  just when the two are different panes of the tree; the dragged leaf then stands right before or
  after the target in visual order, all other leaves keep their order, no leaf is lost or
  duplicated, and the result is in canonical form.
\<close>

theorem drop_on_edge:
  assumes "wf_pane t"
  shows "(movePaneLeafToEdge t source target edge s \<noteq> None \<longleftrightarrow>
      source \<noteq> target \<and> source \<in> set (leafIds t) \<and> target \<in> set (leafIds t))
    \<and> (case movePaneLeafToEdge t source target edge s of None \<Rightarrow> True
       | Some t' \<Rightarrow> wf_pane t' \<and> canonical t' \<and> mset (leaves t') = mset (leaves t)
         \<and> (\<exists>src. findLeaf t source = Some src \<and>
             leaves t' = insert_beside (edge = EdgeLeft \<or> edge = EdgeTop) target src (filter (\<lambda>l. leaf_id l \<noteq> source) (leaves t))))"
proof -
  have before: "edge_before edge \<longleftrightarrow> edge = EdgeLeft \<or> edge = EdgeTop" by (cases edge) auto
  have src: "\<exists>src. findLeaf t source = Some src" if "movePaneLeafToEdge t source target edge s = Some t'" for t'
    using that by (auto simp: movePaneLeafToEdge_def split: if_splits option.splits)
  show ?thesis
  proof (cases "movePaneLeafToEdge t source target edge s")
    case None
    then show ?thesis using move_Some_iff [OF assms, of source target edge s] by auto
  next
    case (Some t')
    then show ?thesis
      using move_Some_iff [OF assms, of source target edge s] src [OF Some] leaves_move [OF assms Some]
        wf_pane_move [OF assms Some] canonical_move [OF assms Some] mset_leaves_move [OF assms Some] before by auto
  qed
qed

text \<open>
  The canonical form. Normalizing never changes the panes or their order; it yields a tree in
  which every split has at least two children and none of them is a split of the same direction;
  a tree in that form is left as it is, so normalizing twice is normalizing once.
\<close>

theorem normalize_canonical_form:
  assumes "no_empty_split t"
  shows "leaves (normalizePaneTree t) = leaves t \<and> canonical (normalizePaneTree t)
    \<and> (canonical t \<longleftrightarrow> normalizePaneTree t = t)
    \<and> normalizePaneTree (normalizePaneTree t) = normalizePaneTree t"
  using leaves_normalizePaneTree canonical_normalizePaneTree [OF assms] normalize_canonical by metis

text \<open>
  Rotating a pane with its neighbour never changes the panes or their order, reordering only
  permutes them: with a target the pane lands right before it. Both keep the tree well formed.
\<close>

theorem rotate_and_reorder:
  assumes "wf_pane t"
  shows "leaves (upd_val t (rotateLeafWithNeighbor t lid s)) = leaves t
    \<and> wf_pane (upd_val t (rotateLeafWithNeighbor t lid s))
    \<and> (rotateLeafWithNeighbor t lid s \<noteq> None \<longleftrightarrow> \<not> isLeaf t \<and> lid \<in> set (leafIds t))
    \<and> mset (leaves (upd_val t (reorderLeafInTree t lid before))) = mset (leaves t)
    \<and> wf_pane (upd_val t (reorderLeafInTree t lid before))
    \<and> (\<forall>b t'. reorderLeafInTree t lid (Some b) = Some t' \<longrightarrow>
        (\<exists>src \<in> set (leaves t). leaf_id src = lid \<and>
          leaves t' = insert_beside True b src (filter (\<lambda>l. leaf_id l \<noteq> lid) (leaves t))))"
proof -
  have wf: "wf_shape t" "distinct (leafIds t)" using assms by (auto simp: wf_pane_def)
  note r = rotate_leaves [OF wf(1), of lid s] and o = reorder_keeps [of t lid before]
  have "distinct (leafIds (upd_val t (reorderLeafInTree t lid before)))"
    using o wf(2) distinct_leafIds_mset by blast
  then show ?thesis
    using r rotate_wf_shape [OF wf(1), of lid s] rotate_Some_iff [OF wf(1), of lid s] o wf leaves_reorder_before [OF wf(2)]
    by (auto simp: wf_pane_def leafIds_leaves)
qed

text \<open>
  Keyboard focus. Stepping to the next pane stays in the tree and stepping back returns to where
  one was; from a pane of a tab with several panes there is always a sibling to focus when it is
  closed, and it is another pane of the same tree.
\<close>

theorem focus_moves:
  assumes "wf_pane t" and "cur \<in> set (leafIds t)"
  shows "nextLeafId t cur delta \<in> set (leafIds t)
    \<and> nextLeafId t (nextLeafId t cur delta) (- delta) = cur
    \<and> (isLeaf t \<or> (\<exists>s. siblingLeafOf t cur = Some s \<and> s \<in> set (leafIds t) \<and> s \<noteq> cur))"
  using assms nextLeafId_in [of t cur delta, OF wf_shape_leafIds_nonempty] nextLeafId_inverse [of t cur delta] siblingLeafOf_sound [OF assms]
  by (auto simp: wf_pane_def)

text \<open>
  The setters of one pane touch nothing else. Whatever is written to a pane (its directory, its
  process, its tool, its theme, its title, the fields of its editor), the tree keeps its shape and
  its ids and every other leaf is unchanged.
\<close>

theorem setters_frame:
  assumes "t' \<in> {setLeafCwd t i cwd, upd_val t (setLeafPtyId t i pty), upd_val t (setLeafActiveTool t i tool),
      upd_val t (setLeafTerminalTheme t i theme), upd_val t (setLeafCustomTitle t i title), updateEditorLeaf t i patch}"
  shows "leafIds t' = leafIds t \<and> nodeIds t' = nodeIds t \<and> (wf_pane t' \<longleftrightarrow> wf_pane t)
    \<and> (\<exists>f. (\<forall>l. leaf_id l \<noteq> i \<longrightarrow> f l = l) \<and> leaves t' = map f (leaves t))"
proof -
  obtain f where f: "touches_only i f" "t' = map_leaf f t"
    using assms touches_only_setters unfolding setters_are_map_leaf by blast
  then have k: "keeps_id f" by (simp add: touches_only_def)
  have ids: "leafIds (map_leaf f t) = leafIds t" for t using k by (induction t) (auto simp: keeps_id_def intro!: arg_cong [of _ _ concat])
  have nodes: "nodeIds (map_leaf f t) = nodeIds t" for t
    using k by (induction t) (auto simp: keeps_id_def intro!: arg_cong [of _ _ concat])
  have shape: "wf_shape (map_leaf f t) = wf_shape t" for t by (induction t) (auto simp: list_all_iff)
  show ?thesis using f ids nodes shape by (auto simp: wf_pane_def touches_only_def leaves_map_leaf)
qed

text \<open>
  Rotating twice does not undo a rotation. The button's documentation says a second click cleanly
  undoes the first; beside a pane that is itself split, the first click dissolves that split into
  the new column and the second click pairs the pane with only one of its parts, so the layout
  is not the original one. (No pane is lost.)
\<close>

definition plain_leaf :: "pane_id \<Rightarrow> pane_node" where
  "plain_leaf i = Leaf (mk_leaf i (Board \<lparr>b_customTitle = None\<rparr>))"

definition rotate_once :: "pane_id \<Rightarrow> pane_id \<Rightarrow> pane_node \<Rightarrow> pane_node" where
  "rotate_once lid s t = (case rotateLeafWithNeighbor t lid s of None \<Rightarrow> t | Some r \<Rightarrow> normalizePaneTree r)"

theorem rotate_twice_is_not_undo:
  "\<exists>t. wf_pane t \<and> canonical t \<and> leafIds (rotate_once 1 8 (rotate_once 1 7 t)) = leafIds t
     \<and> leafParentDir (rotate_once 1 8 (rotate_once 1 7 t)) 2 \<noteq> leafParentDir t 2"
proof -
  let ?t = "Split 9 Row [plain_leaf 1, Split 6 Col [plain_leaf 2, plain_leaf 3] None] None"
  have "wf_pane ?t" "canonical ?t" "leafIds (rotate_once 1 8 (rotate_once 1 7 ?t)) = leafIds ?t"
    "leafParentDir (rotate_once 1 8 (rotate_once 1 7 ?t)) 2 \<noteq> leafParentDir ?t 2"
    by code_simp+
  then show ?thesis by blast
qed

section \<open>Paths\<close>

text \<open>
  Directory and name of a path. With either separator, the segments of a path's directory
  followed by its base name are the segments of the path; the base name is a single segment, and a
  name appended to a directory is found again.
\<close>

theorem dirname_basename:
  assumes "2 \<le> length (pathSegments p)" and "is_sep c" and "n \<noteq> []" and "list_all (\<lambda>x. \<not> is_sep x) n"
  shows "pathSegments (dirname p) @ [basename p] = pathSegments p
    \<and> list_all (\<lambda>x. \<not> is_sep x) (basename p)
    \<and> basename (p @ c # n) = n
    \<and> pathSegments (p @ c # n) = pathSegments p @ [n]"
proof -
  have ne: "pathSegments p \<noteq> []" using assms(1) by auto
  then have "pathSegments (dirname p) @ [basename p] = pathSegments p"
    using dirname_segments [OF assms(1)] by (simp add: basename_def Let_def)
  then show ?thesis using assms ne basename_no_sep [OF ne]
    by (auto simp: basename_append list_all_iff pathSegments_append_sep pathSegments_no_sep)
qed

section \<open>Concrete instances\<close>

definition demo_tree :: pane_node where
  "demo_tree = Split 9 Row [plain_leaf 1, Split 6 Col [plain_leaf 2, plain_leaf 3] None] None"

lemma demo_tree_ok: "wf_pane demo_tree" "no_empty_split demo_tree" "2 \<in> set (leafIds demo_tree)" "5 \<notin> set (leafIds demo_tree)"
  by code_simp+

theorem split_and_remove_witness:
  "wf_pane (splitLeaf demo_tree 2 10 5 Row (Board \<lparr>b_customTitle = None\<rparr>))
   \<and> map_option leaves (removeLeaf (splitLeaf demo_tree 2 10 5 Row (Board \<lparr>b_customTitle = None\<rparr>)) 5) = Some (leaves demo_tree)"
  using split_and_remove [OF demo_tree_ok(1,3,4)] by blast

theorem drop_on_edge_witness:
  "movePaneLeafToEdge demo_tree 3 1 EdgeLeft 10 \<noteq> None"
proof -
  have "3 \<in> set (leafIds demo_tree)" "1 \<in> set (leafIds demo_tree)" by code_simp+
  then show ?thesis using drop_on_edge [OF demo_tree_ok(1), of 3 1 EdgeLeft 10] by simp
qed

theorem normalize_canonical_form_witness:
  "canonical (normalizePaneTree demo_tree) \<and> leaves (normalizePaneTree demo_tree) = leaves demo_tree"
  using normalize_canonical_form [OF demo_tree_ok(2)] by blast

theorem rotate_and_reorder_witness:
  "reorderLeafInTree demo_tree 3 (Some 2) \<noteq> None \<and> wf_pane (upd_val demo_tree (reorderLeafInTree demo_tree 3 (Some 2)))
   \<and> leaves (upd_val demo_tree (rotateLeafWithNeighbor demo_tree 1 10)) = leaves demo_tree"
proof -
  have "reorderLeafInTree demo_tree 3 (Some 2) \<noteq> None" by code_simp
  then show ?thesis using rotate_and_reorder [OF demo_tree_ok(1)] by blast
qed

theorem focus_moves_witness:
  "nextLeafId demo_tree 2 1 = 3 \<and> nextLeafId demo_tree (nextLeafId demo_tree 2 1) (- 1) = 2"
proof -
  have "nextLeafId demo_tree 2 1 = 3" by code_simp
  then show ?thesis using focus_moves [OF demo_tree_ok(1,3), of 1] by blast
qed

theorem setters_frame_witness:
  "leafIds (upd_val demo_tree (setLeafCustomTitle demo_tree 2 (Some ''x''))) = leafIds demo_tree"
  using setters_frame [of "upd_val demo_tree (setLeafCustomTitle demo_tree 2 (Some ''x''))" demo_tree 2 "[]" "[]" None None "Some ''x''" no_patch]
  by blast

theorem dirname_basename_witness:
  "dirname ''/home/me/a.txt'' = ''/home/me'' \<and> pathSegments (dirname ''/home/me/a.txt'') @ [basename ''/home/me/a.txt''] = [''home'', ''me'', ''a.txt'']"
proof -
  have d: "dirname ''/home/me/a.txt'' = ''/home/me''" by code_simp
  have p: "pathSegments ''/home/me/a.txt'' = [''home'', ''me'', ''a.txt'']" by code_simp
  have "is_sep CHR ''/''" by code_simp
  moreover have "list_all (\<lambda>x. \<not> is_sep x) ''b''" by code_simp
  ultimately show ?thesis using dirname_basename [of "''/home/me/a.txt''" "CHR ''/''" "''b''"] d p by auto
qed

end
