(* ===== verification/Vault_Resolve.thy ===== *)
theory Vault_Resolve
  imports Host_Types
begin

text \<open>
  From a credential binding to what a connect is given
  (\<^verbatim>\<open>src/modules/vault/resolve.ts\<close>), and who references what
  (\<^verbatim>\<open>src/modules/vault/refs.ts\<close>). The lookups a resolution needs are an interface
  (\<open>VaultLookup\<close> in the source): the locale \<open>vault_lookup\<close>, interpreted on the store's
  lookup by id in a list of records. A promise is modelled by the value it settles to, a rejection
  by \<^const>\<open>Inl\<close>.
\<close>

section \<open>References\<close>

definition hostsUsingIdentity :: "host list \<Rightarrow> string \<Rightarrow> vault_ref list" where
  "hostsUsingIdentity hosts identityId =
     map (\<lambda>h. \<lparr>vr_id = host_id h, vr_name = h_name (base h)\<rparr>)
       (filter (\<lambda>h. bound_identity h = Some identityId) hosts)"

definition groupsUsingIdentity :: "host_group list \<Rightarrow> string \<Rightarrow> vault_ref list" where
  "groupsUsingIdentity groups identityId =
     map (\<lambda>g. \<lparr>vr_id = g_id g, vr_name = g_name g\<rparr>)
       (filter (\<lambda>g. g_defaultIdentityId g = Some identityId) groups)"

definition identitiesUsingKey :: "vault_identity list \<Rightarrow> string \<Rightarrow> vault_ref list" where
  "identitiesUsingKey identities keyId =
     map (\<lambda>i. \<lparr>vr_id = vi_id i, vr_name = vi_name i\<rparr>)
       (filter (\<lambda>i. vi_keyId i = Some keyId) identities)"

definition keyMissingSecret :: "vault_key \<Rightarrow> bool" where
  "keyMissingSecret k =
     (if vk_kind k = Some KindHardware then \<not> truthy (vk_fingerprint k) else \<not> vk_hasPrivateKey k)"

definition keyNeedsPassphrase :: "vault_key \<Rightarrow> bool" where
  "keyNeedsPassphrase k \<longleftrightarrow>
     \<not> keyMissingSecret k \<and> vk_encrypted k = Some True \<and> \<not> vk_hasPassphrase k"

definition identityMissingSecret :: "vault_identity \<Rightarrow> (string \<Rightarrow> vault_key option) \<Rightarrow> bool" where
  "identityMissingSecret i keys =
     (case vi_authMode i of
        AuthAgent \<Rightarrow> False
      | AuthPassword \<Rightarrow> \<not> vi_hasPassword i
      | AuthKey \<Rightarrow>
        (case vi_keyId i of
           None \<Rightarrow> True
         | Some kid \<Rightarrow> if kid = [] then True
             else (case keys kid of None \<Rightarrow> True | Some k \<Rightarrow> keyMissingSecret k)))"

section \<open>Credentials\<close>

datatype secret_source =
    Keychain (service: string) (account: string)
  | InlineSecret string

record ssh_secret_values =
  sv_password :: "string option"
  sv_privateKey :: "string option"
  sv_keyPassphrase :: "string option"

record ssh_credentials =
  c_useAgent :: bool
  c_password :: "secret_source option"
  c_privateKey :: "secret_source option"
  c_privateKeyPassphrase :: "secret_source option"
  c_certificate :: "string option"
  c_agentKeyFingerprint :: "string option"

record resolved_ssh_auth = ssh_credentials +
  c_user :: string

record resolved_rdp_auth =
  ra_username :: string
  ra_domain :: "string option"
  ra_credential :: secret_source

definition no_credentials :: ssh_credentials where
  "no_credentials = \<lparr>c_useAgent = False, c_password = None, c_privateKey = None,
     c_privateKeyPassphrase = None, c_certificate = None, c_agentKeyFingerprint = None\<rparr>"

definition inline_source :: "string option \<Rightarrow> secret_source option" where
  "inline_source v = (case v of None \<Rightarrow> None | Some s \<Rightarrow> if s = [] then None else Some (InlineSecret s))"

fun sshInlineCredentials :: "vault_auth_mode \<Rightarrow> ssh_secret_values \<Rightarrow> ssh_credentials" where
  "sshInlineCredentials AuthAgent v = no_credentials\<lparr>c_useAgent := True\<rparr>"
| "sshInlineCredentials AuthKey v =
     no_credentials\<lparr>c_privateKey := inline_source (sv_privateKey v),
       c_privateKeyPassphrase := inline_source (sv_keyPassphrase v)\<rparr>"
| "sshInlineCredentials AuthPassword v = no_credentials\<lparr>c_password := inline_source (sv_password v)\<rparr>"

record ssh_fields =
  f_password :: string
  f_privateKey :: string
  f_keyPassphrase :: string

definition HOST_SSH_FIELDS :: ssh_fields where
  "HOST_SSH_FIELDS = \<lparr>f_password = HOST_SSH_PASSWORD_FIELD, f_privateKey = HOST_SSH_PRIVATE_KEY_FIELD,
     f_keyPassphrase = HOST_SSH_KEY_PASSPHRASE_FIELD\<rparr>"

definition VAULT_SSH_FIELDS :: ssh_fields where
  "VAULT_SSH_FIELDS = \<lparr>f_password = IDENTITY_PASSWORD_FIELD, f_privateKey = KEY_PRIVATE_KEY_FIELD,
     f_keyPassphrase = KEY_PASSPHRASE_FIELD\<rparr>"

text \<open>The owner of the accounts: the password's record and, where there is one, the key's.\<close>

fun sshKeychainCredentials ::
  "vault_auth_mode \<Rightarrow> ssh_fields \<Rightarrow> string \<Rightarrow> string \<Rightarrow> string option \<Rightarrow> vault_error + ssh_credentials" where
  "sshKeychainCredentials AuthAgent f svc pw key = Inr (no_credentials\<lparr>c_useAgent := True\<rparr>)"
| "sshKeychainCredentials AuthPassword f svc pw key =
     Inr (no_credentials\<lparr>c_password := Some (Keychain svc (vaultAccount pw (f_password f)))\<rparr>)"
| "sshKeychainCredentials AuthKey f svc pw key =
     (case key of
        None \<Rightarrow> Inl KeyAuthWithoutKey
      | Some k \<Rightarrow>
        (if k = [] then Inl KeyAuthWithoutKey
         else Inr (no_credentials\<lparr>
           c_privateKey := Some (Keychain svc (vaultAccount k (f_privateKey f))),
           c_privateKeyPassphrase := Some (Keychain svc (vaultAccount k (f_keyPassphrase f)))\<rparr>)))"

definition resolveIdentity ::
  "(string \<Rightarrow> vault_identity option) \<Rightarrow> (string \<Rightarrow> vault_key option) \<Rightarrow> string \<Rightarrow>
    vault_error + (vault_identity \<times> vault_key option)" where
  "resolveIdentity findIdentity findKey identityId =
     (case findIdentity identityId of
        None \<Rightarrow> Inl (IdentityGone identityId)
      | Some i \<Rightarrow>
        (if vi_authMode i \<noteq> AuthKey then Inr (i, None)
         else if \<not> truthy (vi_keyId i) then Inl (IdentityNamesNoKey (vi_name i))
         else case findKey (the (vi_keyId i)) of
           None \<Rightarrow> Inl (IdentityKeyGone (vi_name i))
         | Some k \<Rightarrow> Inr (i, Some k)))"

definition with_user :: "string \<Rightarrow> ssh_credentials \<Rightarrow> resolved_ssh_auth" where
  "with_user u c = ssh_credentials.extend c \<lparr>c_user = u\<rparr>"

definition resolveSshAuth ::
  "(string \<Rightarrow> vault_identity option) \<Rightarrow> (string \<Rightarrow> vault_key option) \<Rightarrow> ssh_credential_binding \<Rightarrow>
    vault_error + resolved_ssh_auth" where
  "resolveSshAuth findIdentity findKey binding =
     (case binding of
        SshInline b \<Rightarrow>
          map_sum id (with_user (si_user b))
            (sshKeychainCredentials (si_authMode b) HOST_SSH_FIELDS HOST_KEYRING_SERVICE
               (si_hostId b) (Some (si_hostId b)))
      | SshBoundTo iid \<Rightarrow>
          (case resolveIdentity findIdentity findKey iid of
             Inl e \<Rightarrow> Inl e
           | Inr (i, key) \<Rightarrow>
             (let kind = Option.bind key vk_kind in
              if kind = Some KindHardware then
                (if \<not> truthy (vk_fingerprint (the key))
                 then Inl (HardwareKeyWithoutFingerprint (vk_name (the key)))
                 else Inr (with_user (vi_username i)
                   (no_credentials\<lparr>c_useAgent := True, c_agentKeyFingerprint := vk_fingerprint (the key)\<rparr>)))
              else
                (case sshKeychainCredentials (vi_authMode i) VAULT_SSH_FIELDS VAULT_KEYRING_SERVICE
                        (vi_id i) (map_option vk_id key) of
                   Inl e \<Rightarrow> Inl e
                 | Inr c \<Rightarrow>
                   (if kind = Some KindCert \<and> \<not> truthy (vk_certificate (the key))
                    then Inl (CertKeyWithoutCertificate (vk_name (the key)))
                    else Inr (with_user (vi_username i)
                      (if kind = Some KindCert then c\<lparr>c_certificate := vk_certificate (the key)\<rparr> else c)))))))"

definition resolveRdpAuth ::
  "(string \<Rightarrow> vault_identity option) \<Rightarrow> rdp_credential_binding \<Rightarrow> vault_error + resolved_rdp_auth" where
  "resolveRdpAuth findIdentity binding =
     (case binding of
        RdpInline b \<Rightarrow>
          Inr \<lparr>ra_username = ri_username b, ra_domain = drop_empty (ri_domain b),
            ra_credential = Keychain HOST_KEYRING_SERVICE (vaultAccount (ri_hostId b) HOST_RDP_PASSWORD_FIELD)\<rparr>
      | RdpBoundTo iid \<Rightarrow>
          (case findIdentity iid of
             None \<Rightarrow> Inl (IdentityGone iid)
           | Some i \<Rightarrow>
             Inr \<lparr>ra_username = vi_username i, ra_domain = drop_empty (vi_domain i),
               ra_credential = Keychain VAULT_KEYRING_SERVICE (vaultAccount (vi_id i) IDENTITY_PASSWORD_FIELD)\<rparr>))"

text \<open>The store's two lookups.\<close>

definition find_identity_in :: "vault_identity list \<Rightarrow> string \<Rightarrow> vault_identity option" where
  "find_identity_in is i = find (\<lambda>r. vi_id r = i) is"

definition find_key_in :: "vault_key list \<Rightarrow> string \<Rightarrow> vault_key option" where
  "find_key_in ks k = find (\<lambda>r. vk_id r = k) ks"

section \<open>What a resolution carries\<close>

text \<open>The secret sources of a resolved SSH credential.\<close>

definition ssh_sources :: "'a ssh_credentials_scheme \<Rightarrow> secret_source list" where
  "ssh_sources c = List.map_filter id [c_password c, c_privateKey c, c_privateKeyPassphrase c]"

fun is_keychain :: "secret_source \<Rightarrow> bool" where
  "is_keychain (Keychain _ _) = True"
| "is_keychain (InlineSecret _) = False"

lemma set_ssh_sources:
  "x \<in> set (ssh_sources c) \<longleftrightarrow>
    c_password c = Some x \<or> c_privateKey c = Some x \<or> c_privateKeyPassphrase c = Some x"
  by (auto simp: ssh_sources_def List.map_filter_def split: if_splits)

lemma with_user_simps [simp]:
  "c_user (with_user u c) = u"
  "c_useAgent (with_user u c) = c_useAgent c"
  "c_password (with_user u c) = c_password c"
  "c_privateKey (with_user u c) = c_privateKey c"
  "c_privateKeyPassphrase (with_user u c) = c_privateKeyPassphrase c"
  "c_certificate (with_user u c) = c_certificate c"
  "c_agentKeyFingerprint (with_user u c) = c_agentKeyFingerprint c"
  by (simp_all add: with_user_def ssh_credentials.defs)

lemma no_credentials_simps [simp]:
  "c_useAgent no_credentials = False" "c_password no_credentials = None"
  "c_privateKey no_credentials = None" "c_privateKeyPassphrase no_credentials = None"
  "c_certificate no_credentials = None" "c_agentKeyFingerprint no_credentials = None"
  by (simp_all add: no_credentials_def)

text \<open>The accounts an auth mode reads, from the owner's ids.\<close>

definition mode_accounts :: "vault_auth_mode \<Rightarrow> ssh_fields \<Rightarrow> string \<Rightarrow> string \<Rightarrow> string set" where
  "mode_accounts m f pw k =
     (case m of AuthAgent \<Rightarrow> {}
      | AuthPassword \<Rightarrow> {vaultAccount pw (f_password f)}
      | AuthKey \<Rightarrow> {vaultAccount k (f_privateKey f), vaultAccount k (f_keyPassphrase f)})"

lemma sshKeychainCredentials_sources:
  assumes "sshKeychainCredentials m f svc pw key = Inr c"
  shows "set (ssh_sources c) = Keychain svc ` mode_accounts m f pw (case key of Some k \<Rightarrow> k | None \<Rightarrow> [])"
  using assms unfolding set_eq_iff
  by (cases m) (auto simp: mode_accounts_def set_ssh_sources split: option.splits if_splits)

lemma sshKeychainCredentials_ok_iff:
  "(\<exists>c. sshKeychainCredentials m f svc pw key = Inr c) \<longleftrightarrow> (m = AuthKey \<longrightarrow> truthy key)"
  by (cases m) (auto split: option.splits)

text \<open>The text fields a resolution adds never hold a secret source.\<close>

lemma ssh_sources_certificate [simp]:
  "ssh_sources (c\<lparr>c_certificate := x\<rparr>) = ssh_sources c"
  by (simp add: ssh_sources_def)

lemma ssh_sources_with_user [simp]: "ssh_sources (with_user u c) = ssh_sources c"
  by (simp add: ssh_sources_def)

text \<open>An inline binding reads the host's own keychain entries, and nothing else.\<close>

lemma resolve_inline_sources:
  assumes "resolveSshAuth fi fk (SshInline b) = Inr a"
  shows "set (ssh_sources a) =
    Keychain HOST_KEYRING_SERVICE ` mode_accounts (si_authMode b) HOST_SSH_FIELDS (si_hostId b) (si_hostId b)"
proof -
  obtain c where "sshKeychainCredentials (si_authMode b) HOST_SSH_FIELDS HOST_KEYRING_SERVICE
      (si_hostId b) (Some (si_hostId b)) = Inr c" "a = with_user (si_user b) c"
    using assms by (cases "sshKeychainCredentials (si_authMode b) HOST_SSH_FIELDS HOST_KEYRING_SERVICE
      (si_hostId b) (Some (si_hostId b))") (auto simp: resolveSshAuth_def)
  then show ?thesis using sshKeychainCredentials_sources by fastforce
qed

text \<open>A resolution only ever names keychain entries: no secret value is in its result.\<close>

lemma keychain_sources:
  "sshKeychainCredentials m f svc pw key = Inr c \<Longrightarrow> list_all is_keychain (ssh_sources c)"
  unfolding list_all_iff by (auto simp: sshKeychainCredentials_sources)

lemma agent_sources [simp]: "ssh_sources (no_credentials\<lparr>c_useAgent := True, c_agentKeyFingerprint := x\<rparr>) = []"
  by (simp add: ssh_sources_def List.map_filter_def)

lemma resolved_keychain:
  assumes "resolveSshAuth fi fk b = Inr a"
  shows "list_all is_keychain (ssh_sources a)"
proof (cases b)
  case (SshInline x)
  then show ?thesis using resolve_inline_sources assms by (auto simp: list_all_iff)
next
  case (SshBoundTo iid)
  then show ?thesis using assms
    by (auto simp: resolveSshAuth_def Let_def keychain_sources split: sum.splits if_splits)
qed

section \<open>The lookup interface\<close>

locale vault_lookup =
  fixes findIdentity :: "string \<Rightarrow> vault_identity option"
    and findKey :: "string \<Rightarrow> vault_key option"
  assumes findIdentity_id: "findIdentity i = Some v \<Longrightarrow> vi_id v = i"
    and findKey_id: "findKey k = Some w \<Longrightarrow> vk_id w = k"
begin

text \<open>The key an identity authenticates with.\<close>

definition identity_key :: "vault_identity \<Rightarrow> vault_key option" where
  "identity_key i = (if vi_authMode i = AuthKey \<and> truthy (vi_keyId i) then findKey (the (vi_keyId i)) else None)"

lemma resolveIdentity_InrD:
  assumes "resolveIdentity findIdentity findKey iid = Inr (i, key)"
  shows "findIdentity iid = Some i \<and> vi_id i = iid \<and> key = identity_key i \<and>
    (vi_authMode i = AuthKey \<longrightarrow> truthy (vi_keyId i) \<and> key \<noteq> None)"
  using assms
  by (auto simp: resolveIdentity_def identity_key_def split: option.splits if_splits
      dest: sym [of "Some _"] intro: findIdentity_id)

lemma resolveIdentity_Inr_iff:
  "(\<exists>p. resolveIdentity findIdentity findKey iid = Inr p) \<longleftrightarrow>
    (\<exists>i. findIdentity iid = Some i \<and> (vi_authMode i = AuthKey \<longrightarrow> identity_key i \<noteq> None))"
  by (auto simp: resolveIdentity_def identity_key_def split: option.splits if_splits)

lemma resolve_bound_sources:
  assumes "resolveSshAuth findIdentity findKey (SshBoundTo iid) = Inr a"
    and "src \<in> set (ssh_sources a)"
  obtains i where "findIdentity iid = Some i" and "vi_authMode i \<noteq> AuthAgent"
    and "src \<in> Keychain VAULT_KEYRING_SERVICE `
      mode_accounts (vi_authMode i) VAULT_SSH_FIELDS iid (the (vi_keyId i))"
proof -
  obtain i key where r: "resolveIdentity findIdentity findKey iid = Inr (i, key)"
    using assms(1) by (auto simp: resolveSshAuth_def split: sum.splits)
  note i = resolveIdentity_InrD [OF r]
  have "Option.bind key vk_kind \<noteq> Some KindHardware"
    using assms r by (auto simp: resolveSshAuth_def Let_def set_ssh_sources split: if_splits)
  then obtain c where c: "sshKeychainCredentials (vi_authMode i) VAULT_SSH_FIELDS VAULT_KEYRING_SERVICE
      (vi_id i) (map_option vk_id key) = Inr c" "ssh_sources a = ssh_sources c"
    using assms(1) r by (auto simp: resolveSshAuth_def Let_def split: sum.splits if_splits)
  have "src \<in> Keychain VAULT_KEYRING_SERVICE ` mode_accounts (vi_authMode i) VAULT_SSH_FIELDS (vi_id i)
      (case map_option vk_id key of Some k \<Rightarrow> k | None \<Rightarrow> [])"
    using assms(2) sshKeychainCredentials_sources [OF c(1)] c(2) by simp
  moreover have "vk_id k = the (vi_keyId i)" if "key = Some k" for k
    using i that findKey_id by (auto simp: identity_key_def split: if_splits)
  ultimately have "src \<in> Keychain VAULT_KEYRING_SERVICE `
      mode_accounts (vi_authMode i) VAULT_SSH_FIELDS iid (the (vi_keyId i))"
    using i by (cases "vi_authMode i") (auto simp: mode_accounts_def split: option.splits)
  moreover from this have "vi_authMode i \<noteq> AuthAgent" by (auto simp: mode_accounts_def)
  ultimately show thesis using that i by blast
qed

text \<open>No missing secret: the resolution answers, or the key is a certificate key without its certificate.\<close>

lemma not_missing_resolves:
  assumes "findIdentity iid = Some i" and "\<not> identityMissingSecret i findKey"
  shows "(\<exists>a. resolveSshAuth findIdentity findKey (SshBoundTo iid) = Inr a) \<or>
    (\<exists>k. identity_key i = Some k \<and> vk_kind k = Some KindCert \<and> \<not> truthy (vk_certificate k))"
proof (cases "vi_authMode i = AuthKey")
  case False
  then show ?thesis using assms(1)
    by (cases "vi_authMode i") (auto simp: resolveSshAuth_def resolveIdentity_def Let_def)
next
  case True
  then obtain kid k where k: "vi_keyId i = Some kid" "kid \<noteq> []" "findKey kid = Some k" "\<not> keyMissingSecret k"
    using assms(2) by (auto simp: identityMissingSecret_def split: option.splits if_splits)
  have "vk_id k \<noteq> []" using k findKey_id by metis
  with True k assms(1) show ?thesis
    by (cases "vk_kind k")
      (auto simp: resolveSshAuth_def resolveIdentity_def identity_key_def keyMissingSecret_def Let_def)
qed

end

text \<open>Both lookups of the store are a \<open>find\<close> by id in the list of records.\<close>

interpretation store_lookup: vault_lookup "find_identity_in is" "find_key_in ks" for "is" ks
  by unfold_locales (auto simp: find_identity_in_def find_key_in_def find_Some_iff)

end
