(* ===== verification/Jumps.thy ===== *)
theory Jumps
  imports Vault_Resolve
begin

text \<open>
  ProxyJump chains (\<^verbatim>\<open>src/modules/hosts/jumps.ts\<close>): the walk from a host's jump host
  outward, refused when it meets a cycle, a missing host, an RDP host or more than sixteen hops, and
  the hop list in connect order with the credentials of each hop.
\<close>

section \<open>The walk\<close>

definition MAX_JUMP_HOPS :: nat where "MAX_JUMP_HOPS = 16"

datatype jump_error = JumpCycle | JumpMissing | JumpThroughRdp string | JumpTooLong

text \<open>\<open>new Map(all.map((h) => [h.id, h]))\<close>: a later row replaces an earlier one with the same id.\<close>

definition host_by_id :: "host list \<Rightarrow> string \<Rightarrow> host option" where
  "host_by_id all i = find (\<lambda>h. host_id h = i) (rev all)"

function jump_walk ::
  "(string \<Rightarrow> host option) \<Rightarrow> string option \<Rightarrow> string list \<Rightarrow> host list \<Rightarrow> jump_error + host list" where
  "jump_walk byId cursor visited chain =
     (if \<not> truthy cursor then Inr chain
      else if the cursor \<in> set visited then Inl JumpCycle
      else case byId (the cursor) of
        None \<Rightarrow> Inl JumpMissing
      | Some (RdpHost b d) \<Rightarrow> Inl (JumpThroughRdp (h_name b))
      | Some (SshHost b sp) \<Rightarrow>
        (let chain' = chain @ [SshHost b sp] in
         if MAX_JUMP_HOPS < length chain' then Inl JumpTooLong
         else jump_walk byId (s_proxyJumpId sp) (the cursor # visited) chain'))"
  by pat_completeness auto
termination by (relation "measure (\<lambda>(byId, cursor, visited, chain). Suc MAX_JUMP_HOPS - length chain)") auto

declare jump_walk.simps [simp del]

definition jumpChain :: "string option \<Rightarrow> string option \<Rightarrow> host list \<Rightarrow> jump_error + host list" where
  "jumpChain start selfId all =
     (if \<not> truthy start then Inr []
      else jump_walk (host_by_id all) start (if truthy selfId then [the selfId] else []) [])"

section \<open>Hops\<close>

record ssh_jump_hop = resolved_ssh_auth +
  j_connectionId :: string
  j_host :: string
  j_port :: nat
  j_expectedFingerprint :: "string option"

datatype hops_error = ChainError jump_error | AuthError vault_error

definition hop_of :: "host \<Rightarrow> resolved_ssh_auth \<Rightarrow> ssh_jump_hop" where
  "hop_of h auth = resolved_ssh_auth.extend auth
     \<lparr>j_connectionId = host_id h, j_host = h_host (base h), j_port = h_port (base h),
      j_expectedFingerprint = drop_empty (hostFingerprint h)\<rparr>"

text \<open>The binding of a hop; \<open>jumpChain\<close> only returns SSH hosts.\<close>

fun hop_binding :: "host \<Rightarrow> ssh_credential_binding" where
  "hop_binding (SshHost b sp) = s_credential sp"
| "hop_binding (RdpHost b d) = SshBoundTo []"

fun resolve_hops ::
  "(string \<Rightarrow> vault_identity option) \<Rightarrow> (string \<Rightarrow> vault_key option) \<Rightarrow> host list \<Rightarrow> hops_error + ssh_jump_hop list" where
  "resolve_hops fi fk [] = Inr []"
| "resolve_hops fi fk (h # hs) =
     (case resolveSshAuth fi fk (hop_binding h) of
        Inl e \<Rightarrow> Inl (AuthError e)
      | Inr auth \<Rightarrow>
        (case resolve_hops fi fk hs of
           Inl e \<Rightarrow> Inl e
         | Inr hops \<Rightarrow> Inr (hop_of h auth # hops)))"

definition resolveJumpHops ::
  "(string \<Rightarrow> vault_identity option) \<Rightarrow> (string \<Rightarrow> vault_key option) \<Rightarrow> string option \<Rightarrow> string option \<Rightarrow>
    host list \<Rightarrow> hops_error + ssh_jump_hop list" where
  "resolveJumpHops fi fk start selfId all =
     (case jumpChain start selfId all of
        Inl e \<Rightarrow> Inl (ChainError e)
      | Inr chain \<Rightarrow> resolve_hops fi fk (rev chain))"

section \<open>What a chain is\<close>

fun proxy_of :: "host \<Rightarrow> string option" where
  "proxy_of (SshHost b sp) = s_proxyJumpId sp"
| "proxy_of (RdpHost b d) = None"

text \<open>Each host is the SSH host the one before it names, and the last names none.\<close>

fun linked :: "(string \<Rightarrow> host option) \<Rightarrow> string option \<Rightarrow> host list \<Rightarrow> bool" where
  "linked byId cursor [] \<longleftrightarrow> \<not> truthy cursor"
| "linked byId cursor (h # hs) \<longleftrightarrow>
     truthy cursor \<and> byId (the cursor) = Some h \<and> isSshHost h \<and> linked byId (proxy_of h) hs"

text \<open>
  The abstract contract of the walk: linked from the start, no host twice, not through the host
  itself, within the cap.
\<close>

definition valid_chain :: "host list \<Rightarrow> string option \<Rightarrow> string option \<Rightarrow> host list \<Rightarrow> bool" where
  "valid_chain all start selfId chain \<longleftrightarrow> linked (host_by_id all) start chain
     \<and> distinct (map host_id chain) \<and> (truthy selfId \<longrightarrow> the selfId \<notin> set (map host_id chain))
     \<and> length chain \<le> MAX_JUMP_HOPS"

lemma host_by_id_SomeD: "host_by_id all i = Some h \<Longrightarrow> h \<in> set all \<and> host_id h = i"
  using find_SomeD [of "\<lambda>h. host_id h = i" "rev all" h] by (simp add: host_by_id_def)

text \<open>The walk stops at once, is refused, or takes one hop.\<close>

lemma jump_walk_stop: "\<not> truthy cursor \<Longrightarrow> jump_walk byId cursor visited acc = Inr acc"
  by (subst jump_walk.simps) simp

lemma jump_walk_hop:
  "truthy cursor \<Longrightarrow> the cursor \<notin> set visited \<Longrightarrow> byId (the cursor) = Some (SshHost b sp) \<Longrightarrow>
    length acc < MAX_JUMP_HOPS \<Longrightarrow>
    jump_walk byId cursor visited acc =
      jump_walk byId (s_proxyJumpId sp) (the cursor # visited) (acc @ [SshHost b sp])"
  by (subst jump_walk.simps) simp

lemma jump_walk_refused:
  assumes "truthy cursor"
    and "\<nexists>b sp. the cursor \<notin> set visited \<and> byId (the cursor) = Some (SshHost b sp) \<and> length acc < MAX_JUMP_HOPS"
  shows "jump_walk byId cursor visited acc \<noteq> Inr chain"
  using assms by (subst jump_walk.simps) (auto split: option.split host.split)

lemma linked_iff:
  assumes "truthy cursor"
  shows "linked byId cursor rest \<longleftrightarrow>
    (\<exists>b sp rs. rest = SshHost b sp # rs \<and> byId (the cursor) = Some (SshHost b sp) \<and> linked byId (s_proxyJumpId sp) rs)"
proof (cases rest)
  case (Cons h rs)
  then show ?thesis using assms by (cases h) auto
qed (use assms in simp)

lemma jump_walk_iff:
  assumes "\<And>i h. byId i = Some h \<Longrightarrow> host_id h = i" and "length acc \<le> MAX_JUMP_HOPS"
  shows "jump_walk byId cursor visited acc = Inr chain \<longleftrightarrow>
    (\<exists>rest. chain = acc @ rest \<and> linked byId cursor rest \<and> distinct (map host_id rest)
       \<and> set (map host_id rest) \<inter> set visited = {} \<and> length acc + length rest \<le> MAX_JUMP_HOPS)"
  using assms(2)
proof (induction "MAX_JUMP_HOPS - length acc" arbitrary: cursor visited acc rule: less_induct)
  case less
  show ?case
  proof (cases "truthy cursor")
    case False
    moreover have "linked byId cursor rest \<longleftrightarrow> rest = []" for rest using False by (cases rest) auto
    ultimately show ?thesis using less.prems by (auto simp: jump_walk_stop)
  next
    case True
    have key: "host_id (SshHost b sp) = the cursor" if "byId (the cursor) = Some (SshHost b sp)" for b sp
      using assms(1) that by blast
    show ?thesis
    proof (cases "\<exists>b sp. the cursor \<notin> set visited \<and> byId (the cursor) = Some (SshHost b sp) \<and> length acc < MAX_JUMP_HOPS")
      case False
      then have "jump_walk byId cursor visited acc \<noteq> Inr chain"
        by (intro jump_walk_refused [OF True]) blast
      then show ?thesis using False key unfolding linked_iff [OF True] by fastforce
    next
      case hop: True
      then obtain b sp where h: "the cursor \<notin> set visited" "byId (the cursor) = Some (SshHost b sp)"
        "length acc < MAX_JUMP_HOPS" by blast
      have "jump_walk byId (s_proxyJumpId sp) (the cursor # visited) (acc @ [SshHost b sp]) = Inr chain \<longleftrightarrow>
        (\<exists>rs. chain = (acc @ [SshHost b sp]) @ rs \<and> linked byId (s_proxyJumpId sp) rs \<and> distinct (map host_id rs)
         \<and> set (map host_id rs) \<inter> set (the cursor # visited) = {} \<and> length (acc @ [SshHost b sp]) + length rs \<le> MAX_JUMP_HOPS)"
        using h(3) by (intro less.hyps) auto
      moreover have "jump_walk byId cursor visited acc =
        jump_walk byId (s_proxyJumpId sp) (the cursor # visited) (acc @ [SshHost b sp])"
        using True h by (intro jump_walk_hop) auto
      ultimately show ?thesis
        unfolding linked_iff [OF True] using h key [OF h(2)] by auto
    qed
  qed
qed

lemma jumpChain_iff: "jumpChain start selfId all = Inr chain \<longleftrightarrow> valid_chain all start selfId chain"
proof (cases "truthy start")
  case True
  have "jumpChain start selfId all = Inr chain \<longleftrightarrow>
      (\<exists>rest. chain = [] @ rest \<and> linked (host_by_id all) start rest \<and> distinct (map host_id rest)
       \<and> set (map host_id rest) \<inter> set (if truthy selfId then [the selfId] else []) = {} \<and> length ([] :: host list) + length rest \<le> MAX_JUMP_HOPS)"
    using True host_by_id_SomeD [of all]
    by (simp add: jumpChain_def jump_walk_iff [of "host_by_id all" "[]"])
  then show ?thesis by (cases "truthy selfId") (auto simp: valid_chain_def)
next
  case False
  then have "linked (host_by_id all) start chain \<longleftrightarrow> chain = []" by (cases chain) auto
  then show ?thesis using False by (auto simp: jumpChain_def valid_chain_def)
qed

text \<open>
  C33: the jump chain walk is exact: it answers a chain just when that chain is linked from the
  given jump host (each hop an existing SSH host, the next one the host it names, the last naming
  none), visits no host twice, does not pass through the host itself and has at most sixteen hops.
  In every other case it is refused.
\<close>

theorem jumpChain_exact:
  "(jumpChain start selfId all = Inr chain \<longleftrightarrow>
     linked (host_by_id all) start chain \<and> distinct (map host_id chain)
     \<and> (truthy selfId \<longrightarrow> the selfId \<notin> set (map host_id chain)) \<and> length chain \<le> 16)
   \<and> ((\<nexists>chain. valid_chain all start selfId chain) \<longleftrightarrow> (\<exists>e. jumpChain start selfId all = Inl e))"
proof -
  have "(\<exists>e. jumpChain start selfId all = Inl e) \<longleftrightarrow> (\<nexists>c. jumpChain start selfId all = Inr c)"
    by (cases "jumpChain start selfId all") auto
  then show ?thesis unfolding jumpChain_iff valid_chain_def MAX_JUMP_HOPS_def by blast
qed

section \<open>Connect order\<close>

lemma hop_of_simps [simp]:
  "j_connectionId (hop_of h a) = host_id h" "j_host (hop_of h a) = h_host (base h)"
  "j_port (hop_of h a) = h_port (base h)" "c_user (hop_of h a) = c_user a"
  "j_expectedFingerprint (hop_of h a) = drop_empty (hostFingerprint h)"
  "ssh_sources (hop_of h a) = ssh_sources a"
  by (simp_all add: hop_of_def ssh_sources_def resolved_ssh_auth.defs)

lemma resolve_hops_list:
  "resolve_hops fi fk hs = Inr hops \<longleftrightarrow>
    list_all2 (\<lambda>h hop. \<exists>a. resolveSshAuth fi fk (hop_binding h) = Inr a \<and> hop = hop_of h a) hs hops"
proof (induction hs arbitrary: hops)
  case (Cons h hs)
  show ?case
  proof (cases "resolveSshAuth fi fk (hop_binding h)")
    case (Inr a)
    show ?thesis
    proof (cases "resolve_hops fi fk hs")
      case (Inl e)
      then show ?thesis using Cons.IH \<open>resolveSshAuth fi fk (hop_binding h) = Inr a\<close>
        by (auto simp: list_all2_Cons1)
    next
      case rest: (Inr hs')
      then have "list_all2 (\<lambda>h hop. \<exists>a. resolveSshAuth fi fk (hop_binding h) = Inr a \<and> hop = hop_of h a) hs ys
        \<longleftrightarrow> ys = hs'" for ys using Cons.IH [of ys] by auto
      then show ?thesis using rest Inr by (auto simp: list_all2_Cons1)
    qed
  qed (auto simp: list_all2_Cons1)
qed auto

text \<open>
  The hops of a connect. A resolution answers just when the chain is valid and every hop's
  credential resolves; its hops are then the hosts of the chain in reverse, the publicly reachable
  entry first and the jump host of the target last, each dialled at the host's own address and port,
  with the credential its binding resolves to, and none of them carries a secret value: every
  secret is named by its keychain entry.
\<close>

theorem resolveJumpHops_spec:
  "(resolveJumpHops fi fk start selfId all = Inr hops \<longleftrightarrow>
     (\<exists>chain. valid_chain all start selfId chain \<and>
        list_all2 (\<lambda>h hop. \<exists>a. resolveSshAuth fi fk (hop_binding h) = Inr a \<and> hop = hop_of h a) (rev chain) hops))
   \<and> (resolveJumpHops fi fk start selfId all = Inr hops \<longrightarrow>
       (\<exists>chain. jumpChain start selfId all = Inr chain
        \<and> map j_connectionId hops = rev (map host_id chain)
        \<and> map (\<lambda>p. (j_host p, j_port p)) hops = rev (map (\<lambda>h. (h_host (base h), h_port (base h))) chain))
       \<and> list_all (\<lambda>hop. list_all is_keychain (ssh_sources hop)) hops)"
proof -
  let ?R = "\<lambda>h hop. \<exists>a. resolveSshAuth fi fk (hop_binding h) = Inr a \<and> hop = hop_of h a"
  have iff: "resolveJumpHops fi fk start selfId all = Inr hops \<longleftrightarrow>
      (\<exists>chain. jumpChain start selfId all = Inr chain \<and> list_all2 ?R (rev chain) hops)"
    by (auto simp: resolveJumpHops_def resolve_hops_list split: sum.splits)
  have hops: "map j_connectionId hops = map host_id hs
      \<and> map (\<lambda>p. (j_host p, j_port p)) hops = map (\<lambda>h. (h_host (base h), h_port (base h))) hs
      \<and> list_all (\<lambda>hop. list_all is_keychain (ssh_sources hop)) hops"
    if "list_all2 ?R hs hops" for hs
    using that by (induction rule: list_all2_induct) (auto dest: resolved_keychain)
  show ?thesis unfolding iff jumpChain_iff [symmetric] by (auto simp: rev_map dest!: hops)
qed

end
