(* ===== verification/Vault_Props.thy ===== *)
theory Vault_Props
  imports Jumps
begin

text \<open>
  What the vault and the host records promise: where a resolved credential reads its secrets, when a
  resolution answers, what the change stamps detect, and the normal form of tags and known hosts.
\<close>

section \<open>Credentials\<close>

text \<open>
  C34: where a connect reads its secrets. Every secret of a resolved SSH credential is a keychain
  entry, never a value. With credentials of its own a host reads only its own entries in the hosts'
  service; bound to an identity it reads only the vault's service, and there the password of exactly
  that identity or the private key and passphrase of exactly the key the identity names.
\<close>

theorem resolved_secrets_owned:
  assumes "resolveSshAuth (find_identity_in is) (find_key_in ks) b = Inr a" and "src \<in> set (ssh_sources a)"
  shows "case b of
      SshInline c \<Rightarrow> \<exists>f \<in> {HOST_SSH_PASSWORD_FIELD, HOST_SSH_PRIVATE_KEY_FIELD, HOST_SSH_KEY_PASSPHRASE_FIELD}.
        src = Keychain HOST_KEYRING_SERVICE (vaultAccount (si_hostId c) f)
    | SshBoundTo iid \<Rightarrow> \<exists>i \<in> set is. vi_id i = iid \<and>
        ((vi_authMode i = AuthPassword \<and> src = Keychain VAULT_KEYRING_SERVICE (vaultAccount iid IDENTITY_PASSWORD_FIELD))
         \<or> (vi_authMode i = AuthKey \<and> (\<exists>f \<in> {KEY_PRIVATE_KEY_FIELD, KEY_PASSPHRASE_FIELD}.
              src = Keychain VAULT_KEYRING_SERVICE (vaultAccount (the (vi_keyId i)) f))))"
proof (cases b)
  case (SshInline c)
  then have "src \<in> Keychain HOST_KEYRING_SERVICE ` mode_accounts (si_authMode c) HOST_SSH_FIELDS (si_hostId c) (si_hostId c)"
    using assms resolve_inline_sources by blast
  then show ?thesis using SshInline
    by (auto simp: mode_accounts_def HOST_SSH_FIELDS_def split: vault_auth_mode.splits)
next
  case (SshBoundTo iid)
  obtain i where i: "find_identity_in is iid = Some i" "vi_authMode i \<noteq> AuthAgent"
    "src \<in> Keychain VAULT_KEYRING_SERVICE ` mode_accounts (vi_authMode i) VAULT_SSH_FIELDS iid (the (vi_keyId i))"
    using assms store_lookup.resolve_bound_sources [of "is" ks iid a src] SshBoundTo by blast
  moreover have "i \<in> set is" "vi_id i = iid" using i(1) find_SomeD by (fastforce simp: find_identity_in_def)+
  ultimately show ?thesis using SshBoundTo
    by (cases "vi_authMode i") (auto simp: mode_accounts_def VAULT_SSH_FIELDS_def)
qed

text \<open>
  C35: an identity that is not shown as missing a secret can be connected with: its resolution answers,
  the one exception being a certificate key whose certificate is absent, which is refused by name.
\<close>

theorem complete_identity_resolves:
  assumes "find_identity_in is iid = Some i" and "\<not> identityMissingSecret i (find_key_in ks)"
  shows "(\<exists>a. resolveSshAuth (find_identity_in is) (find_key_in ks) (SshBoundTo iid) = Inr a)
    \<or> (\<exists>k. vi_authMode i = AuthKey \<and> find_key_in ks (the (vi_keyId i)) = Some k \<and> vk_kind k = Some KindCert
        \<and> \<not> truthy (vk_certificate k)
        \<and> resolveSshAuth (find_identity_in is) (find_key_in ks) (SshBoundTo iid) = Inl (CertKeyWithoutCertificate (vk_name k)))"
proof -
  consider (ok) "\<exists>a. resolveSshAuth (find_identity_in is) (find_key_in ks) (SshBoundTo iid) = Inr a"
    | (cert) k where "store_lookup.identity_key ks i = Some k" "vk_kind k = Some KindCert" "\<not> truthy (vk_certificate k)"
    using store_lookup.not_missing_resolves [OF assms] by blast
  then show ?thesis
  proof cases
    case (cert k)
    then have k: "vi_authMode i = AuthKey" "truthy (vi_keyId i)" "find_key_in ks (the (vi_keyId i)) = Some k"
      by (auto simp: store_lookup.identity_key_def split: if_splits)
    have "vk_id k \<noteq> []" using k store_lookup.findKey_id by (fastforce simp: truthy_iff)
    then have "resolveSshAuth (find_identity_in is) (find_key_in ks) (SshBoundTo iid) = Inl (CertKeyWithoutCertificate (vk_name k))"
      using k cert assms(1) by (simp add: resolveSshAuth_def resolveIdentity_def Let_def)
    then show ?thesis using k cert by blast
  qed blast
qed

text \<open>
  Keychain accounts are unambiguous: two accounts of the same service coincide only for the same
  record and the same field, whatever the ids are.
\<close>

theorem accounts_unambiguous:
  assumes "f \<in> set secret_fields" and "g \<in> set secret_fields"
  shows "vaultAccount i f = vaultAccount j g \<longleftrightarrow> i = j \<and> f = g"
  using assms by (rule vaultAccount_eq_iff)

section \<open>Change stamps\<close>

text \<open>
  The stamps an editor compares before it saves detect every change of ownership. A host's stamp
  changes just when its binding does (deleted, own credentials, or another identity); an identity's
  when it is deleted, gains or loses its password, or changes its auth mode or key; a key's whenever
  it is deleted or changes kind, gains or loses its private key or passphrase, or its encryption
  flag changes.
\<close>

theorem stamps_detect_changes:
  "(credentialStamp a = credentialStamp b \<longleftrightarrow> map_option bound_identity a = map_option bound_identity b)
   \<and> (vaultIdentityStamp u = vaultIdentityStamp v \<longleftrightarrow>
        map_option (\<lambda>i. (vi_hasPassword i, vi_authMode i, or_empty (vi_keyId i))) u =
        map_option (\<lambda>i. (vi_hasPassword i, vi_authMode i, or_empty (vi_keyId i))) v)
   \<and> (vaultKeyStamp k = vaultKeyStamp l \<longrightarrow>
        map_option (\<lambda>k. (vk_kind k, vk_hasPrivateKey k, vk_hasPassphrase k, vk_encrypted k)) k =
        map_option (\<lambda>k. (vk_kind k, vk_hasPrivateKey k, vk_hasPassphrase k, vk_encrypted k)) l)"
proof (intro conjI impI)
  show "credentialStamp a = credentialStamp b \<longleftrightarrow> map_option bound_identity a = map_option bound_identity b"
    by (rule credentialStamp_eq_iff)
  show "vaultIdentityStamp u = vaultIdentityStamp v \<longleftrightarrow>
        map_option (\<lambda>i. (vi_hasPassword i, vi_authMode i, or_empty (vi_keyId i))) u =
        map_option (\<lambda>i. (vi_hasPassword i, vi_authMode i, or_empty (vi_keyId i))) v"
    using vaultIdentityStamp_absent_iff auth_mode_prefix
    by (cases u; cases v) (auto simp: VAULT_STAMP_ABSENT_def)
  assume "vaultKeyStamp k = vaultKeyStamp l"
  then show "map_option (\<lambda>k. (vk_kind k, vk_hasPrivateKey k, vk_hasPassphrase k, vk_encrypted k)) k =
        map_option (\<lambda>k. (vk_kind k, vk_hasPrivateKey k, vk_hasPassphrase k, vk_encrypted k)) l"
    using vaultKeyStamp_absent_iff [of k] vaultKeyStamp_absent_iff [of l] kind_name_prefix
    by (cases k; cases l) (auto simp: Let_def)
qed

section \<open>Tags and known hosts\<close>

text \<open>
  Host tags are brought into a normal form from anything a file may hold: at most 24 tags, each
  trimmed, not empty and at most 40 characters, no two equal up to case; and a list in that form is
  kept as it is, so saving and loading again changes nothing.
\<close>

theorem tags_normal_form:
  assumes "normalizeHostTags raw = Some out"
  shows "out \<noteq> [] \<and> length out \<le> 24 \<and> distinct (map js_lower out)
    \<and> list_all (\<lambda>t. t \<noteq> [] \<and> js_trim t = t \<and> length t \<le> 40) out
    \<and> normalizeHostTags (Some (map TagString out)) = Some out"
  using normalizeHostTags_ok [OF assms] normalizeHostTags_fixed [of out]
  by (auto simp: tags_ok_def tag_ok_def [abs_def] HOST_TAG_MAX_COUNT_def HOST_TAG_MAX_LENGTH_def)

text \<open>
  The known hosts page lists every pinned fingerprint exactly once: one row per host and pinned
  address, nothing else, ordered by host name, then address, then host id.
\<close>

theorem knownHostRows_complete:
  assumes "proper_cmp localeCompare"
  shows "mset (knownHostRows localeCompare hosts) =
      mset (concat (map (\<lambda>h. map (\<lambda>(addr, fp). \<lparr>kh_hostId = host_id h, kh_hostName = h_name (base h),
        kh_isSsh = isSshHost h, kh_address = addr, kh_fingerprint = fp\<rparr>) (hostPins h)) hosts))
    \<and> sorted_wrt (\<lambda>a b. known_host_cmp localeCompare a b \<le> 0) (knownHostRows localeCompare hosts)"
  using sorted_js_sort [OF proper_consistent [OF proper_known_host_cmp [OF assms]]] by (simp add: knownHostRows_def host_rows_def [abs_def])

section \<open>Concrete instances\<close>

text \<open>One key and three identities: by key, by password, and by a certificate key without its certificate.\<close>

definition demo_key :: "string \<Rightarrow> vault_key_kind option \<Rightarrow> vault_key" where
  "demo_key i kind = \<lparr>vk_id = i, vk_kind = kind, vk_name = i, vk_keyType = Some KtEd25519, vk_fingerprint = None,
     vk_publicKey = None, vk_hasPrivateKey = True, vk_hasPassphrase = False, vk_encrypted = Some False,
     vk_description = None, vk_updatedAt = None, vk_lastConnectedAt = None, vk_certificate = None,
     vk_certCaFingerprint = None, vk_certKeyId = None, vk_certPrincipals = None, vk_certValidAfter = None,
     vk_certValidBefore = None\<rparr>"

definition demo_identity :: "string \<Rightarrow> vault_auth_mode \<Rightarrow> string option \<Rightarrow> vault_identity" where
  "demo_identity i m k = \<lparr>vi_id = i, vi_name = i, vi_username = ''root'', vi_domain = None, vi_authMode = m,
     vi_hasPassword = (m = AuthPassword), vi_keyId = k, vi_description = None, vi_updatedAt = None,
     vi_lastConnectedAt = None\<rparr>"

definition demo_keys :: "vault_key list" where
  "demo_keys = [demo_key ''k1'' None, demo_key ''k2'' (Some KindCert)]"

definition demo_identities :: "vault_identity list" where
  "demo_identities = [demo_identity ''ops'' AuthKey (Some ''k1''), demo_identity ''web'' AuthPassword None,
     demo_identity ''cert'' AuthKey (Some ''k2'')]"

definition demo_auth :: resolved_ssh_auth where
  "demo_auth = projr (resolveSshAuth (find_identity_in demo_identities) (find_key_in demo_keys) (SshBoundTo ''ops''))"

theorem resolved_secrets_owned_witness:
  "Keychain ''tervia-vault'' ''k1::privateKey'' \<in> set (ssh_sources demo_auth) \<and>
    (\<exists>i \<in> set demo_identities. vi_id i = ''ops'' \<and> vi_authMode i = AuthKey)"
proof -
  have r: "resolveSshAuth (find_identity_in demo_identities) (find_key_in demo_keys) (SshBoundTo ''ops'') = Inr demo_auth"
    and m: "Keychain ''tervia-vault'' ''k1::privateKey'' \<in> set (ssh_sources demo_auth)" by code_simp+
  have "\<exists>i \<in> set demo_identities. vi_id i = ''ops'' \<and>
      ((vi_authMode i = AuthPassword \<and> Keychain ''tervia-vault'' ''k1::privateKey'' =
          Keychain VAULT_KEYRING_SERVICE (vaultAccount ''ops'' IDENTITY_PASSWORD_FIELD)) \<or> vi_authMode i = AuthKey)"
    using resolved_secrets_owned [OF r m] by auto
  moreover have "Keychain ''tervia-vault'' ''k1::privateKey'' \<noteq> Keychain VAULT_KEYRING_SERVICE (vaultAccount ''ops'' IDENTITY_PASSWORD_FIELD)"
    by code_simp
  ultimately show ?thesis using m by blast
qed

theorem complete_identity_resolves_witness:
  "resolveSshAuth (find_identity_in demo_identities) (find_key_in demo_keys) (SshBoundTo ''cert'') = Inl (CertKeyWithoutCertificate ''k2'')
   \<and> \<not> identityMissingSecret (demo_identity ''cert'' AuthKey (Some ''k2'')) (find_key_in demo_keys)
   \<and> (\<exists>a. resolveSshAuth (find_identity_in demo_identities) (find_key_in demo_keys) (SshBoundTo ''web'') = Inr a)"
proof -
  have w: "find_identity_in demo_identities ''web'' = Some (demo_identity ''web'' AuthPassword None)"
    "\<not> identityMissingSecret (demo_identity ''web'' AuthPassword None) (find_key_in demo_keys)"
    "vi_authMode (demo_identity ''web'' AuthPassword None) \<noteq> AuthKey" by code_simp+
  have "resolveSshAuth (find_identity_in demo_identities) (find_key_in demo_keys) (SshBoundTo ''cert'') = Inl (CertKeyWithoutCertificate ''k2'')"
    "\<not> identityMissingSecret (demo_identity ''cert'' AuthKey (Some ''k2'')) (find_key_in demo_keys)" by code_simp+
  then show ?thesis using complete_identity_resolves [OF w(1,2)] w(3) by blast
qed

theorem accounts_unambiguous_witness:
  "vaultAccount ''a::b'' ''password'' \<noteq> vaultAccount ''a'' ''privateKey''"
proof -
  have "''password'' \<in> set secret_fields" "''privateKey'' \<in> set secret_fields" by code_simp+
  then show ?thesis using accounts_unambiguous [of "''password''" "''privateKey''" "''a::b''" "''a''"] by simp
qed

theorem stamps_detect_changes_witness:
  "vaultKeyStamp (Some (demo_key ''k1'' None)) \<noteq> vaultKeyStamp (Some (demo_key ''k1'' (Some KindCert)))"
  using stamps_detect_changes [of _ _ _ _ "Some (demo_key ''k1'' None)" "Some (demo_key ''k1'' (Some KindCert))"]
  by (auto simp: demo_key_def)

theorem tags_normal_form_witness:
  "normalizeHostTags (Some [TagString '' prod '', TagOther, TagString ''PROD'', TagString ''eu'']) = Some [''prod'', ''eu'']
   \<and> normalizeHostTags (Some (map TagString [''prod'', ''eu''])) = Some [''prod'', ''eu'']"
proof -
  have r: "normalizeHostTags (Some [TagString '' prod '', TagOther, TagString ''PROD'', TagString ''eu'']) = Some [''prod'', ''eu'']"
    by code_simp
  show ?thesis using tags_normal_form [OF r] r by blast
qed

text \<open>An entry host with its own password, and a host behind it that uses the shared key.\<close>

definition demo_base :: "string \<Rightarrow> string \<Rightarrow> host_base" where
  "demo_base i addr = \<lparr>h_id = i, h_name = i, h_host = addr, h_port = 22, h_groupId = None, h_tags = None, h_icon = None,
     h_color = None, h_description = None, h_lastConnectedAt = None, h_pins = None, h_updatedAt = None\<rparr>"

definition demo_hosts :: "host list" where
  "demo_hosts =
     [SshHost (demo_base ''edge'' ''edge.example'')
        \<lparr>s_credential = SshInline \<lparr>si_hostId = ''edge'', si_user = ''me'', si_authMode = AuthPassword, si_hasPassword = True,
           si_hasPrivateKey = False, si_hasKeyPassphrase = False\<rparr>,
         s_proxyJumpId = None, s_lastFingerprint = Some ''SHA256:e''\<rparr>,
      SshHost (demo_base ''inner'' ''inner.example'')
        \<lparr>s_credential = SshBoundTo ''ops'', s_proxyJumpId = Some ''edge'', s_lastFingerprint = Some ''SHA256:i''\<rparr>]"

theorem knownHostRows_complete_witness:
  "map kh_address (knownHostRows by_length demo_hosts) = [''edge.example'', ''inner.example'']
   \<and> sorted_wrt (\<lambda>a b. known_host_cmp by_length a b \<le> 0) (knownHostRows by_length demo_hosts)"
proof -
  have "map kh_address (knownHostRows by_length demo_hosts) = [''edge.example'', ''inner.example'']" by code_simp
  then show ?thesis using knownHostRows_complete [OF proper_by_length] by blast
qed

text \<open>The target behind \<open>inner\<close> behind \<open>edge\<close>.\<close>

theorem jumpChain_exact_witness:
  "jumpChain (Some ''inner'') (Some ''target'') demo_hosts = Inr [demo_hosts ! 1, demo_hosts ! 0]
   \<and> linked (host_by_id demo_hosts) (Some ''inner'') [demo_hosts ! 1, demo_hosts ! 0]"
proof -
  have "jumpChain (Some ''inner'') (Some ''target'') demo_hosts = Inr [demo_hosts ! 1, demo_hosts ! 0]" by code_simp
  then show ?thesis using jumpChain_exact [of "Some ''inner''" "Some ''target''" demo_hosts "[demo_hosts ! 1, demo_hosts ! 0]"] by blast
qed

definition demo_hops :: "ssh_jump_hop list" where
  "demo_hops = projr (resolveJumpHops (find_identity_in demo_identities) (find_key_in demo_keys) (Some ''inner'') (Some ''target'') demo_hosts)"

theorem resolveJumpHops_spec_witness:
  "map j_connectionId demo_hops = [''edge'', ''inner''] \<and> list_all (\<lambda>hop. list_all is_keychain (ssh_sources hop)) demo_hops"
proof -
  have "resolveJumpHops (find_identity_in demo_identities) (find_key_in demo_keys) (Some ''inner'') (Some ''target'') demo_hosts = Inr demo_hops"
    and "map j_connectionId demo_hops = [''edge'', ''inner'']" by code_simp+
  then show ?thesis
    using resolveJumpHops_spec [of "find_identity_in demo_identities" "find_key_in demo_keys" "Some ''inner''" "Some ''target''" demo_hosts demo_hops]
    by blast
qed

end
