(* ===== verification/Group_Tree.thy ===== *)
theory Group_Tree
  imports Host_Types
begin

text \<open>
  The group list as a forest (\<^verbatim>\<open>src/modules/hosts/groupTree.ts\<close>). A synced list may hold parent
  references that dangle or form cycles; the resolution reads those groups as roots. The locale
  \<open>forest\<close> is the contract of that resolution (a finite, acyclic parent function); everything that
  walks the list rests on its interpretation on \<open>parent_of\<close>, the resolved parents of any list.
  \<open>String.prototype.localeCompare\<close> depends on the host's locale and is a parameter.
\<close>

section \<open>Forests\<close>

locale forest =
  fixes nodes :: "'a set"
    and parent :: "'a \<Rightarrow> 'a option"
  assumes finite_nodes: "finite nodes"
    and parent_nodes: "parent i = Some p \<Longrightarrow> i \<in> nodes \<and> p \<in> nodes"
    and no_cycle: "(i, i) \<notin> {(j, p). parent j = Some p}\<^sup>+"
begin

definition up :: "('a \<times> 'a) set" where
  "up = {(j, p). parent j = Some p}"

definition above :: "'a \<Rightarrow> 'a set" where "above i = {p. (i, p) \<in> up\<^sup>+}"

definition below :: "'a \<Rightarrow> 'a set" where "below p = {i. (i, p) \<in> up\<^sup>+}"

lemma up_iff [simp]: "(i, p) \<in> up \<longleftrightarrow> parent i = Some p"
  by (simp add: up_def)

lemma irreflexive: "(i, i) \<notin> up\<^sup>+"
  using no_cycle by (simp add: up_def)

lemma up_nodes: "(i, p) \<in> up\<^sup>+ \<Longrightarrow> i \<in> nodes \<and> p \<in> nodes"
  by (induction rule: trancl_induct) (auto dest: parent_nodes)

lemma finite_walks: "finite (above i)" "finite (below i)"
  using up_nodes finite_nodes by (auto simp: above_def below_def intro: finite_subset)

lemma above_parent: "parent i = Some p \<Longrightarrow> above i = insert p (above p)"
  by (auto simp: above_def elim: converse_tranclE intro: trancl_into_trancl2)

lemma above_decreases: "parent i = Some p \<Longrightarrow> card (above p) < card (above i)"
  using above_parent [of i p] irreflexive [of p] finite_walks(1) [of p] by (simp add: above_def)

lemma below_decreases:
  assumes "parent i = Some p"
  shows "card (below i) < card (below p)"
proof (rule psubset_card_mono [OF finite_walks(2)])
  have "below i \<subseteq> below p" using assms by (auto simp: below_def intro: trancl_into_trancl)
  moreover have "i \<in> below p" "i \<notin> below i" using assms irreflexive by (auto simp: below_def)
  ultimately show "below i \<subset> below p" by blast
qed

lemma below_bounded: "card (below i) \<le> card nodes"
  using up_nodes finite_nodes by (intro card_mono) (auto simp: below_def)

lemma ancestors_linear: "(i, p) \<in> up\<^sup>* \<Longrightarrow> (i, q) \<in> up\<^sup>* \<Longrightarrow> (p, q) \<in> up\<^sup>* \<or> (q, p) \<in> up\<^sup>*"
  by (rule single_valued_confluent) (auto simp: single_valued_def)

text \<open>Two different children of the same parent have no descendant in common; nor have two roots.\<close>

lemma siblings_disjoint:
  assumes "parent c = parent d" and "(i, c) \<in> up\<^sup>*" and "(i, d) \<in> up\<^sup>*"
  shows "c = d"
proof (rule ccontr)
  assume "c \<noteq> d"
  have no: False if cd: "(c, d) \<in> up\<^sup>*" "c \<noteq> d" "parent c = parent d" for c d
  proof -
    obtain p where "parent c = Some p" "(p, d) \<in> up\<^sup>*" using cd by (auto elim: converse_rtranclE)
    moreover have "(d, p) \<in> up" using cd calculation by simp
    ultimately show False using irreflexive [of d] by (meson rtrancl_into_trancl2)
  qed
  show False using ancestors_linear [OF assms(2,3)] no [of c d] no [of d c] \<open>c \<noteq> d\<close> assms(1) by auto
qed

text \<open>Every node hangs off a root.\<close>

lemma root_exists: "\<exists>r. (i, r) \<in> up\<^sup>* \<and> parent r = None"
proof (induction "card (above i)" arbitrary: i rule: less_induct)
  case less
  show ?case
  proof (cases "parent i")
    case (Some p)
    then obtain r where "(p, r) \<in> up\<^sup>*" "parent r = None" using less above_decreases by blast
    then show ?thesis using Some by (meson converse_rtrancl_into_rtrancl up_iff)
  qed auto
qed

end

section \<open>Effective parents\<close>

text \<open>\<open>new Map(groups.map((g) => [g.id, g]))\<close>: a later row replaces an earlier one with the same id.\<close>

definition group_by_id :: "host_group list \<Rightarrow> string \<Rightarrow> host_group option" where
  "group_by_id groups i = find (\<lambda>g. g_id g = i) (rev groups)"

definition group_ids :: "host_group list \<Rightarrow> string set" where
  "group_ids groups = g_id ` set groups"

text \<open>\<open>byId.get(id)?.parentId\<close>.\<close>

definition raw_parent :: "host_group list \<Rightarrow> string \<Rightarrow> string option" where
  "raw_parent groups i = Option.bind (group_by_id groups i) g_parentId"

lemma group_by_id_SomeD: "group_by_id groups i = Some g \<Longrightarrow> g \<in> set groups \<and> g_id g = i"
  using find_SomeD [of "\<lambda>g. g_id g = i" "rev groups" g] by (simp add: group_by_id_def)

lemma group_by_id_None: "group_by_id groups i = None \<longleftrightarrow> i \<notin> group_ids groups"
  by (auto simp: group_by_id_def group_ids_def find_None_iff)

lemma raw_parent_known: "raw_parent groups i \<noteq> None \<Longrightarrow> i \<in> group_ids groups"
  using group_by_id_None [of groups i] by (cases "group_by_id groups i") (auto simp: raw_parent_def)

lemma finite_group_ids [simp]: "finite (group_ids groups)"
  by (simp add: group_ids_def)

text \<open>
  The loop of \<open>effectiveParentId\<close>: does the walk from the cursor meet \<open>i\<close>? It ends when it leaves
  the list or meets a group it has seen; each turn either sees a new group or leaves.
\<close>

function climb :: "host_group list \<Rightarrow> string \<Rightarrow> string option \<Rightarrow> string list \<Rightarrow> bool" where
  "climb groups i cursor seen =
     (case cursor of
        None \<Rightarrow> False
      | Some c \<Rightarrow>
        (if c \<in> set seen then False
         else if c = i then True
         else climb groups i (raw_parent groups c) (c # seen)))"
  by pat_completeness auto
termination
proof (relation "measure (\<lambda>(groups, i, cursor, seen).
    2 * card (group_ids groups - set seen) + (if cursor = None then 0 else 1))", goal_cases)
  case (2 groups i cursor seen c)
  show ?case
  proof (cases "c \<in> group_ids groups")
    case True
    then have "card (group_ids groups - insert c (set seen)) < card (group_ids groups - set seen)"
      using 2 by (intro psubset_card_mono) auto
    then show ?thesis using 2 by simp
  next
    case False
    then have "raw_parent groups c = None" using raw_parent_known by blast
    moreover have "group_ids groups - insert c (set seen) = group_ids groups - set seen" using False by blast
    ultimately show ?thesis using 2 by simp
  qed
qed simp

declare climb.simps [simp del]

definition effectiveParentId :: "string \<Rightarrow> host_group list \<Rightarrow> string option" where
  "effectiveParentId i groups =
     (case raw_parent groups i of
        None \<Rightarrow> None
      | Some raw \<Rightarrow>
        (if group_by_id groups raw = None then None
         else if climb groups i (Some raw) [] then None
         else Some raw))"

definition effectiveParents :: "host_group list \<Rightarrow> string \<Rightarrow> string option option" where
  "effectiveParents groups = map_of (map (\<lambda>g. (g_id g, effectiveParentId (g_id g) groups)) groups)"

text \<open>\<open>parents.get(id)\<close>: absent and root both read as \<open>undefined\<close>.\<close>

definition parent_of :: "host_group list \<Rightarrow> string \<Rightarrow> string option" where
  "parent_of groups i = Option.bind (effectiveParents groups i) id"

text \<open>The walk decides whether \<open>i\<close> is above the cursor in the raw references.\<close>

definition raw_up :: "host_group list \<Rightarrow> (string \<times> string) set" where
  "raw_up groups = {(j, p). raw_parent groups j = Some p}"

lemma closed_unreachable:
  "(c, i) \<in> R\<^sup>* \<Longrightarrow> c \<in> S \<Longrightarrow> (\<And>s t. s \<in> S \<Longrightarrow> (s, t) \<in> R \<Longrightarrow> t \<in> S) \<Longrightarrow> i \<in> S"
  by (induction rule: rtrancl_induct) auto

lemma climb_iff:
  assumes "i \<notin> set seen"
    and "\<And>s t. s \<in> set seen \<Longrightarrow> raw_parent groups s = Some t \<Longrightarrow> t \<in> set seen \<or> cursor = Some t"
  shows "climb groups i cursor seen \<longleftrightarrow> (\<exists>c. cursor = Some c \<and> (c, i) \<in> (raw_up groups)\<^sup>*)"
  using assms
proof (induction groups i cursor seen rule: climb.induct)
  case (1 groups i cursor seen)
  show ?case
  proof (cases cursor)
    case (Some c)
    consider (old) "c \<in> set seen" | (hit) "c \<notin> set seen" "c = i" | (on) "c \<notin> set seen" "c \<noteq> i" by blast
    then show ?thesis
    proof cases
      case old
      have "(c, i) \<notin> (raw_up groups)\<^sup>*"
        using closed_unreachable [of c i "raw_up groups" "set seen"] old "1.prems" Some by (auto simp: raw_up_def)
      then show ?thesis using old Some by (subst climb.simps) simp
    next
      case hit
      then show ?thesis using Some by (subst climb.simps) simp
    next
      case on
      have "climb groups i (raw_parent groups c) (c # seen) \<longleftrightarrow>
          (\<exists>d. raw_parent groups c = Some d \<and> (d, i) \<in> (raw_up groups)\<^sup>*)"
        by (rule "1.IH" [OF Some on]) (use on "1.prems" Some in auto)
      also have "\<dots> \<longleftrightarrow> (c, i) \<in> (raw_up groups)\<^sup>*"
        using on(2) by (auto simp: raw_up_def elim: converse_rtranclE intro: converse_rtrancl_into_rtrancl)
      finally show ?thesis using on Some by (subst climb.simps) simp
    qed
  qed (subst climb.simps, simp)
qed

lemma effectiveParentId_iff:
  "effectiveParentId i groups = Some p \<longleftrightarrow>
    raw_parent groups i = Some p \<and> p \<in> group_ids groups \<and> (p, i) \<notin> (raw_up groups)\<^sup>*"
  using group_by_id_None [of groups p] climb_iff [of i "[]" groups "Some p"]
  by (auto simp: effectiveParentId_def split: option.splits if_splits)

lemma map_of_keyed: "map_of (map (\<lambda>g. (k g, f (k g))) xs) i = (if i \<in> k ` set xs then Some (f i) else None)"
  by (induction xs) auto

lemma parent_of_eq: "parent_of groups i = effectiveParentId i groups"
proof (cases "i \<in> group_ids groups")
  case False
  then have "effectiveParentId i groups = None"
    using raw_parent_known [of groups i] by (auto simp: effectiveParentId_def split: option.splits)
  with False show ?thesis
    by (simp add: parent_of_def effectiveParents_def map_of_keyed [of g_id "\<lambda>i. effectiveParentId i groups"] group_ids_def)
qed (simp add: parent_of_def effectiveParents_def map_of_keyed [of g_id "\<lambda>i. effectiveParentId i groups"] group_ids_def)

interpretation groups: forest "group_ids groups" "parent_of groups" for groups
proof
  show "i \<in> group_ids groups \<and> p \<in> group_ids groups" if "parent_of groups i = Some p" for i p
    using that raw_parent_known [of groups i] by (simp add: parent_of_eq effectiveParentId_iff)
  show "(i, i) \<notin> {(j, p). parent_of groups j = Some p}\<^sup>+" for i
  proof
    assume "(i, i) \<in> {(j, p). parent_of groups j = Some p}\<^sup>+"
    then obtain p where p: "parent_of groups i = Some p" "(p, i) \<in> {(j, p). parent_of groups j = Some p}\<^sup>*"
      by (auto dest: tranclD)
    have "{(j, p). parent_of groups j = Some p} \<subseteq> raw_up groups"
      by (auto simp: parent_of_eq effectiveParentId_iff raw_up_def)
    then have "(p, i) \<in> (raw_up groups)\<^sup>*" using p(2) rtrancl_mono by blast
    then show False using p(1) by (simp add: parent_of_eq effectiveParentId_iff)
  qed
qed simp

section \<open>The tree\<close>

datatype group_node = GroupNode (n_group: host_group) (n_children: "group_node list")

definition byOrderThenName :: "(string \<Rightarrow> string \<Rightarrow> int) \<Rightarrow> host_group \<Rightarrow> host_group \<Rightarrow> int" where
  "byOrderThenName localeCompare a b =
     (case (g_order a, g_order b) of
        (Some x, Some y) \<Rightarrow> (if x < y then - 1 else if y < x then 1 else 0)
      | (Some x, None) \<Rightarrow> - 1
      | (None, Some y) \<Rightarrow> 1
      | (None, None) \<Rightarrow> localeCompare (g_name a) (g_name b))"

text \<open>One bucket of \<open>childrenOf\<close>.\<close>

definition children_of :: "host_group list \<Rightarrow> string option \<Rightarrow> host_group list" where
  "children_of groups parentId = filter (\<lambda>g. parent_of groups (g_id g) = parentId) groups"

function build_groups :: "(string \<Rightarrow> string \<Rightarrow> int) \<Rightarrow> host_group list \<Rightarrow> string option \<Rightarrow> group_node list" where
  "build_groups lc groups parentId =
     map (\<lambda>g. GroupNode g (build_groups lc groups (Some (g_id g))))
       (js_sort (byOrderThenName lc) (children_of groups parentId))"
  by pat_completeness auto
termination
proof (relation "measure (\<lambda>(lc, groups, parentId). case parentId of
    None \<Rightarrow> Suc (card (group_ids groups)) | Some i \<Rightarrow> card (groups.below groups i))", goal_cases)
  case (2 lc groups parentId g)
  then have "parent_of groups (g_id g) = parentId" by (simp add: children_of_def)
  then show ?case
    using groups.below_decreases [of groups "g_id g"] groups.below_bounded [of groups "g_id g"]
    by (cases parentId) (simp_all add: le_imp_less_Suc)
qed simp

declare build_groups.simps [simp del]

text \<open>Evaluation builds one sibling after the other.\<close>

definition build_siblings :: "(string \<Rightarrow> string \<Rightarrow> int) \<Rightarrow> host_group list \<Rightarrow> host_group list \<Rightarrow> group_node list" where
  "build_siblings lc groups gs = map (\<lambda>g. GroupNode g (build_groups lc groups (Some (g_id g)))) gs"

lemma build_groups_code [code]:
  "build_groups lc groups parentId = build_siblings lc groups (js_sort (byOrderThenName lc) (children_of groups parentId))"
  unfolding build_siblings_def by (rule build_groups.simps)

lemma build_siblings_code [code]:
  "build_siblings lc groups [] = []"
  "build_siblings lc groups (g # gs) =
    GroupNode g (build_groups lc groups (Some (g_id g))) # build_siblings lc groups gs"
  by (simp_all add: build_siblings_def)

definition buildGroupTree :: "(string \<Rightarrow> string \<Rightarrow> int) \<Rightarrow> host_group list \<Rightarrow> group_node list" where
  "buildGroupTree lc groups = build_groups lc groups None"

fun collectIds :: "group_node \<Rightarrow> string set \<Rightarrow> string set" where
  "collectIds (GroupNode g cs) into = fold collectIds cs (insert (g_id g) into)"

fun findNode :: "group_node list \<Rightarrow> string \<Rightarrow> group_node option" where
  "findNode [] i = None"
| "findNode (GroupNode g cs # ns) i =
     (if g_id g = i then Some (GroupNode g cs)
      else case findNode cs i of Some n \<Rightarrow> Some n | None \<Rightarrow> findNode ns i)"

definition descendantIds :: "(string \<Rightarrow> string \<Rightarrow> int) \<Rightarrow> string \<Rightarrow> host_group list \<Rightarrow> string set" where
  "descendantIds lc groupId groups =
     (case findNode (buildGroupTree lc groups) groupId of
        None \<Rightarrow> {}
      | Some node \<Rightarrow> collectIds node {})"

text \<open>The loop of \<open>defaultIdentityFor\<close>, from a group upwards.\<close>

definition live_default :: "host_group list \<Rightarrow> string set \<Rightarrow> string \<Rightarrow> string option" where
  "live_default groups live i =
     (case Option.bind (group_by_id groups i) g_defaultIdentityId of
        None \<Rightarrow> None
      | Some found \<Rightarrow> if found \<noteq> [] \<and> found \<in> live then Some found else None)"

function default_walk :: "host_group list \<Rightarrow> string set \<Rightarrow> string \<Rightarrow> string option" where
  "default_walk groups live i =
     (case live_default groups live i of
        Some found \<Rightarrow> Some found
      | None \<Rightarrow>
        (case parent_of groups i of
           None \<Rightarrow> None
         | Some p \<Rightarrow> default_walk groups live p))"
  by pat_completeness auto
termination
  by (relation "measure (\<lambda>(groups, live, i). card (groups.above groups i))") (simp_all add: groups.above_decreases)

declare default_walk.simps [simp del]

definition defaultIdentityFor :: "string option \<Rightarrow> host_group list \<Rightarrow> string set \<Rightarrow> string option" where
  "defaultIdentityFor groupId groups live =
     (if \<not> truthy groupId then None else default_walk groups live (the groupId))"

section \<open>What the tree holds\<close>

fun node_groups :: "group_node \<Rightarrow> host_group list" where
  "node_groups (GroupNode g cs) = g # concat (map node_groups cs)"

definition forest_groups :: "group_node list \<Rightarrow> host_group list" where
  "forest_groups ns = concat (map node_groups ns)"

lemma children_sub: "c \<in> set (children_of groups p) \<Longrightarrow> c \<in> set groups"
  by (simp add: children_of_def)

lemma children_up:
  assumes "g \<in> set groups"
  shows "(\<exists>c \<in> set (children_of groups parentId). (g_id g, g_id c) \<in> (groups.up groups)\<^sup>*) \<longleftrightarrow>
    (\<exists>c \<in> set (children_of groups parentId). g = c \<or>
       (\<exists>d \<in> set (children_of groups (Some (g_id c))). (g_id g, g_id d) \<in> (groups.up groups)\<^sup>*))"
    (is "?L \<longleftrightarrow> ?R")
proof
  assume ?L
  then obtain c where c: "c \<in> set (children_of groups parentId)" "(g_id g, g_id c) \<in> (groups.up groups)\<^sup>*" by blast
  show ?R
  proof (cases "g_id g = g_id c")
    case True
    then have "g \<in> set (children_of groups parentId)" using c(1) assms by (simp add: children_of_def)
    then show ?thesis by blast
  next
    case False
    then obtain j where j: "(g_id g, j) \<in> (groups.up groups)\<^sup>*" "parent_of groups j = Some (g_id c)"
      using c(2) by (auto elim: rtranclE)
    then obtain d where "d \<in> set groups" "g_id d = j"
      using groups.parent_nodes [of groups j] by (auto simp: group_ids_def)
    then have "d \<in> set (children_of groups (Some (g_id c)))" using j(2) by (simp add: children_of_def)
    then show ?thesis using c(1) j(1) \<open>g_id d = j\<close> by blast
  qed
next
  assume ?R
  then consider "g \<in> set (children_of groups parentId)"
    | c d where "c \<in> set (children_of groups parentId)" "d \<in> set (children_of groups (Some (g_id c)))"
      "(g_id g, g_id d) \<in> (groups.up groups)\<^sup>*" by blast
  then show ?L
  proof cases
    case (2 c d)
    then have "(g_id g, g_id c) \<in> (groups.up groups)\<^sup>*"
      by (auto simp: children_of_def intro: rtrancl_into_rtrancl)
    then show ?thesis using 2(1) by blast
  qed auto
qed

text \<open>The groups listed under a bucket: those whose ancestry passes through one of its children.\<close>

lemma build_groups_set:
  "set (forest_groups (build_groups lc groups parentId)) =
    {g \<in> set groups. \<exists>c \<in> set (children_of groups parentId). (g_id g, g_id c) \<in> (groups.up groups)\<^sup>*}"
proof (induction lc groups parentId rule: build_groups.induct)
  case (1 lc groups parentId)
  have "set (forest_groups (build_groups lc groups parentId)) =
      (\<Union>c \<in> set (children_of groups parentId). insert c (set (forest_groups (build_groups lc groups (Some (g_id c))))))"
    by (subst build_groups.simps) (auto simp: forest_groups_def)
  also have "\<dots> = (\<Union>c \<in> set (children_of groups parentId). insert c
      {g \<in> set groups. \<exists>d \<in> set (children_of groups (Some (g_id c))). (g_id g, g_id d) \<in> (groups.up groups)\<^sup>*})"
    using "1.IH" by simp
  also have "\<dots> = {g \<in> set groups. \<exists>c \<in> set (children_of groups parentId). (g_id g, g_id c) \<in> (groups.up groups)\<^sup>*}"
    using children_up [of _ groups parentId] children_sub [of _ groups parentId] by blast
  finally show ?case .
qed

lemma build_groups_below:
  "g_id ` set (forest_groups (build_groups lc groups (Some i))) = {j. (j, i) \<in> (groups.up groups)\<^sup>+}"
proof (intro set_eqI iffI)
  fix j assume "j \<in> g_id ` set (forest_groups (build_groups lc groups (Some i)))"
  then show "j \<in> {j. (j, i) \<in> (groups.up groups)\<^sup>+}"
    by (auto simp: build_groups_set children_of_def intro: rtrancl_into_trancl1)
next
  fix j assume "j \<in> {j. (j, i) \<in> (groups.up groups)\<^sup>+}"
  then obtain k where k: "(j, k) \<in> (groups.up groups)\<^sup>*" "parent_of groups k = Some i"
    by (auto dest: tranclD2)
  have "j \<in> group_ids groups" "k \<in> group_ids groups"
    using groups.up_nodes [of j i groups] groups.parent_nodes [of groups k] k \<open>j \<in> _\<close> by auto
  then show "j \<in> g_id ` set (forest_groups (build_groups lc groups (Some i)))"
    using k by (force simp: build_groups_set children_of_def group_ids_def)
qed

lemma build_groups_all: "set (forest_groups (build_groups lc groups None)) = set groups"
proof -
  have "\<exists>c \<in> set (children_of groups None). (g_id g, g_id c) \<in> (groups.up groups)\<^sup>*" if g: "g \<in> set groups" for g
  proof -
    obtain r where r: "(g_id g, r) \<in> (groups.up groups)\<^sup>*" "parent_of groups r = None"
      using groups.root_exists by blast
    have "r \<in> group_ids groups"
      using r(1) g by (cases rule: rtranclE) (auto simp: group_ids_def dest: groups.parent_nodes [unfolded group_ids_def])
    then show ?thesis using r by (force simp: children_of_def group_ids_def)
  qed
  then show ?thesis by (auto simp: build_groups_set)
qed

text \<open>The resolved parent references as a relation.\<close>

definition parent_rel :: "host_group list \<Rightarrow> (string \<times> string) set" where
  "parent_rel groups = {(j, p). parent_of groups j = Some p}"

lemma groups_up [simp]: "groups.up groups = parent_rel groups"
  by (simp add: groups.up_def parent_rel_def)

text \<open>Every node sits under the parent the resolution gives it, and siblings are in order.\<close>

fun nested :: "host_group list \<Rightarrow> string option \<Rightarrow> group_node \<Rightarrow> bool" where
  "nested groups p (GroupNode g cs) \<longleftrightarrow>
     parent_of groups (g_id g) = p \<and> list_all (nested groups (Some (g_id g))) cs"

fun ordered :: "(host_group \<Rightarrow> host_group \<Rightarrow> int) \<Rightarrow> group_node \<Rightarrow> bool" where
  "ordered cmp (GroupNode g cs) \<longleftrightarrow>
     sorted_wrt (\<lambda>a b. cmp a b \<le> 0) (map n_group cs) \<and> list_all (ordered cmp) cs"

lemma consistent_byOrderThenName: "consistent_cmp lc \<Longrightarrow> consistent_cmp (byOrderThenName lc)"
  unfolding consistent_cmp_def byOrderThenName_def
  by (auto split: option.splits if_splits)

lemma map_n_group_build:
  "map n_group (build_groups lc groups p) = js_sort (byOrderThenName lc) (children_of groups p)"
  by (subst build_groups.simps) (simp add: comp_def)

lemma build_groups_nested: "list_all (nested groups p) (build_groups lc groups p)"
proof (induction lc groups p rule: build_groups.induct)
  case (1 lc groups p)
  then show ?case by (subst build_groups.simps) (auto simp: list_all_iff children_of_def)
qed

lemma build_groups_ordered:
  "consistent_cmp lc \<Longrightarrow> list_all (ordered (byOrderThenName lc)) (build_groups lc groups p)"
proof (induction lc groups p rule: build_groups.induct)
  case (1 lc groups p)
  then show ?case
    by (subst build_groups.simps)
      (auto simp: list_all_iff map_n_group_build intro!: sorted_js_sort consistent_byOrderThenName)
qed

lemma distinct_concat_map:
  "distinct xs \<Longrightarrow> (\<And>x. x \<in> set xs \<Longrightarrow> distinct (f x)) \<Longrightarrow>
    (\<And>x y. x \<in> set xs \<Longrightarrow> y \<in> set xs \<Longrightarrow> x \<noteq> y \<Longrightarrow> set (f x) \<inter> set (f y) = {}) \<Longrightarrow>
    distinct (concat (map f xs))"
  by (induction xs) fastforce+

lemma build_groups_distinct:
  assumes "distinct (map g_id groups)"
  shows "distinct (forest_groups (build_groups lc groups p))"
  using assms
proof (induction lc groups p rule: build_groups.induct)
  case (1 lc groups p)
  let ?cs = "js_sort (byOrderThenName lc) (children_of groups p)"
  let ?sub = "\<lambda>c. c # forest_groups (build_groups lc groups (Some (g_id c)))"
  have tree: "forest_groups (build_groups lc groups p) = concat (map ?sub ?cs)"
    by (subst build_groups.simps) (simp add: forest_groups_def comp_def)
  have "distinct (children_of groups p)" using "1.prems" by (simp add: children_of_def distinct_map)
  then have d: "distinct ?cs" by (metis mset_js_sort mset_eq_imp_distinct_iff)
  have path: "(g_id g, g_id c) \<in> (parent_rel groups)\<^sup>*" if "g \<in> set (?sub c)" for g c
    using that build_groups_below [of lc groups "g_id c"] by (force intro: trancl_into_rtrancl)
  have strict: "g_id g \<noteq> g_id c" if "g \<in> set (forest_groups (build_groups lc groups (Some (g_id c))))" for g c
    using that build_groups_below [of lc groups "g_id c"] groups.irreflexive [of "g_id c" groups] by force
  have disj: "set (?sub c) \<inter> set (?sub e) = {}" if ce: "c \<in> set ?cs" "e \<in> set ?cs" "c \<noteq> e" for c e
  proof (rule ccontr)
    assume "set (?sub c) \<inter> set (?sub e) \<noteq> {}"
    then obtain g where "g \<in> set (?sub c)" "g \<in> set (?sub e)" by blast
    then have "g_id c = g_id e"
      using groups.siblings_disjoint [of groups "g_id c" "g_id e" "g_id g"] path ce by (simp add: children_of_def)
    then show False using ce "1.prems" by (auto simp: children_of_def distinct_map inj_on_def)
  qed
  have sub: "distinct (?sub c)" if "c \<in> set ?cs" for c
    using "1.IH" [OF that "1.prems"] strict by auto
  show ?case unfolding tree
    by (rule distinct_concat_map [OF d sub disj])
qed

text \<open>Finding a node and collecting its subtree.\<close>

lemma findNode_None: "findNode ns i = None \<longleftrightarrow> i \<notin> g_id ` set (forest_groups ns)"
proof (induction ns i rule: findNode.induct)
  case (2 g cs ns i)
  have "forest_groups (GroupNode g cs # ns) = g # forest_groups cs @ forest_groups ns"
    by (simp add: forest_groups_def)
  then show ?case using 2 by (auto simp: image_Un split: option.splits)
qed (simp add: forest_groups_def)

lemma findNode_nested:
  "findNode ns i = Some n \<Longrightarrow> list_all P ns \<Longrightarrow> (\<And>g cs. P (GroupNode g cs) \<Longrightarrow> list_all P cs) \<Longrightarrow> P n \<and> g_id (n_group n) = i"
  by (induction ns i rule: findNode.induct) (auto split: if_splits option.splits)

lemma fold_collect:
  "(\<And>n S. n \<in> set cs \<Longrightarrow> f n S = S \<union> h n) \<Longrightarrow> fold f cs S = S \<union> (\<Union>n \<in> set cs. h n)"
  by (induction cs arbitrary: S) auto

lemma collectIds_eq: "collectIds n S = S \<union> g_id ` set (node_groups n)"
proof (induction n arbitrary: S)
  case (GroupNode g cs)
  then have "fold collectIds cs (insert (g_id g) S) = insert (g_id g) S \<union> (\<Union>n \<in> set cs. g_id ` set (node_groups n))"
    by (intro fold_collect) auto
  then show ?case by auto
qed

fun from_build :: "(string \<Rightarrow> string \<Rightarrow> int) \<Rightarrow> host_group list \<Rightarrow> group_node \<Rightarrow> bool" where
  "from_build lc groups (GroupNode g cs) \<longleftrightarrow>
     cs = build_groups lc groups (Some (g_id g)) \<and> list_all (from_build lc groups) cs"

lemma build_groups_from_build: "list_all (from_build lc groups) (build_groups lc groups p)"
proof (induction lc groups p rule: build_groups.induct)
  case (1 lc groups p)
  then show ?case by (subst build_groups.simps) (auto simp: list_all_iff)
qed

lemma descendantIds_eq:
  "descendantIds lc i groups = (if i \<in> group_ids groups then {j. (j, i) \<in> (parent_rel groups)\<^sup>*} else {})"
proof (cases "findNode (buildGroupTree lc groups) i")
  case None
  then have "i \<notin> group_ids groups"
    by (simp add: findNode_None buildGroupTree_def build_groups_all group_ids_def)
  then show ?thesis using None by (simp add: descendantIds_def)
next
  case (Some n)
  then have "i \<in> group_ids groups"
    using findNode_None [of "buildGroupTree lc groups" i] by (simp add: buildGroupTree_def build_groups_all group_ids_def)
  moreover have n: "from_build lc groups n" "g_id (n_group n) = i"
    using findNode_nested [OF Some, of "from_build lc groups"] build_groups_from_build by (auto simp: buildGroupTree_def)
  then have "g_id ` set (node_groups n) = insert i (g_id ` set (forest_groups (build_groups lc groups (Some i))))"
    by (cases n) (auto simp: forest_groups_def)
  then have "g_id ` set (node_groups n) = {j. (j, i) \<in> (parent_rel groups)\<^sup>*}"
    by (auto simp: build_groups_below rtrancl_eq_or_trancl)
  ultimately show ?thesis using Some by (simp add: descendantIds_def collectIds_eq)
qed

lemma default_walk_spec:
  "(default_walk groups live i = Some x \<longleftrightarrow>
     (\<exists>a. (i, a) \<in> (parent_rel groups)\<^sup>* \<and> live_default groups live a = Some x \<and>
        (\<forall>b. (i, b) \<in> (parent_rel groups)\<^sup>* \<and> (b, a) \<in> (parent_rel groups)\<^sup>+ \<longrightarrow> live_default groups live b = None)))"
proof (induction groups live i rule: default_walk.induct)
  case (1 groups live i)
  let ?R = "parent_rel groups"
  have strict: "(b, i) \<notin> ?R\<^sup>+" if "(i, b) \<in> ?R\<^sup>*" for b
    using groups.irreflexive [of i groups] that by (auto dest: rtrancl_trancl_trancl)
  show ?case
  proof (cases "live_default groups live i")
    case (Some found)
    have "a = i" if "(i, a) \<in> ?R\<^sup>*" "\<forall>b. (i, b) \<in> ?R\<^sup>* \<and> (b, a) \<in> ?R\<^sup>+ \<longrightarrow> live_default groups live b = None" for a
      using that Some by (auto simp: rtrancl_eq_or_trancl)
    then have "(\<exists>a. (i, a) \<in> ?R\<^sup>* \<and> live_default groups live a = Some x \<and>
        (\<forall>b. (i, b) \<in> ?R\<^sup>* \<and> (b, a) \<in> ?R\<^sup>+ \<longrightarrow> live_default groups live b = None)) \<longleftrightarrow> found = x"
      using Some strict by (metis option.inject rtrancl.rtrancl_refl)
    then show ?thesis using Some by (subst default_walk.simps) simp
  next
    case None
    show ?thesis
    proof (cases "parent_of groups i")
      case root: None
      then have "(i, a) \<in> ?R\<^sup>* \<longleftrightarrow> a = i" for a
        by (auto simp: parent_rel_def elim: converse_rtranclE)
      then show ?thesis using None root by (subst default_walk.simps) auto
    next
      case p: (Some p)
      then have up: "(i, a) \<in> ?R\<^sup>* \<longleftrightarrow> a = i \<or> (p, a) \<in> ?R\<^sup>*" for a
        by (auto simp: parent_rel_def elim: converse_rtranclE intro: converse_rtrancl_into_rtrancl)
      have "default_walk groups live i = default_walk groups live p"
        using None p by (subst default_walk.simps) simp
      then show ?thesis using "1.IH" [OF None p] None by (simp only: up) (metis option.distinct(1))
    qed
  qed
qed

section \<open>Properties\<close>

text \<open>
  C31: for any group list, however damaged, the resolved parents form a forest: following them never
  returns to where it started. A group keeps the parent it names just when that parent exists and
  the group is not on a cycle of its own parent references, so one bad reference never flattens
  the groups hanging below it.
\<close>

theorem effective_parents_forest:
  "acyclic (parent_rel groups)
   \<and> (parent_of groups i = Some p \<longleftrightarrow>
       raw_parent groups i = Some p \<and> p \<in> group_ids groups \<and> (p, i) \<notin> (raw_up groups)\<^sup>*)
   \<and> (\<exists>r. (i, r) \<in> (parent_rel groups)\<^sup>* \<and> parent_of groups r = None)"
  using groups.irreflexive [of _ groups] groups.root_exists [of i groups]
  by (simp add: acyclic_def parent_of_eq effectiveParentId_iff)

text \<open>
  C32: the tree shows every group exactly once, whatever the parent references are: its nodes are the
  groups of the list, each under the parent the resolution gives it, and siblings are ordered by
  the order field and then by name.
\<close>

theorem group_tree_complete:
  assumes "distinct (map g_id groups)" and "proper_cmp localeCompare"
  shows "mset (forest_groups (buildGroupTree localeCompare groups)) = mset groups
    \<and> list_all (nested groups None) (buildGroupTree localeCompare groups)
    \<and> list_all (ordered (byOrderThenName localeCompare)) (buildGroupTree localeCompare groups)
    \<and> sorted_wrt (\<lambda>a b. byOrderThenName localeCompare a b \<le> 0) (map n_group (buildGroupTree localeCompare groups))"
proof -
  have "distinct groups" using assms(1) by (simp add: distinct_map)
  then have "mset (forest_groups (buildGroupTree localeCompare groups)) = mset groups"
    using build_groups_distinct [OF assms(1), of localeCompare None] build_groups_all [of localeCompare groups]
    by (simp add: buildGroupTree_def set_eq_iff_mset_eq_distinct)
  then show ?thesis
    using build_groups_nested build_groups_ordered [OF proper_consistent [OF assms(2)]]
      sorted_js_sort [OF consistent_byOrderThenName [OF proper_consistent [OF assms(2)]]]
    by (simp add: buildGroupTree_def map_n_group_build)
qed

text \<open>
  Selecting a group selects the group and all of its descendants, and a group that is not in the
  list selects nothing. A host filter built on it therefore never misses a subgroup.
\<close>

theorem descendantIds_spec:
  "descendantIds localeCompare i groups = (if i \<in> group_ids groups then {j. (j, i) \<in> (parent_rel groups)\<^sup>*} else {})"
  by (rule descendantIds_eq)

text \<open>
  The identity a new host is bound to is the live default of the nearest group, from the host's
  own group upwards, that has one: a default naming a deleted identity never shadows a live one
  further up. There is none just when no group on the way has a live default.
\<close>

theorem defaultIdentityFor_nearest:
  assumes "i \<noteq> []"
  shows "(defaultIdentityFor (Some i) groups live = Some x \<longleftrightarrow>
      (\<exists>a. (i, a) \<in> (parent_rel groups)\<^sup>* \<and> live_default groups live a = Some x \<and>
         (\<forall>b. (i, b) \<in> (parent_rel groups)\<^sup>* \<and> (b, a) \<in> (parent_rel groups)\<^sup>+ \<longrightarrow> live_default groups live b = None)))
    \<and> (defaultIdentityFor (Some i) groups live = None \<longleftrightarrow>
      (\<forall>a. (i, a) \<in> (parent_rel groups)\<^sup>* \<longrightarrow> live_default groups live a = None))"
proof -
  have "default_walk groups live i = None \<longleftrightarrow>
      (\<forall>a. (i, a) \<in> (parent_rel groups)\<^sup>* \<longrightarrow> live_default groups live a = None)"
  proof (induction groups live i rule: default_walk.induct)
    case (1 groups live i)
    have up: "(i, a) \<in> (parent_rel groups)\<^sup>* \<longleftrightarrow> a = i \<or> (\<exists>p. parent_of groups i = Some p \<and> (p, a) \<in> (parent_rel groups)\<^sup>*)" for a
      by (auto simp: parent_rel_def elim: converse_rtranclE intro: converse_rtrancl_into_rtrancl)
    show ?case using "1.IH" by (subst default_walk.simps) (auto simp: up split: option.splits)
  qed
  then show ?thesis using assms default_walk_spec [of groups live i x] by (simp add: defaultIdentityFor_def)
qed

text \<open>Two groups that two devices moved under each other, and one hanging off the pair.\<close>

definition mk_group :: "string \<Rightarrow> string option \<Rightarrow> rat option \<Rightarrow> string option \<Rightarrow> host_group" where
  "mk_group i p ord d = \<lparr>g_id = i, g_name = i, g_parentId = p, g_order = ord, g_updatedAt = None, g_defaultIdentityId = d\<rparr>"

definition demo_groups :: "host_group list" where
  "demo_groups = [mk_group ''a'' (Some ''b'') None (Some ''gone''), mk_group ''b'' (Some ''a'') (Some 1) None,
     mk_group ''c'' (Some ''a'') None None, mk_group ''d'' (Some ''nowhere'') None (Some ''ops'')]"

theorem group_tree_complete_witness:
  "map (g_id \<circ> n_group) (buildGroupTree by_length demo_groups) = [''b'', ''a'', ''d'']
   \<and> mset (forest_groups (buildGroupTree by_length demo_groups)) = mset demo_groups
   \<and> list_all (nested demo_groups None) (buildGroupTree by_length demo_groups)"
proof -
  have "distinct (map g_id demo_groups)" by code_simp
  moreover have "map (g_id \<circ> n_group) (buildGroupTree by_length demo_groups) = [''b'', ''a'', ''d'']" by code_simp
  ultimately show ?thesis using group_tree_complete [OF _ proper_by_length] by blast
qed

theorem defaultIdentityFor_nearest_witness:
  "defaultIdentityFor (Some ''c'') demo_groups {''ops''} = None \<and> live_default demo_groups {''ops''} ''a'' = None"
proof -
  have n: "defaultIdentityFor (Some ''c'') demo_groups {''ops''} = None" by code_simp
  have "parent_of demo_groups ''c'' = Some ''a''" by code_simp
  then have "(''c'', ''a'') \<in> (parent_rel demo_groups)\<^sup>*" by (auto simp: parent_rel_def)
  then show ?thesis using defaultIdentityFor_nearest [of "''c''" demo_groups "{''ops''}"] n by auto
qed

end
