(* ===== verification/Tombstones.thy ===== *)
theory Tombstones
  imports Prelude "HOL-Library.List_Lexorder" "HOL-Library.Char_ord"
begin

text \<open>
  What a delete leaves behind (\<^verbatim>\<open>src/lib/tombstones.ts\<close>): the tombstones of a store, which of them are
  still inside the window, the three functions that rewrite the stored list, and the check a
  landing from another device passes before a store applies it. The clock is the argument \<open>now\<close>
  (Unix milliseconds); how a number prints, which the comparison of two lists uses, is a parameter.
\<close>

section \<open>Records\<close>

record tombstone =
  td_id :: string
  td_kind :: string
  td_deletedAt :: js_num

definition TOMBSTONE_TTL_MS :: rat where
  "TOMBSTONE_TTL_MS = 90 * 24 * 60 * 60 * 1000"

fun isTombstone :: "js \<Rightarrow> bool" where
  "isTombstone v \<longleftrightarrow> is_object v \<and>
     (case js_get v ''id'' of JStr _ \<Rightarrow> True | _ \<Rightarrow> False) \<and>
     (case js_get v ''kind'' of JStr _ \<Rightarrow> True | _ \<Rightarrow> False) \<and>
     (case js_get v ''deletedAt'' of JNum _ \<Rightarrow> True | _ \<Rightarrow> False)"

text \<open>The cast behind the type guard, and the object a tombstone is in a file.\<close>

definition as_tombstone :: "js \<Rightarrow> tombstone" where
  "as_tombstone v = \<lparr>td_id = (case js_get v ''id'' of JStr s \<Rightarrow> s | _ \<Rightarrow> []),
     td_kind = (case js_get v ''kind'' of JStr s \<Rightarrow> s | _ \<Rightarrow> []),
     td_deletedAt = (case js_get v ''deletedAt'' of JNum n \<Rightarrow> n | _ \<Rightarrow> NaN)\<rparr>"

definition tombstone_js :: "tombstone \<Rightarrow> js" where
  "tombstone_js t = JObj [(''id'', JStr (td_id t)), (''kind'', JStr (td_kind t)), (''deletedAt'', JNum (td_deletedAt t))]"

section \<open>The window\<close>

text \<open>\<open>now - t.deletedAt < TOMBSTONE_TTL_MS\<close>, with the subtraction of an IEEE number.\<close>

definition in_window :: "rat \<Rightarrow> tombstone \<Rightarrow> bool" where
  "in_window now t =
     (case td_deletedAt t of
        Fin d \<Rightarrow> now - d < TOMBSTONE_TTL_MS
      | NaN \<Rightarrow> False
      | PosInf \<Rightarrow> True
      | NegInf \<Rightarrow> False)"

definition livingTombstones :: "js \<Rightarrow> rat \<Rightarrow> tombstone list" where
  "livingTombstones raw now =
     (case raw of JArr vs \<Rightarrow> filter (in_window now) (map as_tombstone (filter isTombstone vs)) | _ \<Rightarrow> [])"

text \<open>A list of the program's own type is an array of such objects.\<close>

abbreviation living :: "tombstone list \<Rightarrow> rat \<Rightarrow> tombstone list" where
  "living ts now \<equiv> livingTombstones (JArr (map tombstone_js ts)) now"

lemma as_tombstone_js [simp]: "isTombstone (tombstone_js t)" "as_tombstone (tombstone_js t) = t"
  by (simp_all add: tombstone_js_def as_tombstone_def)

lemma living_eq: "living ts now = filter (in_window now) ts"
  by (induction ts) (auto simp: livingTombstones_def simp del: isTombstone.simps)

section \<open>Rewriting the stored list\<close>

definition withTombstone :: "tombstone list \<Rightarrow> tombstone list \<Rightarrow> rat \<Rightarrow> tombstone list" where
  "withTombstone current added now = living current now @ added"

definition withoutTombstone :: "tombstone list \<Rightarrow> string list \<Rightarrow> rat \<Rightarrow> tombstone list option" where
  "withoutTombstone current ids now =
     (if \<not> list_ex (\<lambda>t. td_id t \<in> set ids) current then None
      else Some (filter (\<lambda>t. td_id t \<notin> set ids) (living current now)))"

definition tombstone_key :: "(js_num \<Rightarrow> string) \<Rightarrow> tombstone \<Rightarrow> string" where
  "tombstone_key num t = td_kind t @ [CHR 0x00] @ td_id t @ [CHR 0x00] @ num (td_deletedAt t)"

definition sameTombstones :: "(js_num \<Rightarrow> string) \<Rightarrow> tombstone list \<Rightarrow> tombstone list \<Rightarrow> bool" where
  "sameTombstones num a b =
     (if length a \<noteq> length b then False
      else list_all2 (=) (sort (map (tombstone_key num) a)) (sort (map (tombstone_key num) b)))"

text \<open>\<open>added.filter((t, i) => !added.slice(i + 1).some((o) => o.id === t.id))\<close>.\<close>

fun keep_last :: "tombstone list \<Rightarrow> tombstone list" where
  "keep_last [] = []"
| "keep_last (t # ts) = (if list_ex (\<lambda>u. td_id u = td_id t) ts then keep_last ts else t # keep_last ts)"

definition landedTombstones ::
  "(js_num \<Rightarrow> string) \<Rightarrow> tombstone list \<Rightarrow> string list \<Rightarrow> tombstone list \<Rightarrow> rat \<Rightarrow> tombstone list option" where
  "landedTombstones num current cleared added now =
     (let replaced = map td_id added;
          deduped = keep_last added;
          base = (if 0 < length added then filter (\<lambda>t. td_id t \<notin> set replaced) current else current);
          withoutCleared = withoutTombstone base cleared now
      in if length added = 0 then withoutCleared
         else
           (let nxt = withTombstone (case withoutCleared of Some xs \<Rightarrow> xs | None \<Rightarrow> base) deduped now
            in if sameTombstones num current nxt then None else Some nxt))"

section \<open>Landings\<close>

text \<open>A landing as it arrives: the fields are whatever the other device sent.\<close>

record grave =
  gv_id :: js
  gv_kind :: js
  gv_deletedAt :: js

datatype remote_landing =
    LandRecord (land_id: js) (land_record: js)
  | LandTombstone grave

datatype landing_reason =
    TombstoneNamesNoId
  | TombstoneOfKind js string
  | TombstoneWithoutTime
  | LandingNamesNoId
  | LandingWithoutRecord
  | LandingIdMismatch

record landing_refusal =
  rl_kind :: js
  rl_id :: string
  rl_reason :: landing_reason

fun named :: "js \<Rightarrow> bool" where
  "named (JStr s) = (s \<noteq> [])"
| "named _ = False"

definition landingRefusal :: "(js_num \<Rightarrow> string) \<Rightarrow> remote_landing \<Rightarrow> string \<Rightarrow> landing_refusal option" where
  "landingRefusal num landing kind =
     (case landing of
        LandTombstone g \<Rightarrow>
          (if \<not> named (gv_id g)
           then Some \<lparr>rl_kind = JStr kind, rl_id = js_String num (gv_id g), rl_reason = TombstoneNamesNoId\<rparr>
           else if gv_kind g \<noteq> JStr kind
           then Some \<lparr>rl_kind = gv_kind g, rl_id = js_String num (gv_id g), rl_reason = TombstoneOfKind (gv_kind g) kind\<rparr>
           else if \<not> (case gv_deletedAt g of JNum (Fin _) \<Rightarrow> True | _ \<Rightarrow> False)
           then Some \<lparr>rl_kind = JStr kind, rl_id = js_String num (gv_id g), rl_reason = TombstoneWithoutTime\<rparr>
           else None)
      | LandRecord i rec \<Rightarrow>
          (if \<not> named i
           then Some \<lparr>rl_kind = JStr kind, rl_id = js_String num i, rl_reason = LandingNamesNoId\<rparr>
           else if \<not> is_object rec
           then Some \<lparr>rl_kind = JStr kind, rl_id = js_String num i, rl_reason = LandingWithoutRecord\<rparr>
           else if js_get rec ''id'' \<noteq> i
           then Some \<lparr>rl_kind = JStr kind, rl_id = js_String num i, rl_reason = LandingIdMismatch\<rparr>
           else None))"

section \<open>What the functions keep\<close>

lemma same_iff: "sameTombstones num a b \<longleftrightarrow> mset (map (tombstone_key num) a) = mset (map (tombstone_key num) b)"
proof
  assume "sameTombstones num a b"
  then have "sort (map (tombstone_key num) a) = sort (map (tombstone_key num) b)"
    by (simp add: sameTombstones_def list.rel_eq split: if_splits)
  then show "mset (map (tombstone_key num) a) = mset (map (tombstone_key num) b)" by (metis mset_sort)
next
  assume m: "mset (map (tombstone_key num) a) = mset (map (tombstone_key num) b)"
  then have "length a = length b" by (metis length_map size_mset)
  moreover have "sort (map (tombstone_key num) a) = sort (map (tombstone_key num) b)"
    using m by (metis properties_for_sort mset_sort sorted_sort)
  ultimately show "sameTombstones num a b" by (simp add: sameTombstones_def list.rel_eq)
qed

lemma set_keep_last: "set (keep_last ts) \<subseteq> set ts" "td_id ` set (keep_last ts) = td_id ` set ts"
  by (induction ts) (auto simp: list_ex_iff intro: rev_image_eqI)

lemma distinct_keep_last: "distinct (map td_id (keep_last ts))"
proof (induction ts)
  case (Cons t ts)
  then show ?case using set_keep_last(2) [of ts] by (auto simp: list_ex_iff)
qed simp

lemma keep_last_rev: "t \<in> set (keep_last ts) \<longleftrightarrow> find (\<lambda>u. td_id u = td_id t) (rev ts) = Some t"
proof (induction ts)
  case (Cons u ts)
  have hit: "find (\<lambda>v. td_id v = td_id t) (rev ts) = None \<longleftrightarrow> \<not> list_ex (\<lambda>v. td_id v = td_id t) ts"
    by (auto simp: find_None_iff list_ex_iff)
  show ?case
  proof (cases "td_id u = td_id t")
    case True
    then show ?thesis using Cons hit set_keep_last(1) [of ts]
      by (auto simp: find_append list_ex_iff split: option.splits)
  next
    case False
    then show ?thesis using Cons by (auto simp: find_append split: option.splits)
  qed
qed simp

text \<open>The list a landing leaves, in closed form.\<close>

definition landed_list :: "tombstone list \<Rightarrow> string list \<Rightarrow> tombstone list \<Rightarrow> rat \<Rightarrow> tombstone list" where
  "landed_list current cleared added now =
     filter (\<lambda>t. in_window now t \<and> td_id t \<notin> set cleared \<and> td_id t \<notin> td_id ` set added) current @ keep_last added"

lemma withTombstone_landed:
  assumes "added \<noteq> []"
  shows "withTombstone (case withoutTombstone (filter (\<lambda>t. td_id t \<notin> set (map td_id added)) current) cleared now of
      Some xs \<Rightarrow> xs | None \<Rightarrow> filter (\<lambda>t. td_id t \<notin> set (map td_id added)) current) (keep_last added) now =
    landed_list current cleared added now"
proof (cases "list_ex (\<lambda>t. td_id t \<in> set cleared) (filter (\<lambda>t. td_id t \<notin> td_id ` set added) current)")
  case True
  then show ?thesis
    by (simp add: withTombstone_def withoutTombstone_def landed_list_def living_eq conj_ac)
next
  case False
  then have "filter (\<lambda>t. td_id t \<notin> td_id ` set added \<and> in_window now t) current =
      filter (\<lambda>t. in_window now t \<and> td_id t \<notin> set cleared \<and> td_id t \<notin> td_id ` set added) current"
    by (intro filter_cong) (auto simp: list_ex_iff)
  then show ?thesis using False
    by (simp add: withTombstone_def withoutTombstone_def landed_list_def living_eq)
qed

lemma landed_eq:
  "landedTombstones num current cleared added now =
    (if added = []
     then (if list_ex (\<lambda>t. td_id t \<in> set cleared) current then Some (landed_list current cleared [] now) else None)
     else if sameTombstones num current (landed_list current cleared added now) then None
     else Some (landed_list current cleared added now))"
proof (cases "added = []")
  case True
  then show ?thesis
    by (simp add: landedTombstones_def withoutTombstone_def landed_list_def living_eq conj_ac)
next
  case False
  then show ?thesis
    using withTombstone_landed [OF False, of current cleared now] by (simp add: landedTombstones_def Let_def)
qed

lemma landed_list_twice:
  "landed_list (landed_list current cleared added now) cleared added now = landed_list current cleared added now"
proof -
  have "filter (\<lambda>t. in_window now t \<and> td_id t \<notin> set cleared \<and> td_id t \<notin> td_id ` set added) (keep_last added) = []"
    using set_keep_last(1) [of added] by (auto simp: filter_empty_conv)
  then show ?thesis by (simp add: landed_list_def conj_ac)
qed

lemma key_inj:
  assumes "inj num" and "\<And>n. CHR 0x00 \<notin> set (num n)" and "CHR 0x00 \<notin> set (td_id s)" and "CHR 0x00 \<notin> set (td_id t)"
    and "tombstone_key num s = tombstone_key num t"
  shows "s = t"
proof -
  have key: "tombstone_key num x = (td_kind x @ CHR 0x00 # td_id x) @ CHR 0x00 # num (td_deletedAt x)" for x
    by (simp add: tombstone_key_def)
  have "td_kind s @ CHR 0x00 # td_id s = td_kind t @ CHR 0x00 # td_id t \<and> num (td_deletedAt s) = num (td_deletedAt t)"
    using assms(5) unfolding key by (rule append_last_sep_inj) (rule assms(2))+
  moreover from this have "td_kind s = td_kind t \<and> td_id s = td_id t"
    using append_last_sep_inj [OF _ assms(3,4)] by blast
  ultimately show ?thesis using assms(1) by (simp add: inj_eq)
qed

section \<open>Properties\<close>

text \<open>
  What a landing writes. The key is left alone just when the landing names nothing in the list,
  or when what it adds leaves the list saying the same; otherwise the list holds, after the
  unexpired tombstones that were neither cleared nor replaced, each landed delete once, with the
  last time given for it. No id is in the list twice as far as the landing is concerned, and an
  expired tombstone that was stored never survives a landing that writes.
\<close>

theorem landing_writes:
  "(landedTombstones num current cleared added now = None \<longleftrightarrow>
      (if added = [] then \<not> list_ex (\<lambda>t. td_id t \<in> set cleared) current
       else sameTombstones num current (landed_list current cleared added now)))
   \<and> (\<forall>t \<in> set (landed_list current cleared added now).
        find (\<lambda>u. td_id u = td_id t) (rev added) = Some t
        \<or> (t \<in> set current \<and> in_window now t \<and> td_id t \<notin> set cleared \<and> td_id t \<notin> td_id ` set added))
   \<and> (\<forall>t \<in> set added. length (filter (\<lambda>u. td_id u = td_id t) (landed_list current cleared added now)) = 1)
   \<and> (\<forall>nxt. landedTombstones num current cleared added now = Some nxt \<longrightarrow> nxt = landed_list current cleared added now)"
proof (intro conjI ballI allI impI)
  fix t assume "t \<in> set (landed_list current cleared added now)"
  then show "find (\<lambda>u. td_id u = td_id t) (rev added) = Some t
        \<or> (t \<in> set current \<and> in_window now t \<and> td_id t \<notin> set cleared \<and> td_id t \<notin> td_id ` set added)"
    by (auto simp: landed_list_def keep_last_rev)
next
  fix t assume t: "t \<in> set added"
  have "filter (\<lambda>u. td_id u = td_id t) (landed_list current cleared added now) =
      filter (\<lambda>u. td_id u = td_id t) (keep_last added)"
    using t by (auto simp: landed_list_def filter_empty_conv)
  moreover have "card (set (filter (\<lambda>u. td_id u = td_id t) (keep_last added))) = 1"
  proof -
    obtain u where "u \<in> set (keep_last added)" "td_id u = td_id t"
      using set_keep_last(2) [of added] t by (metis imageE imageI)
    then have "set (filter (\<lambda>u. td_id u = td_id t) (keep_last added)) = {u}"
      using distinct_keep_last [of added] by (auto simp: distinct_map inj_on_def)
    then show ?thesis by simp
  qed
  moreover have "distinct (keep_last added)" using distinct_keep_last [of added] by (simp add: distinct_map)
  ultimately show "length (filter (\<lambda>u. td_id u = td_id t) (landed_list current cleared added now)) = 1"
    by (metis distinct_card distinct_filter)
qed (auto simp: landed_eq split: if_splits)

text \<open>
  The same landing arriving a second time writes nothing: two devices that already agree cannot
  make each other rewrite the file.
\<close>

theorem landing_idempotent:
  assumes "landedTombstones num current cleared added now = Some nxt"
  shows "landedTombstones num nxt cleared added now = None"
proof -
  have nxt: "nxt = landed_list current cleared added now" using assms by (auto simp: landed_eq split: if_splits)
  then have same: "landed_list nxt cleared added now = nxt" using landed_list_twice by simp
  show ?thesis
  proof (cases "added = []")
    case True
    then have "\<not> list_ex (\<lambda>t. td_id t \<in> set cleared) nxt" using nxt by (auto simp: landed_list_def list_ex_iff)
    then show ?thesis using True by (simp add: landed_eq)
  next
    case False
    then show ?thesis using same by (simp add: landed_eq same_iff)
  qed
qed

text \<open>
  The comparison that decides whether the key is written is exact: two lists are the same just
  when one is a rearrangement of the other. It builds one string per tombstone, so this rests on
  numbers printing differently and without a NUL (which is what JavaScript does) and on ids that
  hold no NUL.
\<close>

theorem sameTombstones_exact:
  assumes "inj num" and "\<And>n. CHR 0x00 \<notin> set (num n)"
    and "list_all (\<lambda>t. CHR 0x00 \<notin> set (td_id t)) (a @ b)"
  shows "sameTombstones num a b \<longleftrightarrow> mset a = mset b"
proof -
  have "inj_on (tombstone_key num) (set a \<union> set b)"
    using assms(3) by (intro inj_onI key_inj [OF assms(1,2)]) (auto simp: list_all_iff)
  then have "image_mset (tombstone_key num) (mset a) = image_mset (tombstone_key num) (mset b) \<longleftrightarrow> mset a = mset b"
    using image_mset_eq_image_mset_plusD [of "tombstone_key num" "mset a" "mset b" "{#}"] by auto
  then show ?thesis by (simp add: same_iff)
qed

text \<open>
  A delete that is accepted is not lost. A tombstone landing is refused unless it has a non-empty
  string id, the kind of the store and a finite time; one that is accepted reads back from the file
  as the same tombstone for as long as it is inside the window, and is gone afterwards. A record
  landing is accepted just when it names a non-empty id and is an object carrying that id.
\<close>

theorem landing_accepted:
  "(landingRefusal num (LandTombstone g) kind = None \<longleftrightarrow>
      (\<exists>i d. i \<noteq> [] \<and> g = \<lparr>gv_id = JStr i, gv_kind = JStr kind, gv_deletedAt = JNum (Fin d)\<rparr>))
   \<and> livingTombstones (JArr [JObj [(''id'', JStr i), (''kind'', JStr kind), (''deletedAt'', JNum (Fin d))]]) now =
       (if now - d < TOMBSTONE_TTL_MS then [\<lparr>td_id = i, td_kind = kind, td_deletedAt = Fin d\<rparr>] else [])
   \<and> (landingRefusal num (LandRecord j r) kind = None \<longleftrightarrow> is_object r \<and> (\<exists>i. i \<noteq> [] \<and> j = JStr i \<and> js_get r ''id'' = JStr i))"
proof (intro conjI)
  have named: "named v \<longleftrightarrow> (\<exists>s. v = JStr s \<and> s \<noteq> [])" for v by (cases v) auto
  have time: "(case v of JNum (Fin _) \<Rightarrow> True | _ \<Rightarrow> False) \<longleftrightarrow> (\<exists>d. v = JNum (Fin d))" for v
    by (auto split: js.splits js_num.splits)
  show "landingRefusal num (LandTombstone g) kind = None \<longleftrightarrow>
      (\<exists>i d. i \<noteq> [] \<and> g = \<lparr>gv_id = JStr i, gv_kind = JStr kind, gv_deletedAt = JNum (Fin d)\<rparr>)"
    by (cases g) (auto simp: landingRefusal_def named time)
  show "landingRefusal num (LandRecord j r) kind = None \<longleftrightarrow> is_object r \<and> (\<exists>i. i \<noteq> [] \<and> j = JStr i \<and> js_get r ''id'' = JStr i)"
    by (auto simp: landingRefusal_def named)
  show "livingTombstones (JArr [JObj [(''id'', JStr i), (''kind'', JStr kind), (''deletedAt'', JNum (Fin d))]]) now =
       (if now - d < TOMBSTONE_TTL_MS then [\<lparr>td_id = i, td_kind = kind, td_deletedAt = Fin d\<rparr>] else [])"
    by (simp add: livingTombstones_def as_tombstone_def in_window_def)
qed

text \<open>A number printed in unary, with its sign and denominator.\<close>

fun unary :: "js_num \<Rightarrow> string" where
  "unary (Fin x) = (case quotient_of x of (n, d) \<Rightarrow>
     (if n < 0 then ''-'' else ''+'') @ replicate (nat \<bar>n\<bar>) CHR ''1'' @ ''/'' @ replicate (nat d) CHR ''1'')"
| "unary NaN = ''NaN''"
| "unary PosInf = ''Infinity''"
| "unary NegInf = ''-Infinity''"

lemma unary_Fin_inj: "unary (Fin x) = unary (Fin y) \<Longrightarrow> x = y"
proof -
  assume u: "unary (Fin x) = unary (Fin y)"
  obtain n d where x: "quotient_of x = (n, d)" by fastforce
  obtain m e where y: "quotient_of y = (m, e)" by fastforce
  have pos: "0 < d" "0 < e" using x y quotient_of_denom_pos by auto
  have "((if n < 0 then ''-'' else ''+'') @ replicate (nat \<bar>n\<bar>) CHR ''1'') @ CHR ''/'' # replicate (nat d) CHR ''1'' =
      ((if m < 0 then ''-'' else ''+'') @ replicate (nat \<bar>m\<bar>) CHR ''1'') @ CHR ''/'' # replicate (nat e) CHR ''1''"
    using u x y by simp
  then have "(if n < 0 then ''-'' else ''+'') @ replicate (nat \<bar>n\<bar>) CHR ''1'' =
      (if m < 0 then ''-'' else ''+'') @ replicate (nat \<bar>m\<bar>) CHR ''1'' \<and> replicate (nat d) CHR ''1'' = replicate (nat e) CHR ''1''"
    by (rule append_last_sep_inj) auto
  then have "n = m" "d = e" using pos by (auto split: if_splits)
  then show "x = y" using x y quotient_of_inject by metis
qed

lemma inj_unary: "inj unary"
proof (rule injI)
  fix a b assume u: "unary a = unary b"
  have slash: "CHR ''/'' \<in> set (unary n) \<longleftrightarrow> (\<exists>x. n = Fin x)" for n
    by (cases n) (simp_all add: case_prod_beta)
  show "a = b"
  proof (cases "\<exists>x. a = Fin x")
    case True
    then show ?thesis using u slash [of a] slash [of b] unary_Fin_inj by auto
  next
    case False
    then show ?thesis using u slash [of a] slash [of b] by (cases a; cases b) auto
  qed
qed

lemma unary_no_nul: "CHR 0x00 \<notin> set (unary n)"
  by (cases n) (auto split: prod.split)

definition demo_tombs :: "tombstone list" where
  "demo_tombs = [\<lparr>td_id = ''h1'', td_kind = ''host'', td_deletedAt = Fin 5\<rparr>, \<lparr>td_id = ''h2'', td_kind = ''host'', td_deletedAt = Fin 7\<rparr>]"

definition demo_landing :: "tombstone list" where
  "demo_landing = [\<lparr>td_id = ''h2'', td_kind = ''host'', td_deletedAt = Fin 8\<rparr>, \<lparr>td_id = ''h2'', td_kind = ''host'', td_deletedAt = Fin 9\<rparr>]"

lemma demo_lands: "landedTombstones unary demo_tombs [''h1''] demo_landing 10 =
    Some [\<lparr>td_id = ''h2'', td_kind = ''host'', td_deletedAt = Fin 9\<rparr>]"
  by code_simp

theorem landing_writes_witness:
  "[\<lparr>td_id = ''h2'', td_kind = ''host'', td_deletedAt = Fin 9\<rparr>] = landed_list demo_tombs [''h1''] demo_landing 10"
  using landing_writes [of unary demo_tombs "[''h1'']" demo_landing 10] demo_lands by blast

theorem landing_idempotent_witness:
  "landedTombstones unary demo_tombs [''h1''] demo_landing 10 = Some [\<lparr>td_id = ''h2'', td_kind = ''host'', td_deletedAt = Fin 9\<rparr>]
   \<and> landedTombstones unary [\<lparr>td_id = ''h2'', td_kind = ''host'', td_deletedAt = Fin 9\<rparr>] [''h1''] demo_landing 10 = None"
  using landing_idempotent [OF demo_lands] demo_lands by blast

theorem sameTombstones_exact_witness:
  "sameTombstones unary demo_tombs (rev demo_tombs)"
proof -
  have "list_all (\<lambda>t. CHR 0x00 \<notin> set (td_id t)) (demo_tombs @ rev demo_tombs)" by (simp add: demo_tombs_def)
  then show ?thesis using sameTombstones_exact [OF inj_unary unary_no_nul] by simp
qed

end
