(* ===== verification/Workspace_Save.thy ===== *)
theory Workspace_Save
  imports Tab_Entries
begin

text \<open>
  Saving and restoring a workspace (\<^verbatim>\<open>src/modules/workspaces/serialize.ts\<close> and the saved
  types of \<^verbatim>\<open>src/modules/workspaces/store.ts\<close>): live tabs to the on-disk shape with the panes
  that cannot come back pruned, and the saved shape back to live tabs with fresh ids. The allocator
  \<open>allocId\<close> is the counter \<open>n\<close>, threaded through in evaluation order; the store of program-set
  window titles is the argument \<open>titles\<close>.
\<close>

section \<open>The saved shape\<close>

record saved_terminal_leaf =
  sl_cwd :: "string option"
  sl_sshConnectionId :: "string option"
  sl_terminalOrdinal :: "nat option"
  sl_terminalThemeId :: "string option"
  sl_ptyId :: "string option"
  sl_title :: "string option"
  sl_activeTool :: "ai_cli_kind option"
  sl_customTitle :: "string option"

record saved_editor_leaf =
  se_path :: string
  se_sshConnectionId :: "string option"
  se_sshHostLabel :: "string option"
  se_customTitle :: "string option"

record saved_browser_leaf =
  sb_url :: string
  sb_browserOrdinal :: "nat option"
  sb_customTitle :: "string option"

text \<open>The page of a page leaf is whatever string the file holds.\<close>

datatype saved_leaf =
    SavedTerminal saved_terminal_leaf
  | SavedEditor saved_editor_leaf
  | SavedRdp (sr_rdpConnectionId: string) (sr_customTitle: "string option")
  | SavedBrowser saved_browser_leaf
  | SavedBoard (sbd_customTitle: "string option")
  | SavedPage (sp_page: string) (sp_customTitle: "string option")

datatype saved_pane_node =
    SavedLeaf saved_leaf
  | SavedSplit split_dir "saved_pane_node list" "rat list option"

datatype saved_tab =
    SavedPaneTab (sv_title: "string option") (sv_paneTree: saved_pane_node) (sv_activeLeafIndex: int)
  | SavedPreviewTab (sv_url: string) (sv_previewTitle: "string option")

section \<open>Live to saved\<close>

fun leafToSaved :: "(pane_id \<Rightarrow> string option) \<Rightarrow> pane_leaf \<Rightarrow> saved_leaf" where
  "leafToSaved titles l =
     (case leaf_state l of
        Terminal t \<Rightarrow>
          (let localPty = truthy (t_ptyId t) \<and> \<not> truthy (t_hostId t) in
           SavedTerminal \<lparr>sl_cwd = t_cwd t, sl_sshConnectionId = t_hostId t, sl_terminalOrdinal = t_terminalOrdinal t,
             sl_terminalThemeId = drop_empty (t_terminalThemeId t),
             sl_ptyId = (if localPty then t_ptyId t else None),
             sl_title = drop_empty (titles (leaf_id l)),
             sl_activeTool = (if localPty then t_activeTool t else None),
             sl_customTitle = drop_empty (t_customTitle t)\<rparr>)
      | Editor e \<Rightarrow>
          SavedEditor \<lparr>se_path = e_path e, se_sshConnectionId = drop_empty (e_hostId e),
            se_sshHostLabel = (if truthy (e_hostId e) then drop_empty (e_sshHostLabel e) else None),
            se_customTitle = drop_empty (e_customTitle e)\<rparr>
      | Rdp r \<Rightarrow> SavedRdp (r_rdpConnectionId r) (drop_empty (r_customTitle r))
      | Board b \<Rightarrow> SavedBoard (drop_empty (b_customTitle b))
      | Page p \<Rightarrow> SavedPage (page_name (page_of_tab (p_page p))) (drop_empty (p_customTitle p)))"

fun isUnrestorableEditorLeaf :: "pane_leaf \<Rightarrow> bool" where
  "isUnrestorableEditorLeaf l =
     (case leaf_state l of Editor e \<Rightarrow> e_sshSessionId e \<noteq> None \<and> e_hostId e = None | _ \<Rightarrow> False)"

declare leafToSaved.simps [simp del] isUnrestorableEditorLeaf.simps [simp del]

fun nodeToSaved :: "(pane_id \<Rightarrow> string option) \<Rightarrow> pane_node \<Rightarrow> saved_pane_node option" where
  "nodeToSaved titles (Leaf l) =
     (if isUnrestorableEditorLeaf l then None else Some (SavedLeaf (leafToSaved titles l)))"
| "nodeToSaved titles (Split i d cs sz) =
     (let children = concat (map (\<lambda>c. case nodeToSaved titles c of None \<Rightarrow> [] | Some s \<Rightarrow> [s]) cs)
      in case children of
           [] \<Rightarrow> None
         | [c] \<Rightarrow> Some c
         | _ \<Rightarrow> Some (SavedSplit d children
             (if length children = length cs \<and> (case sz of None \<Rightarrow> False | Some v \<Rightarrow> length v = length children)
              then sz else None)))"

definition isPersistedTab :: "pane_tab \<Rightarrow> bool" where
  "isPersistedTab t \<longleftrightarrow> list_ex (\<lambda>l. \<not> isUnrestorableEditorLeaf l) (leaves (paneTree t))"

definition tabToSaved :: "(pane_id \<Rightarrow> string option) \<Rightarrow> pane_tab \<Rightarrow> saved_tab option" where
  "tabToSaved titles t =
     (if \<not> isPersistedTab t then None
      else case nodeToSaved titles (paneTree t) of
        None \<Rightarrow> None
      | Some tree \<Rightarrow>
        (let kept = filter (\<lambda>l. \<not> isUnrestorableEditorLeaf l) (leaves (paneTree t));
             idx = find_index (\<lambda>l. leaf_id l = activeLeafId t) kept
         in Some (SavedPaneTab (Some (tab_title t)) tree (case idx of None \<Rightarrow> 0 | Some i \<Rightarrow> int i))))"

fun savedActiveTabIndex :: "pane_tab list \<Rightarrow> nat \<Rightarrow> nat" where
  "savedActiveTabIndex [] active = 0"
| "savedActiveTabIndex (t # ts) active =
     (if tab_id t = active then 0
      else (if isPersistedTab t then 1 else 0) + savedActiveTabIndex ts active)"

definition serializeTabs :: "(pane_id \<Rightarrow> string option) \<Rightarrow> pane_tab list \<Rightarrow> saved_tab list" where
  "serializeTabs titles tabs = concat (map (\<lambda>t. case tabToSaved titles t of None \<Rightarrow> [] | Some s \<Rightarrow> [s]) tabs)"

section \<open>Counting saved panes\<close>

fun countSavedTerminalLeaves :: "saved_pane_node \<Rightarrow> nat" where
  "countSavedTerminalLeaves (SavedLeaf l) = (case l of SavedTerminal _ \<Rightarrow> 1 | _ \<Rightarrow> 0)"
| "countSavedTerminalLeaves (SavedSplit d cs sz) = sum_list (map countSavedTerminalLeaves cs)"

fun isUnrestorablePageLeaf :: "saved_leaf \<Rightarrow> bool" where
  "isUnrestorablePageLeaf l = (case l of SavedPage page _ \<Rightarrow> \<not> isTabPageKind page | _ \<Rightarrow> False)"

declare isUnrestorablePageLeaf.simps [simp del]

fun countRestorableLeaves :: "saved_pane_node \<Rightarrow> nat" where
  "countRestorableLeaves (SavedLeaf l) = (if isUnrestorablePageLeaf l then 0 else 1)"
| "countRestorableLeaves (SavedSplit d cs sz) = sum_list (map countRestorableLeaves cs)"

fun countSavedTabEntries :: "saved_tab list \<Rightarrow> nat" where
  "countSavedTabEntries [] = 0"
| "countSavedTabEntries (SavedPaneTab ti tree a # ts) = countRestorableLeaves tree + countSavedTabEntries ts"
| "countSavedTabEntries (SavedPreviewTab u ti # ts) = 1 + countSavedTabEntries ts"

section \<open>Saved to live\<close>

definition empty_terminal :: terminal_leaf_state where
  "empty_terminal = \<lparr>t_cwd = None, t_hostId = None, t_terminalOrdinal = None, t_customTitle = None, t_ptyId = None,
     t_savedPtyId = None, t_terminalThemeId = None, t_activeTool = None\<rparr>"

text \<open>The leaf literal \<open>savedToNode\<close> builds, without its id.\<close>

fun restored_state :: "saved_leaf \<Rightarrow> leaf_state" where
  "restored_state (SavedTerminal n) = Terminal
     \<lparr>t_cwd = sl_cwd n, t_hostId = sl_sshConnectionId n, t_terminalOrdinal = sl_terminalOrdinal n,
      t_customTitle = drop_empty (sl_customTitle n), t_ptyId = None, t_savedPtyId = drop_empty (sl_ptyId n),
      t_terminalThemeId = drop_empty (sl_terminalThemeId n), t_activeTool = sl_activeTool n\<rparr>"
| "restored_state (SavedEditor n) = Editor
     \<lparr>e_path = se_path n, e_dirty = False, e_preview = False, e_hostId = drop_empty (se_sshConnectionId n),
      e_sshSessionId = None, e_sshHostLabel = drop_empty (se_sshHostLabel n), e_customTitle = drop_empty (se_customTitle n)\<rparr>"
| "restored_state (SavedRdp c t) = Rdp \<lparr>r_rdpConnectionId = c, r_customTitle = drop_empty t\<rparr>"
| "restored_state (SavedBoard t) = Board \<lparr>b_customTitle = drop_empty t\<rparr>"
| "restored_state (SavedPage p t) = Page \<lparr>p_page = TAB_PAGE_KIND, p_customTitle = drop_empty t\<rparr>"
| "restored_state (SavedBrowser b) = Terminal empty_terminal"

text \<open>The node, the advanced counter, and the ids pushed onto \<open>outLeafIds\<close>.\<close>

fun savedToNode :: "saved_pane_node \<Rightarrow> nat \<Rightarrow> pane_node option \<times> nat \<times> pane_id list"
  and savedToNodes :: "saved_pane_node list \<Rightarrow> nat \<Rightarrow> pane_node list \<times> nat \<times> pane_id list" where
  "savedToNode (SavedLeaf l) n =
     (if isUnrestorablePageLeaf l then (None, n, [])
      else (Some (Leaf (mk_leaf n (restored_state l))), n + 1, [n]))"
| "savedToNode (SavedSplit d cs sz) n =
     (let (children, n', ids) = savedToNodes cs n in
      case children of
        [] \<Rightarrow> (None, n', ids)
      | [c] \<Rightarrow> (Some c, n', ids)
      | _ \<Rightarrow> (Some (Split n' d children
               (case sz of None \<Rightarrow> None | Some v \<Rightarrow> if length v = length children then Some v else None)), n' + 1, ids))"
| "savedToNodes [] n = ([], n, [])"
| "savedToNodes (c # cs) n =
     (let (r, n', ids) = savedToNode c n; (rs, n'', ids') = savedToNodes cs n' in
      ((case r of None \<Rightarrow> rs | Some t \<Rightarrow> t # rs), n'', ids @ ids'))"

fun collectLeafSurvival :: "saved_pane_node \<Rightarrow> bool list" where
  "collectLeafSurvival (SavedLeaf l) = [\<not> isUnrestorablePageLeaf l]"
| "collectLeafSurvival (SavedSplit d cs sz) = concat (map collectLeafSurvival cs)"

text \<open>The counting loop both re-basing functions run: survivors before an index.\<close>

definition survivors_before :: "bool list \<Rightarrow> int \<Rightarrow> nat" where
  "survivors_before survives i = length (filter (\<lambda>b. b) (take (nat i) survives))"

definition restoredActiveLeafIndex :: "saved_pane_node \<Rightarrow> int \<Rightarrow> nat" where
  "restoredActiveLeafIndex tree activeLeafIndex = survivors_before (collectLeafSurvival tree) activeLeafIndex"

fun savedToTab :: "saved_tab \<Rightarrow> nat \<Rightarrow> pane_tab option \<times> nat" where
  "savedToTab (SavedPreviewTab url title) n =
     (Some (mk_tab n (case title of Some t \<Rightarrow> t | None \<Rightarrow> url)
        (Leaf (mk_leaf (n + 1) (Terminal empty_terminal))) (n + 1)), n + 2)"
| "savedToTab (SavedPaneTab title tree idx) n =
     (let (r, n', ids) = savedToNode tree (n + 1) in
      case r of
        None \<Rightarrow> (None, n')
      | Some t \<Rightarrow>
        (let wanted = restoredActiveLeafIndex tree idx;
             active = ids ! min wanted (length ids - 1)
         in (Some (mk_tab n (case title of Some s \<Rightarrow> s | None \<Rightarrow> []) t active), n')))"

definition defaultHostsTab :: "nat \<Rightarrow> pane_tab \<times> nat" where
  "defaultHostsTab n =
     (mk_tab (n + 1) (PAGE_LABELS PageHosts)
        (Leaf (mk_leaf n (Page \<lparr>p_page = TAB_PAGE_KIND, p_customTitle = None\<rparr>))) n, n + 2)"

fun restore_loop :: "saved_tab list \<Rightarrow> nat \<Rightarrow> pane_tab list \<times> nat" where
  "restore_loop [] n = ([], n)"
| "restore_loop (s # ss) n =
     (let (r, n') = savedToTab s n; (ts, n'') = restore_loop ss n' in
      ((case r of None \<Rightarrow> ts | Some t \<Rightarrow> t # ts), n''))"

definition restoreSavedTabs :: "saved_tab list \<Rightarrow> nat \<Rightarrow> pane_tab list \<times> nat" where
  "restoreSavedTabs saved n =
     (let (out, n') = restore_loop saved n in
      if out = [] then (let (t, n'') = defaultHostsTab n' in ([t], n'')) else (out, n'))"

fun survivesRestore :: "saved_tab \<Rightarrow> bool" where
  "survivesRestore (SavedPreviewTab u t) = True"
| "survivesRestore (SavedPaneTab t tree i) = (0 < countRestorableLeaves tree)"

definition restoredActiveTabIndex :: "saved_tab list \<Rightarrow> int \<Rightarrow> nat" where
  "restoredActiveTabIndex saved activeIndex = survivors_before (map survivesRestore saved) activeIndex"

definition tabsForWorkspaceEntry :: "saved_tab list \<Rightarrow> nat \<Rightarrow> pane_tab list \<times> nat" where
  "tabsForWorkspaceEntry tabs n = restoreSavedTabs tabs n"

text \<open>The tabs, the tab to focus, and the advanced counter.\<close>

definition restoreWorkspaceEntry :: "saved_tab list \<Rightarrow> int \<Rightarrow> nat \<Rightarrow> pane_tab list \<times> nat option \<times> nat" where
  "restoreWorkspaceEntry saved activeTabIndex n =
     (let (ts, n') = tabsForWorkspaceEntry saved n;
          wanted = restoredActiveTabIndex saved activeTabIndex;
          active = (if ts = [] then None else Some (tab_id (ts ! min wanted (length ts - 1))))
      in (ts, active, n'))"

section \<open>Saved leaves\<close>

fun saved_leaves :: "saved_pane_node \<Rightarrow> saved_leaf list" where
  "saved_leaves (SavedLeaf l) = [l]"
| "saved_leaves (SavedSplit d cs sz) = concat (map saved_leaves cs)"

abbreviation kept_leaves :: "pane_node \<Rightarrow> pane_leaf list" where
  "kept_leaves t \<equiv> filter (\<lambda>l. \<not> isUnrestorableEditorLeaf l) (leaves t)"

definition restorable_leaves :: "saved_pane_node \<Rightarrow> saved_leaf list" where
  "restorable_leaves s = filter (\<lambda>l. \<not> isUnrestorablePageLeaf l) (saved_leaves s)"

lemma countRestorableLeaves_eq: "countRestorableLeaves s = length (restorable_leaves s)"
proof (induction s)
  case (SavedSplit d cs sz)
  then show ?case by (induction cs) (auto simp: restorable_leaves_def)
qed (simp add: restorable_leaves_def)

lemma collectLeafSurvival_eq: "collectLeafSurvival s = map (\<lambda>l. \<not> isUnrestorablePageLeaf l) (saved_leaves s)"
proof (induction s)
  case (SavedSplit d cs sz)
  then show ?case by (induction cs) auto
qed simp

text \<open>The children a saved split keeps.\<close>

definition saved_children :: "(pane_id \<Rightarrow> string option) \<Rightarrow> pane_node list \<Rightarrow> saved_pane_node list" where
  "saved_children titles cs = concat (map (\<lambda>c. case nodeToSaved titles c of None \<Rightarrow> [] | Some s \<Rightarrow> [s]) cs)"

lemma nodeToSaved_Split:
  "nodeToSaved titles (Split i d cs sz) =
    (case saved_children titles cs of [] \<Rightarrow> None | [c] \<Rightarrow> Some c
     | children \<Rightarrow> Some (SavedSplit d children
         (if length children = length cs \<and> (case sz of None \<Rightarrow> False | Some v \<Rightarrow> length v = length children)
          then sz else None)))"
  unfolding nodeToSaved.simps Let_def saved_children_def [symmetric]
  by (cases "saved_children titles cs" rule: remdups_adj.cases; cases sz) auto

declare nodeToSaved.simps(2) [simp del]
declare nodeToSaved_Split [simp]

lemma saved_leaves_nodeToSaved:
  "concat (map saved_leaves (case nodeToSaved titles t of None \<Rightarrow> [] | Some s \<Rightarrow> [s])) =
    map (leafToSaved titles) (kept_leaves t)"
proof (induction t)
  case (Split i d cs sz)
  have "concat (map saved_leaves (saved_children titles cs)) = map (leafToSaved titles) (kept_leaves (Split i d cs sz))"
    using Split by (induction cs) (auto simp: saved_children_def)
  then show ?case by (cases "saved_children titles cs" rule: remdups_adj.cases) auto
qed auto

lemma saved_leaves_nonempty: "nodeToSaved titles t = Some s \<Longrightarrow> saved_leaves s \<noteq> []"
proof (induction t arbitrary: s)
  case (Split i d cs sz)
  have ne: "saved_leaves c \<noteq> []" if "c \<in> set (saved_children titles cs)" for c
    using that Split.IH by (auto simp: saved_children_def split: option.splits)
  show ?case using Split.prems ne by (cases "saved_children titles cs" rule: remdups_adj.cases) auto
qed (auto split: if_splits)

lemma nodeToSaved_None_iff: "nodeToSaved titles t = None \<longleftrightarrow> kept_leaves t = []"
  using saved_leaves_nodeToSaved [of titles t] saved_leaves_nonempty [of titles t]
  by (cases "nodeToSaved titles t") auto

lemma nodeToSaved_Some_leaves: "nodeToSaved titles t = Some s \<Longrightarrow> saved_leaves s = map (leafToSaved titles) (kept_leaves t)"
  using saved_leaves_nodeToSaved [of titles t] by simp

text \<open>A live page leaf is the Hosts page, so nothing that was saved from live tabs is dropped on restore.\<close>

lemma leafToSaved_restorable: "\<not> isUnrestorablePageLeaf (leafToSaved titles l)"
proof (cases "leaf_state l")
  case (Page p)
  then show ?thesis by (cases "p_page p") (simp add: isUnrestorablePageLeaf.simps leafToSaved.simps isTabPageKind_def TAB_PAGE_KIND_def)
qed (simp_all add: isUnrestorablePageLeaf.simps leafToSaved.simps Let_def)

lemma restorable_leaves_nodeToSaved:
  "nodeToSaved titles t = Some s \<Longrightarrow> restorable_leaves s = map (leafToSaved titles) (kept_leaves t)"
  by (simp add: restorable_leaves_def nodeToSaved_Some_leaves filter_map o_def leafToSaved_restorable)

section \<open>Restored trees\<close>

text \<open>What a restore of one subtree yields, and of a list of subtrees.\<close>

definition restored_ok :: "nat \<Rightarrow> nat \<Rightarrow> pane_id list \<Rightarrow> saved_leaf list \<Rightarrow> pane_node list \<Rightarrow> bool" where
  "restored_ok n n' ids ls ts \<longleftrightarrow> n \<le> n' \<and> concat (map leafIds ts) = ids \<and> list_all wf_shape ts
     \<and> map leaf_state (concat (map leaves ts)) = map restored_state ls
     \<and> set (concat (map nodeIds ts)) \<subseteq> {n ..< n'} \<and> sorted_wrt (<) ids \<and> distinct (concat (map nodeIds ts))"

lemma restored_ok_append:
  assumes "restored_ok n m ids ls ts" and "restored_ok m k ids' ls' ts'"
  shows "restored_ok n k (ids @ ids') (ls @ ls') (ts @ ts')"
proof -
  have sub: "set ids \<subseteq> {n ..< m}" "set ids' \<subseteq> {m ..< k}"
    using assms leafIds_subset_nodeIds by (fastforce simp: restored_ok_def)+
  have "set (concat (map nodeIds ts)) \<inter> set (concat (map nodeIds ts')) = {}"
    using assms by (fastforce simp: restored_ok_def)
  then show ?thesis using assms sub by (fastforce simp: restored_ok_def sorted_wrt_append)
qed

lemma restored_ok_split:
  assumes "restored_ok n n' ids ls (a # b # ts)"
  shows "restored_ok n (n' + 1) ids ls [Split n' d (a # b # ts) sz]"
  using assms by (auto simp: restored_ok_def)

lemma savedToNode_ok:
  "savedToNode s n = (r, n', ids) \<Longrightarrow> restored_ok n n' ids (restorable_leaves s) (case r of None \<Rightarrow> [] | Some t \<Rightarrow> [t])"
  "savedToNodes ss n = (ts, n', ids) \<Longrightarrow> restored_ok n n' ids (concat (map restorable_leaves ss)) ts"
proof (induction s n and ss n arbitrary: r n' ids and ts n' ids rule: savedToNode_savedToNodes.induct)
  case (1 l n)
  then show ?case by (auto simp: restored_ok_def restorable_leaves_def mk_leaf_def split: if_splits)
next
  case (2 d cs sz n)
  obtain children m jds where c: "savedToNodes cs n = (children, m, jds)" using prod_cases3 by blast
  have leaves: "restorable_leaves (SavedSplit d cs sz) = concat (map restorable_leaves cs)"
    unfolding restorable_leaves_def by (induction cs) auto
  have ok: "restored_ok n m jds (concat (map restorable_leaves cs)) children" using "2.IH" [OF c] .
  show ?case
  proof (cases children rule: remdups_adj.cases)
    case 1
    then show ?thesis using "2.prems" c ok leaves by simp
  next
    case (2 x)
    then show ?thesis using "2.prems" c ok leaves by auto
  next
    case (3 x y xs)
    then show ?thesis using "2.prems" c restored_ok_split [OF ok [unfolded 3]] leaves by auto
  qed
next
  case (3 n)
  then show ?case by (simp add: restored_ok_def)
next
  case (4 c cs n)
  obtain r1 m i1 where c1: "savedToNode c n = (r1, m, i1)" using prod_cases3 by blast
  obtain rs k i2 where c2: "savedToNodes cs m = (rs, k, i2)" using prod_cases3 by blast
  have "restored_ok n k (i1 @ i2) (restorable_leaves c @ concat (map restorable_leaves cs))
      ((case r1 of None \<Rightarrow> [] | Some t \<Rightarrow> [t]) @ rs)"
    using "4.IH"(1) [OF c1] "4.IH"(2) [OF c1 [symmetric] refl refl c2] by (rule restored_ok_append)
  moreover have "ts = (case r1 of None \<Rightarrow> [] | Some t \<Rightarrow> [t]) @ rs" "n' = k" "ids = i1 @ i2"
    using "4.prems" c1 c2 by (auto split: option.splits)
  ultimately show ?case by simp
qed

lemma savedToNode_None_iff:
  "savedToNode s n = (r, n', ids) \<Longrightarrow> r = None \<longleftrightarrow> restorable_leaves s = []"
proof -
  assume s: "savedToNode s n = (r, n', ids)"
  show ?thesis
  proof (cases r)
    case None
    then show ?thesis using savedToNode_ok(1) [OF s] by (simp add: restored_ok_def)
  next
    case (Some t)
    then have "leaves t \<noteq> []" "map leaf_state (leaves t) = map restored_state (restorable_leaves s)"
      using savedToNode_ok(1) [OF s] wf_shape_leaves_nonempty by (auto simp: restored_ok_def)
    then show ?thesis using Some by auto
  qed
qed

section \<open>Restored tabs\<close>

text \<open>The states of the panes a saved tab comes back with.\<close>

fun tab_states :: "saved_tab \<Rightarrow> leaf_state list" where
  "tab_states (SavedPaneTab ti tree i) = map restored_state (restorable_leaves tree)"
| "tab_states (SavedPreviewTab u ti) = [Terminal empty_terminal]"

lemma survivesRestore_iff: "survivesRestore s \<longleftrightarrow> tab_states s \<noteq> []"
  by (cases s) (auto simp: countRestorableLeaves_eq)

abbreviation pane_states :: "pane_tab \<Rightarrow> leaf_state list" where
  "pane_states t \<equiv> map leaf_state (leaves (paneTree t))"

definition tab_restored :: "nat \<Rightarrow> nat \<Rightarrow> saved_tab \<Rightarrow> pane_tab \<Rightarrow> bool" where
  "tab_restored n n' s t \<longleftrightarrow> tab_id t = n \<and> n < n' \<and> wf_shape (paneTree t) \<and> distinct (leafIds (paneTree t))
     \<and> set (nodeIds (paneTree t)) \<subseteq> {n + 1 ..< n'} \<and> activeLeafId t \<in> set (leafIds (paneTree t))
     \<and> pane_states t = tab_states s"

lemma savedToTab_ok:
  assumes "savedToTab s n = (r, n')"
  shows "n \<le> n' \<and> (case r of None \<Rightarrow> \<not> survivesRestore s | Some t \<Rightarrow> survivesRestore s \<and> tab_restored n n' s t)"
proof (cases s)
  case (SavedPreviewTab u ti)
  then show ?thesis using assms by (auto simp: tab_restored_def mk_tab_def mk_leaf_def)
next
  case (SavedPaneTab ti tree i)
  obtain q m ids where q: "savedToNode tree (n + 1) = (q, m, ids)" using prod_cases3 by blast
  note ok = savedToNode_ok(1) [OF q] and none = savedToNode_None_iff [OF q]
  show ?thesis
  proof (cases q)
    case None
    then show ?thesis using SavedPaneTab assms q ok none by (simp add: restored_ok_def survivesRestore_iff)
  next
    case (Some t)
    let ?a = "ids ! min (restoredActiveLeafIndex tree i) (length ids - 1)"
    have t: "r = Some (mk_tab n (case ti of Some s \<Rightarrow> s | None \<Rightarrow> []) t ?a)" "n' = m"
      using SavedPaneTab assms q Some by (auto simp: Let_def)
    have k: "n + 1 \<le> m" "leafIds t = ids" "wf_shape t" "map leaf_state (leaves t) = map restored_state (restorable_leaves tree)"
      "set (nodeIds t) \<subseteq> {n + 1 ..< m}" "sorted_wrt (<) ids"
      using ok Some by (auto simp: restored_ok_def)
    have "ids \<noteq> []" using k(2,3) wf_shape_leafIds_nonempty by blast
    then have "min (restoredActiveLeafIndex tree i) (length ids - 1) < length ids" by (cases ids) auto
    then have "?a \<in> set ids" by (rule nth_mem)
    moreover have "distinct ids" using k(6) strict_sorted_iff by blast
    ultimately show ?thesis
      using t k none Some SavedPaneTab by (auto simp: tab_restored_def mk_tab_def survivesRestore_iff)
  qed
qed

lemma restore_loop_ok:
  "restore_loop ss n = (ts, n') \<Longrightarrow> n \<le> n' \<and> distinct (map tab_id ts) \<and> distinct (all_ids ts)
    \<and> list_all (\<lambda>t. n \<le> tab_id t \<and> tab_id t < n' \<and> wf_shape (paneTree t) \<and> distinct (leafIds (paneTree t))
        \<and> set (nodeIds (paneTree t)) \<subseteq> {n + 1 ..< n'} \<and> activeLeafId t \<in> set (leafIds (paneTree t))) ts
    \<and> map pane_states ts = map tab_states (filter survivesRestore ss)"
proof (induction ss arbitrary: n ts n')
  case (Cons s ss)
  obtain r m where r: "savedToTab s n = (r, m)" by fastforce
  obtain us k where us: "restore_loop ss m = (us, k)" by fastforce
  note ok = savedToTab_ok [OF r] and IH = Cons.IH [OF us]
  have k: "n' = k" "ts = (case r of None \<Rightarrow> us | Some t \<Rightarrow> t # us)" using Cons.prems r us by auto
  have later: "set (all_ids us) \<subseteq> {m ..< k}"
    using IH leafIds_subset_nodeIds by (fastforce simp: list_all_iff in_all_leaves leafIds_leaves)
  show ?case
  proof (cases r)
    case None
    then show ?thesis using ok IH k by (fastforce simp: list_all_iff)
  next
    case (Some t)
    then have t: "tab_restored n m s t" "survivesRestore s" using ok by auto
    then have "set (leafIds (paneTree t)) \<subseteq> {n + 1 ..< m}" using leafIds_subset_nodeIds by (fastforce simp: tab_restored_def)
    then have "distinct (all_ids (t # us))"
      using IH later t(1) by (fastforce simp: tab_restored_def leafIds_leaves)
    then show ?thesis using Some IH k t ok by (fastforce simp: list_all_iff tab_restored_def)
  qed
qed simp

end
