(* ===== verification/Workspace_Props.thy ===== *)
theory Workspace_Props
  imports Workspace_Save Tab_Props
begin

text \<open>
  Saving and restoring composed with the tab state: what survives a save and restore, that restored
  tabs are always a valid argument of \<open>replaceAllTabs\<close> (so every invariant of the tab machine
  holds after a workspace switch), that the focus comes back to the same pane, and that a file on a
  remote host never comes back as a local file.
\<close>

section \<open>What comes back\<close>

text \<open>
  What a pane must come back as, written out per field and without the saving code: a terminal keeps
  its directory, host, number, theme and name, and the service process of a local one is carried to
  be reattached, with the tool running in it; an editor keeps its path, host and name, and its host
  label if it has a host; the other panes keep what they show and their name. Nothing of a live
  session survives, and an empty string counts as absent.
\<close>

fun durable_state :: "leaf_state \<Rightarrow> leaf_state" where
  "durable_state (Terminal t) =
     (let local = t_ptyId t \<noteq> None \<and> t_ptyId t \<noteq> Some [] \<and> (t_hostId t = None \<or> t_hostId t = Some []) in
      Terminal \<lparr>t_cwd = t_cwd t, t_hostId = t_hostId t, t_terminalOrdinal = t_terminalOrdinal t,
        t_customTitle = drop_empty (t_customTitle t), t_ptyId = None,
        t_savedPtyId = (if local then t_ptyId t else None),
        t_terminalThemeId = drop_empty (t_terminalThemeId t),
        t_activeTool = (if local then t_activeTool t else None)\<rparr>)"
| "durable_state (Editor e) = Editor
     \<lparr>e_path = e_path e, e_dirty = False, e_preview = False, e_hostId = drop_empty (e_hostId e),
      e_sshSessionId = None,
      e_sshHostLabel = (if drop_empty (e_hostId e) = None then None else drop_empty (e_sshHostLabel e)),
      e_customTitle = drop_empty (e_customTitle e)\<rparr>"
| "durable_state (Rdp r) = Rdp \<lparr>r_rdpConnectionId = r_rdpConnectionId r, r_customTitle = drop_empty (r_customTitle r)\<rparr>"
| "durable_state (Board b) = Board \<lparr>b_customTitle = drop_empty (b_customTitle b)\<rparr>"
| "durable_state (Page p) = Page \<lparr>p_page = p_page p, p_customTitle = drop_empty (p_customTitle p)\<rparr>"

text \<open>The panes that can come back: all but a file of a live session no saved host stands for.\<close>

definition keepable :: "pane_leaf \<Rightarrow> bool" where
  "keepable l \<longleftrightarrow> (case leaf_state l of Editor e \<Rightarrow> e_sshSessionId e = None \<or> e_hostId e \<noteq> None | _ \<Rightarrow> True)"

definition tab_keepable :: "pane_tab \<Rightarrow> bool" where
  "tab_keepable t \<longleftrightarrow> list_ex keepable (leaves (paneTree t))"

lemma unrestorable_iff: "isUnrestorableEditorLeaf l \<longleftrightarrow> \<not> keepable l"
  by (simp add: isUnrestorableEditorLeaf.simps keepable_def split: leaf_state.splits)

lemma persisted_eq: "isPersistedTab = tab_keepable"
  by (simp add: fun_eq_iff isPersistedTab_def tab_keepable_def unrestorable_iff)

text \<open>The state a pane comes back with after being saved and restored.\<close>

definition reborn :: "(pane_id \<Rightarrow> string option) \<Rightarrow> pane_leaf \<Rightarrow> leaf_state" where
  "reborn titles l = restored_state (leafToSaved titles l)"

lemma reborn_durable: "reborn titles l = durable_state (leaf_state l)"
proof -
  have truthy: "truthy x \<longleftrightarrow> x \<noteq> None \<and> x \<noteq> Some []" for x by (cases x) auto
  show ?thesis
  proof (cases "leaf_state l")
    case (Page p)
    then show ?thesis by (cases "p_page p") (simp add: reborn_def leafToSaved.simps drop_empty_def TAB_PAGE_KIND_def)
  qed (simp_all add: reborn_def leafToSaved.simps drop_empty_def truthy Let_def)
qed

lemma tabToSaved_iff:
  "tabToSaved titles t = Some sv \<longleftrightarrow> isPersistedTab t \<and> (\<exists>tree. nodeToSaved titles (paneTree t) = Some tree \<and>
     sv = SavedPaneTab (Some (tab_title t)) tree
       (case find_index (\<lambda>l. leaf_id l = activeLeafId t) (kept_leaves (paneTree t)) of None \<Rightarrow> 0 | Some i \<Rightarrow> int i))"
  by (auto simp: tabToSaved_def Let_def split: option.splits)

lemma isPersistedTab_iff: "isPersistedTab t \<longleftrightarrow> kept_leaves (paneTree t) \<noteq> []"
  by (auto simp: isPersistedTab_def list_ex_iff filter_empty_conv)

lemma tabToSaved_None_iff: "tabToSaved titles t = None \<longleftrightarrow> \<not> isPersistedTab t"
  using nodeToSaved_None_iff [of titles "paneTree t"] isPersistedTab_iff [of t]
  by (auto simp: tabToSaved_def Let_def split: option.splits)

lemma tab_states_tabToSaved:
  "tabToSaved titles t = Some sv \<Longrightarrow> tab_states sv = map (reborn titles) (kept_leaves (paneTree t))"
  by (auto simp: tabToSaved_iff restorable_leaves_nodeToSaved reborn_def)

lemma serializeTabs_Cons:
  "serializeTabs titles (t # ts) = (case tabToSaved titles t of None \<Rightarrow> [] | Some s \<Rightarrow> [s]) @ serializeTabs titles ts"
  by (simp add: serializeTabs_def)

lemma states_serializeTabs:
  "map tab_states (serializeTabs titles ts) =
    map (\<lambda>t. map (reborn titles) (kept_leaves (paneTree t))) (filter isPersistedTab ts)"
proof (induction ts)
  case (Cons t ts)
  then show ?case using tabToSaved_None_iff [of titles t] tab_states_tabToSaved [of titles t]
    by (cases "tabToSaved titles t") (auto simp: serializeTabs_Cons)
qed (simp add: serializeTabs_def)

lemma serialized_survive: "list_all survivesRestore (serializeTabs titles ts)"
proof -
  have "\<forall>x \<in> set (map tab_states (serializeTabs titles ts)). x \<noteq> []"
    unfolding states_serializeTabs by (auto simp: isPersistedTab_iff)
  then show ?thesis by (simp add: list_all_iff survivesRestore_iff)
qed

section \<open>Restored tabs are restorable\<close>

definition state_kinds :: "leaf_kind \<Rightarrow> leaf_state list \<Rightarrow> nat" where
  "state_kinds k sts = length (filter (\<lambda>st. kind_of st = k) sts)"

text \<open>What a saved workspace must respect for its tabs to satisfy the invariant.\<close>

definition saved_ok :: "saved_tab list \<Rightarrow> bool" where
  "saved_ok saved \<longleftrightarrow> list_all (\<lambda>s. length (tab_states s) \<le> MAX_PANES_PER_TAB) saved
     \<and> (let sts = concat (map tab_states saved) in
        distinct (state_ordinals sts) \<and> state_kinds KBoard sts \<le> 1 \<and> state_kinds KPage sts \<le> 1)"

lemma ordinals_states: "ordinals ls = state_ordinals (map leaf_state ls)"
  by (induction ls) (auto simp: ordinals_def state_ordinals_def leaf_ordinals_def mk_leaf_def)

lemma count_kind_states: "count_kind k ls = state_kinds k (map leaf_state ls)"
  by (induction ls) (auto simp: count_kind_def state_kinds_def)

lemma leaf_clean_restored: "leaf_state l = restored_state s \<Longrightarrow> leaf_clean l"
  by (cases s) (auto simp: leaf_clean_def)

lemma concat_filter_states: "concat (map tab_states (filter survivesRestore saved)) = concat (map tab_states saved)"
  by (induction saved) (auto simp: survivesRestore_iff)

lemma states_all_leaves: "map leaf_state (all_leaves ts) = concat (map pane_states ts)"
  by (induction ts) auto

lemma tab_states_restored: "st \<in> set (tab_states s) \<Longrightarrow> \<exists>l. st = restored_state l"
  by (cases s) (auto intro: exI [of _ "SavedBrowser undefined"])

lemma restore_loop_restorable:
  assumes "restore_loop saved n = (ts, n')" and "saved_ok saved" and "0 < n"
  shows "distinct (map tab_id ts) \<and> list_all (restorable_tab n') ts \<and> leaves_ok (peekMaxOrdinal ts + 1) (all_leaves ts)"
proof -
  note ok = restore_loop_ok [OF assms(1)]
  have sts: "map leaf_state (all_leaves ts) = concat (map tab_states saved)"
    using ok concat_filter_states by (simp add: states_all_leaves)
  have len: "length (leafIds (paneTree t)) \<le> MAX_PANES_PER_TAB" if "t \<in> set ts" for t
  proof -
    have states: "map pane_states ts = map tab_states (filter survivesRestore saved)" using ok by blast
    have "pane_states t \<in> set (map pane_states ts)" using that by simp
    then have "pane_states t \<in> set (map tab_states (filter survivesRestore saved))" unfolding states .
    then obtain x where x: "x \<in> set saved" "pane_states t = tab_states x" by auto
    have "length (leaves (paneTree t)) = length (tab_states x)" using x(2) by (metis length_map)
    then show ?thesis using assms(2) x(1) by (simp add: saved_ok_def list_all_iff leafIds_leaves)
  qed
  have "leaf_clean l" if "l \<in> set (all_leaves ts)" for l
  proof -
    have "leaf_state l \<in> set (map leaf_state (all_leaves ts))" using that by simp
    then have "leaf_state l \<in> set (concat (map tab_states saved))" unfolding sts .
    then show ?thesis using tab_states_restored leaf_clean_restored by fastforce
  qed
  then have "leaves_ok (peekMaxOrdinal ts + 1) (all_leaves ts)"
    using ok assms(2) peekMaxOrdinal_ge [of _ ts]
    by (auto simp: leaves_ok_def saved_ok_def Let_def ordinals_states count_kind_states sts list_all_iff less_Suc_eq_le)
  then show ?thesis using ok len assms(3) by (fastforce simp: list_all_iff restorable_tab_def)
qed

lemma defaultHostsTab_restorable:
  assumes "defaultHostsTab n = (t, n')" and "0 < n"
  shows "restorable_tab n' t \<and> leaves_ok (peekMaxOrdinal [t] + 1) (all_leaves [t])"
  using assms by (auto simp: defaultHostsTab_def restorable_tab_def mk_tab_def mk_leaf_def leaves_ok_def ordinals_def
      leaf_ordinals_def leaf_clean_def count_kind_def MAX_PANES_PER_TAB_def)

lemma restorable_tab_mono: "restorable_tab n t \<Longrightarrow> n \<le> m \<Longrightarrow> restorable_tab m t"
  by (force simp: restorable_tab_def)

lemma restore_restorable:
  assumes "restoreWorkspaceEntry saved idx (nextId s) = (ts, active, n')" and "saved_ok saved" and "0 < nextId s"
  shows "restorable ts active (s\<lparr>nextId := n'\<rparr>) \<and> nextId s \<le> n' \<and> ts \<noteq> []"
proof -
  obtain out m where out: "restore_loop saved (nextId s) = (out, m)" by fastforce
  note ok = restore_loop_ok [OF out] and r = restore_loop_restorable [OF out assms(2,3)]
  have mono: "list_all (restorable_tab (max n' (max_id ts + 1))) ts" if "list_all (restorable_tab n') ts"
    using that by (auto simp: list_all_iff intro: restorable_tab_mono)
  have "distinct (map tab_id ts) \<and> list_all (restorable_tab n') ts \<and> leaves_ok (peekMaxOrdinal ts + 1) (all_leaves ts)
      \<and> nextId s \<le> n' \<and> ts \<noteq> []"
  proof (cases "out = []")
    case True
    obtain t k where t: "defaultHostsTab m = (t, k)" by fastforce
    then have "ts = [t]" "n' = k" using assms(1) out True by (auto simp: restoreWorkspaceEntry_def tabsForWorkspaceEntry_def restoreSavedTabs_def)
    moreover have "0 < m" "m \<le> k" using ok assms(3) t by (auto simp: defaultHostsTab_def)
    ultimately show ?thesis using defaultHostsTab_restorable [OF t] ok by auto
  next
    case False
    then have "ts = out" "n' = m" using assms(1) out by (auto simp: restoreWorkspaceEntry_def tabsForWorkspaceEntry_def restoreSavedTabs_def)
    then show ?thesis using r ok False by auto
  qed
  moreover have "active = Some (tab_id (ts ! min (restoredActiveTabIndex saved idx) (length ts - 1)))" if "ts \<noteq> []"
    using assms(1) that by (auto simp: restoreWorkspaceEntry_def Let_def split: prod.splits)
  moreover have "min (restoredActiveTabIndex saved idx) (length ts - 1) < length ts" if "ts \<noteq> []"
    using that by (cases ts) auto
  ultimately show ?thesis using mono by (auto simp: restorable_def)
qed

lemma reborn_neutral:
  "leaf_ordinals (mk_leaf i (reborn titles l)) = leaf_ordinals l" "kind_of (reborn titles l) = kind_of (leaf_state l)"
  by (cases "leaf_state l"; simp add: reborn_def leafToSaved.simps leaf_ordinals_def mk_leaf_def Let_def)+

lemma state_ordinals_append: "state_ordinals (xs @ ys) = state_ordinals xs @ state_ordinals ys"
  by (simp add: state_ordinals_def)

lemma reborn_states:
  "state_ordinals (map (reborn titles) ls) = ordinals ls" "state_kinds k (map (reborn titles) ls) = count_kind k ls"
  by (induction ls) (auto simp: state_ordinals_def ordinals_def state_kinds_def count_kind_def reborn_neutral)

lemma kept_all:
  "concat (map (\<lambda>t. map f (kept_leaves (paneTree t))) (filter isPersistedTab ts)) =
    map f (filter (\<lambda>l. \<not> isUnrestorableEditorLeaf l) (all_leaves ts))"
  by (induction ts) (auto simp: isPersistedTab_iff)

lemma distinct_ordinals_filter: "distinct (ordinals ls) \<Longrightarrow> distinct (ordinals (filter P ls))"
  by (induction ls) (auto simp: ordinals_def)

lemma serialized_ok:
  assumes "tabs_inv s"
  shows "saved_ok (serializeTabs titles (tabs s))"
proof -
  have sts: "concat (map tab_states (serializeTabs titles (tabs s))) =
      map (reborn titles) (filter (\<lambda>l. \<not> isUnrestorableEditorLeaf l) (all_leaves (tabs s)))"
    unfolding states_serializeTabs by (rule kept_all)
  have lo: "leaves_ok (nextOrdinal s) (all_leaves (tabs s))" and tok: "list_all (tab_ok (nextId s)) (tabs s)"
    using assms by (auto simp: tabs_inv_def tabs_ok_def)
  have count: "count_kind k (filter P ls) \<le> count_kind k ls" for k P ls
    by (induction ls) (auto simp: count_kind_def)
  have len: "length (tab_states sv) \<le> MAX_PANES_PER_TAB" if sv: "sv \<in> set (serializeTabs titles (tabs s))" for sv
  proof -
    have "tab_states sv \<in> set (map tab_states (serializeTabs titles (tabs s)))" using sv by simp
    then obtain t where "t \<in> set (tabs s)" "tab_states sv = map (reborn titles) (kept_leaves (paneTree t))"
      unfolding states_serializeTabs by auto
    moreover from this have "length (leaves (paneTree t)) \<le> MAX_PANES_PER_TAB"
      using tok by (simp add: list_all_iff tab_ok_def leafIds_leaves)
    ultimately show ?thesis by (simp add: order_trans [OF length_filter_le])
  qed
  show ?thesis
    unfolding saved_ok_def Let_def sts reborn_states using lo len
    by (auto simp: leaves_ok_def list_all_iff distinct_ordinals_filter intro: order_trans [OF count])
qed

section \<open>Layout\<close>

text \<open>The same splits in the same directions, with the divider positions that fit the children.\<close>

fun same_layout :: "pane_node \<Rightarrow> pane_node \<Rightarrow> bool" where
  "same_layout (Leaf _) (Leaf _) = True"
| "same_layout (Split _ d cs sz) (Split _ d' cs' sz') =
     (d' = d \<and> list_all2 same_layout cs cs' \<and>
      sz' = (case sz of None \<Rightarrow> None | Some v \<Rightarrow> if length v = length cs then Some v else None))"
| "same_layout _ _ = False"

lemma savedToNodes_all2:
  "list_all (\<lambda>s. restorable_leaves s \<noteq> []) ss \<Longrightarrow> savedToNodes ss n = (ts, n', ids) \<Longrightarrow>
    list_all2 (\<lambda>s t. \<exists>m m' is. savedToNode s m = (Some t, m', is)) ss ts"
proof (induction ss arbitrary: n ts n' ids)
  case (Cons s ss)
  obtain r m i1 where r: "savedToNode s n = (r, m, i1)" using prod_cases3 by blast
  obtain us k i2 where us: "savedToNodes ss m = (us, k, i2)" using prod_cases3 by blast
  obtain t where t: "r = Some t" using savedToNode_None_iff [OF r] Cons.prems(1) by auto
  then have "ts = t # us" using Cons.prems(2) r us by auto
  then show ?case using Cons.IH [OF _ us] Cons.prems(1) r t by auto
qed simp

lemma saved_children_all:
  assumes "\<forall>c \<in> set cs. kept_leaves c \<noteq> []"
  shows "list_all2 (\<lambda>c s. nodeToSaved titles c = Some s) cs (saved_children titles cs)"
  using assms
proof (induction cs)
  case (Cons c cs)
  then show ?case using nodeToSaved_None_iff [of titles c] by (auto simp: saved_children_def)
qed (simp add: saved_children_def)

lemma layout_round_trip:
  assumes "wf_shape t" and "list_all (\<lambda>l. \<not> isUnrestorableEditorLeaf l) (leaves t)"
    and "nodeToSaved titles t = Some s" and "savedToNode s n = (Some t', n', ids)"
  shows "same_layout t t'"
  using assms
proof (induction t arbitrary: s n t' n' ids)
  case (Leaf l)
  then show ?case by (auto simp: list_all_iff leafToSaved_restorable split: if_splits)
next
  case (Split i d cs sz)
  have wf: "2 \<le> length cs" "\<And>c. c \<in> set cs \<Longrightarrow> wf_shape c" using Split.prems(1) by (auto simp: list_all_iff)
  have all: "list_all (\<lambda>l. \<not> isUnrestorableEditorLeaf l) (leaves c)" if "c \<in> set cs" for c
    using Split.prems(2) that by (auto simp: list_all_iff)
  have kept: "\<forall>c \<in> set cs. kept_leaves c \<noteq> []"
    using wf(2) all wf_shape_leaves_nonempty by (fastforce simp: list_all_iff filter_empty_conv)
  note sc = saved_children_all [OF kept, of titles]
  let ?ss = "saved_children titles cs"
  have len: "length ?ss = length cs" using list_all2_lengthD [OF sc] by simp
  let ?sz = "if (case sz of None \<Rightarrow> False | Some v \<Rightarrow> length v = length ?ss) then sz else None"
  have s: "s = SavedSplit d ?ss ?sz"
    using Split.prems(3) len wf(1) by (cases ?ss rule: remdups_adj.cases; cases sz) auto
  obtain ts m js where ts: "savedToNodes ?ss n = (ts, m, js)" using prod_cases3 by blast
  have "restorable_leaves x \<noteq> []" if x: "x \<in> set ?ss" for x
  proof -
    obtain c where "c \<in> set cs" "nodeToSaved titles c = Some x"
      using x by (auto simp: saved_children_def split: option.splits)
    then show ?thesis using kept restorable_leaves_nodeToSaved by fastforce
  qed
  then have "list_all (\<lambda>s. restorable_leaves s \<noteq> []) ?ss" by (simp add: list_all_iff)
  note st = savedToNodes_all2 [OF this ts]
  have lts: "length ts = length cs" using list_all2_lengthD [OF st] len by simp
  have t': "t' = Split m d ts (case ?sz of None \<Rightarrow> None | Some v \<Rightarrow> if length v = length ts then Some v else None)"
    using Split.prems(4) s ts lts wf(1) by (cases ts rule: remdups_adj.cases) auto
  have "list_all2 same_layout cs ts"
    unfolding list_all2_conv_all_nth
  proof (intro conjI allI impI)
    fix k assume k: "k < length cs"
    have "nodeToSaved titles (cs ! k) = Some (?ss ! k)" using sc k by (simp add: list_all2_conv_all_nth)
    moreover obtain p p' q where "savedToNode (?ss ! k) p = (Some (ts ! k), p', q)"
      using st k len by (auto simp: list_all2_conv_all_nth)
    ultimately show "same_layout (cs ! k) (ts ! k)" using Split.IH [of "cs ! k"] wf(2) all k by auto
  qed (simp add: lts)
  then show ?case using t' lts len by (cases sz) auto
qed

section \<open>Focus\<close>

lemma survivors_all: "list_all (\<lambda>b. b) bs \<Longrightarrow> survivors_before bs (int i) = min i (length bs)"
proof -
  assume a: "list_all (\<lambda>b. b) bs"
  have "filter (\<lambda>b. b) (take i bs) = take i bs" using a by (auto simp: filter_id_conv list_all_iff dest: in_set_takeD)
  then show ?thesis by (simp add: survivors_before_def min.commute)
qed

lemma savedToTab_active:
  assumes "savedToTab (SavedPaneTab ti tree i) n = (Some t, n')"
  shows "activeLeafId t = leafIds (paneTree t) ! min (restoredActiveLeafIndex tree i) (length (leafIds (paneTree t)) - 1)
    \<and> tab_title t = (case ti of Some s \<Rightarrow> s | None \<Rightarrow> [])"
proof -
  obtain q m ids where q: "savedToNode tree (n + 1) = (q, m, ids)" using prod_cases3 by blast
  obtain u where u: "q = Some u" using assms q by (cases q) auto
  then have "leafIds u = ids" using savedToNode_ok(1) [OF q] by (simp add: restored_ok_def)
  then show ?thesis using assms q u by (auto simp: mk_tab_def Let_def)
qed

text \<open>The pane a restored tab focuses has the state of the pane that was focused when it was saved.\<close>

lemma restored_focus:
  assumes "tabToSaved titles t = Some sv" and "savedToTab sv n = (Some u, n')"
    and "activeLeaf t = Some l" and "\<not> isUnrestorableEditorLeaf l" and "distinct (leafIds (paneTree t))"
  shows "\<exists>k. activeLeaf u = Some k \<and> leaf_state k = reborn titles l"
proof -
  obtain tree where tree: "nodeToSaved titles (paneTree t) = Some tree" and sv: "sv = SavedPaneTab (Some (tab_title t)) tree
       (case find_index (\<lambda>l. leaf_id l = activeLeafId t) (kept_leaves (paneTree t)) of None \<Rightarrow> 0 | Some i \<Rightarrow> int i)"
    using assms(1) unfolding tabToSaved_iff by blast
  have l: "l \<in> set (leaves (paneTree t))" "leaf_id l = activeLeafId t"
    using assms(3) findLeaf_SomeD by (fastforce simp: activeLeaf_def)+
  let ?kept = "kept_leaves (paneTree t)"
  have "l \<in> set ?kept" using l assms(4) by simp
  then obtain i where i: "find_index (\<lambda>l. leaf_id l = activeLeafId t) ?kept = Some i"
    using l(2) find_index_None [of "\<lambda>l. leaf_id l = activeLeafId t" ?kept] by (cases "find_index (\<lambda>l. leaf_id l = activeLeafId t) ?kept") auto
  then have ki: "i < length ?kept" "leaf_id (?kept ! i) = activeLeafId t" using find_index_SomeD [OF i] by auto
  then have kl: "?kept ! i = l"
    using l assms(5) nth_mem [OF ki(1)] by (auto simp: leafIds_leaves distinct_map inj_on_def)
  have rok: "tab_restored n n' sv u" using savedToTab_ok [OF assms(2)] by simp
  then have states: "map leaf_state (leaves (paneTree u)) = map (reborn titles) ?kept"
    using tab_states_tabToSaved [OF assms(1)] by (simp add: tab_restored_def)
  then have len: "length (leaves (paneTree u)) = length ?kept" by (metis length_map)
  have "collectLeafSurvival tree = map (\<lambda>_. True) ?kept"
    by (simp add: collectLeafSurvival_eq nodeToSaved_Some_leaves [OF tree] leafToSaved_restorable o_def)
  then have "restoredActiveLeafIndex tree (int i) = i"
    using ki(1) survivors_all [of "collectLeafSurvival tree" i] by (simp add: restoredActiveLeafIndex_def list_all_iff)
  then have a: "activeLeafId u = leafIds (paneTree u) ! i"
    using savedToTab_active [of _ tree "int i" n u n'] assms(2) sv i len ki(1) by (auto simp: leafIds_leaves)
  let ?k = "leaves (paneTree u) ! i"
  have k: "?k \<in> set (leaves (paneTree u))" "leaf_id ?k = activeLeafId u"
    using a ki(1) len by (auto simp: leafIds_leaves)
  have "leaf_state ?k = reborn titles l"
    using arg_cong [OF states, of "\<lambda>xs. xs ! i"] ki(1) len kl by simp
  moreover have "activeLeaf u = Some ?k"
    using k rok by (simp add: activeLeaf_def tab_restored_def findLeaf_iff)
  ultimately show ?thesis by blast
qed

section \<open>A save followed by a restore\<close>

lemma restore_loop_all2:
  "list_all survivesRestore ss \<Longrightarrow> restore_loop ss n = (ts, n') \<Longrightarrow>
    list_all2 (\<lambda>s t. \<exists>m m'. savedToTab s m = (Some t, m')) ss ts"
proof (induction ss arbitrary: n ts n')
  case (Cons s ss)
  obtain r m where r: "savedToTab s n = (r, m)" by fastforce
  obtain us k where us: "restore_loop ss m = (us, k)" by fastforce
  obtain t where t: "r = Some t" using savedToTab_ok [OF r] Cons.prems(1) by (cases r) auto
  then have "ts = t # us" using Cons.prems(2) r us by auto
  then show ?case using Cons.IH [OF _ us] Cons.prems(1) r t by auto
qed simp

lemma serializeTabs_all2:
  "list_all2 (\<lambda>t sv. tabToSaved titles t = Some sv) (filter isPersistedTab ts) (serializeTabs titles ts)"
proof (induction ts)
  case (Cons t ts)
  then show ?case using tabToSaved_None_iff [of titles t]
    by (cases "tabToSaved titles t") (auto simp: serializeTabs_Cons)
qed (simp add: serializeTabs_def)

lemma restoreSavedTabs_nonempty:
  assumes "restoreSavedTabs saved n = (ts, n')" and "list_all survivesRestore saved" and "saved \<noteq> []"
  shows "restore_loop saved n = (ts, n')"
proof -
  obtain out m where out: "restore_loop saved n = (out, m)" by fastforce
  then have "length out = length saved" using restore_loop_all2 [OF assms(2) out] list_all2_lengthD by fastforce
  then have "out \<noteq> []" using assms(3) by auto
  then show ?thesis using assms(1) out by (simp add: restoreSavedTabs_def)
qed

text \<open>
  What a tab \<open>t\<close> must come back as, a tab \<open>u\<close>: the same title; one pane per pane of \<open>t\<close> that
  can be restored, in order and with the state the file kept of it; the same layout unless a pane
  was dropped; and the focus on the same pane unless that one was dropped.
\<close>

definition comes_back :: "pane_tab \<Rightarrow> pane_tab \<Rightarrow> bool" where
  "comes_back t u \<longleftrightarrow> tab_title u = tab_title t
     \<and> map leaf_state (leaves (paneTree u)) =
         map (\<lambda>l. durable_state (leaf_state l)) (filter keepable (leaves (paneTree t)))
     \<and> (list_all keepable (leaves (paneTree t)) \<longrightarrow> same_layout (paneTree t) (paneTree u))
     \<and> (\<forall>l. activeLeaf t = Some l \<and> keepable l \<longrightarrow>
         (\<exists>k. activeLeaf u = Some k \<and> leaf_state k = durable_state (leaf_state l)))"

lemma comes_back_tab:
  assumes "tab_ok n t" and sv: "tabToSaved titles t = Some sv" and u: "savedToTab sv m = (Some u, m')"
  shows "comes_back t u"
proof -
  have ok: "wf_shape (paneTree t)" "distinct (leafIds (paneTree t))" using assms(1) by (auto simp: tab_ok_def)
  obtain tree i where tree: "nodeToSaved titles (paneTree t) = Some tree" "sv = SavedPaneTab (Some (tab_title t)) tree i"
    using sv unfolding tabToSaved_iff by blast
  obtain q k ids where q: "savedToNode tree (m + 1) = (q, k, ids)" using prod_cases3 by blast
  then have "q = Some (paneTree u)" using u tree(2) by (auto simp: mk_tab_def Let_def split: option.splits)
  then have "same_layout (paneTree t) (paneTree u)" if "list_all (\<lambda>l. \<not> isUnrestorableEditorLeaf l) (leaves (paneTree t))"
    using layout_round_trip [OF ok(1) that tree(1)] q by blast
  moreover have "pane_states u = map (reborn titles) (kept_leaves (paneTree t))"
    using savedToTab_ok [OF u] tab_states_tabToSaved [OF sv] by (simp add: tab_restored_def)
  moreover have "tab_title u = tab_title t" using savedToTab_active [OF u [unfolded tree(2)]] by simp
  ultimately show ?thesis using restored_focus [OF sv u _ _ ok(2)]
    unfolding comes_back_def unrestorable_iff not_not reborn_durable by blast
qed

lemma list_all2_trans_mem:
  assumes "list_all2 P xs ys" and "list_all2 Q ys zs" and "\<And>x y z. x \<in> set xs \<Longrightarrow> P x y \<Longrightarrow> Q y z \<Longrightarrow> R x z"
  shows "list_all2 R xs zs"
  using assms by (auto simp: list_all2_conv_all_nth)

lemma save_restored:
  assumes "tabs_reachable s" and "restoreSavedTabs (serializeTabs titles (tabs s)) n = (ts, n')"
    and "list_ex isPersistedTab (tabs s)"
  shows "list_all2 comes_back (filter isPersistedTab (tabs s)) ts"
proof -
  let ?sv = "serializeTabs titles (tabs s)"
  note all2 = serializeTabs_all2 [of titles "tabs s"]
  have ok: "tab_ok (nextId s) t" if "t \<in> set (tabs s)" for t
    using tab_machine.reachable_inv [OF assms(1)] that by (auto simp: tabs_inv_def tabs_ok_def list_all_iff)
  have "?sv \<noteq> []" using all2 assms(3) by (auto simp: list_ex_iff filter_empty_conv)
  then have "restore_loop ?sv n = (ts, n')"
    using restoreSavedTabs_nonempty [OF assms(2) serialized_survive] by blast
  note restored = restore_loop_all2 [OF serialized_survive this]
  show ?thesis by (rule list_all2_trans_mem [OF all2 restored]) (auto intro: comes_back_tab ok)
qed

lemma savedActiveTabIndex_nth:
  assumes "t \<in> set ts" and "tab_id t = a" and "distinct (map tab_id ts)" and "isPersistedTab t"
  shows "savedActiveTabIndex ts a < length (filter isPersistedTab ts)
    \<and> filter isPersistedTab ts ! savedActiveTabIndex ts a = t"
  using assms by (induction ts) auto

lemma reachable_allocs: "tabs_reachable s \<Longrightarrow> nextId s \<le> n \<Longrightarrow> tabs_reachable (s\<lparr>nextId := n\<rparr>)"
proof (induction "n - nextId s" arbitrary: s)
  case (Suc k)
  have "tabs_reachable (snd (allocId s))" using Suc.prems(1) st_allocId by (rule reach_step)
  then show ?case using Suc.hyps(1) [of "snd (allocId s)"] Suc.hyps(2) Suc.prems(2) by (simp add: allocId_def)
qed simp

text \<open>
  C6: saving a workspace and restoring it brings back every tab that has a pane to come back, in
  order and under its name, with exactly the panes that can come back, each with its durable state
  (\<open>durable_state\<close>: directory, host, number, theme, name, path, the local process to reattach); a tab
  none of whose panes is dropped comes back in
  the same split layout with its divider positions, and the focused pane of a tab is focused again.
\<close>

theorem save_restore:
  assumes "tabs_reachable s" and "restoreSavedTabs (serializeTabs titles (tabs s)) n = (ts, n')"
    and "list_ex tab_keepable (tabs s)"
  shows "list_all2 comes_back (filter tab_keepable (tabs s)) ts"
  using save_restored [OF assms(1,2)] assms(3) by (simp only: persisted_eq)

text \<open>
  C7: switching the window to a workspace saved from live tabs is safe: the tab callbacks are still
  in a reachable state afterwards, so every invariant holds, there is at least one tab, and the tab
  the save recorded as active, if it could be saved, is the one focused.
\<close>

theorem workspace_switch_safe:
  assumes "tabs_reachable s" and "tabs_reachable s'"
    and "restoreWorkspaceEntry (serializeTabs titles (tabs s)) (int (savedActiveTabIndex (tabs s) a)) (nextId s')
      = (ts, active, n')"
  shows "tabs_reachable (replaceAllTabs ts active (s'\<lparr>nextId := n'\<rparr>)) \<and> ts \<noteq> []
    \<and> (\<forall>t \<in> set (tabs s). tab_id t = a \<and> isPersistedTab t \<longrightarrow>
        (\<exists>u \<in> set ts. active = Some (tab_id u) \<and> comes_back t u))"
proof (intro conjI ballI impI)
  let ?sv = "serializeTabs titles (tabs s)"
  have inv: "tabs_inv s" "tabs_inv s'" using assms(1,2) by (blast intro: tab_machine.reachable_inv)+
  have "0 < nextId s'" using inv(2) by (simp add: tabs_inv_def)
  note ok = restore_restorable [OF assms(3) serialized_ok [OF inv(1)] this]
  then have "tabs_reachable (s'\<lparr>nextId := n'\<rparr>)" using assms(2) by (simp add: reachable_allocs)
  then show "tabs_reachable (replaceAllTabs ts active (s'\<lparr>nextId := n'\<rparr>))"
    using ok by (blast intro: reach_step st_replaceAllTabs)
  show "ts \<noteq> []" using ok by blast
  fix t assume t: "t \<in> set (tabs s)" "tab_id t = a \<and> isPersistedTab t"
  let ?i = "savedActiveTabIndex (tabs s) a"
  have i: "?i < length (filter isPersistedTab (tabs s))" "filter isPersistedTab (tabs s) ! ?i = t"
    using savedActiveTabIndex_nth [of t "tabs s" a] t inv(1) by (simp_all add: tabs_inv_def tabs_ok_def)
  have len: "length ?sv = length (filter isPersistedTab (tabs s))"
    using list_all2_lengthD [OF serializeTabs_all2] by simp
  obtain m where m: "restoreSavedTabs ?sv (nextId s') = (ts, m)"
    and active: "active = Some (tab_id (ts ! min (restoredActiveTabIndex ?sv (int ?i)) (length ts - 1)))"
    using assms(3) ok by (auto simp: restoreWorkspaceEntry_def tabsForWorkspaceEntry_def Let_def split: prod.splits)
  have "list_ex isPersistedTab (tabs s)" using t by (auto simp: list_ex_iff)
  note all2 = save_restored [OF assms(1) m this]
  have "restoredActiveTabIndex ?sv (int ?i) = ?i"
    unfolding restoredActiveTabIndex_def using serialized_survive [of titles "tabs s"] len i(1)
    by (subst survivors_all) (auto simp: list_all_iff)
  then have "active = Some (tab_id (ts ! ?i))" using active i(1) list_all2_lengthD [OF all2] by simp
  moreover have "comes_back t (ts ! ?i)" "ts ! ?i \<in> set ts"
    using all2 i list_all2_lengthD [OF all2] by (auto simp: list_all2_conv_all_nth)
  ultimately show "\<exists>u \<in> set ts. active = Some (tab_id u) \<and> comes_back t u" by blast
qed

text \<open>
  C8: a file on a remote host never comes back as a local file: every editor pane of the restored
  tabs was an editor pane of the same path, and if it may use the local file system then so could
  the pane it was saved from; a remote one stays blocked until a session for it is up.
\<close>

theorem remote_files_stay_remote:
  assumes "tabs_reachable s" and "restoreSavedTabs (serializeTabs titles (tabs s)) n = (ts, n')"
    and "\<forall>l \<in> set (all_leaves (tabs s)). \<forall>e. leaf_state l = Editor e \<longrightarrow> e_hostId e \<noteq> Some []"
    and "k \<in> set (all_leaves ts)" and "leaf_state k = Editor e"
  shows "\<exists>l \<in> set (all_leaves (tabs s)). \<exists>d. leaf_state l = Editor d \<and> e_path e = e_path d \<and> e_hostId e = e_hostId d
    \<and> editorPaneSession k None None = (if isRemoteEditorLeaf l then Blocked else LocalFs)"
proof -
  have ex: "list_ex isPersistedTab (tabs s)"
  proof (rule ccontr)
    assume "\<not> ?thesis"
    then have "serializeTabs titles (tabs s) = []"
      using serializeTabs_all2 [of titles "tabs s"] by (auto simp: list_ex_iff filter_empty_conv)
    then show False using assms(2,4,5) by (auto simp: restoreSavedTabs_def defaultHostsTab_def mk_tab_def mk_leaf_def)
  qed
  note all2 = save_restored [OF assms(1,2) ex]
  obtain u where u: "u \<in> set ts" "k \<in> set (leaves (paneTree u))" using assms(4) by (auto simp: in_all_leaves)
  obtain i where i: "i < length ts" "ts ! i = u" using u(1) by (auto simp: in_set_conv_nth)
  let ?t = "filter isPersistedTab (tabs s) ! i"
  have "i < length (filter isPersistedTab (tabs s))" using i(1) list_all2_lengthD [OF all2] by simp
  then have "?t \<in> set (tabs s)" "comes_back ?t u" using nth_mem list_all2_nthD [OF all2] i(2) by force+
  then obtain t where t: "t \<in> set (tabs s)" "comes_back t u" by blast
  have "leaf_state k \<in> set (map leaf_state (leaves (paneTree u)))" using u(2) by simp
  then obtain l where l: "l \<in> set (leaves (paneTree t))" "keepable l"
    "leaf_state k = durable_state (leaf_state l)"
    using t(2) unfolding comes_back_def by auto
  obtain d where d: "leaf_state l = Editor d"
    using l(3) assms(5) by (cases "leaf_state l") (auto simp: Let_def)
  have mem: "l \<in> set (all_leaves (tabs s))" using l(1) t(1) by (auto simp: in_all_leaves)
  then have "e_hostId d \<noteq> Some []" using assms(3) d by blast
  then have e: "e_path e = e_path d" "e_hostId e = e_hostId d" "e_sshSessionId e = None"
    using l(3) assms(5) d by (cases "e_hostId d"; auto simp: drop_empty_def)+
  have "e_sshSessionId d = None \<or> e_hostId d \<noteq> None" using l(2) d by (simp add: keepable_def)
  then show ?thesis using mem d e assms(5) by (intro bexI [of _ l] exI [of _ d]) (auto simp: editorPaneSession_def)
qed

section \<open>Witnesses\<close>

text \<open>The state \<open>demo\<close> with a file of the remote host \<open>h1\<close> opened on top.\<close>

definition demo_remote :: tabs_state where
  "demo_remote = snd (openFileTab ''/etc/hosts'' True (Some \<lparr>rf_hostId = Some ''h1'', rf_sshSessionId = 7, rf_sshHostLabel = ''box''\<rparr>) demo)"

lemma demo_remote_reachable: "tabs_reachable demo_remote"
  unfolding demo_remote_def by (rule reach_step [OF demo_reachable st_openFileTab])

abbreviation demo_restored :: "pane_tab list" where
  "demo_restored \<equiv> fst (restoreSavedTabs (serializeTabs (\<lambda>_. None) (tabs demo_remote)) 20)"

theorem save_restore_witness:
  "list_all2 comes_back (filter tab_keepable (tabs demo_remote)) demo_restored \<and> length demo_restored = 4"
proof -
  have "list_ex tab_keepable (tabs demo_remote)" by code_simp
  then have "list_all2 comes_back (filter tab_keepable (tabs demo_remote)) demo_restored"
    by (rule save_restore [OF demo_remote_reachable prod.collapse [symmetric]])
  moreover have "length demo_restored = 4" by code_simp
  ultimately show ?thesis by blast
qed

theorem workspace_switch_safe_witness:
  "tabs_reachable (replaceAllTabs
     (fst (restoreWorkspaceEntry (serializeTabs (\<lambda>_. None) (tabs demo_remote)) (int (savedActiveTabIndex (tabs demo_remote) 3)) 7))
     (Some 9) (demo\<lparr>nextId := 15\<rparr>))"
proof -
  let ?r = "restoreWorkspaceEntry (serializeTabs (\<lambda>_. None) (tabs demo_remote)) (int (savedActiveTabIndex (tabs demo_remote) 3))"
  have n: "nextId demo = 7" by code_simp
  have "?r 7 = (fst (?r 7), Some 9, 15)" by code_simp
  then show ?thesis using workspace_switch_safe [OF demo_remote_reachable demo_reachable, of _ 3] n by metis
qed

definition demo_restored_file :: pane_leaf where
  "demo_restored_file = last (all_leaves demo_restored)"

theorem remote_files_stay_remote_witness:
  "map_option e_path (editor_of demo_restored_file) = Some ''/etc/hosts'' \<and> editorPaneSession demo_restored_file None None = Blocked
   \<and> (\<exists>l d. leaf_state l = Editor d \<and> isRemoteEditorLeaf l \<and> e_path d = ''/etc/hosts'')"
proof -
  obtain e where e: "leaf_state demo_restored_file = Editor e" and p: "e_path e = ''/etc/hosts''"
  proof -
    have "map_option e_path (editor_of demo_restored_file) = Some ''/etc/hosts''" by code_simp
    then show thesis using that by (auto simp: editor_of_def split: leaf_state.splits)
  qed
  have "list_all (\<lambda>l. case editor_of l of None \<Rightarrow> True | Some e \<Rightarrow> e_hostId e \<noteq> Some []) (all_leaves (tabs demo_remote))"
    by code_simp
  then have h: "\<forall>l \<in> set (all_leaves (tabs demo_remote)). \<forall>e. leaf_state l = Editor e \<longrightarrow> e_hostId e \<noteq> Some []"
    by (auto simp: list_all_iff editor_of_def)
  have b: "editorPaneSession demo_restored_file None None = Blocked" by code_simp
  have k: "demo_restored_file \<in> set (all_leaves demo_restored)" by code_simp
  obtain l d where "leaf_state l = Editor d" "e_path e = e_path d" "isRemoteEditorLeaf l"
    using remote_files_stay_remote [OF demo_remote_reachable prod.collapse [symmetric] h k e] b
    by (auto split: if_splits)
  then have "\<exists>l d. leaf_state l = Editor d \<and> isRemoteEditorLeaf l \<and> e_path d = ''/etc/hosts''" using p by metis
  moreover have "map_option e_path (editor_of demo_restored_file) = Some ''/etc/hosts''" using e p by (simp add: editor_of_def)
  ultimately show ?thesis using b by blast
qed

end
