(* ===== verification/Io_Port.thy ===== *)
theory Io_Port
  imports Prelude
begin

text \<open>
  What a record store reaches outside itself for: one store file (\<^verbatim>\<open>src/lib/recoveredStore.ts\<close> and
  \<^verbatim>\<open>src/lib/fileKeyValueStore.ts\<close>), the keychain (\<^verbatim>\<open>SecretsIo\<close> in \<^verbatim>\<open>src/modules/vault/adapters.ts\<close>) and
  the sink of dirty marks (\<^verbatim>\<open>src/lib/dirtySink.ts\<close>).

  Every call that can reject is numbered, and the argument \<open>fault\<close> says which calls do: a theorem
  for all \<open>fault\<close> covers every pattern of failures. A call that rejects has no effect, which is what
  the backend promises (the file is replaced atomically, the keychain entry is written or it is
  not). The body of a queued write runs alone (\<open>enqueueWrite\<close>), so it is a function from the world
  before to the world after; a rejection is \<^const>\<open>Inl\<close> together with what was done before it.
\<close>

section \<open>The world of a store\<close>

type_synonym keychain = "string \<times> string \<Rightarrow> string option"

record dirty_id =
  dm_kind :: string
  dm_id :: string

record 'f world =
  cached :: 'f
  disk :: 'f
  chain :: keychain
  calls :: nat
  marks :: "dirty_id list"

text \<open>
  The field \<open>cached\<close> is what this session reads back: the file as last read, overlaid with every
  \<open>set\<close> not yet saved. The field \<open>disk\<close> is the file itself.
\<close>

type_synonym ('f, 'e, 'a) io = "'f world \<Rightarrow> ('e + 'a) \<times> 'f world"

definition io_return :: "'a \<Rightarrow> ('f, 'e, 'a) io" where
  "io_return x w = (Inr x, w)"

definition io_throw :: "'e \<Rightarrow> ('f, 'e, 'a) io" where
  "io_throw e w = (Inl e, w)"

definition io_bind :: "('f, 'e, 'a) io \<Rightarrow> ('a \<Rightarrow> ('f, 'e, 'b) io) \<Rightarrow> ('f, 'e, 'b) io" where
  "io_bind m f w = (case m w of (Inl e, w') \<Rightarrow> (Inl e, w') | (Inr x, w') \<Rightarrow> f x w')"

text \<open>\<open>try { m } catch (e) { h(e) }\<close>.\<close>

definition io_catch :: "('f, 'e, 'a) io \<Rightarrow> ('e \<Rightarrow> ('f, 'd, 'a) io) \<Rightarrow> ('f, 'd, 'a) io" where
  "io_catch m h w = (case m w of (Inl e, w') \<Rightarrow> h e w' | (Inr x, w') \<Rightarrow> (Inr x, w'))"

text \<open>A call that may reject: with the error given, and without effect.\<close>

definition io_attempt :: "(nat \<Rightarrow> bool) \<Rightarrow> 'e \<Rightarrow> ('f world \<Rightarrow> 'f world) \<Rightarrow> ('f, 'e, unit) io" where
  "io_attempt fault e act w =
     (let w' = w\<lparr>calls := calls w + 1\<rparr> in if fault (calls w) then (Inl e, w') else (Inr (), act w'))"

section \<open>The calls\<close>

definition store_get :: "(nat \<Rightarrow> bool) \<Rightarrow> 'e \<Rightarrow> ('f \<Rightarrow> 'a) \<Rightarrow> ('f, 'e, 'a) io" where
  "store_get fault e key = io_bind (io_attempt fault e (\<lambda>w. w)) (\<lambda>_ w. (Inr (key (cached w)), w))"

definition store_set :: "('f \<Rightarrow> 'f) \<Rightarrow> ('f, 'e, unit) io" where
  "store_set upd w = (Inr (), w\<lparr>cached := upd (cached w)\<rparr>)"

text \<open>
  Save, then broadcast (the snapshot reports instead of rejecting): two calls, and the file is on
  disk although the second rejects.
\<close>

definition store_commit :: "(nat \<Rightarrow> bool) \<Rightarrow> 'e \<Rightarrow> ('f, 'e, unit) io" where
  "store_commit fault e =
     io_bind (io_attempt fault e (\<lambda>w. w\<lparr>disk := cached w\<rparr>)) (\<lambda>_. io_attempt fault e (\<lambda>w. w))"

definition mark_dirty :: "dirty_id list \<Rightarrow> ('f, 'e, unit) io" where
  "mark_dirty ds w = (Inr (), w\<lparr>marks := marks w @ ds\<rparr>)"

text \<open>\<open>persist\<close> of a store: the entries set one after the other, one commit, the dirty marks.\<close>

definition persist :: "(nat \<Rightarrow> bool) \<Rightarrow> 'e \<Rightarrow> ('f \<Rightarrow> 'f) list \<Rightarrow> dirty_id list \<Rightarrow> ('f, 'e, unit) io" where
  "persist fault e entries dirty =
     io_bind (store_set (fold (\<lambda>f x. f x) entries))
       (\<lambda>_. io_bind (store_commit fault e) (\<lambda>_. mark_dirty dirty))"

definition secrets_set :: "(nat \<Rightarrow> bool) \<Rightarrow> 'e \<Rightarrow> string \<Rightarrow> string \<Rightarrow> string \<Rightarrow> ('f, 'e, unit) io" where
  "secrets_set fault e service account value =
     io_attempt fault e (\<lambda>w. w\<lparr>chain := (chain w)((service, account) \<mapsto> value)\<rparr>)"

definition secrets_delete :: "(nat \<Rightarrow> bool) \<Rightarrow> 'e \<Rightarrow> string \<Rightarrow> string \<Rightarrow> ('f, 'e, unit) io" where
  "secrets_delete fault e service account =
     io_attempt fault e (\<lambda>w. w\<lparr>chain := (chain w)((service, account) := None)\<rparr>)"

text \<open>
  \<open>Promise.all\<close> over deletes: every one of them is started, and the whole rejects when one of them
  does.
\<close>

fun delete_all :: "(nat \<Rightarrow> bool) \<Rightarrow> 'e \<Rightarrow> string \<Rightarrow> string list \<Rightarrow> ('f, 'e, unit) io" where
  "delete_all fault e service [] w = (Inr (), w)"
| "delete_all fault e service (a # as) w =
     (case secrets_delete fault e service a w of
        (Inl e', w') \<Rightarrow> (Inl e', snd (delete_all fault e service as w'))
      | (Inr _, w') \<Rightarrow> delete_all fault e service as w')"

text \<open>
  \<open>secrets_copy\<close>: whether the source held something; only then is the destination written.
\<close>

definition held :: "string option \<Rightarrow> bool" where
  "held v = (case v of None \<Rightarrow> False | Some s \<Rightarrow> s \<noteq> [])"

definition secrets_copy :: "(nat \<Rightarrow> bool) \<Rightarrow> 'e \<Rightarrow> string \<times> string \<Rightarrow> string \<times> string \<Rightarrow> ('f, 'e, bool) io" where
  "secrets_copy fault e src dst w =
     (let v = chain w src in
      io_bind (io_attempt fault e (\<lambda>w. if held v then w\<lparr>chain := (chain w)(dst := v)\<rparr> else w))
        (\<lambda>_. io_return (held v)) w)"

definition secrets_get_all :: "(nat \<Rightarrow> bool) \<Rightarrow> 'e \<Rightarrow> string \<Rightarrow> string list \<Rightarrow> ('f, 'e, string option list) io" where
  "secrets_get_all fault e service accounts =
     (if accounts = [] then io_return []
      else io_bind (io_attempt fault e (\<lambda>w. w)) (\<lambda>_ w. (Inr (map (\<lambda>a. chain w (service, a)) accounts), w)))"

text \<open>The input for one secret: \<open>undefined\<close>, \<open>null\<close>, a string, or the symbol \<open>SECRET_ALREADY_STORED\<close>.\<close>

datatype secret_value = SecUndefined | SecNull | SecText string | SecAlreadyStored

text \<open>Write one secret and report the presence flag that now belongs in the record.\<close>

definition write_secret ::
  "(nat \<Rightarrow> bool) \<Rightarrow> 'e \<Rightarrow> string \<Rightarrow> string \<Rightarrow> secret_value \<Rightarrow> bool \<Rightarrow> ('f, 'e, bool) io" where
  "write_secret fault e service account value current =
     (case value of
        SecAlreadyStored \<Rightarrow> io_return True
      | SecUndefined \<Rightarrow> io_return current
      | _ \<Rightarrow>
        (let trimmed = (case value of SecText s \<Rightarrow> js_trim s | _ \<Rightarrow> []) in
         if trimmed = []
         then io_bind (secrets_delete fault e service account) (\<lambda>_. io_return False)
         else io_bind (secrets_set fault e service account trimmed) (\<lambda>_. io_return True)))"

section \<open>Record lists\<close>

text \<open>
  \<open>const idx = next.findIndex(same id); if (idx >= 0) next[idx] = record; else next.push(record)\<close>,
  and \<open>splice(idx, 1)\<close> of the first hit.
\<close>

definition put_record :: "('r \<Rightarrow> string) \<Rightarrow> 'r \<Rightarrow> 'r list \<Rightarrow> 'r list" where
  "put_record idf r xs =
     (case find_index (\<lambda>x. idf x = idf r) xs of Some i \<Rightarrow> xs[i := r] | None \<Rightarrow> xs @ [r])"

definition remove_first :: "('r \<Rightarrow> bool) \<Rightarrow> 'r list \<Rightarrow> 'r list" where
  "remove_first P xs = (case find_index P xs of None \<Rightarrow> xs | Some i \<Rightarrow> take i xs @ drop (Suc i) xs)"

lemma put_record_Nil [simp]: "put_record idf r [] = [r]"
  by (simp add: put_record_def)

lemma put_record_Cons [simp]:
  "put_record idf r (x # xs) = (if idf x = idf r then r # xs else x # put_record idf r xs)"
  by (simp add: put_record_def split: option.splits)

lemma remove_first_simps [simp]:
  "remove_first P [] = []" "remove_first P (x # xs) = (if P x then xs else x # remove_first P xs)"
  by (auto simp: remove_first_def split: option.splits)

lemma ids_put_record:
  "map idf (put_record idf r xs) = (if idf r \<in> idf ` set xs then map idf xs else map idf xs @ [idf r])"
  by (induction xs) auto

lemma image_put_record: "idf ` set (put_record idf r xs) = insert (idf r) (idf ` set xs)"
  by (induction xs) auto

lemma distinct_put_record [simp]: "distinct (map idf xs) \<Longrightarrow> distinct (map idf (put_record idf r xs))"
  by (auto simp: ids_put_record)

lemma set_put_record: "set (put_record idf r xs) \<subseteq> insert r (set xs)"
  by (induction xs) auto

lemma set_put_record_iff:
  "distinct (map idf xs) \<Longrightarrow> set (put_record idf r xs) = insert r {x \<in> set xs. idf x \<noteq> idf r}"
  by (induction xs) (auto simp: image_iff)

lemma find_put_record:
  "find (\<lambda>x. idf x = i) (put_record idf r xs) = (if i = idf r then Some r else find (\<lambda>x. idf x = i) xs)"
  by (induction xs) auto

lemma remove_first_filter:
  "distinct (map idf xs) \<Longrightarrow> remove_first (\<lambda>x. idf x = i) xs = filter (\<lambda>x. idf x \<noteq> i) xs"
proof (induction xs)
  case (Cons x xs)
  then show ?case by (auto simp: image_iff intro!: filter_id_conv [THEN iffD2, symmetric])
qed simp

lemma find_id_iff: "distinct (map idf xs) \<Longrightarrow> find (\<lambda>x. idf x = i) xs = Some r \<longleftrightarrow> r \<in> set xs \<and> idf r = i"
  by (induction xs) (auto simp: image_iff)

section \<open>Weakest preconditions\<close>

text \<open>What holds of the result and the world a call leaves, computed from the call by \<open>simp\<close>.\<close>

definition wp :: "('f, 'e, 'a) io \<Rightarrow> ('e + 'a \<Rightarrow> 'f world \<Rightarrow> bool) \<Rightarrow> 'f world \<Rightarrow> bool" where
  "wp m Q w = (case m w of (r, w') \<Rightarrow> Q r w')"

named_theorems wps \<open>weakest preconditions of the calls\<close>

lemma wp_return [wps]: "wp (io_return x) Q w = Q (Inr x) w"
  by (simp add: wp_def io_return_def)

lemma wp_throw [wps]: "wp (io_throw e) Q w = Q (Inl e) w"
  by (simp add: wp_def io_throw_def)

lemma wp_bind [wps]:
  "wp (io_bind m f) Q w = wp m (\<lambda>r w'. case r of Inl e \<Rightarrow> Q (Inl e) w' | Inr x \<Rightarrow> wp (f x) Q w') w"
  by (auto simp: wp_def io_bind_def split: prod.splits sum.splits)

lemma wp_catch [wps]:
  "wp (io_catch m h) Q w = wp m (\<lambda>r w'. case r of Inl e \<Rightarrow> wp (h e) Q w' | Inr x \<Rightarrow> Q (Inr x) w') w"
  by (auto simp: wp_def io_catch_def split: prod.splits sum.splits)

lemma wp_attempt [wps]:
  "wp (io_attempt fault e act) Q w =
    (if fault (calls w) then Q (Inl e) (w\<lparr>calls := calls w + 1\<rparr>) else Q (Inr ()) (act (w\<lparr>calls := calls w + 1\<rparr>)))"
  by (simp add: wp_def io_attempt_def Let_def)

lemma wp_get [wps]:
  "wp (store_get fault e key) Q w =
    (let w' = w\<lparr>calls := calls w + 1\<rparr> in if fault (calls w) then Q (Inl e) w' else Q (Inr (key (cached w))) w')"
  by (simp add: wp_def io_attempt_def io_bind_def store_get_def Let_def)

lemma wp_set [wps]: "wp (store_set upd) Q w = Q (Inr ()) (w\<lparr>cached := upd (cached w)\<rparr>)"
  by (simp add: wp_def store_set_def)

lemma wp_mark [wps]: "wp (mark_dirty ds) Q w = Q (Inr ()) (w\<lparr>marks := marks w @ ds\<rparr>)"
  by (simp add: wp_def mark_dirty_def)

lemma wp_secrets_set [wps]:
  "wp (secrets_set fault e sv ac v) Q w =
    (if fault (calls w) then Q (Inl e) (w\<lparr>calls := calls w + 1\<rparr>)
     else Q (Inr ()) (w\<lparr>calls := calls w + 1, chain := (chain w)((sv, ac) \<mapsto> v)\<rparr>))"
  by (simp add: secrets_set_def wps)

lemma wp_secrets_delete [wps]:
  "wp (secrets_delete fault e sv ac) Q w =
    (if fault (calls w) then Q (Inl e) (w\<lparr>calls := calls w + 1\<rparr>)
     else Q (Inr ()) (w\<lparr>calls := calls w + 1, chain := (chain w)((sv, ac) := None)\<rparr>))"
  by (simp add: secrets_delete_def wps)

lemma wp_if [wps]: "wp (if b then m else n) Q w = (if b then wp m Q w else wp n Q w)"
  by simp

lemma wp_result: "wp m (\<lambda>r. P) w \<Longrightarrow> P (snd (m w))"
  by (simp add: wp_def split: prod.splits)

lemma wp_mono: "wp m P w \<Longrightarrow> (\<And>r w'. P r w' \<Longrightarrow> Q r w') \<Longrightarrow> wp m Q w"
  by (auto simp: wp_def)

lemma wp_conj: "wp m P w \<Longrightarrow> wp m Q w \<Longrightarrow> wp m (\<lambda>r w'. P r w' \<and> Q r w') w"
  by (auto simp: wp_def)

lemma wpD: "wp m Q w \<Longrightarrow> m w = (r, w') \<Longrightarrow> Q r w'"
  by (simp add: wp_def)

lemma persist_ok:
  assumes "\<And>n. \<not> fault n"
  shows "wp (persist fault e entries dirty) Q w = Q (Inr ())
    (w\<lparr>cached := fold (\<lambda>f x. f x) entries (cached w), disk := fold (\<lambda>f x. f x) entries (cached w),
       calls := calls w + 2, marks := marks w @ dirty\<rparr>)"
  using assms by (simp add: persist_def store_commit_def wps)

lemma wp_delete_all:
  assumes "\<And>r w'. cached w' = cached w \<Longrightarrow> disk w' = disk w \<Longrightarrow> marks w' = marks w \<Longrightarrow>
      (\<And>k. chain w' k = chain w k \<or> chain w' k = None \<and> k \<in> Pair sv ` set as) \<Longrightarrow>
      (\<And>u. r = Inr u \<Longrightarrow> chain w' = (\<lambda>k. if k \<in> Pair sv ` set as then None else chain w k)) \<Longrightarrow>
      (\<And>e'. r = Inl e' \<Longrightarrow> e' = e \<and> \<not> (\<forall>n. \<not> fault n)) \<Longrightarrow> Q r w'"
  shows "wp (delete_all fault e sv as) Q w"
proof -
  have "cached w' = cached w \<and> disk w' = disk w \<and> marks w' = marks w
      \<and> (\<forall>k. chain w' k = chain w k \<or> chain w' k = None \<and> k \<in> Pair sv ` set as)
      \<and> (\<forall>u. r = Inr u \<longrightarrow> chain w' = (\<lambda>k. if k \<in> Pair sv ` set as then None else chain w k))
      \<and> (\<forall>e'. r = Inl e' \<longrightarrow> e' = e \<and> \<not> (\<forall>n. \<not> fault n))"
    if "delete_all fault e sv as w = (r, w')" for r w'
    using that
  proof (induction as arbitrary: w r w')
    case (Cons a as)
    obtain q v where q: "secrets_delete fault e sv a w = (q, v)" by fastforce
    obtain q' v' where q': "delete_all fault e sv as v = (q', v')" by fastforce
    note IH = Cons.IH [OF q']
    have v: "cached v = cached w" "disk v = disk w" "marks v = marks w"
      "q = Inr () \<and> chain v = (chain w)((sv, a) := None) \<or> q = Inl e \<and> chain v = chain w \<and> fault (calls w)"
      using q by (auto simp: secrets_delete_def io_attempt_def Let_def split: if_splits)
    show ?case
    proof (cases q)
      case (Inl e')
      then have "r = Inl e" "w' = v'" using Cons.prems q q' v(4) by auto
      then show ?thesis using IH v Inl by auto
    next
      case (Inr u)
      then have "r = q'" "w' = v'" using Cons.prems q q' by auto
      then show ?thesis using IH v Inr by (auto simp: fun_eq_iff split: if_splits)
    qed
  qed simp
  note deleted = this
  obtain r w' where rw: "delete_all fault e sv as w = (r, w')" by fastforce
  show ?thesis unfolding wp_def rw prod.case by (rule assms) (use deleted [OF rw] in blast)+
qed

section \<open>Verification conditions\<close>

text \<open>
  The rules below take the body of a queued write apart in program order. After every call the world
  is known up to the number of calls made.
\<close>

named_theorems vcg \<open>introduction rules that follow the calls of a mutator\<close>

definition same_world :: "'f world \<Rightarrow> 'f world \<Rightarrow> bool" where
  "same_world w w' \<longleftrightarrow> cached w' = cached w \<and> disk w' = disk w \<and> chain w' = chain w \<and> marks w' = marks w"

lemma same_world_refl [simp]: "same_world w w"
  by (simp add: same_world_def)

lemma vcg_throw [vcg]: "Q (Inl e) w \<Longrightarrow> wp (io_throw e) Q w"
  by (simp add: wps)

lemma vcg_return [vcg]: "Q (Inr x) w \<Longrightarrow> wp (io_return x) Q w"
  by (simp add: wps)

lemma vcg_catch [vcg]:
  "wp m (\<lambda>r w'. case r of Inl e \<Rightarrow> wp (h e) Q w' | Inr x \<Rightarrow> Q (Inr x) w') w \<Longrightarrow> wp (io_catch m h) Q w"
  by (simp add: wps)

lemma vcg_if [vcg]: "(b \<Longrightarrow> wp m Q w) \<Longrightarrow> (\<not> b \<Longrightarrow> wp n Q w) \<Longrightarrow> wp (if b then m else n) Q w"
  by simp

lemma vcg_option [vcg]:
  "(x = None \<Longrightarrow> wp m Q w) \<Longrightarrow> (\<And>y. x = Some y \<Longrightarrow> wp (f y) Q w) \<Longrightarrow> wp (case x of None \<Rightarrow> m | Some y \<Rightarrow> f y) Q w"
  by (cases x) auto

lemma vcg_get_bind [vcg]:
  assumes "\<And>w'. same_world w w' \<Longrightarrow> fault (calls w) \<Longrightarrow> Q (Inl e) w'"
    and "\<And>w'. same_world w w' \<Longrightarrow> wp (f (key (cached w))) Q w'"
  shows "wp (io_bind (store_get fault e key) f) Q w"
  by (auto simp: wps same_world_def Let_def intro!: assms)

text \<open>
  What \<^const>\<open>persist\<close> leaves: the entries are in the session's view, on disk if the save did not reject,
  and a call that returned normally has saved and marked.
\<close>

definition persisted ::
  "('f \<Rightarrow> 'f) list \<Rightarrow> dirty_id list \<Rightarrow> 'f world \<Rightarrow> 'f world \<Rightarrow> bool" where
  "persisted entries dirty w w' \<longleftrightarrow> cached w' = fold (\<lambda>f x. f x) entries (cached w) \<and> chain w' = chain w
     \<and> (disk w' = disk w \<or> disk w' = cached w') \<and> (marks w' = marks w \<or> marks w' = marks w @ dirty)"

lemma vcg_persist [vcg]:
  assumes "\<And>w' n. persisted entries dirty w w' \<Longrightarrow> fault n \<Longrightarrow> Q (Inl e) w'"
    and "\<And>w'. persisted entries dirty w w' \<Longrightarrow> disk w' = cached w' \<Longrightarrow> marks w' = marks w @ dirty \<Longrightarrow> Q (Inr ()) w'"
  shows "wp (persist fault e entries dirty) Q w"
  by (auto simp: persist_def store_commit_def wps persisted_def intro!: assms)

lemma vcg_persist_bind [vcg]:
  assumes "\<And>w' n. persisted entries dirty w w' \<Longrightarrow> fault n \<Longrightarrow> Q (Inl e) w'"
    and "\<And>w'. persisted entries dirty w w' \<Longrightarrow> disk w' = cached w' \<Longrightarrow> marks w' = marks w @ dirty \<Longrightarrow> wp (f ()) Q w'"
  shows "wp (io_bind (persist fault e entries dirty) f) Q w"
  unfolding wp_bind by (rule vcg_persist) (auto intro: assms)

section \<open>Secrets\<close>

text \<open>What a secret input makes of the entry and of the presence flag.\<close>

fun stored :: "secret_value \<Rightarrow> string option \<Rightarrow> string option" where
  "stored SecUndefined old = old"
| "stored SecAlreadyStored old = old"
| "stored SecNull old = None"
| "stored (SecText s) old = (if js_trim s = [] then None else Some (js_trim s))"

fun flagged :: "secret_value \<Rightarrow> bool \<Rightarrow> bool" where
  "flagged SecUndefined current = current"
| "flagged SecAlreadyStored current = True"
| "flagged SecNull current = False"
| "flagged (SecText s) current = (js_trim s \<noteq> [])"

definition same_but_chain :: "'f world \<Rightarrow> 'f world \<Rightarrow> bool" where
  "same_but_chain w w' \<longleftrightarrow> cached w' = cached w \<and> disk w' = disk w \<and> marks w' = marks w"

lemma same_but_chain_refl [simp]: "same_but_chain w w"
  by (simp add: same_but_chain_def)

lemma same_but_chain_trans: "same_but_chain u v \<Longrightarrow> same_but_chain v w \<Longrightarrow> same_but_chain u w"
  by (simp add: same_but_chain_def)

lemma wp_write_secret:
  assumes "\<And>w'. same_but_chain w w' \<Longrightarrow> chain w' = (chain w)((sv, ac) := stored v (chain w ((sv, ac))))
      \<Longrightarrow> Q (Inr (flagged v current)) w'"
    and "\<And>w' n. same_but_chain w w' \<Longrightarrow> chain w' = chain w \<Longrightarrow> fault n \<Longrightarrow> Q (Inl e) w'"
  shows "wp (write_secret fault e sv ac v current) Q w"
proof -
  have ok: "Q (Inr b) w'" if "same_but_chain w w'" "b = flagged v current"
    "chain w' = (chain w)((sv, ac) := stored v (chain w ((sv, ac))))" for b w'
    using assms(1) that by simp
  show ?thesis
  proof (cases v)
    case SecUndefined
    then show ?thesis using assms(1) [of w] by (simp add: write_secret_def wps)
  next
    case SecAlreadyStored
    then show ?thesis using assms(1) [of w] by (simp add: write_secret_def wps)
  next
    case SecNull
    then show ?thesis by (auto simp: write_secret_def wps same_but_chain_def intro!: ok assms(2))
  next
    case (SecText s)
    then show ?thesis by (auto simp: write_secret_def wps same_but_chain_def Let_def intro!: ok assms(2))
  qed
qed

lemma vcg_write_secret [vcg]:
  assumes "\<And>w' n. same_but_chain w w' \<Longrightarrow> chain w' = chain w \<Longrightarrow> fault n \<Longrightarrow> Q (Inl e) w'"
    and "\<And>w'. same_but_chain w w' \<Longrightarrow> chain w' = (chain w)((sv, ac) := stored v (chain w (sv, ac))) \<Longrightarrow> wp (f (flagged v current)) Q w'"
  shows "wp (io_bind (write_secret fault e sv ac v current) f) Q w"
  unfolding wp_bind by (rule wp_write_secret) (auto intro: assms)

text \<open>Clearing the accounts \<open>ac\<close> of one service.\<close>

lemma vcg_delete_all [vcg]:
  assumes "\<And>w' n. same_but_chain w w' \<Longrightarrow> (\<And>k. chain w' k = chain w k \<or> chain w' k = None \<and> k \<in> Pair sv ` set ac) \<Longrightarrow>
      fault n \<Longrightarrow> Q (Inl e) w'"
    and "\<And>w'. same_but_chain w w' \<Longrightarrow> chain w' = (\<lambda>k. if k \<in> Pair sv ` set ac then None else chain w k) \<Longrightarrow> Q (Inr ()) w'"
  shows "wp (delete_all fault e sv ac) Q w"
proof (rule wp_delete_all, goal_cases)
  case (1 r w')
  have s: "same_but_chain w w'" using 1(1-3) by (simp add: same_but_chain_def)
  show ?case
  proof (cases r)
    case (Inl e')
    then obtain n where "fault n" "e' = e" using 1(6) by blast
    then show ?thesis using assms(1) [OF s] 1(4) Inl by blast
  next
    case (Inr u)
    then show ?thesis using assms(2) [OF s] 1(5) Inr by simp
  qed
qed

lemma vcg_delete_all_bind [vcg]:
  assumes "\<And>w' n. same_but_chain w w' \<Longrightarrow> (\<And>k. chain w' k = chain w k \<or> chain w' k = None \<and> k \<in> Pair sv ` set ac) \<Longrightarrow>
      fault n \<Longrightarrow> Q (Inl e) w'"
    and "\<And>w'. same_but_chain w w' \<Longrightarrow> chain w' = (\<lambda>k. if k \<in> Pair sv ` set ac then None else chain w k) \<Longrightarrow> wp (f ()) Q w'"
  shows "wp (io_bind (delete_all fault e sv ac) f) Q w"
  unfolding wp_bind by (rule vcg_delete_all) (simp_all add: assms)

lemma wp_copy [wps]:
  "wp (secrets_copy fault e src dst) Q w =
    (if fault (calls w) then Q (Inl e) (w\<lparr>calls := calls w + 1\<rparr>)
     else Q (Inr (held (chain w src)))
       (if held (chain w src) then w\<lparr>calls := calls w + 1, chain := (chain w)(dst := chain w src)\<rparr> else w\<lparr>calls := calls w + 1\<rparr>))"
  by (simp add: wp_def secrets_copy_def io_bind_def io_attempt_def io_return_def Let_def)

lemma vcg_copy_bind [vcg]:
  assumes "\<And>w' n. same_but_chain w w' \<Longrightarrow> chain w' = chain w \<Longrightarrow> fault n \<Longrightarrow> Q (Inl e) w'"
    and "\<And>w'. same_but_chain w w' \<Longrightarrow> chain w' = (if held (chain w src) then (chain w)(dst := chain w src) else chain w) \<Longrightarrow>
      wp (f (held (chain w src))) Q w'"
  shows "wp (io_bind (secrets_copy fault e src dst) f) Q w"
proof (cases "fault (calls w)")
  case True
  then show ?thesis unfolding wp_bind wp_copy by (auto simp: same_but_chain_def intro!: assms(1))
next
  case False
  then show ?thesis unfolding wp_bind wp_copy
    by (simp only: if_False sum.case) (rule assms(2), auto simp: same_but_chain_def)
qed

end
