(* ===== verification/Landings.thy ===== *)
theory Landings
  imports Io_Port Tombstones
begin

text \<open>
  Landing what another device sent: the loops every \<open>applyRemote\<close> of the stores runs
  (\<^verbatim>\<open>src/modules/vault/store.ts\<close>, \<^verbatim>\<open>src/modules/hosts/store.ts\<close>, \<^verbatim>\<open>src/modules/forwards/store.ts\<close>). Each loop
  walks a list of landings over a copy of one record list, and notes what was buried and revived;
  the stores differ in what a record needs on the way in and what a delete has to release.
\<close>

section \<open>Landings\<close>

text \<open>
  One already merged record or tombstone. The id and the record are what the file or the network
  delivered: an id may be no string, a record may be no object (\<^const>\<open>None\<close>).
\<close>

datatype 'r landing =
    LandedRecord (ld_id: js) (ld_record: "'r option") (ld_updatedAt: int) (ld_secrets: "(string \<times> string) list option")
  | LandedGrave (ld_grave: grave)

datatype store_refusal =
    RefusedLanding landing_refusal
  | ReleaseRefused string string
  | BodyRefused string string

text \<open>The part of a landing \<^const>\<open>landingRefusal\<close> reads.\<close>

fun as_remote :: "('r \<Rightarrow> string) \<Rightarrow> 'r landing \<Rightarrow> remote_landing" where
  "as_remote idf (LandedGrave g) = LandTombstone g"
| "as_remote idf (LandedRecord i r u sec) =
     LandRecord i (case r of None \<Rightarrow> JNull | Some x \<Rightarrow> JObj [(''id'', JStr (idf x))])"

definition js_text :: "js \<Rightarrow> string" where
  "js_text v = (case v of JStr s \<Rightarrow> s | _ \<Rightarrow> [])"

definition grave_tombstone :: "grave \<Rightarrow> tombstone" where
  "grave_tombstone g = \<lparr>td_id = js_text (gv_id g), td_kind = js_text (gv_kind g),
     td_deletedAt = (case gv_deletedAt g of JNum n \<Rightarrow> n | _ \<Rightarrow> NaN)\<rparr>"

definition later_than :: "js_num \<Rightarrow> int \<Rightarrow> bool" where
  "later_than d u = (case d of Fin x \<Rightarrow> of_int u < x | PosInf \<Rightarrow> True | _ \<Rightarrow> False)"

text \<open>A local delete made after the merge outranks the landing.\<close>

definition superseded :: "tombstone list \<Rightarrow> string \<Rightarrow> string \<Rightarrow> int \<Rightarrow> bool" where
  "superseded graves kind i u =
     (case find (\<lambda>t. td_id t = i \<and> td_kind t = kind) graves of None \<Rightarrow> False | Some t \<Rightarrow> later_than (td_deletedAt t) u)"

text \<open>What the loops of \<open>applyRemote\<close> accumulate.\<close>

record 'r landing_acc =
  la_records :: "'r list"
  la_touched :: bool
  la_buried :: "tombstone list"
  la_revived :: "string list"
  la_refusals :: "store_refusal list"

definition refuse :: "store_refusal \<Rightarrow> 'r landing_acc \<Rightarrow> 'r landing_acc" where
  "refuse r acc = acc\<lparr>la_refusals := la_refusals acc @ [r]\<rparr>"

text \<open>A deleted landing once its accounts are released, and a record landing once it is stored.\<close>

definition bury :: "('r \<Rightarrow> string) \<Rightarrow> tombstone \<Rightarrow> 'r landing_acc \<Rightarrow> 'r landing_acc" where
  "bury idf t acc =
     (let hit = list_ex (\<lambda>r. idf r = td_id t) (la_records acc) in
      acc\<lparr>la_records := remove_first (\<lambda>r. idf r = td_id t) (la_records acc),
          la_touched := la_touched acc \<or> hit,
          la_revived := remove1 (td_id t) (la_revived acc),
          la_buried := la_buried acc @ [t]\<rparr>)"

definition revive :: "('r \<Rightarrow> string) \<Rightarrow> 'r \<Rightarrow> 'r landing_acc \<Rightarrow> 'r landing_acc" where
  "revive idf r acc =
     acc\<lparr>la_records := put_record idf r (la_records acc), la_touched := True,
         la_buried := remove_first (\<lambda>t. td_id t = idf r) (la_buried acc),
         la_revived := la_revived acc @ [idf r]\<rparr>"

text \<open>
  The deleted arm of a loop. When the record is there its accounts are released first; a release
  that rejects becomes a refusal, and the record stays.
\<close>

definition land_grave ::
  "('r \<Rightarrow> ('f, 'e, unit) io) \<Rightarrow> ('r \<Rightarrow> string) \<Rightarrow> string \<Rightarrow> grave \<Rightarrow> 'r landing_acc \<Rightarrow> ('f, 'e, 'r landing_acc) io" where
  "land_grave release idf kind g acc =
     (let t = grave_tombstone g in
      case find (\<lambda>r. idf r = td_id t) (la_records acc) of
        None \<Rightarrow> io_return (bury idf t acc)
      | Some r \<Rightarrow>
        io_catch (io_bind (release r) (\<lambda>_. io_return (bury idf t acc)))
          (\<lambda>_. io_return (refuse (ReleaseRefused kind (td_id t)) acc)))"

fun land_all :: "('l \<Rightarrow> 'a \<Rightarrow> ('f, 'e, 'a) io) \<Rightarrow> 'l list \<Rightarrow> 'a \<Rightarrow> ('f, 'e, 'a) io" where
  "land_all land [] acc = io_return acc"
| "land_all land (l # ls) acc = io_bind (land l acc) (land_all land ls)"

section \<open>What a loop does to the keychain\<close>

definition keeps_secrets :: "(string \<times> string) set \<Rightarrow> keychain \<Rightarrow> keychain \<Rightarrow> bool" where
  "keeps_secrets S c c' \<longleftrightarrow> (\<forall>k. c k \<noteq> None \<and> c' k = None \<longrightarrow> k \<in> S)"

lemma keeps_refl [simp]: "keeps_secrets S c c"
  by (auto simp: keeps_secrets_def)

lemma keeps_upd [simp]: "keeps_secrets S c (c(k \<mapsto> v))"
  by (auto simp: keeps_secrets_def)

lemma keeps_empty: "keeps_secrets {} c c' \<Longrightarrow> keeps_secrets S c c'"
  unfolding keeps_secrets_def by blast

lemma keeps_trans: "keeps_secrets S a b \<Longrightarrow> keeps_secrets T b c \<Longrightarrow> S \<union> T \<subseteq> U \<Longrightarrow> keeps_secrets U a c"
  unfolding keeps_secrets_def by blast

text \<open>A step of a landing loop: it never rejects, touches the keychain only, and removes little.\<close>

definition landing_step :: "(string \<times> string) set \<Rightarrow> 'f world \<Rightarrow> ('f, 'e, 'a) io \<Rightarrow> bool" where
  "landing_step S w m \<longleftrightarrow> wp m (\<lambda>r w'. (\<exists>x. r = Inr x) \<and> same_but_chain w w' \<and> keeps_secrets S (chain w) (chain w')) w"

lemma landing_step_return [simp]: "landing_step S w (io_return x)"
  by (simp add: landing_step_def wps)

lemma landing_step_mono: "landing_step S w m \<Longrightarrow> S \<subseteq> T \<Longrightarrow> landing_step T w m"
  unfolding landing_step_def keeps_secrets_def by (erule wp_mono) blast

lemma landing_step_bind:
  assumes "landing_step S w m" and "\<And>x w'. landing_step T w' (f x)" and "S \<union> T \<subseteq> U"
  shows "landing_step U w (io_bind m f)"
proof -
  obtain x w' where m: "m w = (Inr x, w')" "same_but_chain w w'" "keeps_secrets S (chain w) (chain w')"
    using assms(1) by (auto simp: landing_step_def wp_def split: prod.splits)
  obtain y w'' where f: "f x w' = (Inr y, w'')" "same_but_chain w' w''" "keeps_secrets T (chain w') (chain w'')"
    using assms(2) [of w' x] by (auto simp: landing_step_def wp_def split: prod.splits)
  show ?thesis using m f same_but_chain_trans [OF m(2) f(2)] keeps_trans [OF m(3) f(3) assms(3)]
    by (simp add: landing_step_def wp_def io_bind_def)
qed

lemma land_grave_step:
  fixes release :: "'r \<Rightarrow> ('f, 'e, unit) io"
  assumes "\<And>r w. idf r = js_text (gv_id g) \<Longrightarrow>
    wp (release r) (\<lambda>_ w'. same_but_chain w w' \<and> keeps_secrets S (chain w) (chain w')) w"
  shows "landing_step S w (land_grave release idf kind g acc)"
proof -
  have "landing_step S w (io_catch (io_bind (release r) (\<lambda>_. io_return x)) (\<lambda>_. io_return y) :: ('f, 'e, 'r landing_acc) io)"
    if "idf r = js_text (gv_id g)" for r x y
    unfolding landing_step_def wps by (rule wp_mono [OF assms [OF that]]) (auto simp: wps split: sum.splits)
  then show ?thesis by (auto simp: land_grave_def Let_def grave_tombstone_def split: option.splits dest: find_SomeD)
qed

lemma land_all_step:
  assumes "\<And>l acc w. landing_step (S l) w (land l acc)"
  shows "landing_step (\<Union>l \<in> set ls. S l) w (land_all land ls acc)"
proof (induction ls arbitrary: w acc)
  case (Cons l ls)
  have "S l \<union> (\<Union>l \<in> set ls. S l) \<subseteq> (\<Union>l \<in> set (l # ls). S l)" by auto
  then show ?case unfolding land_all.simps by (rule landing_step_bind [OF assms Cons.IH])
qed simp

lemma landing_step_vcg:
  assumes "\<And>w x. landing_step S w m" and "\<And>x w'. same_but_chain w w' \<Longrightarrow> keeps_secrets S (chain w) (chain w') \<Longrightarrow> wp (f x) Q w'"
  shows "wp (io_bind m f) Q w"
  unfolding wp_bind by (rule wp_mono [OF assms(1) [unfolded landing_step_def]]) (auto intro: assms(2))

end
