(* ===== verification/Vault_Store.thy ===== *)
theory Vault_Store
  imports Landings Vault_Resolve
begin

text \<open>
  The vault store (\<^verbatim>\<open>src/modules/vault/store.ts\<close>): identities and keys in one file, their secrets in
  the keychain, tombstones of what was deleted. Each mutator is the body of its queued write, in
  the order of the source: reads, refusals, keychain, file. The clock a mutator reads is the
  argument \<open>clock\<close>; the host references \<open>deleteIdentity\<close> asks for are the argument \<open>hostRefs\<close>.
\<close>

section \<open>State and errors\<close>

record vault_file =
  vf_identities :: "vault_identity list option"
  vf_keys :: "vault_key list option"
  vf_graves :: js

datatype vault_store_error =
    KeyAuthNamesNoKey string
  | NamesMissingKey string
  | KeyNeedsName
  | IdentityChanged string string string string
  | KeyChanged string string string string
  | IdentityInUse string "vault_ref list"
  | KeyInUse string "vault_ref list"
  | KeychainFailed
  | StoreFailed
  | HostRefsFailed

type_synonym 'a vault_io = "(vault_file, vault_store_error, 'a) io"

definition IDENTITY_TOMBSTONE_KIND :: string where "IDENTITY_TOMBSTONE_KIND = ''identity''"
definition KEY_TOMBSTONE_KIND :: string where "KEY_TOMBSTONE_KIND = ''key''"

definition VAULT_IDENTITY_SECRET_FIELDS :: "string list" where
  "VAULT_IDENTITY_SECRET_FIELDS = [IDENTITY_PASSWORD_FIELD]"
definition VAULT_KEY_SECRET_FIELDS :: "string list" where
  "VAULT_KEY_SECRET_FIELDS = [KEY_PRIVATE_KEY_FIELD, KEY_PASSPHRASE_FIELD]"

definition identities_of :: "vault_file \<Rightarrow> vault_identity list" where
  "identities_of f = (case vf_identities f of None \<Rightarrow> [] | Some xs \<Rightarrow> xs)"

definition keys_of :: "vault_file \<Rightarrow> vault_key list" where
  "keys_of f = (case vf_keys f of None \<Rightarrow> [] | Some xs \<Rightarrow> xs)"

section \<open>Reading\<close>

definition listIdentities :: "(nat \<Rightarrow> bool) \<Rightarrow> vault_identity list vault_io" where
  "listIdentities fault = store_get fault StoreFailed identities_of"

definition listKeys :: "(nat \<Rightarrow> bool) \<Rightarrow> vault_key list vault_io" where
  "listKeys fault = store_get fault StoreFailed keys_of"

definition readTombstones :: "(nat \<Rightarrow> bool) \<Rightarrow> int \<Rightarrow> tombstone list vault_io" where
  "readTombstones fault clock = store_get fault StoreFailed (\<lambda>f. livingTombstones (vf_graves f) (of_int clock))"

definition sameName :: "string \<Rightarrow> string \<Rightarrow> bool" where
  "sameName a b \<longleftrightarrow> js_lower (js_trim a) = js_lower (js_trim b)"

text \<open>The entries a \<open>persist\<close> carries.\<close>

definition set_identities :: "vault_identity list \<Rightarrow> vault_file \<Rightarrow> vault_file" where
  "set_identities xs = vf_identities_update (\<lambda>_. Some xs)"

definition set_keys :: "vault_key list \<Rightarrow> vault_file \<Rightarrow> vault_file" where
  "set_keys xs = vf_keys_update (\<lambda>_. Some xs)"

definition set_graves :: "tombstone list \<Rightarrow> vault_file \<Rightarrow> vault_file" where
  "set_graves ts = vf_graves_update (\<lambda>_. JArr (map tombstone_js ts))"

definition graves_entry :: "tombstone list option \<Rightarrow> (vault_file \<Rightarrow> vault_file) list" where
  "graves_entry g = (case g of None \<Rightarrow> [] | Some ts \<Rightarrow> [set_graves ts])"

section \<open>Secrets\<close>

definition writeSecret :: "(nat \<Rightarrow> bool) \<Rightarrow> string \<Rightarrow> string \<Rightarrow> secret_value \<Rightarrow> bool \<Rightarrow> bool vault_io" where
  "writeSecret fault i field value current =
     write_secret fault KeychainFailed VAULT_KEYRING_SERVICE (vaultAccount i field) value current"

definition releaseAccounts :: "(nat \<Rightarrow> bool) \<Rightarrow> string \<Rightarrow> string list \<Rightarrow> unit vault_io" where
  "releaseAccounts fault i fs = delete_all fault KeychainFailed VAULT_KEYRING_SERVICE (map (vaultAccount i) fs)"

text \<open>Both accounts are cleared again when a write rejects for a key the store did not have.\<close>

definition writeKeySecrets ::
  "(nat \<Rightarrow> bool) \<Rightarrow> vault_key \<Rightarrow> secret_value \<Rightarrow> secret_value \<Rightarrow> vault_key option \<Rightarrow> vault_key vault_io" where
  "writeKeySecrets fault key privateKey passphrase existing =
     io_catch
       (io_bind (writeSecret fault (vk_id key) KEY_PRIVATE_KEY_FIELD privateKey
                   (case existing of None \<Rightarrow> False | Some k \<Rightarrow> vk_hasPrivateKey k))
         (\<lambda>pk. io_bind (writeSecret fault (vk_id key) KEY_PASSPHRASE_FIELD passphrase
                   (case existing of None \<Rightarrow> False | Some k \<Rightarrow> vk_hasPassphrase k))
         (\<lambda>pp. io_return (key\<lparr>vk_hasPrivateKey := pk, vk_hasPassphrase := pp\<rparr>))))
       (\<lambda>e. if existing = None
            then io_bind (io_catch (releaseAccounts fault (vk_id key) VAULT_KEY_SECRET_FIELDS) (\<lambda>_. io_return ()))
                   (\<lambda>_. io_throw e)
            else io_throw e)"

section \<open>Local mutators\<close>

definition upsertIdentity ::
  "(nat \<Rightarrow> bool) \<Rightarrow> int \<Rightarrow> vault_identity \<Rightarrow> secret_value \<Rightarrow> string option \<Rightarrow> vault_identity vault_io" where
  "upsertIdentity fault clock identity password expect =
     io_bind (listIdentities fault) (\<lambda>identities. io_bind (listKeys fault) (\<lambda>keys.
       if vi_authMode identity = AuthKey \<and> \<not> truthy (vi_keyId identity)
       then io_throw (KeyAuthNamesNoKey (vi_name identity))
       else if truthy (vi_keyId identity) \<and> \<not> list_ex (\<lambda>k. Some (vk_id k) = vi_keyId identity) keys
       then io_throw (NamesMissingKey (vi_name identity))
       else
         (let existing = find (\<lambda>i. vi_id i = vi_id identity) identities; current = vaultIdentityStamp existing in
          if expect \<noteq> None \<and> expect \<noteq> Some current
          then io_throw (IdentityChanged (vi_id identity) (vi_name identity) (the expect) current)
          else
            io_bind (writeSecret fault (vi_id identity) IDENTITY_PASSWORD_FIELD password
                (case existing of None \<Rightarrow> False | Some i \<Rightarrow> vi_hasPassword i)) (\<lambda>flag.
              let record = identity\<lparr>vi_hasPassword := flag, vi_updatedAt := Some clock,
                    vi_lastConnectedAt := Option.bind existing vi_lastConnectedAt\<rparr>
              in io_bind (readTombstones fault clock) (\<lambda>graves.
                io_bind (persist fault StoreFailed
                    (set_identities (put_record vi_id record identities)
                     # graves_entry (withoutTombstone graves [vi_id identity] (of_int clock)))
                    [\<lparr>dm_kind = IDENTITY_TOMBSTONE_KIND, dm_id = vi_id identity\<rparr>])
                  (\<lambda>_. io_return record))))))"

text \<open>The record written, and the name of another key that reads the same.\<close>

definition upsertKey ::
  "(nat \<Rightarrow> bool) \<Rightarrow> int \<Rightarrow> vault_key \<Rightarrow> secret_value \<Rightarrow> secret_value \<Rightarrow> string option \<Rightarrow> (vault_key \<times> string option) vault_io" where
  "upsertKey fault clock key privateKey passphrase expect =
     (if js_trim (vk_name key) = [] then io_throw KeyNeedsName
      else io_bind (listKeys fault) (\<lambda>keys.
        let existing = find (\<lambda>k. vk_id k = vk_id key) keys; current = vaultKeyStamp existing in
        if expect \<noteq> None \<and> expect \<noteq> Some current
        then io_throw (KeyChanged (vk_id key) (vk_name key) (the expect) current)
        else
          (let clash = find (\<lambda>k. vk_id k \<noteq> vk_id key \<and> sameName (vk_name k) (vk_name key)) keys in
           io_bind (writeKeySecrets fault key privateKey passphrase existing) (\<lambda>written.
             let record = written\<lparr>vk_updatedAt := Some clock, vk_lastConnectedAt := Option.bind existing vk_lastConnectedAt\<rparr>
             in io_bind (readTombstones fault clock) (\<lambda>graves.
               io_bind (persist fault StoreFailed
                   (set_keys (put_record vk_id record keys)
                    # graves_entry (withoutTombstone graves [vk_id key] (of_int clock)))
                   [\<lparr>dm_kind = KEY_TOMBSTONE_KIND, dm_id = vk_id key\<rparr>])
                 (\<lambda>_. io_return (record, map_option vk_name clash)))))))"

definition deleteIdentity ::
  "(nat \<Rightarrow> bool) \<Rightarrow> int \<Rightarrow> (string \<Rightarrow> vault_ref list option) \<Rightarrow> string \<Rightarrow> unit vault_io" where
  "deleteIdentity fault clock hostRefs i =
     io_bind (listIdentities fault) (\<lambda>identities.
       case find (\<lambda>x. vi_id x = i) identities of
         None \<Rightarrow> io_return ()
       | Some identity \<Rightarrow>
         (case hostRefs i of
            None \<Rightarrow> io_throw HostRefsFailed
          | Some holders \<Rightarrow>
            (if 0 < length holders then io_throw (IdentityInUse (vi_name identity) holders)
             else io_bind (releaseAccounts fault i VAULT_IDENTITY_SECRET_FIELDS) (\<lambda>_.
               io_bind (readTombstones fault clock) (\<lambda>graves.
                 persist fault StoreFailed
                   [set_identities (filter (\<lambda>x. vi_id x \<noteq> i) identities),
                    set_graves (withTombstone graves
                      [\<lparr>td_id = i, td_kind = IDENTITY_TOMBSTONE_KIND, td_deletedAt = Fin (of_int clock)\<rparr>] (of_int clock))]
                   [\<lparr>dm_kind = IDENTITY_TOMBSTONE_KIND, dm_id = i\<rparr>])))))"

definition deleteKey :: "(nat \<Rightarrow> bool) \<Rightarrow> int \<Rightarrow> string \<Rightarrow> unit vault_io" where
  "deleteKey fault clock i =
     io_bind (listKeys fault) (\<lambda>keys. io_bind (listIdentities fault) (\<lambda>identities.
       case find (\<lambda>k. vk_id k = i) keys of
         None \<Rightarrow> io_return ()
       | Some key \<Rightarrow>
         (let holders = identitiesUsingKey identities i in
          if 0 < length holders then io_throw (KeyInUse (vk_name key) holders)
          else io_bind (releaseAccounts fault i VAULT_KEY_SECRET_FIELDS) (\<lambda>_.
            io_bind (readTombstones fault clock) (\<lambda>graves.
              persist fault StoreFailed
                [set_keys (filter (\<lambda>k. vk_id k \<noteq> i) keys),
                 set_graves (withTombstone graves
                   [\<lparr>td_id = i, td_kind = KEY_TOMBSTONE_KIND, td_deletedAt = Fin (of_int clock)\<rparr>] (of_int clock))]
                [\<lparr>dm_kind = KEY_TOMBSTONE_KIND, dm_id = i\<rparr>])))))"

definition markIdentityConnected :: "(nat \<Rightarrow> bool) \<Rightarrow> int \<Rightarrow> string \<Rightarrow> bool \<Rightarrow> unit vault_io" where
  "markIdentityConnected fault clock i ssh =
     io_bind (listIdentities fault) (\<lambda>identities.
       case find_index (\<lambda>x. vi_id x = i) identities of
         None \<Rightarrow> io_return ()
       | Some idx \<Rightarrow>
         (let identity = identities ! idx;
              entry = set_identities (identities[idx := identity\<lparr>vi_lastConnectedAt := Some clock\<rparr>])
          in if ssh \<and> vi_authMode identity = AuthKey \<and> truthy (vi_keyId identity)
             then io_bind (listKeys fault) (\<lambda>keys.
               case find_index (\<lambda>k. Some (vk_id k) = vi_keyId identity) keys of
                 None \<Rightarrow> persist fault StoreFailed [entry] []
               | Some k \<Rightarrow> persist fault StoreFailed [entry, set_keys (keys[k := (keys ! k)\<lparr>vk_lastConnectedAt := Some clock\<rparr>])] [])
             else persist fault StoreFailed [entry] []))"

section \<open>Landings from another device\<close>

definition land_identity ::
  "(js_num \<Rightarrow> string) \<Rightarrow> (nat \<Rightarrow> bool) \<Rightarrow> tombstone list \<Rightarrow> vault_identity landing \<Rightarrow>
    vault_identity landing_acc \<Rightarrow> vault_identity landing_acc vault_io" where
  "land_identity num fault graves landing acc =
     (case landingRefusal num (as_remote vi_id landing) IDENTITY_TOMBSTONE_KIND of
        Some r \<Rightarrow> io_return (refuse (RefusedLanding r) acc)
      | None \<Rightarrow>
        (case landing of
           LandedGrave g \<Rightarrow> land_grave (\<lambda>_. releaseAccounts fault (js_text (gv_id g)) VAULT_IDENTITY_SECRET_FIELDS) vi_id IDENTITY_TOMBSTONE_KIND g acc
         | LandedRecord i r u sec \<Rightarrow>
           (if superseded graves IDENTITY_TOMBSTONE_KIND (js_text i) u then io_return acc
            else io_return (revive vi_id ((the r)\<lparr>vi_updatedAt := Some u,
                   vi_lastConnectedAt := Option.bind (find (\<lambda>x. vi_id x = js_text i) (la_records acc)) vi_lastConnectedAt\<rparr>) acc))))"

text \<open>The flags of the fields whose value was written: private key, passphrase.\<close>

fun landKeySecrets :: "(nat \<Rightarrow> bool) \<Rightarrow> string \<Rightarrow> (string \<times> string) list \<Rightarrow> string list \<Rightarrow> string list vault_io" where
  "landKeySecrets fault i secrets [] = io_return []"
| "landKeySecrets fault i secrets (field # fs) =
     (let value = (case map_of secrets field of None \<Rightarrow> [] | Some v \<Rightarrow> js_trim v) in
      if value = [] then landKeySecrets fault i secrets fs
      else io_bind (secrets_set fault KeychainFailed VAULT_KEYRING_SERVICE (vaultAccount i field) value)
        (\<lambda>_. io_bind (landKeySecrets fault i secrets fs) (\<lambda>done_fs. io_return (field # done_fs))))"

definition raise_flags :: "string list \<Rightarrow> vault_key \<Rightarrow> vault_key" where
  "raise_flags landed k =
     k\<lparr>vk_hasPrivateKey := (if KEY_PRIVATE_KEY_FIELD \<in> set landed then True else vk_hasPrivateKey k),
       vk_hasPassphrase := (if KEY_PASSPHRASE_FIELD \<in> set landed then True else vk_hasPassphrase k)\<rparr>"

definition land_key ::
  "(js_num \<Rightarrow> string) \<Rightarrow> (nat \<Rightarrow> bool) \<Rightarrow> tombstone list \<Rightarrow> vault_key landing \<Rightarrow>
    vault_key landing_acc \<Rightarrow> vault_key landing_acc vault_io" where
  "land_key num fault graves landing acc =
     (case landingRefusal num (as_remote vk_id landing) KEY_TOMBSTONE_KIND of
        Some r \<Rightarrow> io_return (refuse (RefusedLanding r) acc)
      | None \<Rightarrow>
        (case landing of
           LandedGrave g \<Rightarrow> land_grave (\<lambda>_. releaseAccounts fault (js_text (gv_id g)) VAULT_KEY_SECRET_FIELDS) vk_id KEY_TOMBSTONE_KIND g acc
         | LandedRecord i r u sec \<Rightarrow>
           (if superseded graves KEY_TOMBSTONE_KIND (js_text i) u then io_return acc
            else
              (let store = (\<lambda>landed. revive vk_id ((raise_flags landed (the r))\<lparr>vk_updatedAt := Some u,
                     vk_lastConnectedAt := Option.bind (find (\<lambda>x. vk_id x = js_text i) (la_records acc)) vk_lastConnectedAt\<rparr>) acc)
               in case sec of
                    None \<Rightarrow> io_return (store [])
                  | Some s \<Rightarrow>
                    io_catch (io_bind (landKeySecrets fault (js_text i) s VAULT_KEY_SECRET_FIELDS) (\<lambda>landed. io_return (store landed)))
                      (\<lambda>_. io_return (refuse (BodyRefused KEY_TOMBSTONE_KIND (js_text i)) acc))))))"

definition applyRemote ::
  "(js_num \<Rightarrow> string) \<Rightarrow> (nat \<Rightarrow> bool) \<Rightarrow> int \<Rightarrow> vault_identity landing list \<Rightarrow> vault_key landing list \<Rightarrow> store_refusal list vault_io" where
  "applyRemote num fault clock identityLandings keyLandings =
     io_bind (listIdentities fault) (\<lambda>identities. io_bind (listKeys fault) (\<lambda>keys.
     io_bind (readTombstones fault clock) (\<lambda>graves.
     io_bind (land_all (land_identity num fault graves) identityLandings
         \<lparr>la_records = identities, la_touched = False, la_buried = [], la_revived = [], la_refusals = []\<rparr>) (\<lambda>a.
     io_bind (land_all (land_key num fault graves) keyLandings
         \<lparr>la_records = keys, la_touched = False, la_buried = la_buried a, la_revived = la_revived a,
          la_refusals = la_refusals a\<rparr>) (\<lambda>b.
     let entries = (if la_touched a then [set_identities (la_records a)] else [])
           @ (if la_touched b then [set_keys (la_records b)] else [])
           @ graves_entry (landedTombstones num graves (la_revived b) (la_buried b) (of_int clock))
     in if 0 < length entries
        then io_bind (persist fault StoreFailed entries []) (\<lambda>_. io_return (la_refusals b))
        else io_return (la_refusals b))))))"

end
