(* ===== verification/Vault_Store_Props.thy ===== *)
theory Vault_Store_Props
  imports Vault_Store
begin

text \<open>
  What the vault store guarantees. Under every pattern of failing calls: references never dangle, a
  refused or failed delete never leaves a secret without a record, a landing removes no secret it
  was not told to remove. Without failures: the presence flags of the records agree with the
  keychain, and an upsert does exactly what it says.
\<close>

section \<open>The steps of the store\<close>

abbreviation vault_entry :: "string \<Rightarrow> string \<Rightarrow> string \<times> string" where
  "vault_entry i field \<equiv> (VAULT_KEYRING_SERVICE, vaultAccount i field)"

lemma wp_writeSecret:
  assumes "\<And>w'. same_but_chain w w' \<Longrightarrow> chain w' = (chain w)(vault_entry i field := stored v (chain w (vault_entry i field)))
      \<Longrightarrow> Q (Inr (flagged v current)) w'"
    and "\<And>w' n. same_but_chain w w' \<Longrightarrow> chain w' = chain w \<Longrightarrow> fault n \<Longrightarrow> Q (Inl KeychainFailed) w'"
  shows "wp (writeSecret fault i field v current) Q w"
  unfolding writeSecret_def by (rule wp_write_secret) (rule assms; assumption)+

lemma wp_release:
  assumes "\<And>w'. same_but_chain w w' \<Longrightarrow> chain w' = (\<lambda>k. if k \<in> vault_entry i ` set fs then None else chain w k) \<Longrightarrow> Q (Inr ()) w'"
    and "\<And>w' n. same_but_chain w w' \<Longrightarrow> (\<And>k. chain w' k = chain w k \<or> chain w' k = None \<and> k \<in> vault_entry i ` set fs) \<Longrightarrow>
      fault n \<Longrightarrow> Q (Inl KeychainFailed) w'"
  shows "wp (releaseAccounts fault i fs) Q w"
  unfolding releaseAccounts_def
proof (rule wp_delete_all, goal_cases)
  case (1 r w')
  have im: "Pair VAULT_KEYRING_SERVICE ` set (map (vaultAccount i) fs) = vault_entry i ` set fs" by auto
  have s: "same_but_chain w w'" using 1(1-3) by (simp add: same_but_chain_def)
  show ?case
  proof (cases r)
    case (Inl e)
    then obtain n where "fault n" "e = KeychainFailed" using 1(6) by blast
    then show ?thesis using assms(2) [OF s] 1(4) Inl unfolding im by blast
  next
    case (Inr u)
    then show ?thesis using assms(1) [OF s] 1(5) Inr unfolding im by simp
  qed
qed

text \<open>Writing the two secrets of a key: both are written, or the call rejects.\<close>

definition key_entries :: "string \<Rightarrow> (string \<times> string) set" where
  "key_entries i = {vault_entry i KEY_PRIVATE_KEY_FIELD, vault_entry i KEY_PASSPHRASE_FIELD}"

lemma key_entries_eq: "vault_entry i ` set VAULT_KEY_SECRET_FIELDS = key_entries i"
  by (auto simp: key_entries_def VAULT_KEY_SECRET_FIELDS_def)

declare vaultAccount_eq_iff [simp]

lemma secret_field_mem [simp]:
  "IDENTITY_PASSWORD_FIELD \<in> set secret_fields" "KEY_PRIVATE_KEY_FIELD \<in> set secret_fields"
  "KEY_PASSPHRASE_FIELD \<in> set secret_fields"
  by (simp_all add: secret_fields_def)

lemma secret_field_neq [simp]:
  "KEY_PRIVATE_KEY_FIELD \<noteq> KEY_PASSPHRASE_FIELD" "KEY_PASSPHRASE_FIELD \<noteq> KEY_PRIVATE_KEY_FIELD"
  "IDENTITY_PASSWORD_FIELD \<noteq> KEY_PRIVATE_KEY_FIELD" "KEY_PRIVATE_KEY_FIELD \<noteq> IDENTITY_PASSWORD_FIELD"
  "IDENTITY_PASSWORD_FIELD \<noteq> KEY_PASSPHRASE_FIELD" "KEY_PASSPHRASE_FIELD \<noteq> IDENTITY_PASSWORD_FIELD"
  by (simp_all add: keychain_names)

definition flag_of :: "('r \<Rightarrow> bool) \<Rightarrow> 'r option \<Rightarrow> bool" where
  "flag_of f e = (case e of None \<Rightarrow> False | Some k \<Rightarrow> f k)"

lemma wp_writeKeySecrets:
  assumes "\<And>w'. same_but_chain w w' \<Longrightarrow> chain w' = (chain w)
        (vault_entry (vk_id key) KEY_PRIVATE_KEY_FIELD := stored pk (chain w (vault_entry (vk_id key) KEY_PRIVATE_KEY_FIELD)),
         vault_entry (vk_id key) KEY_PASSPHRASE_FIELD := stored pp (chain w (vault_entry (vk_id key) KEY_PASSPHRASE_FIELD)))
      \<Longrightarrow> Q (Inr (key\<lparr>vk_hasPrivateKey := flagged pk (flag_of vk_hasPrivateKey existing),
            vk_hasPassphrase := flagged pp (flag_of vk_hasPassphrase existing)\<rparr>)) w'"
    and "\<And>w' n. same_but_chain w w' \<Longrightarrow> (\<And>k. k \<notin> key_entries (vk_id key) \<Longrightarrow> chain w' k = chain w k) \<Longrightarrow> fault n
      \<Longrightarrow> Q (Inl KeychainFailed) w'"
  shows "wp (writeKeySecrets fault key pk pp existing) Q w"
proof -
  have fail: "wp (releaseAccounts fault (vk_id key) VAULT_KEY_SECRET_FIELDS) (\<lambda>r w'. Q (Inl KeychainFailed) w') v \<and> Q (Inl KeychainFailed) v"
    if v: "same_but_chain w v" "\<And>k. k \<notin> key_entries (vk_id key) \<Longrightarrow> chain v k = chain w k" and n: "fault n" for v n
  proof -
    have "wp (releaseAccounts fault (vk_id key) VAULT_KEY_SECRET_FIELDS) (\<lambda>r w'. Q (Inl KeychainFailed) w') v"
    proof (rule wp_release, goal_cases)
      case (1 w')
      have "chain w' k = chain w k" if "k \<notin> key_entries (vk_id key)" for k
        using that 1(2) v(2) [OF that] by (simp add: key_entries_eq)
      then show ?case using assms(2) [OF same_but_chain_trans [OF v(1) 1(1)] _ n] by blast
    next
      case (2 w' m)
      have "chain w' k = chain w k" if "k \<notin> key_entries (vk_id key)" for k
        using that 2(2) [of k] v(2) [OF that] by (simp add: key_entries_eq)
      then show ?case using assms(2) [OF same_but_chain_trans [OF v(1) 2(1)] _ n] by blast
    qed
    then show ?thesis using assms(2) [OF v(1) v(2) n] by blast
  qed
  show ?thesis unfolding writeKeySecrets_def flag_of_def [symmetric] wps
  proof (rule wp_writeSecret, goal_cases)
    case (1 w1)
    show ?case unfolding sum.case wps
    proof (rule wp_writeSecret, goal_cases)
      case (1 w2)
      then show ?case using assms(1) [of w2] \<open>same_but_chain w w1\<close> \<open>chain w1 = _\<close>
        by (simp add: wps same_but_chain_def)
    next
      case (2 w2 n)
      have "\<And>k. k \<notin> key_entries (vk_id key) \<Longrightarrow> chain w2 k = chain w k"
        using 2(2) \<open>chain w1 = _\<close> by (auto simp: key_entries_def)
      then show ?case using fail [OF same_but_chain_trans [OF \<open>same_but_chain w w1\<close> 2(1)] _ 2(3)] by (simp add: wps)
    qed
  next
    case (2 w1 n)
    then show ?case using fail [of w1 n] by (simp add: wps cong: sum.case_cong)
  qed
qed

lemma vcg_secret_bind [vcg]:
  assumes "\<And>w' n. same_but_chain w w' \<Longrightarrow> chain w' = chain w \<Longrightarrow> fault n \<Longrightarrow> Q (Inl KeychainFailed) w'"
    and "\<And>w'. same_but_chain w w' \<Longrightarrow> chain w' = (chain w)(vault_entry i field := stored v (chain w (vault_entry i field)))
      \<Longrightarrow> wp (f (flagged v current)) Q w'"
  shows "wp (io_bind (writeSecret fault i field v current) f) Q w"
  unfolding wp_bind by (rule wp_writeSecret) (auto intro: assms)

lemma vcg_release_bind [vcg]:
  assumes "\<And>w' n. same_but_chain w w' \<Longrightarrow> (\<And>k. chain w' k = chain w k \<or> chain w' k = None \<and> k \<in> vault_entry i ` set fs) \<Longrightarrow>
      fault n \<Longrightarrow> Q (Inl KeychainFailed) w'"
    and "\<And>w'. same_but_chain w w' \<Longrightarrow> chain w' = (\<lambda>k. if k \<in> vault_entry i ` set fs then None else chain w k) \<Longrightarrow> wp (f ()) Q w'"
  shows "wp (io_bind (releaseAccounts fault i fs) f) Q w"
  unfolding wp_bind by (rule wp_release) (simp_all add: assms)

lemma vcg_key_secrets_bind [vcg]:
  assumes "\<And>w' n. same_but_chain w w' \<Longrightarrow> (\<And>k. k \<notin> key_entries (vk_id key) \<Longrightarrow> chain w' k = chain w k) \<Longrightarrow> fault n
      \<Longrightarrow> Q (Inl KeychainFailed) w'"
    and "\<And>w'. same_but_chain w w' \<Longrightarrow> chain w' = (chain w)
        (vault_entry (vk_id key) KEY_PRIVATE_KEY_FIELD := stored pk (chain w (vault_entry (vk_id key) KEY_PRIVATE_KEY_FIELD)),
         vault_entry (vk_id key) KEY_PASSPHRASE_FIELD := stored pp (chain w (vault_entry (vk_id key) KEY_PASSPHRASE_FIELD)))
      \<Longrightarrow> wp (f (key\<lparr>vk_hasPrivateKey := flagged pk (flag_of vk_hasPrivateKey existing),
            vk_hasPassphrase := flagged pp (flag_of vk_hasPassphrase existing)\<rparr>)) Q w'"
  shows "wp (io_bind (writeKeySecrets fault key pk pp existing) f) Q w"
  unfolding wp_bind by (rule wp_writeKeySecrets) (simp_all add: assms)

section \<open>References never dangle\<close>

definition vault_ok :: "vault_file \<Rightarrow> bool" where
  "vault_ok f \<longleftrightarrow> distinct (map vi_id (identities_of f)) \<and> distinct (map vk_id (keys_of f))
     \<and> (\<forall>i \<in> set (identities_of f). (vi_authMode i = AuthKey \<longrightarrow> truthy (vi_keyId i))
         \<and> (truthy (vi_keyId i) \<longrightarrow> the (vi_keyId i) \<in> vk_id ` set (keys_of f)))"

definition refs_inv :: "vault_file world \<Rightarrow> bool" where
  "refs_inv w \<longleftrightarrow> vault_ok (cached w) \<and> vault_ok (disk w)"

lemma vault_file_reads [simp]:
  "identities_of (set_identities xs f) = xs" "keys_of (set_identities xs f) = keys_of f"
  "identities_of (set_keys ys f) = identities_of f" "keys_of (set_keys ys f) = ys"
  "identities_of (set_graves ts f) = identities_of f" "keys_of (set_graves ts f) = keys_of f"
  "vf_graves (set_identities xs f) = vf_graves f" "vf_graves (set_keys ys f) = vf_graves f"
  "vf_graves (set_graves ts f) = JArr (map tombstone_js ts)"
  by (simp_all add: set_identities_def set_keys_def set_graves_def identities_of_def keys_of_def)

lemma vault_file_graves [simp]:
  "identities_of (fold (\<lambda>f x. f x) (graves_entry g) f) = identities_of f"
  "keys_of (fold (\<lambda>f x. f x) (graves_entry g) f) = keys_of f"
  by (cases g; simp add: graves_entry_def)+

lemma vault_ok_put:
  assumes "vault_ok f" and "\<not> (vi_authMode i = AuthKey \<and> \<not> truthy (vi_keyId i))"
    and "\<not> (truthy (vi_keyId i) \<and> \<not> list_ex (\<lambda>k. Some (vk_id k) = vi_keyId i) (keys_of f))"
    and "vi_authMode r = vi_authMode i" and "vi_keyId r = vi_keyId i"
  shows "vault_ok (fold (\<lambda>f. f) (graves_entry g) (set_identities (put_record vi_id r (identities_of f)) f))"
proof -
  have "truthy (vi_keyId i) \<Longrightarrow> the (vi_keyId i) \<in> vk_id ` set (keys_of f)"
    using assms(3) by (force simp: list_ex_iff truthy_iff)
  moreover have "x \<in> set (put_record vi_id r (identities_of f)) \<Longrightarrow> x = r \<or> x \<in> set (identities_of f)" for x
    using set_put_record [of vi_id r "identities_of f"] by blast
  ultimately show ?thesis using assms unfolding vault_ok_def by fastforce
qed

lemma vault_ok_keys:
  assumes "vault_ok f" and "distinct (map vk_id ks)"
    and "\<And>i. i \<in> set (identities_of f) \<Longrightarrow> truthy (vi_keyId i) \<Longrightarrow> the (vi_keyId i) \<in> vk_id ` set (keys_of f) \<Longrightarrow>
      the (vi_keyId i) \<in> vk_id ` set ks"
    and "identities_of f' = identities_of f" and "keys_of f' = ks"
  shows "vault_ok f'"
  using assms unfolding vault_ok_def by auto

lemma vault_ok_same_refs:
  assumes "vault_ok f" and "map vi_id (identities_of f') = map vi_id (identities_of f)"
    and "map vi_keyId (identities_of f') = map vi_keyId (identities_of f)"
    and "map vi_authMode (identities_of f') = map vi_authMode (identities_of f)"
    and "map vk_id (keys_of f') = map vk_id (keys_of f)"
  shows "vault_ok f'"
proof -
  have len: "length (identities_of f') = length (identities_of f)" using assms(2) by (metis length_map)
  have "\<exists>i \<in> set (identities_of f). vi_keyId i = vi_keyId j \<and> vi_authMode i = vi_authMode j" if "j \<in> set (identities_of f')" for j
  proof -
    obtain n where n: "n < length (identities_of f')" "j = identities_of f' ! n" using \<open>j \<in> _\<close> by (auto simp: in_set_conv_nth)
    then have "vi_keyId (identities_of f ! n) = vi_keyId j" "vi_authMode (identities_of f ! n) = vi_authMode j"
      using len arg_cong [OF assms(3), of "\<lambda>xs. xs ! n"] arg_cong [OF assms(4), of "\<lambda>xs. xs ! n"] by auto
    then show ?thesis using n len by (metis nth_mem)
  qed
  moreover have "vk_id ` set (keys_of f') = vk_id ` set (keys_of f)" using assms(5) by (metis set_map)
  ultimately show ?thesis using assms unfolding vault_ok_def by (metis (no_types, lifting))
qed

lemma refs_same: "refs_inv w \<Longrightarrow> cached w' = cached w \<Longrightarrow> disk w' = disk w \<Longrightarrow> refs_inv w'"
  by (simp add: refs_inv_def)

lemmas refs_simps = same_world_def same_but_chain_def

lemma persisted_refs:
  "persisted entries ds w w' \<Longrightarrow> vault_ok (disk w) \<Longrightarrow> vault_ok (fold (\<lambda>f. f) entries (cached w)) \<Longrightarrow> refs_inv w'"
  by (auto simp: refs_inv_def persisted_def)

lemma refs_invD: "refs_inv w \<Longrightarrow> vault_ok (cached w) \<and> vault_ok (disk w)"
  by (simp add: refs_inv_def)

lemmas vault_reads = listIdentities_def listKeys_def readTombstones_def

lemma upsertIdentity_refs:
  assumes "refs_inv w"
  shows "wp (upsertIdentity fault clock i pw expect) (\<lambda>r. refs_inv) w"
  unfolding upsertIdentity_def vault_reads Let_def
  using refs_invD [OF assms]
  by (intro vcg) (auto simp: refs_simps intro: refs_same [OF assms] intro!: vault_ok_put elim!: persisted_refs)

lemma vault_ok_put_key:
  "vault_ok f \<Longrightarrow> vault_ok (fold (\<lambda>f. f) (graves_entry g) (set_keys (put_record vk_id r (keys_of f)) f))"
  by (rule vault_ok_keys [of f "put_record vk_id r (keys_of f)"])
    (auto simp: vault_ok_def set_map [symmetric] ids_put_record simp del: set_map)

lemma upsertKey_refs:
  assumes "refs_inv w"
  shows "wp (upsertKey fault clock k pk pp expect) (\<lambda>r. refs_inv) w"
  unfolding upsertKey_def vault_reads Let_def
  using refs_invD [OF assms]
  by (intro vcg) (auto simp: refs_simps intro: refs_same [OF assms] intro!: vault_ok_put_key elim!: persisted_refs)

lemma vault_ok_drop:
  assumes "vault_ok f"
  shows "vault_ok (set_graves ts (set_identities (filter (\<lambda>x. vi_id x \<noteq> i) (identities_of f)) f))"
  using assms by (auto simp: vault_ok_def distinct_map_filter)

lemma deleteIdentity_refs:
  assumes "refs_inv w"
  shows "wp (deleteIdentity fault clock refs i) (\<lambda>r. refs_inv) w"
  unfolding deleteIdentity_def vault_reads Let_def
  using refs_invD [OF assms]
  by (intro vcg) (auto simp: refs_simps intro: refs_same [OF assms] intro!: vault_ok_drop elim!: persisted_refs)

lemma vault_ok_drop_key:
  assumes "vault_ok f" and "identitiesUsingKey (identities_of f) i = []"
  shows "vault_ok (set_graves ts (set_keys (filter (\<lambda>x. vk_id x \<noteq> i) (keys_of f)) f))"
proof (rule vault_ok_keys [OF assms(1)])
  fix x assume x: "x \<in> set (identities_of f)" "truthy (vi_keyId x)" "the (vi_keyId x) \<in> vk_id ` set (keys_of f)"
  then have "the (vi_keyId x) \<noteq> i"
    using assms(2) by (auto simp: identitiesUsingKey_def filter_empty_conv truthy_iff)
  then show "the (vi_keyId x) \<in> vk_id ` set (filter (\<lambda>x. vk_id x \<noteq> i) (keys_of f))" using x(3) by auto
qed (use assms(1) in \<open>auto simp: vault_ok_def distinct_map_filter\<close>)

lemma deleteKey_refs:
  assumes "refs_inv w"
  shows "wp (deleteKey fault clock i) (\<lambda>r. refs_inv) w"
  unfolding deleteKey_def vault_reads Let_def
  using refs_invD [OF assms]
  by (intro vcg) (auto simp: refs_simps intro: refs_same [OF assms] intro!: vault_ok_drop_key elim!: persisted_refs)

lemma map_upd_same: "i < length xs \<Longrightarrow> f y = f (xs ! i) \<Longrightarrow> map f (xs[i := y]) = map f xs"
  by (simp add: map_update list_update_same_conv)

lemma vault_ok_mark:
  assumes "vault_ok f" and "find_index P (identities_of f) = Some n"
  shows "vault_ok (set_identities ((identities_of f)[n := (identities_of f ! n)\<lparr>vi_lastConnectedAt := t\<rparr>]) f)"
proof -
  have "n < length (identities_of f)" using find_index_SomeD [OF assms(2)] by blast
  then show ?thesis by (intro vault_ok_same_refs [OF assms(1)]) (simp_all add: map_upd_same)
qed

lemma vault_ok_mark_key:
  assumes "vault_ok f" and "find_index P (keys_of f) = Some n"
  shows "vault_ok (set_keys ((keys_of f)[n := (keys_of f ! n)\<lparr>vk_lastConnectedAt := t\<rparr>]) f)"
proof -
  have "n < length (keys_of f)" using find_index_SomeD [OF assms(2)] by blast
  then show ?thesis by (intro vault_ok_same_refs [OF assms(1)]) (simp_all add: map_upd_same)
qed

lemma markIdentityConnected_refs:
  assumes "refs_inv w"
  shows "wp (markIdentityConnected fault clock i ssh) (\<lambda>r. refs_inv) w"
proof -
  note ok = refs_invD [OF assms]
  have two: "vault_ok (set_keys ((keys_of f)[m := (keys_of f ! m)\<lparr>vk_lastConnectedAt := t\<rparr>])
        (set_identities ((identities_of f)[n := (identities_of f ! n)\<lparr>vi_lastConnectedAt := t\<rparr>]) f))"
    if "vault_ok f" "find_index P (identities_of f) = Some n" "find_index Q (keys_of f) = Some m" for f P Q n m t
    using vault_ok_mark_key [OF vault_ok_mark [OF that(1,2)]] that(3) by simp
  show ?thesis
    unfolding markIdentityConnected_def vault_reads Let_def
    using ok by (intro vcg) (auto simp: refs_simps intro: refs_same [OF assms] vault_ok_mark two elim!: persisted_refs)
qed

section \<open>The store as a transition system\<close>

text \<open>The mutators of this device, in any order, with any arguments and any failures.\<close>

inductive vault_step :: "vault_file world \<Rightarrow> vault_file world \<Rightarrow> bool" where
  vs_upsertIdentity: "vault_step w (snd (upsertIdentity fault clock i pw expect w))"
| vs_upsertKey: "vault_step w (snd (upsertKey fault clock k pk pp expect w))"
| vs_deleteIdentity: "vault_step w (snd (deleteIdentity fault clock refs i w))"
| vs_deleteKey: "vault_step w (snd (deleteKey fault clock i w))"
| vs_markConnected: "vault_step w (snd (markIdentityConnected fault clock i ssh w))"

definition empty_vault :: vault_file where
  "empty_vault = \<lparr>vf_identities = None, vf_keys = None, vf_graves = JUndef\<rparr>"

definition fresh_vault :: "vault_file world \<Rightarrow> bool" where
  "fresh_vault w \<longleftrightarrow> cached w = empty_vault \<and> disk w = empty_vault \<and> (\<forall>a. chain w (VAULT_KEYRING_SERVICE, a) = None)"

lemma wp_snd: "wp m (\<lambda>r. P) w \<Longrightarrow> P (snd (m w))"
  by (simp add: wp_def split: prod.splits)

lemma vault_step_refs: "refs_inv w \<Longrightarrow> vault_step w w' \<Longrightarrow> refs_inv w'"
  by (erule vault_step.cases)
    (auto intro: wp_snd [OF upsertIdentity_refs] wp_snd [OF upsertKey_refs] wp_snd [OF deleteIdentity_refs]
      wp_snd [OF deleteKey_refs] wp_snd [OF markIdentityConnected_refs])

lemma fresh_refs: "fresh_vault w \<Longrightarrow> refs_inv w"
  by (simp add: fresh_vault_def refs_inv_def vault_ok_def empty_vault_def identities_of_def keys_of_def)

interpretation vault_machine: invariant_system fresh_vault vault_step refs_inv
  by unfold_locales (auto intro: fresh_refs vault_step_refs)

abbreviation vault_reachable :: "vault_file world \<Rightarrow> bool" where
  "vault_reachable \<equiv> reachable fresh_vault vault_step"

section \<open>Refusals\<close>

definition is_refusal :: "vault_store_error \<Rightarrow> bool" where
  "is_refusal e \<longleftrightarrow> e \<noteq> KeychainFailed \<and> e \<noteq> StoreFailed"

lemma refused_iff:
  "is_refusal (KeyAuthNamesNoKey n)" "is_refusal (NamesMissingKey n)" "is_refusal KeyNeedsName"
  "\<not> is_refusal KeychainFailed" "\<not> is_refusal StoreFailed"
  by (simp_all add: is_refusal_def)

definition unchanged_if_refused :: "'a vault_io \<Rightarrow> vault_file world \<Rightarrow> bool" where
  "unchanged_if_refused m w \<longleftrightarrow> wp m (\<lambda>r w'. case r of Inl e \<Rightarrow> is_refusal e \<longrightarrow> same_world w w' | Inr _ \<Rightarrow> True) w"

lemma refusals_upsert:
  "unchanged_if_refused (upsertIdentity fault clock i pw expect) w"
  "unchanged_if_refused (upsertKey fault clock k pk pp expect) w"
  unfolding unchanged_if_refused_def upsertIdentity_def upsertKey_def vault_reads Let_def
  by (intro vcg; auto simp: refs_simps refused_iff)+

lemma refusals_delete:
  "unchanged_if_refused (deleteIdentity fault clock refs i) w"
  "unchanged_if_refused (deleteKey fault clock i) w"
  "unchanged_if_refused (markIdentityConnected fault clock i ssh) w"
  unfolding unchanged_if_refused_def deleteIdentity_def deleteKey_def markIdentityConnected_def vault_reads Let_def
  by (intro vcg; auto simp: refs_simps refused_iff)+

section \<open>Deletes\<close>

text \<open>What a delete of record \<open>i\<close> leaves: either the record is still there, or its entries are gone.\<close>

definition no_orphan :: "(vault_file \<Rightarrow> string set) \<Rightarrow> string list \<Rightarrow> string \<Rightarrow> vault_file world \<Rightarrow> vault_file world \<Rightarrow> bool" where
  "no_orphan ids fs i w w' \<longleftrightarrow>
     (ids (cached w') = ids (cached w) \<or> ids (cached w') = ids (cached w) - {i} \<and> (\<forall>field \<in> set fs. chain w' (vault_entry i field) = None))
     \<and> (\<forall>k. k \<notin> vault_entry i ` set fs \<longrightarrow> chain w' k = chain w k)"

abbreviation identity_ids :: "vault_file \<Rightarrow> string set" where
  "identity_ids f \<equiv> vi_id ` set (identities_of f)"

abbreviation key_ids :: "vault_file \<Rightarrow> string set" where
  "key_ids f \<equiv> vk_id ` set (keys_of f)"

lemma deleteIdentity_no_orphan:
  "wp (deleteIdentity fault clock refs i) (\<lambda>r w'. no_orphan identity_ids VAULT_IDENTITY_SECRET_FIELDS i w w') w"
  unfolding deleteIdentity_def vault_reads Let_def
  by (intro vcg; auto simp: refs_simps no_orphan_def persisted_def VAULT_IDENTITY_SECRET_FIELDS_def)

lemma deleteKey_no_orphan:
  "wp (deleteKey fault clock i) (\<lambda>r w'. no_orphan key_ids VAULT_KEY_SECRET_FIELDS i w w') w"
  unfolding deleteKey_def vault_reads Let_def
  by (intro vcg; auto simp: refs_simps no_orphan_def persisted_def VAULT_KEY_SECRET_FIELDS_def)

section \<open>Presence flags\<close>

text \<open>The keychain accounts the records of a list claim for one field.\<close>

definition accounts :: "('r \<Rightarrow> string) \<Rightarrow> ('r \<Rightarrow> bool) \<Rightarrow> string \<Rightarrow> 'r list \<Rightarrow> string set" where
  "accounts idf P field xs = {vaultAccount (idf x) field | x. x \<in> set xs \<and> P x}"

lemma accounts_mem [simp]:
  "f \<in> set secret_fields \<Longrightarrow> g \<in> set secret_fields \<Longrightarrow>
    vaultAccount i g \<in> accounts idf P f xs \<longleftrightarrow> f = g \<and> (\<exists>x \<in> set xs. idf x = i \<and> P x)"
  by (auto simp: accounts_def)

lemma accounts_put:
  "f \<in> set secret_fields \<Longrightarrow> distinct (map idf xs) \<Longrightarrow>
    accounts idf P f (put_record idf r xs) = accounts idf P f xs - {vaultAccount (idf r) f} \<union> (if P r then {vaultAccount (idf r) f} else {})"
  unfolding accounts_def set_put_record_iff by (intro set_eqI; cases "P r") (auto, metis)

lemma accounts_filter:
  "f \<in> set secret_fields \<Longrightarrow> accounts idf P f (filter (\<lambda>x. idf x \<noteq> i) xs) = accounts idf P f xs - {vaultAccount i f}"
  by (auto simp: accounts_def)

lemma accounts_map: "map (\<lambda>x. (idf x, P x)) xs = map (\<lambda>x. (idf x, P x)) ys \<Longrightarrow> accounts idf P f xs = accounts idf P f ys"
proof -
  assume a: "map (\<lambda>x. (idf x, P x)) xs = map (\<lambda>x. (idf x, P x)) ys"
  have eq: "accounts idf P f zs = (\<lambda>(i, b). vaultAccount i f) ` {p \<in> set (map (\<lambda>x. (idf x, P x)) zs). snd p}" for zs
    by (force simp: accounts_def)
  show ?thesis unfolding eq a ..
qed

definition claimed :: "vault_file \<Rightarrow> string set" where
  "claimed f = accounts vi_id vi_hasPassword IDENTITY_PASSWORD_FIELD (identities_of f)
     \<union> accounts vk_id vk_hasPrivateKey KEY_PRIVATE_KEY_FIELD (keys_of f)
     \<union> accounts vk_id vk_hasPassphrase KEY_PASSPHRASE_FIELD (keys_of f)"

text \<open>Every claimed account holds a secret, and every account of the vault is claimed.\<close>

definition honest :: "vault_file world \<Rightarrow> bool" where
  "honest w \<longleftrightarrow> vault_ok (cached w) \<and> disk w = cached w
     \<and> (\<forall>a. chain w (VAULT_KEYRING_SERVICE, a) = None \<longleftrightarrow> a \<notin> claimed (cached w))"

lemma flag_of_find:
  "distinct (map idf xs) \<Longrightarrow> flag_of P (find (\<lambda>x. idf x = i) xs) \<longleftrightarrow> (\<exists>x \<in> set xs. idf x = i \<and> P x)"
proof (induction xs)
  case (Cons x xs)
  then show ?case by (cases "idf x = i") (auto simp: flag_of_def image_iff)
qed (simp add: flag_of_def)

lemma honest_flags:
  assumes "honest w"
  shows "flag_of vi_hasPassword (find (\<lambda>x. vi_id x = i) (identities_of (cached w))) \<longleftrightarrow> chain w (vault_entry i IDENTITY_PASSWORD_FIELD) \<noteq> None"
    and "flag_of vk_hasPrivateKey (find (\<lambda>x. vk_id x = i) (keys_of (cached w))) \<longleftrightarrow> chain w (vault_entry i KEY_PRIVATE_KEY_FIELD) \<noteq> None"
    and "flag_of vk_hasPassphrase (find (\<lambda>x. vk_id x = i) (keys_of (cached w))) \<longleftrightarrow> chain w (vault_entry i KEY_PASSPHRASE_FIELD) \<noteq> None"
  using assms by (simp_all add: honest_def vault_ok_def claimed_def flag_of_find)

text \<open>The symbol \<open>SECRET_ALREADY_STORED\<close> is only passed for an account that holds a secret.\<close>

definition truthful :: "vault_file world \<Rightarrow> string \<Rightarrow> string \<Rightarrow> secret_value \<Rightarrow> bool" where
  "truthful w i field v \<longleftrightarrow> (v = SecAlreadyStored \<longrightarrow> chain w (vault_entry i field) \<noteq> None)"

lemma flagged_stored:
  assumes "truthful w i field v" and "current \<longleftrightarrow> chain w (vault_entry i field) \<noteq> None"
  shows "flagged v current \<longleftrightarrow> stored v (chain w (vault_entry i field)) \<noteq> None"
  using assms by (cases v) (auto simp: truthful_def)

lemma claimed_graves [simp]: "claimed (fold (\<lambda>f. f) (graves_entry g) f) = claimed f" "claimed (set_graves ts f) = claimed f"
  by (simp_all add: claimed_def)

lemma claimed_put_identity:
  "distinct (map vi_id (identities_of f)) \<Longrightarrow> a \<in> claimed (set_identities (put_record vi_id r (identities_of f)) f) \<longleftrightarrow>
    (if a = vaultAccount (vi_id r) IDENTITY_PASSWORD_FIELD then vi_hasPassword r else a \<in> claimed f)"
  by (auto simp: claimed_def accounts_put)

lemma claimed_put_key:
  "distinct (map vk_id (keys_of f)) \<Longrightarrow> a \<in> claimed (set_keys (put_record vk_id r (keys_of f)) f) \<longleftrightarrow>
    (if a = vaultAccount (vk_id r) KEY_PRIVATE_KEY_FIELD then vk_hasPrivateKey r
     else if a = vaultAccount (vk_id r) KEY_PASSPHRASE_FIELD then vk_hasPassphrase r else a \<in> claimed f)"
  by (auto simp: claimed_def accounts_put)

lemma claimed_drop:
  "claimed (set_identities (filter (\<lambda>x. vi_id x \<noteq> i) (identities_of f)) f) = claimed f - {vaultAccount i IDENTITY_PASSWORD_FIELD}"
  "claimed (set_keys (filter (\<lambda>x. vk_id x \<noteq> i) (keys_of f)) f) =
    claimed f - {vaultAccount i KEY_PRIVATE_KEY_FIELD, vaultAccount i KEY_PASSPHRASE_FIELD}"
  by (auto simp: claimed_def accounts_filter)

abbreviation no_fault :: "nat \<Rightarrow> bool" where
  "no_fault \<equiv> \<lambda>_. False"

lemma honest_persisted:
  assumes "persisted entries ds w1 w'" and "disk w' = cached w'" and "vault_ok (fold (\<lambda>f. f) entries (cached w1))"
    and "\<And>a. chain w1 (VAULT_KEYRING_SERVICE, a) = None \<longleftrightarrow> a \<notin> claimed (fold (\<lambda>f. f) entries (cached w1))"
  shows "honest w'"
  using assms by (simp add: persisted_def honest_def)

lemma honest_same: "honest w \<Longrightarrow> same_world w w' \<Longrightarrow> honest w'"
  by (simp add: honest_def same_world_def)

lemma upsertIdentity_honest:
  assumes "honest w" and "truthful w (vi_id i) IDENTITY_PASSWORD_FIELD pw"
  shows "wp (upsertIdentity no_fault clock i pw expect) (\<lambda>r. honest) w"
proof -
  have h: "vault_ok (cached w)" "\<And>a. chain w (VAULT_KEYRING_SERVICE, a) = None \<longleftrightarrow> a \<notin> claimed (cached w)" "disk w = cached w"
    "distinct (map vi_id (identities_of (cached w)))"
    using assms(1) by (auto simp: honest_def vault_ok_def)
  note fl = flagged_stored [OF assms(2) honest_flags(1) [OF assms(1)]]
  show ?thesis
    unfolding upsertIdentity_def vault_reads Let_def flag_of_def [symmetric]
    by (intro vcg) (auto simp: refs_simps h claimed_put_identity fl intro: honest_same [OF assms(1)]
        intro!: vault_ok_put elim!: honest_persisted simp del: not_None_eq split: if_split_asm)
qed

lemma upsertKey_honest:
  assumes "honest w" and "truthful w (vk_id k) KEY_PRIVATE_KEY_FIELD pk" and "truthful w (vk_id k) KEY_PASSPHRASE_FIELD pp"
  shows "wp (upsertKey no_fault clock k pk pp expect) (\<lambda>r. honest) w"
proof -
  have h: "vault_ok (cached w)" "\<And>a. chain w (VAULT_KEYRING_SERVICE, a) = None \<longleftrightarrow> a \<notin> claimed (cached w)" "disk w = cached w"
    "distinct (map vk_id (keys_of (cached w)))"
    using assms(1) by (auto simp: honest_def vault_ok_def)
  note fl = flagged_stored [OF assms(2) honest_flags(2) [OF assms(1)]] flagged_stored [OF assms(3) honest_flags(3) [OF assms(1)]]
  show ?thesis
    unfolding upsertKey_def vault_reads Let_def
    by (intro vcg) (auto simp: refs_simps h claimed_put_key fl intro: honest_same [OF assms(1)]
        intro!: vault_ok_put_key elim!: honest_persisted simp del: not_None_eq split: if_split_asm)
qed

lemma deleteIdentity_honest:
  assumes "honest w"
  shows "wp (deleteIdentity no_fault clock refs i) (\<lambda>r. honest) w"
proof -
  have h: "vault_ok (cached w)" "\<And>a. chain w (VAULT_KEYRING_SERVICE, a) = None \<longleftrightarrow> a \<notin> claimed (cached w)" "disk w = cached w"
    using assms(1) by (auto simp: honest_def)
  show ?thesis
    unfolding deleteIdentity_def vault_reads Let_def
    by (intro vcg) (auto simp: refs_simps h claimed_drop VAULT_IDENTITY_SECRET_FIELDS_def intro: honest_same [OF assms]
        intro!: vault_ok_drop elim!: honest_persisted simp del: not_None_eq split: if_split_asm)
qed

lemma deleteKey_honest:
  assumes "honest w"
  shows "wp (deleteKey no_fault clock i) (\<lambda>r. honest) w"
proof -
  have h: "vault_ok (cached w)" "\<And>a. chain w (VAULT_KEYRING_SERVICE, a) = None \<longleftrightarrow> a \<notin> claimed (cached w)" "disk w = cached w"
    using assms(1) by (auto simp: honest_def)
  show ?thesis
    unfolding deleteKey_def vault_reads Let_def
    by (intro vcg) (auto simp: refs_simps h claimed_drop VAULT_KEY_SECRET_FIELDS_def intro: honest_same [OF assms]
        intro!: vault_ok_drop_key elim!: honest_persisted simp del: not_None_eq split: if_split_asm)
qed

lemma claimed_mark:
  "find_index P (identities_of f) = Some n \<Longrightarrow>
    claimed (set_identities ((identities_of f)[n := (identities_of f ! n)\<lparr>vi_lastConnectedAt := t\<rparr>]) f) = claimed f"
  "find_index R (keys_of f) = Some m \<Longrightarrow>
    claimed (set_keys ((keys_of f)[m := (keys_of f ! m)\<lparr>vk_lastConnectedAt := t\<rparr>]) f) = claimed f"
  unfolding claimed_def vault_file_reads
  by (auto dest!: find_index_SomeD intro!: arg_cong2 [where f = "(\<union>)"] accounts_map map_upd_same)

lemma claimed_mark_both:
  "find_index P (identities_of f) = Some n \<Longrightarrow> find_index R (keys_of f) = Some m \<Longrightarrow>
    claimed (set_keys ((keys_of f)[m := (keys_of f ! m)\<lparr>vk_lastConnectedAt := t\<rparr>])
      (set_identities ((identities_of f)[n := (identities_of f ! n)\<lparr>vi_lastConnectedAt := t\<rparr>]) f)) = claimed f"
  using claimed_mark(2) [of R "set_identities ((identities_of f)[n := (identities_of f ! n)\<lparr>vi_lastConnectedAt := t\<rparr>]) f" m t]
    claimed_mark(1) [of P f n t] by simp

lemma vault_ok_mark_both:
  assumes "vault_ok f" and "find_index P (identities_of f) = Some n" and "find_index R (keys_of f) = Some m"
  shows "vault_ok (set_keys ((keys_of f)[m := (keys_of f ! m)\<lparr>vk_lastConnectedAt := t\<rparr>])
    (set_identities ((identities_of f)[n := (identities_of f ! n)\<lparr>vi_lastConnectedAt := t\<rparr>]) f))"
  using vault_ok_mark_key [OF vault_ok_mark [OF assms(1,2)]] assms(3) by simp

lemma markIdentityConnected_honest:
  assumes "honest w"
  shows "wp (markIdentityConnected no_fault clock i ssh) (\<lambda>r. honest) w"
proof -
  have h: "vault_ok (cached w)" "\<And>a. chain w (VAULT_KEYRING_SERVICE, a) = None \<longleftrightarrow> a \<notin> claimed (cached w)" "disk w = cached w"
    using assms(1) by (auto simp: honest_def)
  show ?thesis
    unfolding markIdentityConnected_def vault_reads Let_def
    by (intro vcg) (auto simp: refs_simps h claimed_mark claimed_mark_both intro: honest_same [OF assms]
        intro!: vault_ok_mark vault_ok_mark_both elim!: honest_persisted simp del: not_None_eq)
qed

section \<open>Landings\<close>

text \<open>
  Where a landing set may take a secret away: only at the accounts of a record a tombstone of the
  set names.
\<close>

definition buried_ids :: "'r landing list \<Rightarrow> string set" where
  "buried_ids ls = {js_text (gv_id g) | g. LandedGrave g \<in> set ls}"

definition entries_of :: "string list \<Rightarrow> string set \<Rightarrow> (string \<times> string) set" where
  "entries_of fs is = {vault_entry i field | i field. i \<in> is \<and> field \<in> set fs}"

lemma release_keeps:
  "wp (releaseAccounts fault i fs) (\<lambda>_ w'. same_but_chain w w' \<and> keeps_secrets (entries_of fs {i}) (chain w) (chain w')) w"
proof -
  have im: "vault_entry i ` set fs = entries_of fs {i}" by (auto simp: entries_of_def)
  show ?thesis by (rule wp_release; unfold im)
    (auto simp: keeps_secrets_def simp del: split_paired_All split: if_splits, metis option.distinct(1))
qed

lemma land_identity_step:
  "landing_step (entries_of VAULT_IDENTITY_SECRET_FIELDS (buried_ids [l])) w (land_identity num fault graves l acc)"
proof (cases l)
  case (LandedGrave g)
  then have "buried_ids [l] = {js_text (gv_id g)}" by (auto simp: buried_ids_def)
  then show ?thesis using LandedGrave
    by (simp add: land_identity_def land_grave_step [OF release_keeps [of fault "js_text (gv_id g)" VAULT_IDENTITY_SECRET_FIELDS]] split: option.splits)
next
  case (LandedRecord i r u sec)
  then show ?thesis by (simp add: land_identity_def split: option.splits)
qed

lemma landKeySecrets_keeps:
  "wp (landKeySecrets fault i secrets fs) (\<lambda>r w'. same_but_chain w w' \<and> keeps_secrets {} (chain w) (chain w')) w"
proof (induction fs arbitrary: w)
  case (Cons field fs)
  have step: "wp (landKeySecrets fault i secrets fs)
      (\<lambda>r w'. same_but_chain w w' \<and> keeps_secrets {} (chain w) (chain w')) w1"
    if "same_but_chain w w1" "keeps_secrets {} (chain w) (chain w1)" for w1
    by (rule wp_mono [OF Cons.IH]) (use that in \<open>blast intro: same_but_chain_trans keeps_trans\<close>)
  let ?w = "\<lambda>v. w\<lparr>calls := Suc (calls w), chain := (chain w)(vault_entry i field \<mapsto> v)\<rparr>"
  have "same_but_chain w (?w v)" "same_but_chain w (w\<lparr>calls := Suc (calls w)\<rparr>)" for v by (simp_all add: same_but_chain_def)
  then show ?case using step [of w] step [of "?w v" for v] by (simp add: Let_def wps cong: sum.case_cong)
qed (simp add: wps)

lemma land_key_step:
  "landing_step (entries_of VAULT_KEY_SECRET_FIELDS (buried_ids [l])) w (land_key num fault graves l acc)"
proof (cases l)
  case (LandedGrave g)
  then have "buried_ids [l] = {js_text (gv_id g)}" by (auto simp: buried_ids_def)
  then show ?thesis using LandedGrave
    by (simp add: land_key_def land_grave_step [OF release_keeps [of fault "js_text (gv_id g)" VAULT_KEY_SECRET_FIELDS]] split: option.splits)
next
  case (LandedRecord i r u sec)
  have body: "landing_step S w (io_catch (io_bind (landKeySecrets fault a s fs) (\<lambda>landed. io_return (store landed))) (\<lambda>_. io_return x))"
    for S a s fs x and store :: "string list \<Rightarrow> vault_key landing_acc"
    unfolding landing_step_def wps
    by (rule wp_mono [OF landKeySecrets_keeps [of fault a s fs w]]) (auto simp: wps intro: keeps_empty split: sum.splits)
  show ?thesis using LandedRecord by (auto simp: land_key_def Let_def body split: option.splits)
qed

lemma land_all_buried:
  assumes "\<And>l acc w. landing_step (entries_of fs (buried_ids [l])) w (land l acc)"
  shows "landing_step (entries_of fs (buried_ids ls)) w (land_all land ls acc)"
  by (rule landing_step_mono [OF land_all_step [OF assms]]) (auto simp: entries_of_def buried_ids_def)

section \<open>Properties\<close>

lemma vault_ok_resolves:
  assumes "vault_ok f" and "i \<in> set (identities_of f)"
  shows "\<exists>key. resolveIdentity (find_identity_in (identities_of f)) (find_key_in (keys_of f)) (vi_id i) = Inr (i, key)"
proof -
  have i: "find_identity_in (identities_of f) (vi_id i) = Some i"
    using assms find_id_iff [of vi_id "identities_of f" "vi_id i" i] by (simp add: vault_ok_def find_identity_in_def)
  have "\<exists>k. find_key_in (keys_of f) (the (vi_keyId i)) = Some k" if "vi_authMode i = AuthKey"
  proof -
    have "the (vi_keyId i) \<in> vk_id ` set (keys_of f)" using assms that by (auto simp: vault_ok_def)
    then show ?thesis by (cases "find_key_in (keys_of f) (the (vi_keyId i))") (auto simp: find_key_in_def find_None_iff)
  qed
  then show ?thesis using i assms by (cases "vi_authMode i = AuthKey") (auto simp: resolveIdentity_def vault_ok_def)
qed

text \<open>
  C27: whatever this device does to its vault and whichever keychain and file calls fail, every
  identity in the file, as the session sees it and as it is on disk, resolves: the key an identity
  uses for key authentication exists.
\<close>

theorem vault_references_hold:
  assumes "vault_reachable w" and "f \<in> {cached w, disk w}" and "i \<in> set (identities_of f)"
  shows "\<exists>key. resolveIdentity (find_identity_in (identities_of f)) (find_key_in (keys_of f)) (vi_id i) = Inr (i, key)"
  using vault_machine.reachable_inv [OF assms(1)] assms(2,3) vault_ok_resolves by (auto simp: refs_inv_def)

text \<open>
  C28: a delete never leaves a secret that no record names. Whichever calls fail: after deleting an
  identity or a key either the record is still listed, or it alone is gone and its keychain entries
  with it; no other keychain entry changes.
\<close>

theorem delete_leaves_no_secret:
  "no_orphan identity_ids VAULT_IDENTITY_SECRET_FIELDS i w (snd (deleteIdentity fault clock refs i w))
   \<and> no_orphan key_ids VAULT_KEY_SECRET_FIELDS i w (snd (deleteKey fault clock i w))"
  using wp_snd [OF deleteIdentity_no_orphan] wp_snd [OF deleteKey_no_orphan] by blast

lemma refusedD:
  "unchanged_if_refused m w \<Longrightarrow> fst (m w) = Inl e \<Longrightarrow> is_refusal e \<Longrightarrow> same_world w (snd (m w))"
  by (cases "m w") (simp add: unchanged_if_refused_def wp_def)

lemma applyRemote_keeps:
  assumes "applyRemote num fault clock ils kls w = (r, w')"
  shows "(\<forall>e. r = Inl e \<longrightarrow> e = StoreFailed)
    \<and> keeps_secrets (entries_of VAULT_IDENTITY_SECRET_FIELDS (buried_ids ils) \<union> entries_of VAULT_KEY_SECRET_FIELDS (buried_ids kls))
        (chain w) (chain w')"
proof -
  let ?S = "entries_of VAULT_IDENTITY_SECRET_FIELDS (buried_ids ils)" and ?T = "entries_of VAULT_KEY_SECRET_FIELDS (buried_ids kls)"
  have "wp (applyRemote num fault clock ils kls)
      (\<lambda>r w'. (\<forall>e. r = Inl e \<longrightarrow> e = StoreFailed) \<and> keeps_secrets (?S \<union> ?T) (chain w) (chain w')) w"
    unfolding applyRemote_def vault_reads Let_def
    by (intro vcg landing_step_vcg [OF land_all_buried [OF land_identity_step]] landing_step_vcg [OF land_all_buried [OF land_key_step]])
      (auto simp: same_world_def persisted_def intro: keeps_trans)
  then show ?thesis using assms by (simp add: wp_def)
qed

text \<open>
  A refused change changes nothing: when a mutator answers with a refusal (a missing key or name, a
  record that changed under its editor, a record in use), the file, the disk, the keychain and the
  dirty marks are what they were.
\<close>

theorem vault_refusals:
  "(fst (upsertIdentity fault clock i pw expect w) = Inl e1 \<and> is_refusal e1 \<longrightarrow>
     same_world w (snd (upsertIdentity fault clock i pw expect w)))
   \<and> (fst (upsertKey fault clock k pk pp expect w) = Inl e2 \<and> is_refusal e2 \<longrightarrow>
     same_world w (snd (upsertKey fault clock k pk pp expect w)))
   \<and> (fst (deleteIdentity fault clock refs j w) = Inl e3 \<and> is_refusal e3 \<longrightarrow>
     same_world w (snd (deleteIdentity fault clock refs j w)))
   \<and> (fst (deleteKey fault clock j w) = Inl e4 \<and> is_refusal e4 \<longrightarrow> same_world w (snd (deleteKey fault clock j w)))"
  by (auto intro: refusedD [OF refusals_upsert(1)] refusedD [OF refusals_upsert(2)] refusedD [OF refusals_delete(1)]
    refusedD [OF refusals_delete(2)])

section \<open>Honest flags\<close>

text \<open>The mutators while no call fails; the symbol is passed only for a secret that is there.\<close>

inductive calm_step :: "vault_file world \<Rightarrow> vault_file world \<Rightarrow> bool" where
  cs_upsertIdentity: "truthful w (vi_id i) IDENTITY_PASSWORD_FIELD pw \<Longrightarrow>
    calm_step w (snd (upsertIdentity no_fault clock i pw expect w))"
| cs_upsertKey: "truthful w (vk_id k) KEY_PRIVATE_KEY_FIELD pk \<Longrightarrow> truthful w (vk_id k) KEY_PASSPHRASE_FIELD pp \<Longrightarrow>
    calm_step w (snd (upsertKey no_fault clock k pk pp expect w))"
| cs_deleteIdentity: "calm_step w (snd (deleteIdentity no_fault clock refs j w))"
| cs_deleteKey: "calm_step w (snd (deleteKey no_fault clock j w))"
| cs_markConnected: "calm_step w (snd (markIdentityConnected no_fault clock j ssh w))"

lemma calm_step_honest: "honest w \<Longrightarrow> calm_step w w' \<Longrightarrow> honest w'"
  by (erule calm_step.cases)
    (auto intro: wp_snd [OF upsertIdentity_honest] wp_snd [OF upsertKey_honest] wp_snd [OF deleteIdentity_honest]
      wp_snd [OF deleteKey_honest] wp_snd [OF markIdentityConnected_honest])

lemma fresh_honest: "fresh_vault w \<Longrightarrow> honest w"
  by (simp add: fresh_vault_def honest_def vault_ok_def claimed_def accounts_def empty_vault_def identities_of_def keys_of_def)

interpretation calm_vault: invariant_system fresh_vault calm_step honest
  by unfold_locales (auto intro: fresh_honest calm_step_honest)

text \<open>
  C29: while no call fails, the presence flags of the records say exactly which secrets the keychain
  holds, no account of the vault service is left without a record, and the file on disk is the one
  the session sees.
\<close>

theorem vault_flags_honest:
  assumes "reachable fresh_vault calm_step w"
  shows "(\<forall>i \<in> set (identities_of (cached w)).
        vi_hasPassword i \<longleftrightarrow> chain w (vault_entry (vi_id i) IDENTITY_PASSWORD_FIELD) \<noteq> None)
    \<and> (\<forall>k \<in> set (keys_of (cached w)).
        (vk_hasPrivateKey k \<longleftrightarrow> chain w (vault_entry (vk_id k) KEY_PRIVATE_KEY_FIELD) \<noteq> None)
        \<and> (vk_hasPassphrase k \<longleftrightarrow> chain w (vault_entry (vk_id k) KEY_PASSPHRASE_FIELD) \<noteq> None))
    \<and> (\<forall>a. chain w (VAULT_KEYRING_SERVICE, a) \<noteq> None \<longrightarrow>
        (\<exists>i \<in> set (identities_of (cached w)). a = vaultAccount (vi_id i) IDENTITY_PASSWORD_FIELD)
        \<or> (\<exists>k \<in> set (keys_of (cached w)). \<exists>field \<in> set VAULT_KEY_SECRET_FIELDS. a = vaultAccount (vk_id k) field))
    \<and> disk w = cached w"
proof -
  have h: "honest w" using assms by (rule calm_vault.reachable_inv)
  then have d: "distinct (map vi_id (identities_of (cached w)))" "distinct (map vk_id (keys_of (cached w)))"
    by (auto simp: honest_def vault_ok_def)
  have "vi_hasPassword i \<longleftrightarrow> chain w (vault_entry (vi_id i) IDENTITY_PASSWORD_FIELD) \<noteq> None"
    if "i \<in> set (identities_of (cached w))" for i
    using honest_flags(1) [OF h, of "vi_id i"] find_id_iff [OF d(1), of "vi_id i" i] that by (simp add: flag_of_def)
  moreover have "(vk_hasPrivateKey k \<longleftrightarrow> chain w (vault_entry (vk_id k) KEY_PRIVATE_KEY_FIELD) \<noteq> None)
      \<and> (vk_hasPassphrase k \<longleftrightarrow> chain w (vault_entry (vk_id k) KEY_PASSPHRASE_FIELD) \<noteq> None)"
    if "k \<in> set (keys_of (cached w))" for k
    using honest_flags(2,3) [OF h, of "vk_id k"] find_id_iff [OF d(2), of "vk_id k" k] that by (simp add: flag_of_def)
  moreover have "(\<exists>i \<in> set (identities_of (cached w)). a = vaultAccount (vi_id i) IDENTITY_PASSWORD_FIELD)
        \<or> (\<exists>k \<in> set (keys_of (cached w)). \<exists>field \<in> set VAULT_KEY_SECRET_FIELDS. a = vaultAccount (vk_id k) field)"
    if "a \<in> claimed (cached w)" for a
    using that by (auto simp: claimed_def accounts_def VAULT_KEY_SECRET_FIELDS_def)
  moreover have "\<forall>a. chain w (VAULT_KEYRING_SERVICE, a) \<noteq> None \<longrightarrow> a \<in> claimed (cached w)" "disk w = cached w"
    using h by (auto simp: honest_def)
  ultimately show ?thesis by blast
qed

text \<open>
  C30: applying what another device sent takes a secret away only where a tombstone of the set names
  its record: a landed record without secrets never clears a stored private key, whichever calls
  fail; nothing is rejected but a failing store file, a keychain failure becomes a refusal.
\<close>

theorem landing_keeps_secrets:
  assumes "applyRemote num fault clock ils kls w = (r, w')"
  shows "(\<forall>e. r = Inl e \<longrightarrow> e = StoreFailed)
    \<and> (\<forall>k. chain w k \<noteq> None \<and> chain w' k = None \<longrightarrow>
        k \<in> entries_of VAULT_IDENTITY_SECRET_FIELDS (buried_ids ils) \<union> entries_of VAULT_KEY_SECRET_FIELDS (buried_ids kls))"
  by (rule applyRemote_keeps [unfolded keeps_secrets_def, OF assms])

section \<open>Witnesses\<close>

definition no_vault :: "vault_file world" where
  "no_vault = \<lparr>cached = empty_vault, disk = empty_vault, chain = (\<lambda>_. None), calls = 0, marks = []\<rparr>"

definition demo_vault_key :: vault_key where
  "demo_vault_key = \<lparr>vk_id = ''k1'', vk_kind = None, vk_name = ''laptop'', vk_keyType = None, vk_fingerprint = None,
     vk_publicKey = None, vk_hasPrivateKey = False, vk_hasPassphrase = False, vk_encrypted = None,
     vk_description = None, vk_updatedAt = None, vk_lastConnectedAt = None, vk_certificate = None,
     vk_certCaFingerprint = None, vk_certKeyId = None, vk_certPrincipals = None, vk_certValidAfter = None,
     vk_certValidBefore = None\<rparr>"

definition demo_vault_identity :: vault_identity where
  "demo_vault_identity = \<lparr>vi_id = ''i1'', vi_name = ''deploy'', vi_username = ''root'', vi_domain = None,
     vi_authMode = AuthKey, vi_hasPassword = False, vi_keyId = Some ''k1'', vi_description = None,
     vi_updatedAt = None, vi_lastConnectedAt = None\<rparr>"

text \<open>A key with its private key, then an identity that uses it; the second save loses its broadcast.\<close>

definition demo_vault_1 :: "vault_file world" where
  "demo_vault_1 = snd (upsertKey no_fault 4 demo_vault_key (SecText ''PEM'') SecUndefined None no_vault)"

definition demo_vault :: "vault_file world" where
  "demo_vault = snd (upsertIdentity (\<lambda>n. n = 9) 5 demo_vault_identity SecUndefined None demo_vault_1)"

definition demo_record :: vault_identity where
  "demo_record = demo_vault_identity\<lparr>vi_updatedAt := Some 5\<rparr>"

lemma no_vault_fresh: "fresh_vault no_vault"
  by (simp add: fresh_vault_def no_vault_def)

lemmas vault_reach = reach_step [where start = fresh_vault and step = vault_step]
  reach_step [where start = fresh_vault and step = calm_step]

lemma demo_vault_reachable: "vault_reachable demo_vault"
  unfolding demo_vault_def demo_vault_1_def
  by (intro vault_reach(1) [OF _ vs_upsertIdentity] vault_reach(1) [OF _ vs_upsertKey] reach_start no_vault_fresh)

theorem vault_references_hold_witness:
  "demo_record \<in> set (identities_of (disk demo_vault)) \<and>
   (\<exists>key. resolveIdentity (find_identity_in (identities_of (disk demo_vault))) (find_key_in (keys_of (disk demo_vault))) ''i1''
      = Inr (demo_record, key))"
proof -
  have i: "demo_record \<in> set (identities_of (disk demo_vault))" and n: "vi_id demo_record = ''i1''" by code_simp+
  then show ?thesis using vault_references_hold [OF demo_vault_reachable, of "disk demo_vault" demo_record] by simp
qed

theorem vault_refusals_witness:
  "fst (deleteKey no_fault 6 ''k1'' demo_vault) = Inl (KeyInUse ''laptop'' [\<lparr>vr_id = ''i1'', vr_name = ''deploy''\<rparr>])
   \<and> same_world demo_vault (snd (deleteKey no_fault 6 ''k1'' demo_vault))"
proof -
  have e: "fst (deleteKey no_fault 6 ''k1'' demo_vault) = Inl (KeyInUse ''laptop'' [\<lparr>vr_id = ''i1'', vr_name = ''deploy''\<rparr>])"
    by code_simp
  moreover have "is_refusal (KeyInUse ''laptop'' [\<lparr>vr_id = ''i1'', vr_name = ''deploy''\<rparr>])" by (simp add: is_refusal_def)
  ultimately show ?thesis using vault_refusals by blast
qed

lemma demo_vault_1_calm: "reachable fresh_vault calm_step demo_vault_1"
  unfolding demo_vault_1_def
  by (intro vault_reach(2) [OF _ cs_upsertKey] reach_start no_vault_fresh) (simp_all add: truthful_def)

theorem vault_flags_honest_witness:
  "map vk_hasPrivateKey (keys_of (cached demo_vault_1)) = [True] \<and> chain demo_vault_1 (vault_entry ''k1'' KEY_PRIVATE_KEY_FIELD) \<noteq> None"
proof -
  have "demo_vault_key\<lparr>vk_hasPrivateKey := True, vk_updatedAt := Some 4\<rparr> \<in> set (keys_of (cached demo_vault_1))"
    "map vk_hasPrivateKey (keys_of (cached demo_vault_1)) = [True]" by code_simp+
  moreover have "vk_id (demo_vault_key\<lparr>vk_hasPrivateKey := True, vk_updatedAt := Some 4\<rparr>) = ''k1''" by code_simp
  ultimately show ?thesis using vault_flags_honest [OF demo_vault_1_calm] by fastforce
qed

definition demo_grave :: grave where
  "demo_grave = \<lparr>gv_id = JStr ''k1'', gv_kind = JStr ''key'', gv_deletedAt = JNum (Fin 8)\<rparr>"

abbreviation demo_applied :: "(vault_store_error + store_refusal list) \<times> vault_file world" where
  "demo_applied \<equiv> applyRemote (\<lambda>_. []) no_fault 9 [] [LandedGrave demo_grave] demo_vault_1"

theorem landing_keeps_secrets_witness:
  "chain demo_vault_1 (vault_entry ''k1'' KEY_PRIVATE_KEY_FIELD) = Some ''PEM''
   \<and> chain (snd demo_applied) (vault_entry ''k1'' KEY_PRIVATE_KEY_FIELD) = None
   \<and> vault_entry ''k1'' KEY_PRIVATE_KEY_FIELD \<in> entries_of VAULT_IDENTITY_SECRET_FIELDS (buried_ids ([] :: vault_identity landing list))
       \<union> entries_of VAULT_KEY_SECRET_FIELDS (buried_ids [LandedGrave demo_grave :: vault_key landing])"
proof -
  have "chain demo_vault_1 (vault_entry ''k1'' KEY_PRIVATE_KEY_FIELD) = Some ''PEM''"
    "chain (snd demo_applied) (vault_entry ''k1'' KEY_PRIVATE_KEY_FIELD) = None" by code_simp+
  then show ?thesis using landing_keeps_secrets [OF prod.collapse [symmetric], of "\<lambda>_. []" no_fault 9 "[]" "[LandedGrave demo_grave]" demo_vault_1]
    by (metis option.distinct(1))
qed

end
