(* ===== verification/Host_Store.thy ===== *)
theory Host_Store
  imports Landings Jumps Group_Tree "HOL-Library.AList"
begin

text \<open>
  The host store (\<^verbatim>\<open>src/modules/hosts/store.ts\<close>): hosts and groups in one file, the secrets a host
  owns in the keychain, tombstones of what was deleted. Each mutator is the body of its queued
  write, in the order of the source: refusals, reads, keychain, file. The clock is the argument
  \<open>clock\<close>. What the source injects is an argument too: \<open>forwards\<close> (does the clean-up of the forward
  rules of a host complete?), \<open>findIdentity\<close> (absent, or a lookup that may reject), \<open>copyId\<close> (the fresh
  id of a duplicate).
\<close>

section \<open>State and errors\<close>

record host_file =
  hf_hosts :: "host list option"
  hf_groups :: "host_group list option"
  hf_graves :: js

datatype host_store_error =
    OwnerRefused vault_error
  | OwnTarget string string
  | TargetMissing string string
  | TargetIsRdp string string
  | TunnelNamesNoHost string
  | ChainRefused jump_error
  | HostBindingChanged string string string string
  | OwnsNoAccounts string "string list"
  | StoresNoKeyMaterial string
  | SavedButNotCleared string "string list"
  | GroupNeedsName
  | GroupNameTaken string
  | GroupOwnParent string
  | GroupParentMissing string
  | GroupParentCycle
  | DefaultIdentityMissing string
  | HostInUse string "vault_ref list"
  | ForwardsFailed
  | IdentityReadFailed
  | HostKeychainFailed
  | HostStoreFailed

type_synonym 'a host_io = "(host_file, host_store_error, 'a) io"

definition HOST_TOMBSTONE_KIND :: string where "HOST_TOMBSTONE_KIND = ''host''"
definition GROUP_TOMBSTONE_KIND :: string where "GROUP_TOMBSTONE_KIND = ''group''"

definition HOST_SSH_SECRET_FIELDS :: "string list" where
  "HOST_SSH_SECRET_FIELDS = [HOST_SSH_PASSWORD_FIELD, HOST_SSH_PRIVATE_KEY_FIELD, HOST_SSH_KEY_PASSPHRASE_FIELD]"
definition HOST_RDP_SECRET_FIELDS :: "string list" where
  "HOST_RDP_SECRET_FIELDS = [HOST_RDP_PASSWORD_FIELD]"

text \<open>The secrets that come with a host; a field the input lacks is \<^const>\<open>SecUndefined\<close>.\<close>

record host_secret_input =
  hs_password :: secret_value
  hs_privateKey :: secret_value
  hs_keyPassphrase :: secret_value

definition no_secrets :: host_secret_input where
  "no_secrets = \<lparr>hs_password = SecUndefined, hs_privateKey = SecUndefined, hs_keyPassphrase = SecUndefined\<rparr>"

definition hosts_of :: "host_file \<Rightarrow> host list" where
  "hosts_of f = (case hf_hosts f of None \<Rightarrow> [] | Some xs \<Rightarrow> xs)"

definition groups_of :: "host_file \<Rightarrow> host_group list" where
  "groups_of f = (case hf_groups f of None \<Rightarrow> [] | Some xs \<Rightarrow> xs)"

definition set_hosts :: "host list \<Rightarrow> host_file \<Rightarrow> host_file" where
  "set_hosts xs = hf_hosts_update (\<lambda>_. Some xs)"

definition set_groups :: "host_group list \<Rightarrow> host_file \<Rightarrow> host_file" where
  "set_groups xs = hf_groups_update (\<lambda>_. Some xs)"

definition set_host_graves :: "tombstone list \<Rightarrow> host_file \<Rightarrow> host_file" where
  "set_host_graves ts = hf_graves_update (\<lambda>_. JArr (map tombstone_js ts))"

definition host_graves_entry :: "tombstone list option \<Rightarrow> (host_file \<Rightarrow> host_file) list" where
  "host_graves_entry g = (case g of None \<Rightarrow> [] | Some ts \<Rightarrow> [set_host_graves ts])"

section \<open>Hosts and their bindings\<close>

fun map_base :: "(host_base \<Rightarrow> host_base) \<Rightarrow> host \<Rightarrow> host" where
  "map_base f (SshHost b s) = SshHost (f b) s"
| "map_base f (RdpHost b d) = RdpHost (f b) d"

fun is_inline :: "host \<Rightarrow> bool" where
  "is_inline (SshHost b s) = (case s_credential s of SshInline _ \<Rightarrow> True | SshBoundTo _ \<Rightarrow> False)"
| "is_inline (RdpHost b d) = (case d_credential d of RdpInline _ \<Rightarrow> True | RdpBoundTo _ \<Rightarrow> False)"

text \<open>\<open>assertBindingOwner(host.credential, ownerId)\<close>.\<close>

fun owner_error :: "host \<Rightarrow> string \<Rightarrow> vault_error option" where
  "owner_error (SshHost b s) owner = assertBindingOwner_ssh (s_credential s) owner"
| "owner_error (RdpHost b d) owner = assertBindingOwner_rdp (d_credential d) owner"

definition secretFieldsFor :: "host \<Rightarrow> string list" where
  "secretFieldsFor h =
     (if \<not> is_inline h then [] else if isSshHost h then HOST_SSH_SECRET_FIELDS else HOST_RDP_SECRET_FIELDS)"

fun rebound :: "host \<Rightarrow> string \<Rightarrow> host" where
  "rebound (SshHost b s) hostId =
     SshHost b (s\<lparr>s_credential := (case s_credential s of SshInline c \<Rightarrow> SshInline (c\<lparr>si_hostId := hostId\<rparr>) | x \<Rightarrow> x)\<rparr>)"
| "rebound (RdpHost b d) hostId =
     RdpHost b (d\<lparr>d_credential := (case d_credential d of RdpInline c \<Rightarrow> RdpInline (c\<lparr>ri_hostId := hostId\<rparr>) | x \<Rightarrow> x)\<rparr>)"

text \<open>What the stored record says about one account.\<close>

fun storedFlag :: "host option \<Rightarrow> string \<Rightarrow> bool" where
  "storedFlag None field = False"
| "storedFlag (Some (RdpHost b d)) field =
     (field = HOST_RDP_PASSWORD_FIELD \<and> (case d_credential d of RdpInline c \<Rightarrow> ri_hasPassword c | RdpBoundTo _ \<Rightarrow> False))"
| "storedFlag (Some (SshHost b s)) field =
     (case s_credential s of
        SshBoundTo _ \<Rightarrow> False
      | SshInline c \<Rightarrow>
        (if field = HOST_SSH_PASSWORD_FIELD then si_hasPassword c
         else if field = HOST_SSH_PRIVATE_KEY_FIELD then si_hasPrivateKey c
         else if field = HOST_SSH_KEY_PASSPHRASE_FIELD then si_hasKeyPassphrase c
         else False))"

section \<open>Pins\<close>

text \<open>The keyed pins, and the flat field as the pin of the address the record names.\<close>

fun set_flat_pin :: "string option \<Rightarrow> host \<Rightarrow> host" where
  "set_flat_pin flat (SshHost b s) = SshHost b (s\<lparr>s_lastFingerprint := flat\<rparr>)"
| "set_flat_pin flat (RdpHost b d) = RdpHost b (d\<lparr>d_certFingerprint := flat\<rparr>)"

definition withPins :: "host \<Rightarrow> host_pins \<Rightarrow> host" where
  "withPins h pins =
     (let keyed = (if 0 < length pins then Some pins else None); flat = map_of pins (h_host (base h))
      in set_flat_pin flat (map_base (h_pins_update (\<lambda>_. keyed)) h))"

definition nextPins :: "host \<Rightarrow> host option \<Rightarrow> host_pins" where
  "nextPins h existing =
     (case h_pins (base h) of
        Some pins \<Rightarrow> pins
      | None \<Rightarrow>
        (let carried = (case existing of None \<Rightarrow> [] | Some e \<Rightarrow> hostPins e) in
         if \<not> truthy (hostFingerprint h) then carried
         else
           (let flat = the (hostFingerprint h) in
            case existing of
              None \<Rightarrow> AList.update (h_host (base h)) flat carried
            | Some e \<Rightarrow>
              (if h_host (base e) = h_host (base h) then AList.update (h_host (base h)) flat carried
               else if truthy (map_of carried (h_host (base e))) then carried
               else AList.update (h_host (base e)) flat carried))))"

definition withFingerprint :: "host \<Rightarrow> string option \<Rightarrow> host" where
  "withFingerprint h fingerprint =
     withPins h (if truthy fingerprint then AList.update (h_host (base h)) (the fingerprint) (hostPins h)
                 else AList.delete (h_host (base h)) (hostPins h))"

section \<open>Reading\<close>

definition listHosts :: "(nat \<Rightarrow> bool) \<Rightarrow> host list host_io" where
  "listHosts fault = store_get fault HostStoreFailed hosts_of"

definition listGroups :: "(nat \<Rightarrow> bool) \<Rightarrow> host_group list host_io" where
  "listGroups fault = store_get fault HostStoreFailed groups_of"

definition readHostTombstones :: "(nat \<Rightarrow> bool) \<Rightarrow> int \<Rightarrow> tombstone list host_io" where
  "readHostTombstones fault clock = store_get fault HostStoreFailed (\<lambda>f. livingTombstones (hf_graves f) (of_int clock))"

definition same_group_name :: "string \<Rightarrow> string \<Rightarrow> bool" where
  "same_group_name a b \<longleftrightarrow> js_lower (js_trim a) = js_lower (js_trim b)"

section \<open>Secrets\<close>

definition writeHostSecret :: "(nat \<Rightarrow> bool) \<Rightarrow> string \<Rightarrow> string \<Rightarrow> secret_value \<Rightarrow> bool \<Rightarrow> bool host_io" where
  "writeHostSecret fault hostId field value current =
     write_secret fault HostKeychainFailed HOST_KEYRING_SERVICE (vaultAccount hostId field) value current"

text \<open>
  Every field is attempted even after one rejects, and the first error is thrown once all have been
  tried.
\<close>

definition deleteAccounts :: "(nat \<Rightarrow> bool) \<Rightarrow> string \<Rightarrow> string list \<Rightarrow> unit host_io" where
  "deleteAccounts fault hostId fs =
     delete_all fault HostKeychainFailed HOST_KEYRING_SERVICE (map (vaultAccount hostId) fs)"

definition named_secrets :: "host_secret_input \<Rightarrow> string list" where
  "named_secrets s = concat
     [if hs_password s \<noteq> SecUndefined then [''password''] else [],
      if hs_privateKey s \<noteq> SecUndefined then [''privateKey''] else [],
      if hs_keyPassphrase s \<noteq> SecUndefined then [''keyPassphrase''] else []]"

definition assertNoHostSecrets :: "host \<Rightarrow> host_secret_input \<Rightarrow> unit host_io" where
  "assertNoHostSecrets h secrets =
     (if length (named_secrets secrets) = 0 then io_return ()
      else io_throw (OwnsNoAccounts (h_name (base h)) (named_secrets secrets)))"

definition set_secret :: "string \<Rightarrow> secret_value \<Rightarrow> host_secret_input \<Rightarrow> host_secret_input" where
  "set_secret field v s =
     (if field = HOST_SSH_PASSWORD_FIELD then s\<lparr>hs_password := v\<rparr>
      else if field = HOST_SSH_PRIVATE_KEY_FIELD then s\<lparr>hs_privateKey := v\<rparr>
      else if field = HOST_SSH_KEY_PASSPHRASE_FIELD then s\<lparr>hs_keyPassphrase := v\<rparr>
      else s)"

fun copy_fields :: "(nat \<Rightarrow> bool) \<Rightarrow> string \<Rightarrow> string \<Rightarrow> string list \<Rightarrow> host_secret_input \<Rightarrow> host_secret_input host_io" where
  "copy_fields fault sourceId copyId [] out = io_return out"
| "copy_fields fault sourceId copyId (field # fs) out =
     io_bind (secrets_copy fault HostKeychainFailed
         (HOST_KEYRING_SERVICE, vaultAccount sourceId field) (HOST_KEYRING_SERVICE, vaultAccount copyId field))
       (\<lambda>copied. copy_fields fault sourceId copyId fs (if copied then set_secret field SecAlreadyStored out else out))"

definition copyHostSecrets :: "(nat \<Rightarrow> bool) \<Rightarrow> host \<Rightarrow> string \<Rightarrow> host_secret_input host_io" where
  "copyHostSecrets fault source copyId = copy_fields fault (host_id source) copyId (secretFieldsFor source) no_secrets"

text \<open>One field at a time, so that the fields that could not be cleared are known by name.\<close>

fun release_fields :: "(nat \<Rightarrow> bool) \<Rightarrow> string \<Rightarrow> string list \<Rightarrow> string list host_io" where
  "release_fields fault hostId [] = io_return []"
| "release_fields fault hostId (field # fs) =
     io_bind (io_catch (io_bind (deleteAccounts fault hostId [field]) (\<lambda>_. io_return [])) (\<lambda>_. io_return [field]))
       (\<lambda>left. io_bind (release_fields fault hostId fs) (\<lambda>more. io_return (left @ more)))"

definition releaseStaleAccounts :: "(nat \<Rightarrow> bool) \<Rightarrow> host \<Rightarrow> host option \<Rightarrow> unit host_io" where
  "releaseStaleAccounts fault h existing =
     (case existing of
        None \<Rightarrow> io_return ()
      | Some e \<Rightarrow>
        (let stale = filter (\<lambda>f. f \<notin> set (secretFieldsFor h)) (secretFieldsFor e) in
         if length stale = 0 then io_return ()
         else io_bind (release_fields fault (host_id h) stale) (\<lambda>left.
           if length left = 0 then io_return ()
           else io_throw (SavedButNotCleared (h_name (base h)) left))))"

definition rollbackNewHost :: "(nat \<Rightarrow> bool) \<Rightarrow> host \<Rightarrow> unit host_io" where
  "rollbackNewHost fault h = io_catch (deleteAccounts fault (host_id h) (secretFieldsFor h)) (\<lambda>_. io_return ())"

definition nextSshCredential ::
  "(nat \<Rightarrow> bool) \<Rightarrow> host_base \<Rightarrow> ssh_part \<Rightarrow> host_secret_input \<Rightarrow> host option \<Rightarrow> ssh_credential_binding host_io" where
  "nextSshCredential fault b s secrets existing =
     (case s_credential s of
        SshBoundTo i \<Rightarrow> io_bind (assertNoHostSecrets (SshHost b s) secrets) (\<lambda>_. io_return (SshBoundTo i))
      | SshInline c \<Rightarrow>
        io_catch
          (io_bind (writeHostSecret fault (h_id b) HOST_SSH_PASSWORD_FIELD (hs_password secrets)
              (storedFlag existing HOST_SSH_PASSWORD_FIELD)) (\<lambda>pw.
           io_bind (writeHostSecret fault (h_id b) HOST_SSH_PRIVATE_KEY_FIELD (hs_privateKey secrets)
              (storedFlag existing HOST_SSH_PRIVATE_KEY_FIELD)) (\<lambda>pk.
           io_bind (writeHostSecret fault (h_id b) HOST_SSH_KEY_PASSPHRASE_FIELD (hs_keyPassphrase secrets)
              (storedFlag existing HOST_SSH_KEY_PASSPHRASE_FIELD)) (\<lambda>kp.
           io_return (SshInline (c\<lparr>si_hasPassword := pw, si_hasPrivateKey := pk, si_hasKeyPassphrase := kp\<rparr>))))))
          (\<lambda>e. if existing = None
               then io_bind (rollbackNewHost fault (SshHost b s)) (\<lambda>_. io_throw e)
               else io_throw e))"

definition nextRdpCredential ::
  "(nat \<Rightarrow> bool) \<Rightarrow> host_base \<Rightarrow> rdp_part \<Rightarrow> host_secret_input \<Rightarrow> host option \<Rightarrow> rdp_credential_binding host_io" where
  "nextRdpCredential fault b d secrets existing =
     (case d_credential d of
        RdpBoundTo i \<Rightarrow> io_bind (assertNoHostSecrets (RdpHost b d) secrets) (\<lambda>_. io_return (RdpBoundTo i))
      | RdpInline c \<Rightarrow>
        (if hs_privateKey secrets \<noteq> SecUndefined \<or> hs_keyPassphrase secrets \<noteq> SecUndefined
         then io_throw (StoresNoKeyMaterial (h_name b))
         else io_bind (writeHostSecret fault (h_id b) HOST_RDP_PASSWORD_FIELD (hs_password secrets)
             (storedFlag existing HOST_RDP_PASSWORD_FIELD)) (\<lambda>pw.
           io_return (RdpInline (c\<lparr>ri_hasPassword := pw\<rparr>)))))"

section \<open>References\<close>

definition target_error :: "host \<Rightarrow> string \<Rightarrow> host list \<Rightarrow> string \<Rightarrow> host_store_error option" where
  "target_error h targetId hosts role =
     (if targetId = host_id h then Some (OwnTarget (h_name (base h)) role)
      else case find (\<lambda>x. host_id x = targetId) hosts of
        None \<Rightarrow> Some (TargetMissing (h_name (base h)) role)
      | Some t \<Rightarrow> if isSshHost t then None else Some (TargetIsRdp (h_name (base t)) role))"

text \<open>The error a target or its jump chain is refused with.\<close>

definition route_error :: "host \<Rightarrow> string \<Rightarrow> host list \<Rightarrow> string \<Rightarrow> host_store_error option" where
  "route_error h targetId hosts role =
     (case target_error h targetId hosts role of
        Some e \<Rightarrow> Some e
      | None \<Rightarrow> (case jumpChain (Some targetId) (Some (host_id h)) hosts of Inl e \<Rightarrow> Some (ChainRefused e) | Inr _ \<Rightarrow> None))"

definition reference_error :: "host \<Rightarrow> host list \<Rightarrow> host_store_error option" where
  "reference_error h hosts =
     (case h of
        SshHost b s \<Rightarrow> if truthy (s_proxyJumpId s) then route_error h (the (s_proxyJumpId s)) hosts ''jump host'' else None
      | RdpHost b d \<Rightarrow>
        (case d_tunnel_sshHostId d of
           None \<Rightarrow> None
         | Some t \<Rightarrow> if t = [] then Some (TunnelNamesNoHost (h_name b)) else route_error h t hosts ''tunnel host''))"

definition assertReferences :: "host \<Rightarrow> host list \<Rightarrow> unit host_io" where
  "assertReferences h hosts = (case reference_error h hosts of None \<Rightarrow> io_return () | Some e \<Rightarrow> io_throw e)"

section \<open>Writing a host\<close>

definition nextCredential :: "(nat \<Rightarrow> bool) \<Rightarrow> host \<Rightarrow> host_secret_input \<Rightarrow> host option \<Rightarrow> host host_io" where
  "nextCredential fault h secrets existing =
     (case h of
        SshHost b s \<Rightarrow> io_bind (nextSshCredential fault b s secrets existing) (\<lambda>c. io_return (SshHost b (s\<lparr>s_credential := c\<rparr>)))
      | RdpHost b d \<Rightarrow> io_bind (nextRdpCredential fault b d secrets existing) (\<lambda>c. io_return (RdpHost b (d\<lparr>d_credential := c\<rparr>))))"

text \<open>The record a write leaves: pins projected, tags normalised, stamped.\<close>

definition written_host :: "int \<Rightarrow> host \<Rightarrow> host option \<Rightarrow> host" where
  "written_host clock h existing =
     map_base (\<lambda>b. b\<lparr>h_tags := normalizeHostTags (map_option (map TagString) (h_tags (base h))), h_updatedAt := Some clock\<rparr>)
       (withPins h (nextPins h existing))"

definition writeHost ::
  "(nat \<Rightarrow> bool) \<Rightarrow> int \<Rightarrow> host \<Rightarrow> host_secret_input \<Rightarrow> string option \<Rightarrow> host host_io" where
  "writeHost fault clock h secrets expect =
     (case owner_error h (host_id h) of
        Some e \<Rightarrow> io_throw (OwnerRefused e)
      | None \<Rightarrow>
        io_bind (listHosts fault) (\<lambda>hosts. io_bind (assertReferences h hosts) (\<lambda>_.
          let existing = find (\<lambda>x. host_id x = host_id h) hosts; current = credentialStamp existing in
          if expect \<noteq> None \<and> expect \<noteq> Some current
          then io_throw (HostBindingChanged (host_id h) (h_name (base h)) (the expect) current)
          else
            io_bind (nextCredential fault h secrets existing) (\<lambda>credentialed.
              let record = written_host clock credentialed existing in
              io_bind (readHostTombstones fault clock) (\<lambda>graves.
              io_bind (persist fault HostStoreFailed
                  (set_hosts (put_record host_id record hosts)
                   # host_graves_entry (withoutTombstone graves [host_id h] (of_int clock)))
                  [\<lparr>dm_kind = HOST_TOMBSTONE_KIND, dm_id = host_id h\<rparr>]) (\<lambda>_.
              io_bind (releaseStaleAccounts fault h existing) (\<lambda>_. io_return record)))))))"

definition upsertHost ::
  "(nat \<Rightarrow> bool) \<Rightarrow> int \<Rightarrow> host \<Rightarrow> host_secret_input \<Rightarrow> string option \<Rightarrow> host host_io" where
  "upsertHost fault clock h secrets expect = writeHost fault clock h secrets expect"

definition copy_of_host :: "string \<Rightarrow> host \<Rightarrow> host" where
  "copy_of_host copyId source =
     set_flat_pin None (rebound (map_base (\<lambda>b. b\<lparr>h_id := copyId, h_name := h_name b @ '' (copy)'',
       h_lastConnectedAt := None, h_pins := Some []\<rparr>) source) copyId)"

definition duplicateHost :: "(nat \<Rightarrow> bool) \<Rightarrow> int \<Rightarrow> string \<Rightarrow> string \<Rightarrow> host option host_io" where
  "duplicateHost fault clock copyId i =
     io_bind (listHosts fault) (\<lambda>hosts.
       case find (\<lambda>x. host_id x = i) hosts of
         None \<Rightarrow> io_return None
       | Some source \<Rightarrow>
         io_bind
           (io_catch (copyHostSecrets fault source copyId)
              (\<lambda>e. io_bind (rollbackNewHost fault (copy_of_host copyId source)) (\<lambda>_. io_throw e)))
           (\<lambda>secrets. io_bind (writeHost fault clock (copy_of_host copyId source) secrets None) (\<lambda>r. io_return (Some r))))"

section \<open>Groups\<close>

definition with_edge :: "host_group \<Rightarrow> host_group list \<Rightarrow> host_group list" where
  "with_edge grp groups =
     (if find (\<lambda>g. g_id g = g_id grp) groups \<noteq> None
      then map (\<lambda>g. if g_id g = g_id grp then g\<lparr>g_parentId := g_parentId grp\<rparr> else g) groups
      else groups @ [grp])"

definition parent_edge_error :: "host_group \<Rightarrow> host_group list \<Rightarrow> host_store_error option" where
  "parent_edge_error grp groups =
     (let stored_grp = find (\<lambda>g. g_id g = g_id grp) groups in
      if g_parentId grp \<noteq> None \<and> g_parentId grp \<noteq> Option.bind stored_grp g_parentId
      then
        (if g_parentId grp = Some (g_id grp) then Some (GroupOwnParent (g_name grp))
         else if \<not> list_ex (\<lambda>g. Some (g_id g) = g_parentId grp) groups then Some (GroupParentMissing (g_name grp))
         else if parent_of (with_edge grp groups) (g_id grp) \<noteq> g_parentId grp then Some GroupParentCycle
         else None)
      else None)"

definition check_default_identity ::
  "(string \<Rightarrow> vault_identity option option) option \<Rightarrow> host_group \<Rightarrow> host_group list \<Rightarrow> unit host_io" where
  "check_default_identity findIdentity grp groups =
     (case findIdentity of
        None \<Rightarrow> io_return ()
      | Some look \<Rightarrow>
        (case g_defaultIdentityId grp of
           None \<Rightarrow> io_return ()
         | Some i \<Rightarrow>
           (if Some i = Option.bind (find (\<lambda>g. g_id g = g_id grp) groups) g_defaultIdentityId then io_return ()
            else case look i of
              None \<Rightarrow> io_throw IdentityReadFailed
            | Some None \<Rightarrow> io_throw (DefaultIdentityMissing (g_name grp))
            | Some (Some _) \<Rightarrow> io_return ())))"

definition upsertGroup ::
  "(nat \<Rightarrow> bool) \<Rightarrow> int \<Rightarrow> (string \<Rightarrow> vault_identity option option) option \<Rightarrow> host_group \<Rightarrow> host_group host_io" where
  "upsertGroup fault clock findIdentity grp =
     (if js_trim (g_name grp) = [] then io_throw GroupNeedsName
      else io_bind (listGroups fault) (\<lambda>groups.
        if list_ex (\<lambda>g. g_id g \<noteq> g_id grp \<and> same_group_name (g_name g) (g_name grp)) groups
        then io_throw (GroupNameTaken (js_trim (g_name grp)))
        else case parent_edge_error grp groups of
          Some e \<Rightarrow> io_throw e
        | None \<Rightarrow>
          io_bind (check_default_identity findIdentity grp groups) (\<lambda>_.
            let record = grp\<lparr>g_updatedAt := Some clock\<rparr> in
            io_bind (readHostTombstones fault clock) (\<lambda>graves.
            io_bind (persist fault HostStoreFailed
                (set_groups (put_record g_id record groups)
                 # host_graves_entry (withoutTombstone graves [g_id grp] (of_int clock)))
                [\<lparr>dm_kind = GROUP_TOMBSTONE_KIND, dm_id = g_id grp\<rparr>]) (\<lambda>_. io_return record)))))"

section \<open>Deletes\<close>

definition hostRef :: "host \<Rightarrow> vault_ref" where
  "hostRef h = \<lparr>vr_id = host_id h, vr_name = h_name (base h)\<rparr>"

text \<open>The host a host rides: the tunnel host of an RDP host, the jump host of an SSH host.\<close>

fun rides :: "host \<Rightarrow> string option" where
  "rides (SshHost b s) = s_proxyJumpId s"
| "rides (RdpHost b d) = d_tunnel_sshHostId d"

definition deleteHost :: "(nat \<Rightarrow> bool) \<Rightarrow> int \<Rightarrow> (string \<Rightarrow> bool) \<Rightarrow> string \<Rightarrow> unit host_io" where
  "deleteHost fault clock forwards i =
     io_bind (listHosts fault) (\<lambda>hosts.
       let existing = find (\<lambda>x. host_id x = i) hosts; holders = map hostRef (filter (\<lambda>h. rides h = Some i) hosts) in
       if existing \<noteq> None \<and> 0 < length holders
       then io_throw (HostInUse (h_name (base (the existing))) holders)
       else if \<not> forwards i then io_throw ForwardsFailed
       else case existing of
         None \<Rightarrow> io_return ()
       | Some h \<Rightarrow>
         io_bind (deleteAccounts fault i (secretFieldsFor h)) (\<lambda>_.
         io_bind (readHostTombstones fault clock) (\<lambda>graves.
           persist fault HostStoreFailed
             [set_hosts (filter (\<lambda>x. host_id x \<noteq> i) hosts),
              set_host_graves (withTombstone graves
                [\<lparr>td_id = i, td_kind = HOST_TOMBSTONE_KIND, td_deletedAt = Fin (of_int clock)\<rparr>] (of_int clock))]
             [\<lparr>dm_kind = HOST_TOMBSTONE_KIND, dm_id = i\<rparr>])))"

definition clear_group :: "int \<Rightarrow> string \<Rightarrow> host \<Rightarrow> host" where
  "clear_group clock i h =
     (if h_groupId (base h) \<noteq> Some i then h else map_base (\<lambda>b. b\<lparr>h_groupId := None, h_updatedAt := Some clock\<rparr>) h)"

definition reparent :: "int \<Rightarrow> string \<Rightarrow> string option \<Rightarrow> host_group \<Rightarrow> host_group" where
  "reparent clock i newParent g =
     (if g_parentId g \<noteq> Some i then g else g\<lparr>g_parentId := newParent, g_updatedAt := Some clock\<rparr>)"

definition deleteGroup :: "(nat \<Rightarrow> bool) \<Rightarrow> int \<Rightarrow> string \<Rightarrow> unit host_io" where
  "deleteGroup fault clock i =
     io_bind (listGroups fault) (\<lambda>groups. io_bind (listHosts fault) (\<lambda>hosts.
       if find (\<lambda>g. g_id g = i) groups = None then io_return ()
       else io_bind (readHostTombstones fault clock) (\<lambda>graves.
         let others = filter (\<lambda>g. g_id g \<noteq> i) groups;
             members = filter (\<lambda>h. h_groupId (base h) = Some i) hosts;
             children = filter (\<lambda>g. g_parentId g = Some i) others
         in persist fault HostStoreFailed
              [set_groups (map (reparent clock i (parent_of groups i)) others),
               set_hosts (map (clear_group clock i) hosts),
               set_host_graves (withTombstone graves
                 [\<lparr>td_id = i, td_kind = GROUP_TOMBSTONE_KIND, td_deletedAt = Fin (of_int clock)\<rparr>] (of_int clock))]
              (\<lparr>dm_kind = GROUP_TOMBSTONE_KIND, dm_id = i\<rparr>
               # map (\<lambda>h. \<lparr>dm_kind = HOST_TOMBSTONE_KIND, dm_id = host_id h\<rparr>) members
               @ map (\<lambda>g. \<lparr>dm_kind = GROUP_TOMBSTONE_KIND, dm_id = g_id g\<rparr>) children))))"

section \<open>Landings from another device\<close>

text \<open>The device-local fields of a landed host come from the stored record and from nowhere else.\<close>

definition landed_host :: "int \<Rightarrow> host \<Rightarrow> host option \<Rightarrow> host" where
  "landed_host u r existing =
     withPins (map_base (\<lambda>b. b\<lparr>h_lastConnectedAt := Option.bind existing (\<lambda>e. h_lastConnectedAt (base e)), h_updatedAt := Some u\<rparr>) r)
       (case existing of None \<Rightarrow> [] | Some e \<Rightarrow> hostPins e)"

definition land_host ::
  "(js_num \<Rightarrow> string) \<Rightarrow> (nat \<Rightarrow> bool) \<Rightarrow> tombstone list \<Rightarrow> host landing \<Rightarrow> host landing_acc \<Rightarrow> host landing_acc host_io" where
  "land_host num fault graves landing acc =
     (case landingRefusal num (as_remote host_id landing) HOST_TOMBSTONE_KIND of
        Some r \<Rightarrow> io_return (refuse (RefusedLanding r) acc)
      | None \<Rightarrow>
        (case landing of
           LandedGrave g \<Rightarrow> land_grave (\<lambda>h. deleteAccounts fault (host_id h) (secretFieldsFor h)) host_id HOST_TOMBSTONE_KIND g acc
         | LandedRecord i r u sec \<Rightarrow>
           (if superseded graves HOST_TOMBSTONE_KIND (js_text i) u then io_return acc
            else io_return (revive host_id (landed_host u (the r) (find (\<lambda>x. host_id x = js_text i) (la_records acc))) acc))))"

definition land_group ::
  "(js_num \<Rightarrow> string) \<Rightarrow> tombstone list \<Rightarrow> host_group landing \<Rightarrow> host_group landing_acc \<Rightarrow> host_group landing_acc host_io" where
  "land_group num graves landing acc =
     (case landingRefusal num (as_remote g_id landing) GROUP_TOMBSTONE_KIND of
        Some r \<Rightarrow> io_return (refuse (RefusedLanding r) acc)
      | None \<Rightarrow>
        (case landing of
           LandedGrave g \<Rightarrow> io_return (bury g_id (grave_tombstone g) acc)
         | LandedRecord i r u sec \<Rightarrow>
           (if superseded graves GROUP_TOMBSTONE_KIND (js_text i) u then io_return acc
            else io_return (revive g_id ((the r)\<lparr>g_updatedAt := Some u\<rparr>) acc))))"

definition applyRemoteHosts ::
  "(js_num \<Rightarrow> string) \<Rightarrow> (nat \<Rightarrow> bool) \<Rightarrow> int \<Rightarrow> host landing list \<Rightarrow> host_group landing list \<Rightarrow> store_refusal list host_io" where
  "applyRemoteHosts num fault clock hostLandings groupLandings =
     io_bind (listHosts fault) (\<lambda>hosts. io_bind (listGroups fault) (\<lambda>groups.
     io_bind (readHostTombstones fault clock) (\<lambda>graves.
     io_bind (land_all (land_host num fault graves) hostLandings
         \<lparr>la_records = hosts, la_touched = False, la_buried = [], la_revived = [], la_refusals = []\<rparr>) (\<lambda>a.
     io_bind (land_all (land_group num graves) groupLandings
         \<lparr>la_records = groups, la_touched = False, la_buried = la_buried a, la_revived = la_revived a,
          la_refusals = la_refusals a\<rparr>) (\<lambda>b.
     let entries = (if la_touched a then [set_hosts (la_records a)] else [])
           @ (if la_touched b then [set_groups (la_records b)] else [])
           @ host_graves_entry (landedTombstones num graves (la_revived b) (la_buried b) (of_int clock))
     in if 0 < length entries
        then io_bind (persist fault HostStoreFailed entries []) (\<lambda>_. io_return (la_refusals b))
        else io_return (la_refusals b))))))"

section \<open>Connects and pins\<close>

definition patchHost :: "(nat \<Rightarrow> bool) \<Rightarrow> string \<Rightarrow> (host \<Rightarrow> host option) \<Rightarrow> host option host_io" where
  "patchHost fault i patch =
     io_bind (listHosts fault) (\<lambda>hosts.
       case find_index (\<lambda>x. host_id x = i) hosts of
         None \<Rightarrow> io_return None
       | Some idx \<Rightarrow>
         (case patch (hosts ! idx) of
            None \<Rightarrow> io_return None
          | Some next \<Rightarrow>
            (case owner_error next i of
               Some e \<Rightarrow> io_throw (OwnerRefused e)
             | None \<Rightarrow> io_bind (persist fault HostStoreFailed [set_hosts (hosts[idx := next])] []) (\<lambda>_. io_return (Some next)))))"

text \<open>
  The identity whose vault stamp the connect then asks for (\<open>io.markIdentityConnected\<close>), and whether
  the connect was an SSH one.
\<close>

definition markConnected :: "(nat \<Rightarrow> bool) \<Rightarrow> int \<Rightarrow> string \<Rightarrow> string \<Rightarrow> (string \<times> bool) option host_io" where
  "markConnected fault clock i fingerprint =
     io_bind (patchHost fault i (\<lambda>h. Some (map_base (h_lastConnectedAt_update (\<lambda>_. Some clock))
         (withFingerprint h (if fingerprint \<noteq> [] then Some fingerprint else map_of (hostPins h) (h_host (base h)))))))
       (\<lambda>written. io_return (Option.bind written (\<lambda>h. map_option (\<lambda>iid. (iid, isSshHost h)) (bound_identity h))))"

definition pinFingerprint :: "(nat \<Rightarrow> bool) \<Rightarrow> string \<Rightarrow> string \<Rightarrow> unit host_io" where
  "pinFingerprint fault i fingerprint =
     (if fingerprint = [] then io_return ()
      else io_bind (patchHost fault i (\<lambda>h.
          if map_of (hostPins h) (h_host (base h)) = Some fingerprint then None else Some (withFingerprint h (Some fingerprint))))
        (\<lambda>_. io_return ()))"

definition forgetPin :: "(nat \<Rightarrow> bool) \<Rightarrow> string \<Rightarrow> string \<Rightarrow> unit host_io" where
  "forgetPin fault i address =
     io_bind (patchHost fault i (\<lambda>h.
         if map_of (hostPins h) address = None then None else Some (withPins h (AList.delete address (hostPins h)))))
       (\<lambda>_. io_return ())"

definition GROUP_DEFAULT_SUFFIX :: string where "GROUP_DEFAULT_SUFFIX = '' (group default)''"

definition identityHostRefs :: "(nat \<Rightarrow> bool) \<Rightarrow> string \<Rightarrow> vault_ref list host_io" where
  "identityHostRefs fault identityId =
     io_bind (listHosts fault) (\<lambda>hosts. io_bind (listGroups fault) (\<lambda>groups.
       io_return (hostsUsingIdentity hosts identityId
         @ map (\<lambda>r. r\<lparr>vr_name := vr_name r @ GROUP_DEFAULT_SUFFIX\<rparr>) (groupsUsingIdentity groups identityId))))"

definition getHostSshSecrets :: "(nat \<Rightarrow> bool) \<Rightarrow> string \<Rightarrow> ssh_secret_values host_io" where
  "getHostSshSecrets fault i =
     io_bind (listHosts fault) (\<lambda>hosts.
       case find (\<lambda>h. host_id h = i) hosts of
         Some h \<Rightarrow>
           (if isSshHost h \<and> is_inline h
            then io_bind (secrets_get_all fault HostKeychainFailed HOST_KEYRING_SERVICE (map (vaultAccount i) HOST_SSH_SECRET_FIELDS))
              (\<lambda>vs. io_return \<lparr>sv_password = vs ! 0, sv_privateKey = vs ! 1, sv_keyPassphrase = vs ! 2\<rparr>)
            else io_return \<lparr>sv_password = None, sv_privateKey = None, sv_keyPassphrase = None\<rparr>)
       | None \<Rightarrow> io_return \<lparr>sv_password = None, sv_privateKey = None, sv_keyPassphrase = None\<rparr>)"

end
