(* ===== verification/Record_Links.thy ===== *)
theory Record_Links
  imports Io_Port
begin

text \<open>
  Lists of records that name each other by id: hosts through the host they are reached by, groups
  through their parent. A list is sound when the ids are distinct, every named id is listed and no
  record reaches itself; the edits the stores make keep a list sound.
\<close>

section \<open>Sound lists\<close>

definition links :: "('r \<Rightarrow> string) \<Rightarrow> ('r \<Rightarrow> string option) \<Rightarrow> 'r list \<Rightarrow> (string \<times> string) set" where
  "links idf out xs = {(idf x, t) | x t. x \<in> set xs \<and> out x = Some t}"

definition links_ok :: "('r \<Rightarrow> string) \<Rightarrow> ('r \<Rightarrow> string option) \<Rightarrow> 'r list \<Rightarrow> bool" where
  "links_ok idf out xs \<longleftrightarrow> distinct (map idf xs) \<and> acyclic (links idf out xs)
     \<and> (\<forall>x \<in> set xs. \<forall>t. out x = Some t \<longrightarrow> t \<in> idf ` set xs)"

lemma links_okD:
  assumes "links_ok idf out xs"
  shows "distinct (map idf xs)" "acyclic (links idf out xs)"
    and "x \<in> set xs \<Longrightarrow> out x = Some t \<Longrightarrow> t \<in> idf ` set xs"
  using assms by (auto simp: links_ok_def)

lemma links_iff: "distinct (map idf xs) \<Longrightarrow> x \<in> set xs \<Longrightarrow> (idf x, t) \<in> links idf out xs \<longleftrightarrow> out x = Some t"
  by (auto simp: links_def) (metis distinct_map inj_onD)

lemma links_pairs: "links idf out xs = {(i, t). (i, Some t) \<in> set (map (\<lambda>x. (idf x, out x)) xs)}"
  by (force simp: links_def)

lemma links_map: "(\<And>x. idf (m x) = idf x) \<Longrightarrow> links idf out (map m xs) = {(idf x, t) | x t. x \<in> set xs \<and> out (m x) = Some t}"
  unfolding links_def by (auto simp: image_iff) metis+

lemma find_id_None: "find (\<lambda>x. idf x = i) xs = None \<longleftrightarrow> i \<notin> idf ` set xs"
  by (auto simp: find_None_iff)

section \<open>Edits\<close>

lemma acyclic_redirect:
  assumes "acyclic R" and "(t, a) \<notin> {(x, y) \<in> R. x \<noteq> a}\<^sup>*"
  shows "acyclic (insert (a, t) {(x, y) \<in> R. x \<noteq> a})"
proof -
  have "acyclic {(x, y) \<in> R. x \<noteq> a}" using assms(1) by (rule acyclic_subset) auto
  then show ?thesis using assms(2) by (simp add: acyclic_insert)
qed

lemma links_put:
  "distinct (map idf xs) \<Longrightarrow> links idf out (put_record idf r xs) =
    {(x, y) \<in> links idf out xs. x \<noteq> idf r} \<union> {(idf r, t) | t. out r = Some t}"
  by (auto simp: links_def set_put_record_iff)

text \<open>A record is stored: its target is listed and does not lead back to it.\<close>

lemma links_ok_put:
  assumes "links_ok idf out xs"
    and "\<And>t. out r = Some t \<Longrightarrow> t \<in> idf ` set xs \<and> (t, idf r) \<notin> {(x, y) \<in> links idf out xs. x \<noteq> idf r}\<^sup>*"
  shows "links_ok idf out (put_record idf r xs)"
proof -
  note d = links_okD(1) [OF assms(1)] and a = links_okD(2) [OF assms(1)]
  have "acyclic (links idf out (put_record idf r xs))"
  proof (cases "out r")
    case None
    then show ?thesis using a by (auto simp: links_put [OF d] intro: acyclic_subset)
  next
    case (Some t)
    then show ?thesis using acyclic_redirect [OF a, of t "idf r"] assms(2) [OF Some] by (simp add: links_put [OF d])
  qed
  moreover have "set (put_record idf r xs) \<subseteq> insert r (set xs)" by (rule set_put_record)
  ultimately show ?thesis using assms unfolding links_ok_def image_put_record by (auto 0 3)
qed

text \<open>A record keeps its id and its target.\<close>

lemma links_ok_same:
  assumes "links_ok idf out xs" and "map (\<lambda>x. (idf x, out x)) ys = map (\<lambda>x. (idf x, out x)) xs"
  shows "links_ok idf out ys"
proof -
  have ids: "map idf ys = map idf xs" using arg_cong [OF assms(2), of "map fst"] by (simp add: comp_def)
  have "t \<in> idf ` set xs" if "(i, Some t) \<in> set (map (\<lambda>x. (idf x, out x)) xs)" for i t
    using that links_okD(3) [OF assms(1)] by auto
  then have "t \<in> idf ` set ys" if "y \<in> set ys" "out y = Some t" for y t
    using that ids assms(2) by (metis (mono_tags, lifting) image_eqI list.set_map)
  moreover have "links idf out ys = links idf out xs" unfolding links_pairs assms(2) ..
  ultimately show ?thesis using assms(1) ids unfolding links_ok_def by metis
qed

text \<open>A record nothing names is dropped.\<close>

lemma links_ok_drop:
  assumes "links_ok idf out xs" and "\<And>x. x \<in> set xs \<Longrightarrow> out x \<noteq> Some i"
  shows "links_ok idf out (filter (\<lambda>x. idf x \<noteq> i) xs)"
proof -
  have "links idf out (filter (\<lambda>x. idf x \<noteq> i) xs) \<subseteq> links idf out xs" by (auto simp: links_def)
  then have "acyclic (links idf out (filter (\<lambda>x. idf x \<noteq> i) xs))"
    by (rule acyclic_subset [OF links_okD(2) [OF assms(1)]])
  moreover have "t \<in> idf ` {x \<in> set xs. idf x \<noteq> i}" if "x \<in> set xs" "out x = Some t" for x t
    using links_okD(3) [OF assms(1) that] assms(2) [OF that(1)] that(2) by auto
  ultimately show ?thesis using links_okD(1) [OF assms(1)] by (auto simp: links_ok_def distinct_map_filter)
qed

text \<open>A record is dropped, and the records naming it take its own target.\<close>

lemma links_ok_contract:
  assumes ok: "links_ok idf out xs" and r: "r \<in> set xs" "idf r = i"
    and m: "\<And>x. idf (m x) = idf x" "\<And>x. out (m x) = (if out x = Some i then out r else out x)"
  shows "links_ok idf out (map m (filter (\<lambda>x. idf x \<noteq> i) xs))"
proof -
  note d = links_okD(1) [OF ok] and a = links_okD(2) [OF ok]
  let ?L = "links idf out xs"
  have step: "(idf x, t) \<in> ?L\<^sup>+" if x: "x \<in> set xs" "out (m x) = Some t" for x t
  proof (cases "out x = Some i")
    case True
    then have "(idf x, i) \<in> ?L" "(i, t) \<in> ?L"
      using x m(2) [of x] r links_iff [OF d x(1)] links_iff [OF d r(1)] by auto
    then show ?thesis by (meson r_into_trancl trancl_into_trancl)
  next
    case False
    then show ?thesis using x m(2) [of x] links_iff [OF d x(1)] by auto
  qed
  have sub: "links idf out (map m (filter (\<lambda>x. idf x \<noteq> i) xs)) \<subseteq> ?L\<^sup>+"
    using step m(1) by (force simp: links_def)
  have "acyclic (?L\<^sup>+)" using a by (simp add: acyclic_def)
  then have "acyclic (links idf out (map m (filter (\<lambda>x. idf x \<noteq> i) xs)))" using sub by (rule acyclic_subset)
  moreover have "t \<in> idf ` {x \<in> set xs. idf x \<noteq> i}" if "x \<in> set xs" "out (m x) = Some t" for x t
  proof -
    have "out r \<noteq> Some i" using a r links_iff [OF d r(1)] by (auto simp: acyclic_def)
    then have "t \<noteq> i \<and> (\<exists>y \<in> set xs. out y = Some t)" using that m(2) [of x] r(1) by (auto split: if_splits)
    then show ?thesis using links_okD(3) [OF ok] by blast
  qed
  ultimately show ?thesis using d m(1) by (auto simp: links_ok_def distinct_map_filter comp_def image_image)
qed

end
