(* ===== verification/Host_Store_Inv.thy ===== *)
theory Host_Store_Inv
  imports Host_Store Record_Links
begin

text \<open>
  What every mutator of the host store keeps, whichever calls fail: ids are unique, a host's own
  credentials name the host itself, the host it is reached through exists, no host is reached
  through itself, and the group tree is the one the records spell out.
\<close>

section \<open>Reads and writes of the file\<close>

lemma host_file_reads [simp]:
  "hosts_of (set_hosts xs f) = xs" "groups_of (set_hosts xs f) = groups_of f"
  "hosts_of (set_groups ys f) = hosts_of f" "groups_of (set_groups ys f) = ys"
  "hosts_of (set_host_graves ts f) = hosts_of f" "groups_of (set_host_graves ts f) = groups_of f"
  by (simp_all add: set_hosts_def set_groups_def set_host_graves_def hosts_of_def groups_of_def)

lemma host_file_graves [simp]:
  "hosts_of (fold (\<lambda>f. f) (host_graves_entry g) f) = hosts_of f"
  "groups_of (fold (\<lambda>f. f) (host_graves_entry g) f) = groups_of f"
  by (cases g; simp add: host_graves_entry_def)+

lemma map_base_simps [simp]:
  "base (map_base f h) = f (base h)" "isSshHost (map_base f h) = isSshHost h" "is_inline (map_base f h) = is_inline h"
  "hostFingerprint (map_base f h) = hostFingerprint h" "rides (map_base f h) = rides h"
  "owner_error (map_base f h) = owner_error h" "bound_identity (map_base f h) = bound_identity h"
  "storedFlag (Some (map_base f h)) = storedFlag (Some h)"
  by (cases h; auto)+

lemma set_flat_pin_simps [simp]:
  "base (set_flat_pin p h) = base h" "isSshHost (set_flat_pin p h) = isSshHost h" "is_inline (set_flat_pin p h) = is_inline h"
  "hostFingerprint (set_flat_pin p h) = p" "rides (set_flat_pin p h) = rides h"
  "owner_error (set_flat_pin p h) = owner_error h" "bound_identity (set_flat_pin p h) = bound_identity h"
  "storedFlag (Some (set_flat_pin p h)) = storedFlag (Some h)"
  by (cases h; auto)+

lemma withPins_simps [simp]:
  "h_id (base (withPins h ps)) = h_id (base h)" "h_host (base (withPins h ps)) = h_host (base h)"
  "h_name (base (withPins h ps)) = h_name (base h)"
  "isSshHost (withPins h ps) = isSshHost h" "is_inline (withPins h ps) = is_inline h"
  "rides (withPins h ps) = rides h" "owner_error (withPins h ps) = owner_error h"
  "bound_identity (withPins h ps) = bound_identity h" "storedFlag (Some (withPins h ps)) = storedFlag (Some h)"
  by (simp_all add: withPins_def Let_def)

lemma withFingerprint_simps [simp]:
  "h_id (base (withFingerprint h p)) = h_id (base h)" "h_host (base (withFingerprint h p)) = h_host (base h)"
  "isSshHost (withFingerprint h p) = isSshHost h" "is_inline (withFingerprint h p) = is_inline h"
  "rides (withFingerprint h p) = rides h" "owner_error (withFingerprint h p) = owner_error h"
  "bound_identity (withFingerprint h p) = bound_identity h" "storedFlag (Some (withFingerprint h p)) = storedFlag (Some h)"
  by (simp_all add: withFingerprint_def)

lemma written_host_simps [simp]:
  "h_id (base (written_host c h e)) = h_id (base h)" "rides (written_host c h e) = rides h"
  "isSshHost (written_host c h e) = isSshHost h" "is_inline (written_host c h e) = is_inline h"
  "owner_error (written_host c h e) = owner_error h" "storedFlag (Some (written_host c h e)) = storedFlag (Some h)"
  "bound_identity (written_host c h e) = bound_identity h"
  by (simp_all add: written_host_def)

section \<open>Routes\<close>

text \<open>The host a host is reached through.\<close>

definition route :: "host \<Rightarrow> string option" where
  "route h = (if truthy (rides h) then rides h else None)"

definition hosts_ok :: "host list \<Rightarrow> bool" where
  "hosts_ok hosts \<longleftrightarrow> links_ok host_id route hosts \<and> (\<forall>h \<in> set hosts. owner_error h (host_id h) = None)"

lemma route_Some_iff: "route h = Some t \<longleftrightarrow> rides h = Some t \<and> t \<noteq> []"
  by (auto simp: route_def truthy_iff)

lemma host_by_id_iff: "distinct (map host_id hosts) \<Longrightarrow> host_by_id hosts i = Some h \<longleftrightarrow> h \<in> set hosts \<and> host_id h = i"
  using find_id_iff [of host_id "rev hosts" i h] by (simp add: host_by_id_def rev_map [symmetric])

text \<open>A walk that ends visits everything the target is reached through.\<close>

lemma linked_closed:
  assumes "distinct (map host_id hosts)" and "linked (host_by_id hosts) (Some t) hops" and "(t, x) \<in> (links host_id route hosts)\<^sup>*"
  shows "t = [] \<or> x \<in> host_id ` set hops"
  using assms(2,3)
proof (induction hops arbitrary: t)
  case Nil
  then show ?case by (auto simp: truthy_iff)
next
  case (Cons h hs)
  have h: "h \<in> set hosts" "host_id h = t" "isSshHost h" "linked (host_by_id hosts) (proxy_of h) hs"
    using Cons.prems(1) host_by_id_iff [OF assms(1)] by auto
  show ?case
  proof (cases rule: converse_rtranclE [OF Cons.prems(2)])
    case 1
    then show ?thesis using h by auto
  next
    case (2 y)
    then have "route h = Some y" using links_iff [OF assms(1) h(1)] h(2) by auto
    then have y: "proxy_of h = Some y" "y \<noteq> []" using h(3) by (cases h; auto simp: route_Some_iff)+
    show ?thesis using Cons.IH [of y] h(4) y 2(2) by auto
  qed
qed

lemma linked_ids: "linked (host_by_id hosts) cursor hops \<Longrightarrow> x \<in> host_id ` set hops \<Longrightarrow> x \<noteq> []"
  by (induction hops arbitrary: cursor) (auto simp: truthy_iff dest: host_by_id_SomeD)

lemma target_error_None:
  "target_error h t hosts role = None \<Longrightarrow> t \<noteq> host_id h \<and> t \<in> host_id ` set hosts"
  by (auto simp: target_error_def split: if_splits option.splits dest: find_SomeD)

lemma reference_error_None:
  assumes "reference_error h hosts = None" and "route h = Some t"
  obtains hops where "t \<in> host_id ` set hosts" and "valid_chain hosts (Some t) (Some (host_id h)) hops"
proof -
  have "\<exists>role. route_error h t hosts role = None"
    using assms by (auto simp: reference_error_def route_Some_iff truthy_iff split: host.splits if_splits)
  then obtain role where "target_error h t hosts role = None" "\<exists>c. jumpChain (Some t) (Some (host_id h)) hosts = Inr c"
    by (auto simp: route_error_def split: option.splits sum.splits)
  then show ?thesis using that target_error_None jumpChain_iff by blast
qed

lemma hosts_ok_put:
  assumes "hosts_ok hosts" and "reference_error h hosts = None"
    and "host_id r = host_id h" and "rides r = rides h" and "owner_error r (host_id r) = None"
  shows "hosts_ok (put_record host_id r hosts)"
proof -
  have ok: "links_ok host_id route hosts" and d: "distinct (map host_id hosts)"
    using assms(1) links_okD(1) by (auto simp: hosts_ok_def)
  have "t \<in> host_id ` set hosts \<and> (t, host_id r) \<notin> {(x, y) \<in> links host_id route hosts. x \<noteq> host_id r}\<^sup>*"
    if "route r = Some t" for t
  proof -
    have t: "route h = Some t" "t \<noteq> []" using that assms(4) by (auto simp: route_Some_iff)
    obtain hops where hops: "t \<in> host_id ` set hosts" "valid_chain hosts (Some t) (Some (host_id h)) hops"
      using reference_error_None [OF assms(2) t(1)] .
    have "{(x, y) \<in> links host_id route hosts. x \<noteq> host_id r}\<^sup>* \<subseteq> (links host_id route hosts)\<^sup>*"
      by (rule rtrancl_mono) auto
    moreover have "(t, host_id r) \<notin> (links host_id route hosts)\<^sup>*"
    proof
      assume "(t, host_id r) \<in> (links host_id route hosts)\<^sup>*"
      then have "host_id h \<in> host_id ` set hops"
        using linked_closed [OF d, of t hops] hops(2) t(2) assms(3) by (auto simp: valid_chain_def)
      then show False using linked_ids [of hosts "Some t" hops] hops(2) by (auto simp: valid_chain_def truthy_iff)
    qed
    ultimately show ?thesis using hops(1) by blast
  qed
  moreover have "set (put_record host_id r hosts) \<subseteq> insert r (set hosts)" by (rule set_put_record)
  ultimately show ?thesis using assms(1,5) links_ok_put [OF ok] unfolding hosts_ok_def by blast
qed

lemma hosts_ok_drop:
  assumes "hosts_ok hosts" and "filter (\<lambda>h. rides h = Some i) hosts = []"
  shows "hosts_ok (filter (\<lambda>x. host_id x \<noteq> i) hosts)"
  using assms links_ok_drop [of host_id route hosts i] by (auto simp: hosts_ok_def filter_empty_conv route_Some_iff)

lemma hosts_ok_map:
  assumes "hosts_ok hosts" and "\<And>h. host_id (m h) = host_id h \<and> rides (m h) = rides h \<and> owner_error (m h) = owner_error h"
  shows "hosts_ok (map m hosts)"
proof -
  have "map (\<lambda>x. (host_id x, route x)) (map m hosts) = map (\<lambda>x. (host_id x, route x)) hosts"
    using assms(2) by (simp add: route_def)
  then show ?thesis using assms links_ok_same [of host_id route hosts] unfolding hosts_ok_def by auto
qed

lemma hosts_ok_update:
  assumes "hosts_ok hosts" and "n < length hosts" and "host_id r = host_id (hosts ! n)" and "rides r = rides (hosts ! n)"
    and "owner_error r (host_id r) = None"
  shows "hosts_ok (hosts[n := r])"
proof -
  have "map (\<lambda>x. (host_id x, route x)) (hosts[n := r]) = map (\<lambda>x. (host_id x, route x)) hosts"
    using assms(2-4) by (simp add: map_update list_update_same_conv route_def)
  moreover have "set (hosts[n := r]) \<subseteq> insert r (set hosts)" by (rule set_update_subset_insert)
  ultimately show ?thesis using assms(1,5) links_ok_same [of host_id route hosts] unfolding hosts_ok_def by blast
qed

section \<open>Group trees\<close>

definition groups_ok :: "host_group list \<Rightarrow> bool" where
  "groups_ok groups \<longleftrightarrow> links_ok g_id g_parentId groups
     \<and> distinct (map (\<lambda>g. js_lower (js_trim (g_name g))) groups) \<and> (\<forall>g \<in> set groups. js_trim (g_name g) \<noteq> [])"

lemma group_by_id_iff: "distinct (map g_id groups) \<Longrightarrow> group_by_id groups i = Some g \<longleftrightarrow> g \<in> set groups \<and> g_id g = i"
  using find_id_iff [of g_id "rev groups" i g] by (simp add: group_by_id_def rev_map [symmetric])

lemma raw_parent_iff:
  "distinct (map g_id groups) \<Longrightarrow> raw_parent groups i = Some p \<longleftrightarrow> (\<exists>g \<in> set groups. g_id g = i \<and> g_parentId g = Some p)"
  by (auto simp: raw_parent_def bind_eq_Some_conv group_by_id_iff)

lemma raw_up_links: "distinct (map g_id groups) \<Longrightarrow> raw_up groups = links g_id g_parentId groups"
  by (auto simp: raw_up_def links_def raw_parent_iff)

text \<open>In a sound list the resolution of parents changes nothing.\<close>

lemma sound_parents:
  assumes "links_ok g_id g_parentId groups" and "g \<in> set groups"
  shows "parent_of groups (g_id g) = g_parentId g"
proof -
  note d = links_okD(1) [OF assms(1)]
  have "(p, g_id g) \<notin> (raw_up groups)\<^sup>*" if "g_parentId g = Some p" for p
    using links_okD(2) [OF assms(1)] links_iff [OF d assms(2), of p] that unfolding raw_up_links [OF d] acyclic_def
    by (meson rtrancl_into_trancl2)
  moreover have "g_parentId g = Some p \<Longrightarrow> p \<in> group_ids groups" for p
    using links_okD(3) [OF assms] by (simp add: group_ids_def)
  moreover have "raw_parent groups (g_id g) = g_parentId g"
    using assms(2) group_by_id_iff [OF d, of "g_id g" g] by (simp add: raw_parent_def)
  ultimately show ?thesis unfolding parent_of_eq
    using effectiveParentId_iff [of "g_id g" groups] by (cases "g_parentId g"; cases "effectiveParentId (g_id g) groups") fastforce+
qed

lemma ids_with_edge: "map g_id (with_edge grp groups) =
    (if g_id grp \<in> g_id ` set groups then map g_id groups else map g_id groups @ [g_id grp])"
  by (simp add: with_edge_def find_id_None comp_def)

lemma links_with_edge:
  assumes "distinct (map g_id groups)" and "g_parentId r = g_parentId grp" and "g_id r = g_id grp"
  shows "links g_id g_parentId (with_edge grp groups) = links g_id g_parentId (put_record g_id r groups)"
proof (cases "g_id grp \<in> g_id ` set groups")
  case True
  have w: "with_edge grp groups = map (\<lambda>g. if g_id g = g_id grp then g\<lparr>g_parentId := g_parentId grp\<rparr> else g) groups"
    using True by (simp add: with_edge_def find_id_None)
  have "links g_id g_parentId (with_edge grp groups) =
      {(g_id g, t) | g t. g \<in> set groups \<and> (if g_id g = g_id grp then g_parentId grp else g_parentId g) = Some t}"
    unfolding w by (subst links_map) auto
  also have "\<dots> = {(x, y) \<in> links g_id g_parentId groups. x \<noteq> g_id grp} \<union> {(g_id grp, t) | t. g_parentId grp = Some t}"
    using True by (auto simp: links_def split: if_splits)
  finally show ?thesis unfolding links_put [OF assms(1)] assms(2,3) .
next
  case False
  then have "with_edge grp groups = groups @ [grp]" by (simp add: with_edge_def find_id_None)
  then show ?thesis unfolding links_put [OF assms(1)] using False assms(2,3) by (auto simp: links_def image_iff)
qed

lemma group_edge_ok:
  assumes ok: "links_ok g_id g_parentId groups" and none: "parent_edge_error grp groups = None"
    and r: "g_parentId r = g_parentId grp" "g_id r = g_id grp"
  shows "links_ok g_id g_parentId (put_record g_id r groups)"
proof (rule links_ok_put [OF ok])
  fix p assume p: "g_parentId r = Some p"
  note d = links_okD(1) [OF ok]
  let ?R = "{(x, y) \<in> links g_id g_parentId groups. x \<noteq> g_id r}"
  show "p \<in> g_id ` set groups \<and> (p, g_id r) \<notin> ?R\<^sup>*"
  proof (cases "Option.bind (find (\<lambda>g. g_id g = g_id grp) groups) g_parentId = Some p")
    case True
    then obtain g where g: "g \<in> set groups" "g_id g = g_id r" "g_parentId g = Some p"
      using r(2) by (auto simp: bind_eq_Some_conv dest: find_SomeD)
    have "(g_id r, p) \<in> links g_id g_parentId groups" using g links_iff [OF d g(1), of p g_parentId] by simp
    moreover have "?R\<^sup>* \<subseteq> (links g_id g_parentId groups)\<^sup>*" by (rule rtrancl_mono) auto
    ultimately have "(p, g_id r) \<notin> ?R\<^sup>*" using links_okD(2) [OF ok] unfolding acyclic_def by (meson rtrancl_into_trancl2 subsetD)
    then show ?thesis using links_okD(3) [OF ok g(1,3)] by blast
  next
    case False
    then have e: "p \<in> g_id ` set groups" "parent_of (with_edge grp groups) (g_id grp) = Some p"
      using none p r by (auto simp: parent_edge_error_def Let_def list_ex_iff split: if_splits)
    have "distinct (map g_id (with_edge grp groups))" using d by (auto simp: ids_with_edge)
    then have "(p, g_id r) \<notin> (links g_id g_parentId (put_record g_id r groups))\<^sup>*"
      using e(2) r links_with_edge [OF d r] by (simp add: parent_of_eq effectiveParentId_iff raw_up_links)
    moreover have "?R\<^sup>* \<subseteq> (links g_id g_parentId (put_record g_id r groups))\<^sup>*"
      by (rule rtrancl_mono) (auto simp: links_put [OF d])
    ultimately show ?thesis using e(1) by blast
  qed
qed

lemma distinct_names_put:
  assumes "distinct (map idf xs)" and "distinct (map nm xs)" and "\<And>x. x \<in> set xs \<Longrightarrow> idf x \<noteq> idf r \<Longrightarrow> nm x \<noteq> nm r"
  shows "distinct (map nm (put_record idf r xs))"
  using assms
proof (induction xs)
  case (Cons x xs)
  have "nm ` set (put_record idf r xs) \<subseteq> insert (nm r) (nm ` set xs)" using set_put_record [of idf r xs] by auto
  moreover have "nm r \<notin> nm ` set xs" if "idf x = idf r" using Cons.prems(1,3) that by (auto simp: image_iff) metis
  moreover have "nm x \<noteq> nm r" if "idf x \<noteq> idf r" using Cons.prems(3) that by simp
  ultimately show ?case using Cons by auto
qed simp

lemma groups_ok_put:
  assumes "groups_ok groups" and "js_trim (g_name grp) \<noteq> []"
    and "\<not> list_ex (\<lambda>g. g_id g \<noteq> g_id grp \<and> same_group_name (g_name g) (g_name grp)) groups"
    and "parent_edge_error grp groups = None"
  shows "groups_ok (put_record g_id (grp\<lparr>g_updatedAt := t\<rparr>) groups)"
proof -
  let ?r = "grp\<lparr>g_updatedAt := t\<rparr>"
  have "distinct (map (\<lambda>g. js_lower (js_trim (g_name g))) (put_record g_id ?r groups))"
    using assms(1,3) by (intro distinct_names_put) (auto simp: groups_ok_def links_ok_def list_ex_iff same_group_name_def)
  moreover have "links_ok g_id g_parentId (put_record g_id ?r groups)"
    using assms(1,4) by (intro group_edge_ok) (auto simp: groups_ok_def)
  moreover have "set (put_record g_id ?r groups) \<subseteq> insert ?r (set groups)" by (rule set_put_record)
  ultimately show ?thesis using assms(1,2) by (auto simp: groups_ok_def)
qed

lemma groups_ok_delete:
  assumes "groups_ok groups" and "find (\<lambda>g. g_id g = i) groups \<noteq> None"
  shows "groups_ok (map (reparent clock i (parent_of groups i)) (filter (\<lambda>g. g_id g \<noteq> i) groups))"
proof -
  obtain r where r: "r \<in> set groups" "g_id r = i" using assms(2) by (auto simp: find_None_iff)
  have ok: "links_ok g_id g_parentId groups" using assms(1) by (simp add: groups_ok_def)
  have p: "parent_of groups i = g_parentId r" using sound_parents [OF ok r(1)] r(2) by simp
  have "links_ok g_id g_parentId (map (reparent clock i (parent_of groups i)) (filter (\<lambda>g. g_id g \<noteq> i) groups))"
    by (rule links_ok_contract [OF ok r]) (auto simp: reparent_def p)
  moreover have "g_name (reparent clock i q g) = g_name g" for q g by (simp add: reparent_def)
  ultimately show ?thesis using assms(1) by (auto simp: groups_ok_def comp_def distinct_map_filter)
qed

end
