(* ===== verification/Host_Store_Wp.thy ===== *)
theory Host_Store_Wp
  imports Host_Store_Inv
begin

text \<open>
  The calls of the host store as rules on the worlds before and after: the keychain entries of a
  host, writing its secrets, rolling back, releasing the entries a new record no longer names.
\<close>

section \<open>The calls\<close>

abbreviation host_entry :: "string \<Rightarrow> string \<Rightarrow> string \<times> string" where
  "host_entry i field \<equiv> (HOST_KEYRING_SERVICE, vaultAccount i field)"

definition host_entries :: "host \<Rightarrow> (string \<times> string) set" where
  "host_entries h = host_entry (host_id h) ` set (secretFieldsFor h)"

lemma vcg_deleteAccounts [vcg]:
  assumes "\<And>w' n. same_but_chain w w' \<Longrightarrow> (\<And>k. chain w' k = chain w k \<or> chain w' k = None \<and> k \<in> host_entry i ` set fs) \<Longrightarrow>
      fault n \<Longrightarrow> Q (Inl HostKeychainFailed) w'"
    and "\<And>w'. same_but_chain w w' \<Longrightarrow> chain w' = (\<lambda>k. if k \<in> host_entry i ` set fs then None else chain w k) \<Longrightarrow> Q (Inr ()) w'"
  shows "wp (deleteAccounts fault i fs) Q w"
  unfolding deleteAccounts_def
  by (rule vcg_delete_all) (use assms in \<open>simp_all add: image_image\<close>)

lemma vcg_deleteAccounts_bind [vcg]:
  assumes "\<And>w' n. same_but_chain w w' \<Longrightarrow> (\<And>k. chain w' k = chain w k \<or> chain w' k = None \<and> k \<in> host_entry i ` set fs) \<Longrightarrow>
      fault n \<Longrightarrow> Q (Inl HostKeychainFailed) w'"
    and "\<And>w'. same_but_chain w w' \<Longrightarrow> chain w' = (\<lambda>k. if k \<in> host_entry i ` set fs then None else chain w k) \<Longrightarrow> wp (f ()) Q w'"
  shows "wp (io_bind (deleteAccounts fault i fs) f) Q w"
  unfolding wp_bind by (rule vcg_deleteAccounts) (simp_all add: assms)

declare vaultAccount_eq_iff [simp]

lemma host_field_neq [simp]:
  "HOST_SSH_PASSWORD_FIELD \<noteq> HOST_SSH_PRIVATE_KEY_FIELD" "HOST_SSH_PASSWORD_FIELD \<noteq> HOST_SSH_KEY_PASSPHRASE_FIELD"
  "HOST_SSH_PRIVATE_KEY_FIELD \<noteq> HOST_SSH_PASSWORD_FIELD" "HOST_SSH_PRIVATE_KEY_FIELD \<noteq> HOST_SSH_KEY_PASSPHRASE_FIELD"
  "HOST_SSH_KEY_PASSPHRASE_FIELD \<noteq> HOST_SSH_PASSWORD_FIELD" "HOST_SSH_KEY_PASSPHRASE_FIELD \<noteq> HOST_SSH_PRIVATE_KEY_FIELD"
  "HOST_RDP_PASSWORD_FIELD = HOST_SSH_PASSWORD_FIELD"
  by (simp_all add: keychain_names)

lemma host_field_mem [simp]:
  "HOST_SSH_PASSWORD_FIELD \<in> set secret_fields" "HOST_SSH_PRIVATE_KEY_FIELD \<in> set secret_fields"
  "HOST_SSH_KEY_PASSPHRASE_FIELD \<in> set secret_fields"
  by (simp_all add: secret_fields_def)

lemma host_fields_sub: "field \<in> set (secretFieldsFor h) \<Longrightarrow> field \<in> set HOST_SSH_SECRET_FIELDS"
  by (auto simp: secretFieldsFor_def HOST_SSH_SECRET_FIELDS_def HOST_RDP_SECRET_FIELDS_def split: if_splits)

lemma ssh_fields_sub: "field \<in> set HOST_SSH_SECRET_FIELDS \<Longrightarrow> field \<in> set secret_fields"
  by (auto simp: HOST_SSH_SECRET_FIELDS_def)

text \<open>A rollback clears accounts of the host it is given at most, and never rejects.\<close>

lemma wp_rollback:
  assumes "\<And>w'. same_but_chain w w' \<Longrightarrow> (\<And>k. chain w' k = chain w k \<or> chain w' k = None \<and> k \<in> host_entries h) \<Longrightarrow> Q (Inr ()) w'"
  shows "wp (rollbackNewHost fault h) Q w"
  unfolding rollbackNewHost_def wps
proof (rule vcg_deleteAccounts, goal_cases)
  case (1 w' n)
  show ?case unfolding sum.case wps by (rule assms [OF 1(1)]) (use 1(2) in \<open>unfold host_entries_def, blast\<close>)
next
  case (2 w')
  show ?case unfolding sum.case by (rule assms [OF 2(1)]) (simp add: 2(2) host_entries_def)
qed

text \<open>Which input belongs to a field, and the record once its flags are what the writes reported.\<close>

definition secret_for :: "host_secret_input \<Rightarrow> string \<Rightarrow> secret_value" where
  "secret_for s field =
     (if field = HOST_SSH_PASSWORD_FIELD then hs_password s
      else if field = HOST_SSH_PRIVATE_KEY_FIELD then hs_privateKey s
      else if field = HOST_SSH_KEY_PASSPHRASE_FIELD then hs_keyPassphrase s
      else SecUndefined)"

fun with_flags :: "(string \<Rightarrow> bool) \<Rightarrow> host \<Rightarrow> host" where
  "with_flags F (SshHost b s) = SshHost b (s\<lparr>s_credential := (case s_credential s of
     SshInline c \<Rightarrow> SshInline (c\<lparr>si_hasPassword := F HOST_SSH_PASSWORD_FIELD,
       si_hasPrivateKey := F HOST_SSH_PRIVATE_KEY_FIELD, si_hasKeyPassphrase := F HOST_SSH_KEY_PASSPHRASE_FIELD\<rparr>)
   | x \<Rightarrow> x)\<rparr>)"
| "with_flags F (RdpHost b d) = RdpHost b (d\<lparr>d_credential := (case d_credential d of
     RdpInline c \<Rightarrow> RdpInline (c\<lparr>ri_hasPassword := F HOST_RDP_PASSWORD_FIELD\<rparr>) | x \<Rightarrow> x)\<rparr>)"

lemma with_flags_simps [simp]:
  "base (with_flags F h) = base h" "isSshHost (with_flags F h) = isSshHost h" "is_inline (with_flags F h) = is_inline h"
  "rides (with_flags F h) = rides h" "owner_error (with_flags F h) = owner_error h"
  "hostFingerprint (with_flags F h) = hostFingerprint h" "bound_identity (with_flags F h) = bound_identity h"
  "secretFieldsFor (with_flags F h) = secretFieldsFor h"
proof -
  show r: "base (with_flags F h) = base h" "isSshHost (with_flags F h) = isSshHost h" "is_inline (with_flags F h) = is_inline h"
    "rides (with_flags F h) = rides h" "hostFingerprint (with_flags F h) = hostFingerprint h"
    "bound_identity (with_flags F h) = bound_identity h" "owner_error (with_flags F h) = owner_error h"
    by (cases h; auto split: ssh_credential_binding.splits rdp_credential_binding.splits)+
  show "secretFieldsFor (with_flags F h) = secretFieldsFor h" unfolding secretFieldsFor_def r ..
qed

definition wrote :: "string \<Rightarrow> host_secret_input \<Rightarrow> string list \<Rightarrow> keychain \<Rightarrow> keychain \<Rightarrow> bool" where
  "wrote i secrets fs c c' \<longleftrightarrow> (\<forall>field \<in> set fs. c' (host_entry i field) = stored (secret_for secrets field) (c (host_entry i field)))
     \<and> (\<forall>k. k \<notin> host_entry i ` set fs \<longrightarrow> c' k = c k)"

text \<open>What a write that rejected halfway leaves: a host that was there keeps every secret not yet reached.\<close>

definition partly :: "host \<Rightarrow> host_secret_input \<Rightarrow> host option \<Rightarrow> keychain \<Rightarrow> keychain \<Rightarrow> bool" where
  "partly h secrets existing c c' \<longleftrightarrow> (\<forall>k. k \<notin> host_entries h \<longrightarrow> c' k = c k)
     \<and> (existing \<noteq> None \<longrightarrow> (\<forall>field \<in> set (secretFieldsFor h). c' (host_entry (host_id h) field) = c (host_entry (host_id h) field)
          \<or> c' (host_entry (host_id h) field) = stored (secret_for secrets field) (c (host_entry (host_id h) field))))"

definition next_flags :: "host_secret_input \<Rightarrow> host option \<Rightarrow> string \<Rightarrow> bool" where
  "next_flags secrets existing field = flagged (secret_for secrets field) (storedFlag existing field)"

text \<open>The refusals that only show once the stored record is known.\<close>

fun material_refusal :: "host_store_error \<Rightarrow> bool" where
  "material_refusal (OwnsNoAccounts _ _) = True"
| "material_refusal (StoresNoKeyMaterial _) = True"
| "material_refusal _ = False"

lemma nextSsh_wp:
  assumes ok: "\<And>w'. same_but_chain w w' \<Longrightarrow> wrote (h_id b) secrets (secretFieldsFor (SshHost b s)) (chain w) (chain w') \<Longrightarrow>
      wp (f (s_credential (ssh_of (with_flags (next_flags secrets existing) (SshHost b s))))) Q w'"
    and fail: "\<And>w' n. same_but_chain w w' \<Longrightarrow> partly (SshHost b s) secrets existing (chain w) (chain w') \<Longrightarrow>
      fault n \<Longrightarrow> Q (Inl HostKeychainFailed) w'"
    and refused: "\<And>e. material_refusal e \<Longrightarrow> Q (Inl e) w"
  shows "wp (io_bind (nextSshCredential fault b s secrets existing) f) Q w"
proof (cases "s_credential s")
  case (SshBoundTo i)
  then show ?thesis using ok [of w] refused
    by (auto simp: nextSshCredential_def assertNoHostSecrets_def wps wrote_def secretFieldsFor_def)
next
  case (SshInline c)
  have fs: "secretFieldsFor (SshHost b s) = [HOST_SSH_PASSWORD_FIELD, HOST_SSH_PRIVATE_KEY_FIELD, HOST_SSH_KEY_PASSPHRASE_FIELD]"
    using SshInline by (simp add: secretFieldsFor_def HOST_SSH_SECRET_FIELDS_def)
  let ?E = "host_entries (SshHost b s)"
  have ent: "?E = {host_entry (h_id b) HOST_SSH_PASSWORD_FIELD, host_entry (h_id b) HOST_SSH_PRIVATE_KEY_FIELD,
      host_entry (h_id b) HOST_SSH_KEY_PASSPHRASE_FIELD}" by (auto simp: host_entries_def fs)
  have undo: "if existing = None
      then wp (rollbackNewHost fault (SshHost b s)) (\<lambda>r w'. case r of Inl e \<Rightarrow> Q (Inl e) w' | Inr x \<Rightarrow> Q (Inl HostKeychainFailed) w') v
      else Q (Inl HostKeychainFailed) v"
    if v: "same_but_chain w v" "partly (SshHost b s) secrets existing (chain w) (chain v)" and n: "fault n" for v n
  proof -
    have "wp (rollbackNewHost fault (SshHost b s))
        (\<lambda>r w'. case r of Inl e \<Rightarrow> Q (Inl e) w' | Inr x \<Rightarrow> Q (Inl HostKeychainFailed) w') v" if new: "existing = None"
    proof (rule wp_rollback)
      fix w' assume w': "same_but_chain v w'" "\<And>k. chain w' k = chain v k \<or> chain w' k = None \<and> k \<in> ?E"
      have "partly (SshHost b s) secrets existing (chain w) (chain w')"
        using v(2) w'(2) unfolding partly_def new by metis
      then show "case Inr () of Inl e \<Rightarrow> Q (Inl e) w' | Inr x \<Rightarrow> Q (Inl HostKeychainFailed) w'"
        unfolding sum.case by (rule fail [OF same_but_chain_trans [OF v(1) w'(1)] _ n])
    qed
    then show ?thesis using fail [OF v n] by simp
  qed
  show ?thesis
    unfolding nextSshCredential_def SshInline ssh_credential_binding.case writeHostSecret_def wps
  proof (rule wp_write_secret, goal_cases)
    case p: (1 w1)
    show ?case unfolding sum.case wps
    proof (rule wp_write_secret, goal_cases)
      case q: (1 w2)
      show ?case unfolding sum.case wps
      proof (rule wp_write_secret, goal_cases)
        case r: (1 w3)
        have "wrote (h_id b) secrets (secretFieldsFor (SshHost b s)) (chain w) (chain w3)"
          using p(2) q(2) r(2) by (auto simp: wrote_def fs secret_for_def)
        then show ?case using ok [OF same_but_chain_trans [OF same_but_chain_trans [OF p(1) q(1)] r(1)]]
          by (simp add: SshInline next_flags_def secret_for_def wps)
      next
        case r: (2 w3 n)
        show ?case unfolding sum.case
          by (rule undo [OF same_but_chain_trans [OF same_but_chain_trans [OF p(1) q(1)] r(1)] _ r(3)]) (use p(2) q(2) r(2) in \<open>auto simp: ent partly_def fs secret_for_def\<close>)
      qed
    next
      case q: (2 w2 n)
      show ?case unfolding sum.case
        by (rule undo [OF same_but_chain_trans [OF p(1) q(1)] _ q(3)]) (use p(2) q(2) in \<open>auto simp: ent partly_def fs secret_for_def\<close>)
    qed
  next
    case p: (2 w1 n)
    show ?case unfolding sum.case by (rule undo [OF p(1) _ p(3)]) (use p(2) in \<open>simp add: partly_def\<close>)
  qed
qed

lemma nextRdp_wp:
  assumes ok: "\<And>w'. same_but_chain w w' \<Longrightarrow> wrote (h_id b) secrets (secretFieldsFor (RdpHost b d)) (chain w) (chain w') \<Longrightarrow>
      wp (f (d_credential (rdp_of (with_flags (next_flags secrets existing) (RdpHost b d))))) Q w'"
    and fail: "\<And>w' n. same_but_chain w w' \<Longrightarrow> partly (RdpHost b d) secrets existing (chain w) (chain w') \<Longrightarrow>
      fault n \<Longrightarrow> Q (Inl HostKeychainFailed) w'"
    and refused: "\<And>e. material_refusal e \<Longrightarrow> Q (Inl e) w"
  shows "wp (io_bind (nextRdpCredential fault b d secrets existing) f) Q w"
proof (cases "d_credential d")
  case (RdpBoundTo i)
  then show ?thesis using ok [of w] refused
    by (auto simp: nextRdpCredential_def assertNoHostSecrets_def wps wrote_def secretFieldsFor_def)
next
  case (RdpInline c)
  have fs: "secretFieldsFor (RdpHost b d) = [HOST_RDP_PASSWORD_FIELD]"
    using RdpInline by (simp add: secretFieldsFor_def HOST_RDP_SECRET_FIELDS_def)
  have "wp (write_secret fault HostKeychainFailed HOST_KEYRING_SERVICE (vaultAccount (h_id b) HOST_RDP_PASSWORD_FIELD)
      (hs_password secrets) (storedFlag existing HOST_RDP_PASSWORD_FIELD))
    (\<lambda>r w'. case r of Inl e \<Rightarrow> Q (Inl e) w' | Inr pw \<Rightarrow> wp (f (RdpInline (c\<lparr>ri_hasPassword := pw\<rparr>))) Q w') w"
  proof (rule wp_write_secret, goal_cases)
    case (1 w1)
    have "wrote (h_id b) secrets (secretFieldsFor (RdpHost b d)) (chain w) (chain w1)"
      using 1(2) by (auto simp: wrote_def fs secret_for_def)
    then show ?case using ok [OF 1(1)] by (simp add: RdpInline next_flags_def secret_for_def)
  next
    case (2 w1 n)
    show ?case unfolding sum.case by (rule fail [OF 2(1) _ 2(3)]) (simp add: 2(2) partly_def)
  qed
  then show ?thesis using refused [of "StoresNoKeyMaterial (h_name b)"]
    by (simp add: nextRdpCredential_def RdpInline writeHostSecret_def wps cong: sum.case_cong)
qed

text \<open>The secrets of a host are written, or the call rejects: by the keychain, or by a refusal that came first.\<close>

lemma vcg_nextCredential [vcg]:
  assumes "\<And>w' n. same_but_chain w w' \<Longrightarrow> partly h secrets existing (chain w) (chain w') \<Longrightarrow>
      fault n \<Longrightarrow> Q (Inl HostKeychainFailed) w'"
    and "\<And>e. material_refusal e \<Longrightarrow> Q (Inl e) w"
    and "\<And>w'. same_but_chain w w' \<Longrightarrow> wrote (host_id h) secrets (secretFieldsFor h) (chain w) (chain w') \<Longrightarrow>
      wp (f (with_flags (next_flags secrets existing) h)) Q w'"
  shows "wp (io_bind (nextCredential fault h secrets existing) f) Q w"
proof -
  have assoc: "wp (io_bind (io_bind m g) k) Q w = wp (io_bind m (\<lambda>x. io_bind (g x) k)) Q w" for m g k
    by (simp add: wps cong: sum.case_cong)
  show ?thesis
  proof (cases h)
    case (SshHost b s)
    then show ?thesis unfolding nextCredential_def SshHost host.case assoc
      by (intro nextSsh_wp) (use assms SshHost in \<open>auto simp: wps\<close>)
  next
    case (RdpHost b d)
    then show ?thesis unfolding nextCredential_def RdpHost host.case assoc
      by (intro nextRdp_wp) (use assms RdpHost in \<open>auto simp: wps\<close>)
  qed
qed

lemma vcg_references [vcg]:
  assumes "\<And>e. reference_error h hosts = Some e \<Longrightarrow> Q (Inl e) w"
    and "reference_error h hosts = None \<Longrightarrow> wp (f ()) Q w"
  shows "wp (io_bind (assertReferences h hosts) f) Q w"
  using assms by (cases "reference_error h hosts") (auto simp: assertReferences_def wps)

lemma vcg_default_identity [vcg]:
  assumes "\<And>e. e = IdentityReadFailed \<or> e = DefaultIdentityMissing (g_name grp) \<Longrightarrow> Q (Inl e) w"
    and "wp (f ()) Q w"
  shows "wp (io_bind (check_default_identity findIdentity grp groups) f) Q w"
  using assms by (auto simp: check_default_identity_def wps split: option.splits)

text \<open>The accounts the new record can no longer name.\<close>

definition stale_fields :: "host \<Rightarrow> host option \<Rightarrow> string list" where
  "stale_fields h existing =
     (case existing of None \<Rightarrow> [] | Some e \<Rightarrow> filter (\<lambda>f. f \<notin> set (secretFieldsFor h)) (secretFieldsFor e))"

lemma wp_release_fields:
  assumes "\<And>w' left. same_but_chain w w' \<Longrightarrow> (\<And>k. chain w' k = chain w k \<or> chain w' k = None \<and> k \<in> host_entry i ` set fs) \<Longrightarrow>
      (left = [] \<Longrightarrow> chain w' = (\<lambda>k. if k \<in> host_entry i ` set fs then None else chain w k)) \<Longrightarrow>
      (left \<noteq> [] \<Longrightarrow> \<exists>n. fault n) \<Longrightarrow> Q (Inr left) w'"
  shows "wp (release_fields fault i fs) Q w"
  using assms
proof (induction fs arbitrary: w Q)
  case Nil
  then show ?case by (auto simp: wps)
next
  case (Cons field fs)
  have rest: "wp (release_fields fault i fs) (\<lambda>r w'. case r of Inl e \<Rightarrow> Q (Inl e) w' | Inr rst \<Rightarrow> Q (Inr (left @ rst)) w') v"
    if v: "same_but_chain w v" "\<And>k. chain v k = chain w k \<or> chain v k = None \<and> k = host_entry i field"
      "left = [] \<Longrightarrow> chain v (host_entry i field) = None" "left \<noteq> [] \<Longrightarrow> \<exists>n. fault n" for v left
  proof (rule Cons.IH, unfold sum.case)
    fix w' :: "host_file world" and rst :: "string list"
    assume s: "same_but_chain v w'" and k: "\<And>k. chain w' k = chain v k \<or> chain w' k = None \<and> k \<in> host_entry i ` set fs"
      and d: "rst = [] \<Longrightarrow> chain w' = (\<lambda>k. if k \<in> host_entry i ` set fs then None else chain v k)" and f: "rst \<noteq> [] \<Longrightarrow> \<exists>n. fault n"
    show "Q (Inr (left @ rst)) w'"
    proof (rule Cons.prems [OF same_but_chain_trans [OF v(1) s]])
      show "chain w' k = chain w k \<or> chain w' k = None \<and> k \<in> host_entry i ` set (field # fs)" for k
        using k [of k] v(2) [of k] by auto
      show "chain w' = (\<lambda>k. if k \<in> host_entry i ` set (field # fs) then None else chain w k)" if "left @ rst = []"
      proof
        fix k
        show "chain w' k = (if k \<in> host_entry i ` set (field # fs) then None else chain w k)"
          using that d v(2) [of k] v(3) by (cases "k \<in> host_entry i ` set fs"; cases "k = host_entry i field") simp_all
      qed
      show "\<exists>n. fault n" if "left @ rst \<noteq> []" using that v(4) f by blast
    qed
  qed
  show ?case unfolding release_fields.simps wps
  proof (rule vcg_deleteAccounts, goal_cases)
    case (1 w' n)
    show ?case unfolding sum.case wps by (rule rest [OF 1(1)]) (use 1(2,3) in auto)
  next
    case (2 w')
    show ?case unfolding sum.case wps by (rule rest [OF 2(1)]) (use 2(2) in auto)
  qed
qed

lemma vcg_stale [vcg]:
  assumes "\<And>w' n left. same_but_chain w w' \<Longrightarrow>
      (\<And>k. chain w' k = chain w k \<or> chain w' k = None \<and> k \<in> host_entry (host_id h) ` set (stale_fields h existing)) \<Longrightarrow>
      fault n \<Longrightarrow> Q (Inl (SavedButNotCleared (h_name (base h)) left)) w'"
    and "\<And>w'. same_but_chain w w' \<Longrightarrow>
      chain w' = (\<lambda>k. if k \<in> host_entry (host_id h) ` set (stale_fields h existing) then None else chain w k) \<Longrightarrow> wp (f ()) Q w'"
  shows "wp (io_bind (releaseStaleAccounts fault h existing) f) Q w"
proof (cases "stale_fields h existing = []")
  case True
  then show ?thesis using assms(2) [of w]
    by (auto simp: releaseStaleAccounts_def stale_fields_def wps split: option.splits)
next
  case False
  then obtain e where e: "existing = Some e" by (auto simp: stale_fields_def split: option.splits)
  have "wp (release_fields fault (host_id h) (stale_fields h existing)) (\<lambda>r w'. case r of Inl e \<Rightarrow> Q (Inl e) w'
      | Inr left \<Rightarrow> if left = [] then wp (f ()) Q w' else Q (Inl (SavedButNotCleared (h_name (base h)) left)) w') w"
  proof (rule wp_release_fields, goal_cases)
    case (1 w' left)
    show ?case
    proof (cases "left = []")
      case True
      then show ?thesis using assms(2) [OF 1(1) 1(3)] by simp
    next
      case False
      then obtain n where "fault n" using 1(4) by blast
      then show ?thesis using assms(1) [OF 1(1) 1(2)] False by simp
    qed
  qed
  then show ?thesis using False e
    by (simp add: releaseStaleAccounts_def stale_fields_def wps Let_def if_distrib [of "\<lambda>m. wp m Q w" for w] cong: sum.case_cong if_cong)
qed

end
