(* ===== verification/Host_Store_Props.thy ===== *)
theory Host_Store_Props
  imports Host_Store_Wp
begin

text \<open>
  What the host store guarantees under every pattern of failing calls: references hold and the group
  tree is sound, a refused change changes nothing (a refused duplicate leaves what it had copied), and
  secrets follow the records that name them.
\<close>

section \<open>Sound files\<close>

definition host_ok :: "host_file \<Rightarrow> bool" where
  "host_ok f \<longleftrightarrow> hosts_ok (hosts_of f) \<and> groups_ok (groups_of f)"

definition host_inv :: "host_file world \<Rightarrow> bool" where
  "host_inv w \<longleftrightarrow> host_ok (cached w) \<and> host_ok (disk w)"

lemma host_invD: "host_inv w \<Longrightarrow> hosts_ok (hosts_of (cached w)) \<and> groups_ok (groups_of (cached w)) \<and> host_ok (disk w)"
  by (simp add: host_inv_def host_ok_def)

lemma host_inv_same: "host_inv w \<Longrightarrow> cached w' = cached w \<Longrightarrow> disk w' = disk w \<Longrightarrow> host_inv w'"
  by (simp add: host_inv_def)

lemma host_inv_persisted:
  "persisted entries ds w w' \<Longrightarrow> host_ok (disk w) \<Longrightarrow> hosts_ok (hosts_of (fold (\<lambda>f. f) entries (cached w))) \<Longrightarrow>
    groups_ok (groups_of (fold (\<lambda>f. f) entries (cached w))) \<Longrightarrow> host_inv w'"
  by (auto simp: host_inv_def host_ok_def persisted_def)

lemma host_inv_released:
  "persisted entries ds w w1 \<Longrightarrow> cached w' = cached w1 \<Longrightarrow> disk w' = disk w1 \<Longrightarrow> host_ok (disk w) \<Longrightarrow>
    hosts_ok (hosts_of (fold (\<lambda>f. f) entries (cached w))) \<Longrightarrow> groups_ok (groups_of (fold (\<lambda>f. f) entries (cached w))) \<Longrightarrow> host_inv w'"
  by (rule host_inv_same [OF host_inv_persisted])

lemmas host_reads = listHosts_def listGroups_def readHostTombstones_def
lemmas world_simps = same_world_def same_but_chain_def

lemma writeHost_inv:
  assumes "host_inv w"
  shows "wp (writeHost fault clock h secrets expect) (\<lambda>r. host_inv) w"
  unfolding writeHost_def host_reads Let_def
  using host_invD [OF assms]
  by (intro vcg) (auto simp: world_simps intro: host_inv_same [OF assms] intro!: hosts_ok_put
      elim!: host_inv_persisted host_inv_released)

lemma upsertGroup_inv:
  assumes "host_inv w"
  shows "wp (upsertGroup fault clock findIdentity grp) (\<lambda>r. host_inv) w"
  unfolding upsertGroup_def host_reads Let_def
  using host_invD [OF assms]
  by (intro vcg) (auto simp: world_simps intro: host_inv_same [OF assms] intro!: groups_ok_put elim!: host_inv_persisted)

lemma deleteHost_inv:
  assumes "host_inv w"
  shows "wp (deleteHost fault clock forwards i) (\<lambda>r. host_inv) w"
  unfolding deleteHost_def host_reads Let_def
  using host_invD [OF assms]
  by (intro vcg) (auto simp: world_simps intro: host_inv_same [OF assms] intro!: hosts_ok_drop elim!: host_inv_persisted)

lemma deleteGroup_inv:
  assumes "host_inv w"
  shows "wp (deleteGroup fault clock i) (\<lambda>r. host_inv) w"
  unfolding deleteGroup_def host_reads Let_def
  using host_invD [OF assms]
  by (intro vcg) (auto simp: world_simps clear_group_def intro: host_inv_same [OF assms] intro!: hosts_ok_map groups_ok_delete
      elim!: host_inv_persisted simp del: not_None_eq)

text \<open>A patch writes nothing, or one record in place.\<close>

lemma wp_patchHost:
  assumes "\<And>r w'. same_world w w' \<Longrightarrow> r = Inr None \<or> (\<exists>e. r = Inl (OwnerRefused e)) \<or> r = Inl HostStoreFailed \<and> (\<exists>n. fault n) \<Longrightarrow> Q r w'"
    and "\<And>r w' n x. n < length (hosts_of (cached w)) \<Longrightarrow> host_id (hosts_of (cached w) ! n) = i \<Longrightarrow>
        patch (hosts_of (cached w) ! n) = Some x \<Longrightarrow> owner_error x i = None \<Longrightarrow>
        persisted [set_hosts ((hosts_of (cached w))[n := x])] [] w w' \<Longrightarrow>
        r = Inr (Some x) \<and> disk w' = cached w' \<or> r = Inl HostStoreFailed \<and> (\<exists>n. fault n) \<Longrightarrow> Q r w'"
  shows "wp (patchHost fault i patch) Q w"
proof -
  have hit: "Q r w'"
    if "persisted [set_hosts ((hosts_of (cached w))[n := x])] [] w1 w'" "same_world w w1"
      "find_index (\<lambda>x. host_id x = i) (hosts_of (cached w)) = Some n" "patch (hosts_of (cached w) ! n) = Some x" "owner_error x i = None"
      "r = Inr (Some x) \<and> disk w' = cached w' \<or> r = Inl HostStoreFailed \<and> (\<exists>n. fault n)" for w1 w' n x r
    by (rule assms(2) [of n x]) (use that find_index_SomeD [OF that(3)] in \<open>auto simp: same_world_def persisted_def\<close>)
  have miss: "Q (Inr None) w'" "Q (Inl (OwnerRefused e)) w'" "fault n \<Longrightarrow> Q (Inl HostStoreFailed) w'" if "same_world w w'" for w' n e
    using assms(1) [OF that] by auto
  show ?thesis unfolding patchHost_def host_reads
    by (intro vcg) (auto elim!: hit intro: miss)
qed

lemma wp_discard: "wp m (\<lambda>r. P) w \<Longrightarrow> wp (io_bind m (\<lambda>x. io_return (g x))) (\<lambda>r. P) w"
  unfolding wps by (erule wp_mono) (simp split: sum.splits)

text \<open>
  The patches the store makes on a connect: they move the time of the connect and the pins, never the
  id, the route or the binding of a record.
\<close>

definition device_patch :: "(host \<Rightarrow> host option) \<Rightarrow> bool" where
  "device_patch patch \<longleftrightarrow> (\<forall>h x. patch h = Some x \<longrightarrow> host_id x = host_id h \<and> rides x = rides h
     \<and> storedFlag (Some x) = storedFlag (Some h)
     \<and> (\<exists>ps b. x = withPins h ps \<or> x = map_base (h_lastConnectedAt_update b) (withPins h ps)))"

text \<open>An invariant every such patch keeps is kept by the three operations that make them.\<close>

locale patch_invariant =
  fixes inv :: "host_file world \<Rightarrow> bool" and fault :: "nat \<Rightarrow> bool"
  assumes inv_patch: "inv w \<Longrightarrow> device_patch patch \<Longrightarrow> wp (patchHost fault i patch) (\<lambda>r. inv) w"
begin

lemma markConnected_keeps: "inv w \<Longrightarrow> wp (markConnected fault clock i fp) (\<lambda>r. inv) w"
  unfolding markConnected_def by (rule wp_discard, erule inv_patch) (auto simp: device_patch_def withFingerprint_def)

lemma pinFingerprint_keeps: "inv w \<Longrightarrow> wp (pinFingerprint fault i fp) (\<lambda>r. inv) w"
  unfolding pinFingerprint_def
  by (intro vcg_if wp_discard inv_patch) (auto simp: wps device_patch_def withFingerprint_def split: if_splits)

lemma forgetPin_keeps: "inv w \<Longrightarrow> wp (forgetPin fault i addr) (\<lambda>r. inv) w"
  unfolding forgetPin_def by (intro wp_discard inv_patch) (auto simp: device_patch_def split: if_splits)

lemmas connects_keep = markConnected_keeps pinFingerprint_keeps forgetPin_keeps

end

lemma patchHost_inv:
  assumes "host_inv w" and "device_patch patch"
  shows "wp (patchHost fault i patch) (\<lambda>r. host_inv) w"
proof (rule wp_patchHost, goal_cases)
  case (1 r w')
  then show ?case using host_inv_same [OF assms(1)] by (simp add: same_world_def)
next
  case (2 r w' n x)
  have keep: "host_id x = host_id (hosts_of (cached w) ! n)" "rides x = rides (hosts_of (cached w) ! n)"
    using assms(2) 2(3) by (auto simp: device_patch_def)
  have "hosts_ok ((hosts_of (cached w))[n := x])"
    using host_invD [OF assms(1)] by (intro hosts_ok_update) (use 2 keep in simp_all)
  then show ?case using host_invD [OF assms(1)] by (intro host_inv_persisted [OF 2(5)]) simp_all
qed

lemma copy_fields_step:
  assumes "\<And>w' r. same_but_chain w w' \<Longrightarrow> (\<And>k. k \<notin> host_entry j ` set fs \<Longrightarrow> chain w' k = chain w k) \<Longrightarrow>
      (\<And>e. r = Inl e \<Longrightarrow> e = HostKeychainFailed \<and> (\<exists>n. fault n)) \<Longrightarrow> Q r w'"
  shows "wp (copy_fields fault i j fs out) Q w"
  using assms
proof (induction fs arbitrary: w Q out)
  case Nil
  show ?case unfolding copy_fields.simps wps by (rule Nil) auto
next
  case (Cons field fs)
  show ?case unfolding copy_fields.simps
  proof (rule vcg_copy_bind, goal_cases)
    case (1 w' n)
    then show ?case by (intro Cons.prems) auto
  next
    case (2 w')
    show ?case
    proof (rule Cons.IH)
      fix v and r :: "host_store_error + host_secret_input"
      assume v: "same_but_chain w' v" "\<And>k. k \<notin> host_entry j ` set fs \<Longrightarrow> chain v k = chain w' k"
        "\<And>e. r = Inl e \<Longrightarrow> e = HostKeychainFailed \<and> (\<exists>n. fault n)"
      show "Q r v" by (rule Cons.prems [OF same_but_chain_trans [OF 2(1) v(1)] _ v(3)]) (use v(2) 2(2) in auto)
    qed
  qed
qed

text \<open>An invariant of the file that a write keeps as well is kept by a duplicate.\<close>

locale file_invariant = patch_invariant +
  assumes inv_same: "inv w \<Longrightarrow> cached w' = cached w \<Longrightarrow> disk w' = disk w \<Longrightarrow> inv w'"
    and inv_write: "inv w \<Longrightarrow> wp (writeHost fault clock h secrets expect) (\<lambda>r. inv) w"
begin

lemma upsertHost_keeps: "inv w \<Longrightarrow> wp (upsertHost fault clock h secrets expect) (\<lambda>r. inv) w"
  unfolding upsertHost_def by (rule inv_write)

lemma duplicateHost_keeps:
  assumes "inv w"
  shows "wp (duplicateHost fault clock copyId i) (\<lambda>r. inv) w"
proof -
  have copied: "wp (copyHostSecrets fault src copyId) (\<lambda>r w'. inv w') v" if "inv v" for src v
    unfolding copyHostSecrets_def by (rule copy_fields_step) (use inv_same [OF that] in \<open>auto simp: same_but_chain_def\<close>)
  have undone: "wp (rollbackNewHost fault h) (\<lambda>r w'. inv w') v" if "inv v" for h v
    by (rule wp_rollback) (use inv_same [OF that] in \<open>auto simp: same_but_chain_def\<close>)
  have "wp (io_bind (io_catch (copyHostSecrets fault src copyId) (\<lambda>e. io_bind (rollbackNewHost fault h) (\<lambda>_. io_throw e)))
      (\<lambda>secrets. io_bind (writeHost fault clock h secrets None) (\<lambda>r. io_return (Some r)))) (\<lambda>r. inv) v"
    if "inv v" for src h v
    unfolding wps by (rule wp_mono [OF copied [OF that]])
      (auto simp: wps split: sum.split intro!: wp_mono [OF undone] wp_mono [OF inv_write])
  then show ?thesis unfolding duplicateHost_def host_reads
    using inv_same [OF assms] assms by (intro vcg_get_bind vcg_option) (auto simp: wps world_simps)
qed

end

interpretation sound: file_invariant host_inv fault for fault
  by unfold_locales (auto intro: patchHost_inv host_inv_same writeHost_inv)

section \<open>The store as a transition system\<close>

text \<open>The mutators of this device, in any order, with any arguments and any failures.\<close>

inductive host_step :: "host_file world \<Rightarrow> host_file world \<Rightarrow> bool" where
  hst_upsertHost: "host_step w (snd (upsertHost fault clock h secrets expect w))"
| hst_duplicateHost: "host_step w (snd (duplicateHost fault clock copyId i w))"
| hst_deleteHost: "host_step w (snd (deleteHost fault clock forwards i w))"
| hst_upsertGroup: "host_step w (snd (upsertGroup fault clock findIdentity grp w))"
| hst_deleteGroup: "host_step w (snd (deleteGroup fault clock i w))"
| hst_markConnected: "host_step w (snd (markConnected fault clock i fp w))"
| hst_pinFingerprint: "host_step w (snd (pinFingerprint fault i fp w))"
| hst_forgetPin: "host_step w (snd (forgetPin fault i addr w))"

definition empty_hosts :: host_file where
  "empty_hosts = \<lparr>hf_hosts = None, hf_groups = None, hf_graves = JUndef\<rparr>"

definition fresh_hosts :: "host_file world \<Rightarrow> bool" where
  "fresh_hosts w \<longleftrightarrow> cached w = empty_hosts \<and> disk w = empty_hosts \<and> (\<forall>a. chain w (HOST_KEYRING_SERVICE, a) = None)"

lemmas host_mutators_inv = sound.upsertHost_keeps sound.duplicateHost_keeps deleteHost_inv upsertGroup_inv deleteGroup_inv
  sound.connects_keep

lemma host_step_inv: "host_inv w \<Longrightarrow> host_step w w' \<Longrightarrow> host_inv w'"
  by (erule host_step.cases) (auto intro: host_mutators_inv [THEN wp_result])

lemma fresh_hosts_inv: "fresh_hosts w \<Longrightarrow> host_inv w"
  by (simp add: fresh_hosts_def host_inv_def host_ok_def hosts_ok_def groups_ok_def links_ok_def links_def
      empty_hosts_def hosts_of_def groups_of_def acyclic_def)

interpretation host_machine: invariant_system fresh_hosts host_step host_inv
  by unfold_locales (auto intro: fresh_hosts_inv host_step_inv)

abbreviation host_reachable :: "host_file world \<Rightarrow> bool" where
  "host_reachable \<equiv> reachable fresh_hosts host_step"

fun binding_owner :: "host \<Rightarrow> string option" where
  "binding_owner (SshHost b s) = (case s_credential s of SshInline c \<Rightarrow> Some (si_hostId c) | SshBoundTo _ \<Rightarrow> None)"
| "binding_owner (RdpHost b d) = (case d_credential d of RdpInline c \<Rightarrow> Some (ri_hostId c) | RdpBoundTo _ \<Rightarrow> None)"

lemma owner_error_None: "owner_error h i = None \<longleftrightarrow> binding_owner h = None \<or> binding_owner h = Some i \<and> i \<noteq> []"
  by (cases h) (auto simp: check_owner_def split: ssh_credential_binding.splits rdp_credential_binding.splits)

text \<open>
  C9: whatever this device does to its hosts and whichever calls fail, in the file as the session sees
  it and as it is on disk: ids are unique; a host with credentials of its own owns them, so no two
  hosts share secrets; the jump or tunnel host a host names exists; and no host is reached through
  itself, however long the chain.
\<close>

theorem host_references_hold:
  assumes "host_reachable w" and "f \<in> {cached w, disk w}"
  shows "distinct (map host_id (hosts_of f))
    \<and> (\<forall>h \<in> set (hosts_of f). (binding_owner h = None \<or> binding_owner h = Some (host_id h))
        \<and> (\<forall>t. route h = Some t \<longrightarrow> t \<in> host_id ` set (hosts_of f))
        \<and> (host_id h, host_id h) \<notin> (links host_id route (hosts_of f))\<^sup>+)"
proof -
  have "hosts_ok (hosts_of f)" using host_machine.reachable_inv [OF assms(1)] assms(2) by (auto simp: host_inv_def host_ok_def)
  then show ?thesis unfolding hosts_ok_def links_ok_def acyclic_def owner_error_None by blast
qed

text \<open>
  C25: the group tree this device edits is the one its records spell out: the resolution that guards
  readers against missing and cyclic parents never has to step in, and no two groups read the same.
\<close>

theorem group_tree_sound:
  assumes "host_reachable w" and "f \<in> {cached w, disk w}"
  shows "(\<forall>g \<in> set (groups_of f). parent_of (groups_of f) (g_id g) = g_parentId g)
    \<and> distinct (map g_id (groups_of f)) \<and> distinct (map (\<lambda>g. js_lower (js_trim (g_name g))) (groups_of f))"
proof -
  have "groups_ok (groups_of f)" using host_machine.reachable_inv [OF assms(1)] assms(2) by (auto simp: host_inv_def host_ok_def)
  then show ?thesis using sound_parents links_okD(1) by (auto simp: groups_ok_def)
qed

section \<open>Copied secrets\<close>

lemma secret_for_set:
  "field \<in> set HOST_SSH_SECRET_FIELDS \<Longrightarrow> secret_for (set_secret field v s) g = (if g = field then v else secret_for s g)"
  by (auto simp: secret_for_def set_secret_def HOST_SSH_SECRET_FIELDS_def)

lemma copy_fields_ok:
  assumes "i \<noteq> j" and "distinct fs" and "set fs \<subseteq> set HOST_SSH_SECRET_FIELDS"
    and "\<And>w' e. same_but_chain w w' \<Longrightarrow> e = HostKeychainFailed \<Longrightarrow> \<exists>n. fault n \<Longrightarrow> Q (Inl e) w'"
    and "\<And>w' s. same_but_chain w w' \<Longrightarrow> (\<And>k. k \<notin> host_entry j ` set fs \<Longrightarrow> chain w' k = chain w k) \<Longrightarrow>
      (\<And>f. f \<in> set fs \<Longrightarrow> held (chain w (host_entry i f)) \<Longrightarrow>
        chain w' (host_entry j f) = chain w (host_entry i f) \<and> secret_for s f = SecAlreadyStored) \<Longrightarrow>
      (\<And>f. f \<in> set fs \<Longrightarrow> \<not> held (chain w (host_entry i f)) \<Longrightarrow>
        chain w' (host_entry j f) = chain w (host_entry j f) \<and> secret_for s f = secret_for out f) \<Longrightarrow>
      (\<And>f. f \<notin> set fs \<Longrightarrow> secret_for s f = secret_for out f) \<Longrightarrow> Q (Inr s) w'"
  shows "wp (copy_fields fault i j fs out) Q w"
  using assms(2-)
proof (induction fs arbitrary: w out Q)
  case Nil
  show ?case unfolding copy_fields.simps wps by (rule Nil(4)) auto
next
  case (Cons field fs)
  have field: "field \<in> set HOST_SSH_SECRET_FIELDS" "field \<in> set secret_fields" "field \<notin> set fs"
    using Cons.prems(1,2) ssh_fields_sub by auto
  have sub: "\<And>f. f \<in> set fs \<Longrightarrow> f \<in> set secret_fields" using Cons.prems(2) ssh_fields_sub by auto
  let ?out = "if held (chain w (host_entry i field)) then set_secret field SecAlreadyStored out else out"
  show ?case unfolding copy_fields.simps
  proof (rule vcg_copy_bind)
    fix v n assume "same_but_chain w v" "fault n"
    then show "Q (Inl HostKeychainFailed) v" by (intro Cons.prems(3)) auto
  next
    fix v
    assume v0: "same_but_chain w v" "chain v = (if held (chain w (host_entry i field))
      then (chain w)(host_entry j field := chain w (host_entry i field)) else chain w)"
    have v: "chain v k = (if held (chain w (host_entry i field)) \<and> k = host_entry j field then chain w (host_entry i field) else chain w k)" for k
      using v0(2) by auto
    have vi: "chain v (host_entry i f) = chain w (host_entry i f)" "f \<in> set fs \<Longrightarrow> chain v (host_entry j f) = chain w (host_entry j f)"
      if "f \<in> set secret_fields" for f
      using that field assms(1) by (auto simp: v)
    show "wp (copy_fields fault i j fs ?out) Q v"
    proof (rule Cons.IH)
      fix w' and e :: host_store_error assume "same_but_chain v w'" "e = HostKeychainFailed" "\<exists>n. fault n"
      then show "Q (Inl e) w'" using same_but_chain_trans [OF v0(1)] by (intro Cons.prems(3)) auto
    next
      fix w' s
      assume w': "same_but_chain v w'" "\<And>k. k \<notin> host_entry j ` set fs \<Longrightarrow> chain w' k = chain v k"
        and copied: "\<And>f. f \<in> set fs \<Longrightarrow> held (chain v (host_entry i f)) \<Longrightarrow>
          chain w' (host_entry j f) = chain v (host_entry i f) \<and> secret_for s f = SecAlreadyStored"
        and left: "\<And>f. f \<in> set fs \<Longrightarrow> \<not> held (chain v (host_entry i f)) \<Longrightarrow>
          chain w' (host_entry j f) = chain v (host_entry j f) \<and> secret_for s f = secret_for ?out f"
        and rest: "\<And>f. f \<notin> set fs \<Longrightarrow> secret_for s f = secret_for ?out f"
      have "host_entry j field \<notin> host_entry j ` set fs" using field sub by auto
      then have here: "chain w' (host_entry j field) = chain v (host_entry j field)" by (rule w'(2))
      have sf: "secret_for s field = secret_for ?out field" using rest field(3) by blast
      show "Q (Inr s) w'"
      proof (rule Cons.prems(4) [OF same_but_chain_trans [OF v0(1) w'(1)]])
        fix k assume "k \<notin> host_entry j ` set (field # fs)"
        then show "chain w' k = chain w k" using w'(2) [of k] v [of k] by auto
      next
        fix f assume f: "f \<in> set (field # fs)" "held (chain w (host_entry i f))"
        show "chain w' (host_entry j f) = chain w (host_entry i f) \<and> secret_for s f = SecAlreadyStored"
        proof (cases "f = field")
          case True
          then show ?thesis using f here sf v [of "host_entry j field"] secret_for_set [OF field(1)] by simp
        next
          case False
          then show ?thesis using copied [of f] f vi sub by simp
        qed
      next
        fix f assume f: "f \<in> set (field # fs)" "\<not> held (chain w (host_entry i f))"
        show "chain w' (host_entry j f) = chain w (host_entry j f) \<and> secret_for s f = secret_for out f"
        proof (cases "f = field")
          case True
          then show ?thesis using f here sf v [of "host_entry j field"] by simp
        next
          case False
          then show ?thesis using left [of f] f vi sub secret_for_set [OF field(1)] by simp
        qed
      next
        fix f assume "f \<notin> set (field # fs)"
        then show "secret_for s f = secret_for out f" using rest [of f] secret_for_set [OF field(1)] by simp
      qed
    qed (use Cons.prems(1,2) in auto)
  qed
qed

lemma copy_of_host_simps [simp]:
  "host_id (copy_of_host j h) = j" "secretFieldsFor (copy_of_host j h) = secretFieldsFor h"
  by (cases h; auto simp: copy_of_host_def secretFieldsFor_def split: ssh_credential_binding.splits rdp_credential_binding.splits)+

lemma secretFields_distinct: "distinct (secretFieldsFor h)"
  by (auto simp: secretFieldsFor_def HOST_SSH_SECRET_FIELDS_def HOST_RDP_SECRET_FIELDS_def)

text \<open>What copying the secrets of \<open>src\<close> to a fresh id leaves.\<close>

definition copied :: "host \<Rightarrow> string \<Rightarrow> host_secret_input \<Rightarrow> host_file world \<Rightarrow> host_file world \<Rightarrow> bool" where
  "copied src copyId s w v \<longleftrightarrow> same_but_chain w v
     \<and> (\<forall>k. k \<notin> host_entry copyId ` set (secretFieldsFor src) \<longrightarrow> chain v k = chain w k)
     \<and> (\<forall>f \<in> set (secretFieldsFor src).
          if held (chain w (host_entry (host_id src) f))
          then chain v (host_entry copyId f) = chain w (host_entry (host_id src) f) \<and> secret_for s f = SecAlreadyStored
          else chain v (host_entry copyId f) = chain w (host_entry copyId f) \<and> secret_for s f = SecUndefined)"

lemma wp_copyHostSecrets:
  assumes "copyId \<noteq> host_id src" and "\<And>s w'. copied src copyId s w w' \<Longrightarrow> Q (Inr s) w'"
    and "\<And>w'. same_but_chain w w' \<Longrightarrow> \<exists>n. fault n \<Longrightarrow> Q (Inl HostKeychainFailed) w'"
  shows "wp (copyHostSecrets fault src copyId) Q w"
  unfolding copyHostSecrets_def
proof (rule copy_fields_ok)
  show "set (secretFieldsFor src) \<subseteq> set HOST_SSH_SECRET_FIELDS" using host_fields_sub by blast
next
  fix w' s
  assume "same_but_chain w w'" "\<And>k. k \<notin> host_entry copyId ` set (secretFieldsFor src) \<Longrightarrow> chain w' k = chain w k"
    and "\<And>f. f \<in> set (secretFieldsFor src) \<Longrightarrow> held (chain w (host_entry (host_id src) f)) \<Longrightarrow>
        chain w' (host_entry copyId f) = chain w (host_entry (host_id src) f) \<and> secret_for s f = SecAlreadyStored"
    and "\<And>f. f \<in> set (secretFieldsFor src) \<Longrightarrow> \<not> held (chain w (host_entry (host_id src) f)) \<Longrightarrow>
        chain w' (host_entry copyId f) = chain w (host_entry copyId f) \<and> secret_for s f = secret_for no_secrets f"
  moreover have "secret_for no_secrets f = SecUndefined" for f by (simp add: secret_for_def no_secrets_def)
  ultimately show "Q (Inr s) w'" by (intro assms(2)) (simp add: copied_def)
qed (use assms(1,3) secretFields_distinct in auto)

section \<open>Refusals\<close>

definition host_refusal :: "host_store_error \<Rightarrow> bool" where
  "host_refusal e \<longleftrightarrow> e \<noteq> HostKeychainFailed \<and> e \<noteq> HostStoreFailed \<and> (\<forall>n l. e \<noteq> SavedButNotCleared n l)"

text \<open>A call that throws a refusal has left the file, the disk, the keychain and the marks alone.\<close>

definition keeps_on_refusal :: "'a host_io \<Rightarrow> host_file world \<Rightarrow> bool" where
  "keeps_on_refusal m w \<longleftrightarrow> (\<forall>e. fst (m w) = Inl e \<and> host_refusal e \<longrightarrow> same_world w (snd (m w)))"

lemma host_refusal_simps [simp]:
  "\<not> host_refusal HostKeychainFailed" "\<not> host_refusal HostStoreFailed" "\<not> host_refusal (SavedButNotCleared n l)"
  by (simp_all add: host_refusal_def)

lemma keeps_on_refusalD: "keeps_on_refusal m w \<Longrightarrow> fst (m w) = Inl e \<Longrightarrow> host_refusal e \<Longrightarrow> same_world w (snd (m w))"
  by (simp add: keeps_on_refusal_def)

lemma keeps_wp:
  "keeps_on_refusal m w \<longleftrightarrow> wp m (\<lambda>r w'. case r of Inl e \<Rightarrow> host_refusal e \<longrightarrow> same_world w w' | Inr _ \<Rightarrow> True) w"
  by (cases "m w") (auto simp: keeps_on_refusal_def wp_def split: sum.splits)

lemma host_refusals:
  "keeps_on_refusal (writeHost fault clock h secrets expect) w"
  "keeps_on_refusal (upsertHost fault clock h secrets expect) w"
  "keeps_on_refusal (upsertGroup fault clock findIdentity grp) w"
  "keeps_on_refusal (deleteHost fault clock forwards i) w"
  "keeps_on_refusal (deleteGroup fault clock i) w"
  unfolding keeps_wp upsertHost_def writeHost_def upsertGroup_def deleteHost_def deleteGroup_def host_reads Let_def
  by (intro vcg; auto simp: world_simps)+

lemma patch_refusals: "keeps_on_refusal (io_bind (patchHost fault i patch) (\<lambda>x. io_return (g x))) w"
  unfolding keeps_wp wp_bind by (rule wp_patchHost) (auto simp: wps)

text \<open>
  What a refused duplicate leaves: the file, the disk and the marks alone, and in the keychain the
  copies it made of the secrets the host \<open>i\<close> held, under the id of the copy.
\<close>

definition leaves_copies :: "string \<Rightarrow> string \<Rightarrow> host_file world \<Rightarrow> host_file world \<Rightarrow> bool" where
  "leaves_copies i copyId w w' \<longleftrightarrow> same_but_chain w w'
     \<and> (\<exists>src. find (\<lambda>x. host_id x = i) (hosts_of (cached w)) = Some src
        \<and> (\<forall>field \<in> set (secretFieldsFor src). chain w' (host_entry copyId field) =
             (if held (chain w (host_entry i field)) then chain w (host_entry i field) else chain w (host_entry copyId field)))
        \<and> (\<forall>k. k \<notin> host_entry copyId ` set (secretFieldsFor src) \<longrightarrow> chain w' k = chain w k))"

lemma duplicateHost_refused:
  assumes "copyId \<noteq> i"
  shows "wp (duplicateHost fault clock copyId i)
    (\<lambda>r w'. case r of Inl e \<Rightarrow> host_refusal e \<longrightarrow> leaves_copies i copyId w w' | Inr _ \<Rightarrow> True) w"
  unfolding duplicateHost_def host_reads
proof (intro vcg_get_bind vcg_option)
  fix v src assume v: "same_world w v" and src: "find (\<lambda>x. host_id x = i) (hosts_of (cached w)) = Some src"
  have i: "host_id src = i" using find_SomeD [OF src] by simp
  let ?Q = "\<lambda>r w'. case r of Inl e \<Rightarrow> host_refusal e \<longrightarrow> leaves_copies i copyId w w' | Inr _ \<Rightarrow> True"
  have writes: "wp (writeHost fault clock (copy_of_host copyId src) s None) ?Q u" if cp: "copied src copyId s v u" for s u
  proof (rule wp_mono [OF host_refusals(1) [unfolded keeps_wp]])
    fix r :: "host_store_error + host" and w' :: "host_file world"
    assume r: "case r of Inl e \<Rightarrow> host_refusal e \<longrightarrow> same_world u w' | Inr _ \<Rightarrow> True"
    have "leaves_copies i copyId w w'" if "same_world u w'"
      using cp v that src i by (auto simp: leaves_copies_def copied_def world_simps)
    then show "?Q r w'" using r by (auto split: sum.splits)
  qed
  show "wp (io_bind (io_catch (copyHostSecrets fault src copyId) (\<lambda>e. io_bind (rollbackNewHost fault (copy_of_host copyId src)) (\<lambda>_. io_throw e)))
      (\<lambda>secrets. io_bind (writeHost fault clock (copy_of_host copyId src) secrets None) (\<lambda>r. io_return (Some r)))) ?Q v"
    unfolding wps
  proof (rule wp_copyHostSecrets, goal_cases)
    case (2 s u)
    show ?case unfolding sum.case by (rule wp_mono [OF writes [OF 2]]) (simp split: sum.splits)
  next
    case (3 u)
    show ?case unfolding sum.case wps by (rule wp_rollback) simp
  qed (use assms i in simp)
qed (auto simp: wps)

text \<open>A host whose route is refused cannot be duplicated, and the copies are made before that shows.\<close>

lemma duplicateHost_refuses:
  assumes "find (\<lambda>x. host_id x = i) (hosts_of (cached w)) = Some src" and "copyId \<noteq> i"
    and "owner_error (copy_of_host copyId src) copyId = None"
    and "reference_error (copy_of_host copyId src) (hosts_of (cached w)) = Some e"
  shows "wp (duplicateHost (\<lambda>_. False) clock copyId i) (\<lambda>r w'. r = Inl e) w"
proof -
  have i: "host_id src = i" using find_SomeD [OF assms(1)] by simp
  have writes: "wp (writeHost (\<lambda>_. False) clock (copy_of_host copyId src) s None) (\<lambda>r w'. r = Inl e) u" if "cached u = cached w" for s u
    using that assms(3,4) by (simp add: writeHost_def host_reads assertReferences_def wps)
  show ?thesis unfolding duplicateHost_def host_reads
  proof (intro vcg_get_bind vcg_option)
    fix v y assume v: "same_world w v" and y: "find (\<lambda>x. host_id x = i) (hosts_of (cached w)) = Some y"
    have y: "y = src" using y assms(1) by simp
    show "wp (io_bind (io_catch (copyHostSecrets (\<lambda>_. False) y copyId) (\<lambda>e. io_bind (rollbackNewHost (\<lambda>_. False) (copy_of_host copyId y)) (\<lambda>_. io_throw e)))
      (\<lambda>secrets. io_bind (writeHost (\<lambda>_. False) clock (copy_of_host copyId y) secrets None) (\<lambda>r. io_return (Some r)))) (\<lambda>r w'. r = Inl e) v"
      unfolding wps y
    proof (rule wp_copyHostSecrets, goal_cases)
      case (2 s u)
      then have "cached u = cached w" using v by (simp add: copied_def world_simps)
      then show ?case unfolding sum.case by (intro wp_mono [OF writes]) auto
    qed (use assms(2) i in simp_all)
  qed (use assms(1) in simp_all)
qed

section \<open>Secrets follow records\<close>

text \<open>
  How a write of \<open>h\<close> that ended with \<open>r\<close> may have changed the keychain entry \<open>k\<close>: as the input says,
  for an account the record names; in any way, for an account of a host the store did not list, if
  the keychain rejected and the write was rolled back; and by clearing an account that the stored
  record named and the new one does not, once the new record is on disk.
\<close>

definition may_change :: "host \<Rightarrow> host_secret_input \<Rightarrow> host_store_error + host \<Rightarrow> host_file world \<Rightarrow> host_file world \<Rightarrow> string \<times> string \<Rightarrow> bool" where
  "may_change h secrets r w w' k \<longleftrightarrow> (\<exists>field. k = host_entry (host_id h) field \<and>
     (field \<in> set (secretFieldsFor h) \<and> chain w' k = stored (secret_for secrets field) (chain w k)
      \<or> field \<in> set (secretFieldsFor h) \<and> host_id h \<notin> host_id ` set (hosts_of (cached w)) \<and> r = Inl HostKeychainFailed
      \<or> (\<exists>old. find (\<lambda>x. host_id x = host_id h) (hosts_of (cached w)) = Some old \<and> field \<in> set (secretFieldsFor old))
        \<and> field \<notin> set (secretFieldsFor h) \<and> chain w' k = None \<and> disk w' = cached w'
        \<and> (\<exists>new. find (\<lambda>x. host_id x = host_id h) (hosts_of (cached w')) = Some new \<and> secretFieldsFor new = secretFieldsFor h)))"

lemma secretFields_written [simp]: "secretFieldsFor (written_host c h e) = secretFieldsFor h"
  unfolding secretFieldsFor_def by simp

lemma partly_changes:
  assumes "partly h secrets (find (\<lambda>x. host_id x = host_id h) (hosts_of (cached w))) (chain w) (chain w')"
    and "chain w' k \<noteq> chain w k"
  shows "may_change h secrets (Inl HostKeychainFailed) w w' k"
proof -
  have "k \<in> host_entries h" using assms unfolding partly_def by metis
  then obtain field where f: "k = host_entry (host_id h) field" "field \<in> set (secretFieldsFor h)" by (auto simp: host_entries_def)
  show ?thesis
  proof (cases "host_id h \<in> host_id ` set (hosts_of (cached w))")
    case True
    then have "find (\<lambda>x. host_id x = host_id h) (hosts_of (cached w)) \<noteq> None" by (simp add: find_id_None)
    then have "chain w' k = chain w k \<or> chain w' k = stored (secret_for secrets field) (chain w k)"
      using assms(1) f unfolding partly_def by blast
    then show ?thesis using f assms(2) by (auto simp: may_change_def)
  next
    case False
    then show ?thesis using f by (auto simp: may_change_def)
  qed
qed

lemma wrote_changes:
  assumes "wrote (host_id h) secrets (secretFieldsFor h) (chain w) (chain v)" and "chain w' k \<noteq> chain w k"
    and "chain w' k = chain v k"
  shows "may_change h secrets r w w' k"
proof -
  have "k \<in> host_entry (host_id h) ` set (secretFieldsFor h)" using assms unfolding wrote_def by metis
  then obtain field where "k = host_entry (host_id h) field" "field \<in> set (secretFieldsFor h)" by auto
  then show ?thesis using assms(1,3) by (auto simp: may_change_def wrote_def)
qed

text \<open>The outcomes of a write, by how far it came.\<close>

abbreviation stored_host :: "string \<Rightarrow> host_file world \<Rightarrow> host option" where
  "stored_host i w \<equiv> find (\<lambda>x. host_id x = i) (hosts_of (cached w))"

abbreviation stored_as :: "int \<Rightarrow> host \<Rightarrow> host_secret_input \<Rightarrow> host_file world \<Rightarrow> host" where
  "stored_as clock h secrets w \<equiv>
     written_host clock (with_flags (next_flags secrets (stored_host (host_id h) w)) h) (stored_host (host_id h) w)"

definition host_write :: "int \<Rightarrow> host \<Rightarrow> host_secret_input \<Rightarrow> host_file world \<Rightarrow> host_file world \<Rightarrow> host_file world \<Rightarrow> bool" where
  "host_write clock h secrets w u v \<longleftrightarrow>
     same_but_chain w u \<and> wrote (host_id h) secrets (secretFieldsFor h) (chain w) (chain u)
     \<and> owner_error h (host_id h) = None \<and> reference_error h (hosts_of (cached w)) = None
     \<and> (\<exists>g ds. persisted (set_hosts (put_record host_id (stored_as clock h secrets w) (hosts_of (cached w))) # host_graves_entry g) ds u v)"

lemma wp_writeHost:
  assumes same: "\<And>e w'. same_world w w' \<Longrightarrow> Q (Inl e) w'"
    and part: "\<And>w'. same_but_chain w w' \<Longrightarrow> partly h secrets (stored_host (host_id h) w) (chain w) (chain w') \<Longrightarrow> \<exists>n. fault n \<Longrightarrow>
      Q (Inl HostKeychainFailed) w'"
    and unread: "\<And>w'. same_but_chain w w' \<Longrightarrow> wrote (host_id h) secrets (secretFieldsFor h) (chain w) (chain w') \<Longrightarrow> \<exists>n. fault n \<Longrightarrow>
      Q (Inl HostStoreFailed) w'"
    and unsaved: "\<And>u w'. host_write clock h secrets w u w' \<Longrightarrow> \<exists>n. fault n \<Longrightarrow> Q (Inl HostStoreFailed) w'"
    and uncleared: "\<And>u v w' e. host_write clock h secrets w u v \<Longrightarrow> disk v = cached v \<Longrightarrow> same_but_chain v w' \<Longrightarrow>
      (\<And>k. chain w' k = chain v k \<or> chain w' k = None \<and> k \<in> host_entry (host_id h) ` set (stale_fields h (stored_host (host_id h) w))) \<Longrightarrow>
      \<exists>n. fault n \<Longrightarrow> Q (Inl e) w'"
    and saved: "\<And>u v w'. host_write clock h secrets w u v \<Longrightarrow> disk v = cached v \<Longrightarrow> same_but_chain v w' \<Longrightarrow>
      chain w' = (\<lambda>k. if k \<in> host_entry (host_id h) ` set (stale_fields h (stored_host (host_id h) w)) then None else chain v k) \<Longrightarrow>
      Q (Inr (stored_as clock h secrets w)) w'"
  shows "wp (writeHost fault clock h secrets expect) Q w"
proof -
  let ?r = "stored_as clock h secrets w"
  have wr: "host_write clock h secrets w u v"
    if "owner_error h (host_id h) = None" "reference_error h (hosts_of (cached w)) = None" "same_world w a" "same_but_chain a b"
      "wrote (host_id h) secrets (secretFieldsFor h) (chain a) (chain b)" "same_world b u"
      "persisted (set_hosts (put_record host_id ?r (hosts_of (cached w))) # host_graves_entry g) ds u v" for a b u v g ds
    unfolding host_write_def using that by (auto simp: world_simps)
  show ?thesis unfolding writeHost_def host_reads Let_def
  proof (intro vcg, simp_all add: same, goal_cases)
    case (1 a b n)
    then show ?case by (intro part) (auto simp: world_simps)
  next
    case (2 a b c)
    then show ?case by (intro unread) (auto simp: world_simps)
  next
    case (3 a b c v n)
    show ?case by (rule unsaved [OF wr [OF 3(1,3,2,5,6,7,8)]]) (use 3 in blast)
  next
    case (4 a b c v w' n left)
    show ?case by (rule uncleared [OF wr [OF 4(1,3,2,5,6,7,8)]]) (use 4 in blast)+
  next
    case (5 a b c v w')
    show ?case by (rule saved [OF wr [OF 5(1,3,2,5,6,7,8)]]) (use 5 in blast)+
  qed
qed

lemma written_record:
  "host_write clock h secrets w u v \<Longrightarrow> find (\<lambda>x. host_id x = host_id h) (hosts_of (cached v)) = Some (stored_as clock h secrets w)"
  by (auto simp: host_write_def persisted_def find_put_record)

lemma stale_iff:
  "field \<in> set (stale_fields h existing) \<longleftrightarrow> field \<notin> set (secretFieldsFor h) \<and> (\<exists>old. existing = Some old \<and> field \<in> set (secretFieldsFor old))"
  by (cases existing) (auto simp: stale_fields_def)

lemma writeHost_changes:
  "wp (writeHost fault clock h secrets expect) (\<lambda>r w'. \<forall>k. chain w' k \<noteq> chain w k \<longrightarrow> may_change h secrets r w w' k) w"
proof -
  have stale: "may_change h secrets r w w' k"
    if st: "host_write clock h secrets w u v" "disk v = cached v" "same_but_chain v w'" "chain w' k \<noteq> chain w k"
      "chain w' k = chain v k \<or> chain w' k = None \<and> k \<in> host_entry (host_id h) ` set (stale_fields h (stored_host (host_id h) w))"
    for u v w' k r
  proof (cases "chain w' k = chain v k")
    case True
    then show ?thesis using st(1,4) wrote_changes [of h secrets w u w' k] by (auto simp: host_write_def persisted_def)
  next
    case False
    then obtain field where f: "k = host_entry (host_id h) field" "field \<in> set (stale_fields h (stored_host (host_id h) w))"
      "chain w' k = None" using st(5) by auto
    then obtain old where "stored_host (host_id h) w = Some old" "field \<in> set (secretFieldsFor old)" "field \<notin> set (secretFieldsFor h)"
      using stale_iff by blast
    moreover have "disk w' = cached w'" "cached w' = cached v" using st(2,3) by (simp_all add: same_but_chain_def)
    ultimately show ?thesis using f written_record [OF st(1)] by (auto simp: may_change_def)
  qed
  show ?thesis
  proof (rule wp_writeHost, goal_cases)
    case (1 e w')
    then show ?case by (simp add: same_world_def)
  next
    case (2 w')
    then show ?case using partly_changes by blast
  next
    case (3 w')
    then show ?case using wrote_changes by blast
  next
    case (4 u w')
    then show ?case using wrote_changes [of h secrets w u w'] by (auto simp: host_write_def persisted_def)
  next
    case (5 u v w' e)
    then show ?case using stale by blast
  next
    case (6 u v w')
    have "chain w' k = chain v k \<or> chain w' k = None \<and> k \<in> host_entry (host_id h) ` set (stale_fields h (stored_host (host_id h) w))" for k
      using 6(4) by simp
    then show ?case using stale [OF 6(1-3)] by blast
  qed
qed

text \<open>What a save that returned has left: every account of the record as the input says, no other account of the host.\<close>

definition saved_accounts :: "host \<Rightarrow> host_secret_input \<Rightarrow> host_file world \<Rightarrow> host_file world \<Rightarrow> bool" where
  "saved_accounts h secrets w w' \<longleftrightarrow> disk w' = cached w'
     \<and> (\<forall>field \<in> set (secretFieldsFor h).
          chain w' (host_entry (host_id h) field) = stored (secret_for secrets field) (chain w (host_entry (host_id h) field)))
     \<and> (\<forall>old. find (\<lambda>x. host_id x = host_id h) (hosts_of (cached w)) = Some old \<longrightarrow>
          (\<forall>field \<in> set (secretFieldsFor old). field \<notin> set (secretFieldsFor h) \<longrightarrow> chain w' (host_entry (host_id h) field) = None))"

lemma writeHost_saved:
  "wp (writeHost fault clock h secrets expect) (\<lambda>r w'. \<forall>x. r = Inr x \<longrightarrow> saved_accounts h secrets w w') w"
proof (rule wp_writeHost, goal_cases)
  case (6 u v w')
  let ?st = "stale_fields h (stored_host (host_id h) w)"
  have st: "field \<in> set ?st \<longleftrightarrow> field \<notin> set (secretFieldsFor h) \<and> (\<exists>old. stored_host (host_id h) w = Some old \<and> field \<in> set (secretFieldsFor old))"
    for field using stale_iff by blast
  have cv: "chain v = chain u" and wr: "wrote (host_id h) secrets (secretFieldsFor h) (chain w) (chain u)"
    using 6(1) by (auto simp: host_write_def persisted_def)
  have keep: "host_entry (host_id h) field \<notin> host_entry (host_id h) ` set ?st" if f: "field \<in> set (secretFieldsFor h)" for field
  proof
    assume "host_entry (host_id h) field \<in> host_entry (host_id h) ` set ?st"
    then obtain g where g: "g \<in> set ?st" "vaultAccount (host_id h) field = vaultAccount (host_id h) g" by auto
    then obtain old where "g \<in> set (secretFieldsFor old)" using st by blast
    then have "g = field" using g(2) f host_fields_sub ssh_fields_sub by fastforce
    then show False using g(1) f st by blast
  qed
  have "disk w' = cached w'" using 6(2,3) by (simp add: same_but_chain_def)
  then show ?case using wr st keep by (auto simp: saved_accounts_def 6(4) cv wrote_def)
qed auto

abbreviation host_ids :: "host_file \<Rightarrow> string set" where
  "host_ids f \<equiv> host_id ` set (hosts_of f)"

lemma deleteHost_no_orphan:
  "wp (deleteHost fault clock forwards i) (\<lambda>r w'.
     (host_ids (cached w') = host_ids (cached w)
      \<or> host_ids (cached w') = host_ids (cached w) - {i} \<and> (\<forall>h. stored_host i w = Some h \<longrightarrow> (\<forall>k \<in> host_entries h. chain w' k = None)))
     \<and> (\<forall>k. (\<forall>h. stored_host i w = Some h \<longrightarrow> k \<notin> host_entries h) \<longrightarrow> chain w' k = chain w k)) w"
proof -
  have e: "host_entries h = host_entry i ` set (secretFieldsFor h)" if "stored_host i w = Some h" for h
    using find_SomeD [OF that] by (auto simp: host_entries_def)
  have m: "host_id ` set (filter (\<lambda>x. host_id x \<noteq> i) hs) = host_id ` set hs - {i}" for hs by auto
  show ?thesis unfolding deleteHost_def host_reads Let_def
  proof (intro vcg, simp_all add: world_simps persisted_def m del: set_filter, goal_cases)
    case (1 w1 y w2 n)
    then show ?case using e by blast
  qed (auto simp: e)
qed

section \<open>Properties of single changes\<close>


text \<open>
  C26: a refused change changes nothing. Whichever calls fail, a host or group that is refused (for its
  owner, its jump or tunnel host, a binding that changed under its editor, secrets it cannot hold, its
  name, its parent, because others are reached through it, or because its forward rules could not be
  dropped) leaves the file, the disk, the keychain and the dirty marks as they were, for every mutator
  but one: a refused duplicate leaves the file, the disk and the marks, but also the copies of the
  secrets it had made, under an id no host has, because only a failed copy is rolled back.
\<close>

theorem host_refusals_keep:
  "keeps_on_refusal (upsertHost fault clock h secrets expect) w
   \<and> keeps_on_refusal (deleteHost fault clock forwards i) w
   \<and> keeps_on_refusal (upsertGroup fault clock findIdentity grp) w
   \<and> keeps_on_refusal (deleteGroup fault clock i) w
   \<and> keeps_on_refusal (markConnected fault clock i fp) w
   \<and> keeps_on_refusal (pinFingerprint fault i fp) w
   \<and> keeps_on_refusal (forgetPin fault i addr) w
   \<and> (copyId \<noteq> i \<and> fst (duplicateHost fault clock copyId i w) = Inl e \<and> host_refusal e \<longrightarrow>
        leaves_copies i copyId w (snd (duplicateHost fault clock copyId i w)))"
proof (intro conjI impI)
  show "keeps_on_refusal (markConnected fault clock i fp) w" "keeps_on_refusal (forgetPin fault i addr) w"
    unfolding markConnected_def forgetPin_def by (rule patch_refusals)+
  show "keeps_on_refusal (pinFingerprint fault i fp) w"
    unfolding pinFingerprint_def using patch_refusals by (cases "fp = []") (simp_all add: keeps_on_refusal_def io_return_def)
  assume r: "copyId \<noteq> i \<and> fst (duplicateHost fault clock copyId i w) = Inl e \<and> host_refusal e"
  obtain w' where "duplicateHost fault clock copyId i w = (Inl e, w')" using r by (metis prod.collapse)
  then show "leaves_copies i copyId w (snd (duplicateHost fault clock copyId i w))"
    using wpD [OF duplicateHost_refused] r by fastforce
qed (rule host_refusals)+

end
