(* ===== verification/Host_Flags.thy ===== *)
theory Host_Flags
  imports Host_Store_Props
begin

text \<open>
  While no call fails, the presence flags of the hosts say exactly which secrets the keychain holds:
  through edits, changes of protocol or binding, duplicates and deletes. The one thing a run without
  failures leaves behind is what a refused duplicate copied: the ids of those copies are carried along
  as the set \<open>refused\<close>.
\<close>

section \<open>Honest flags\<close>

lemma storedFlag_fields: "storedFlag e field \<Longrightarrow> \<exists>h. e = Some h \<and> field \<in> set (secretFieldsFor h)"
  by (cases "(e, field)" rule: storedFlag.cases)
    (auto simp: secretFieldsFor_def HOST_SSH_SECRET_FIELDS_def HOST_RDP_SECRET_FIELDS_def
      split: ssh_credential_binding.splits rdp_credential_binding.splits if_splits)

lemma storedFlag_with_flags: "storedFlag (Some (with_flags F h)) field \<longleftrightarrow> field \<in> set (secretFieldsFor h) \<and> F field"
  by (cases h) (auto simp: secretFieldsFor_def HOST_SSH_SECRET_FIELDS_def HOST_RDP_SECRET_FIELDS_def
      split: ssh_credential_binding.splits rdp_credential_binding.splits if_splits)

text \<open>
  The keychain as the records describe it: an entry of a host holds a secret just when the record's
  flag says so, and nothing else of the service holds one, save under the ids \<open>refused\<close>, which no
  host has.
\<close>

definition entries_honest :: "host_file world \<Rightarrow> string \<Rightarrow> bool" where
  "entries_honest w i \<longleftrightarrow>
     (\<forall>field \<in> set HOST_SSH_SECRET_FIELDS. chain w (host_entry i field) \<noteq> None \<longleftrightarrow> storedFlag (stored_host i w) field)"

definition nothing_else :: "host_file world \<Rightarrow> bool" where
  "nothing_else w \<longleftrightarrow> disk w = cached w
     \<and> (\<forall>a. chain w (HOST_KEYRING_SERVICE, a) \<noteq> None \<longrightarrow> (\<exists>i. \<exists>field \<in> set HOST_SSH_SECRET_FIELDS. a = vaultAccount i field))
     \<and> (\<forall>a. chain w (HOST_KEYRING_SERVICE, a) \<noteq> Some [])"

definition honest_hosts :: "string set \<Rightarrow> host_file world \<Rightarrow> bool" where
  "honest_hosts refused w \<longleftrightarrow> nothing_else w \<and> (\<forall>i. i \<notin> refused \<longrightarrow> entries_honest w i)
     \<and> (\<forall>i \<in> refused. stored_host i w = None)"

text \<open>
  What a write of \<open>h\<close> may start from: the other hosts are honest, an input that says the secret is
  already there is true, an untouched field agrees with the stored flag, and whatever else is stored
  for the host is stale.
\<close>

definition field_ready :: "host \<Rightarrow> host_secret_input \<Rightarrow> host_file world \<Rightarrow> string \<Rightarrow> bool" where
  "field_ready h secrets w field \<longleftrightarrow>
     (let there = (chain w (host_entry (host_id h) field) \<noteq> None); existing = stored_host (host_id h) w in
      if field \<in> set (secretFieldsFor h)
      then (secret_for secrets field = SecAlreadyStored \<longrightarrow> there)
         \<and> (secret_for secrets field = SecUndefined \<longrightarrow> (there \<longleftrightarrow> storedFlag existing field))
      else there \<longrightarrow> field \<in> set (stale_fields h existing))"

definition write_ready :: "string set \<Rightarrow> host \<Rightarrow> host_secret_input \<Rightarrow> host_file world \<Rightarrow> bool" where
  "write_ready refused h secrets w \<longleftrightarrow> nothing_else w \<and> host_id h \<notin> refused
     \<and> (\<forall>i. i \<noteq> host_id h \<and> i \<notin> refused \<longrightarrow> entries_honest w i) \<and> (\<forall>i \<in> refused. stored_host i w = None)
     \<and> (\<forall>field \<in> set HOST_SSH_SECRET_FIELDS. field_ready h secrets w field)"

definition truthful_for :: "host \<Rightarrow> host_secret_input \<Rightarrow> host_file world \<Rightarrow> bool" where
  "truthful_for h secrets w \<longleftrightarrow> (\<forall>field \<in> set (secretFieldsFor h).
     secret_for secrets field = SecAlreadyStored \<longrightarrow> chain w (host_entry (host_id h) field) \<noteq> None)"

lemma honest_ready:
  assumes "honest_hosts refused w" and "host_id h \<notin> refused" and "truthful_for h secrets w"
  shows "write_ready refused h secrets w"
proof -
  have "field_ready h secrets w field" if f: "field \<in> set HOST_SSH_SECRET_FIELDS" for field
  proof (cases "field \<in> set (secretFieldsFor h)")
    case True
    then show ?thesis using assms f unfolding field_ready_def Let_def honest_hosts_def entries_honest_def truthful_for_def by auto
  next
    case False
    have "chain w (host_entry (host_id h) field) \<noteq> None \<longleftrightarrow> storedFlag (stored_host (host_id h) w) field"
      using assms(1,2) f unfolding honest_hosts_def entries_honest_def by blast
    then show ?thesis using False storedFlag_fields [of "stored_host (host_id h) w" field]
      unfolding field_ready_def Let_def stale_fields_def by (auto split: option.splits)
  qed
  then show ?thesis using assms(1,2) by (simp add: write_ready_def honest_hosts_def)
qed

lemma flagged_iff:
  assumes "sv = SecAlreadyStored \<longrightarrow> there \<noteq> None" and "sv = SecUndefined \<longrightarrow> (there \<noteq> None \<longleftrightarrow> current)"
  shows "stored sv there \<noteq> None \<longleftrightarrow> flagged sv current"
  using assms by (cases sv) auto

lemma stored_nonblank: "there \<noteq> Some [] \<Longrightarrow> stored sv there \<noteq> Some []"
  by (cases sv) auto

lemma stored_host_put:
  "hosts_of (cached v) = put_record host_id r (hosts_of (cached w)) \<Longrightarrow>
    stored_host i v = (if i = host_id r then Some r else stored_host i w)"
  by (simp add: find_put_record)

lemma saved_honest:
  assumes ready: "write_ready refused h secrets w" and wr: "host_write clock h secrets w u v"
    and d: "disk v = cached v" and s: "same_but_chain v w'"
    and c: "chain w' = (\<lambda>k. if k \<in> host_entry (host_id h) ` set (stale_fields h (stored_host (host_id h) w)) then None else chain v k)"
  shows "honest_hosts refused w'"
proof -
  let ?r = "stored_as clock h secrets w" and ?id = "host_id h"
  have hosts: "hosts_of (cached w') = put_record host_id ?r (hosts_of (cached w))" and cv: "chain v = chain u"
    and wrt: "wrote ?id secrets (secretFieldsFor h) (chain w) (chain u)"
    using wr s by (auto simp: host_write_def persisted_def same_but_chain_def)
  have find: "stored_host i w' = (if i = ?id then Some ?r else stored_host i w)" for i
    using stored_host_put [OF hosts] by simp
  have stale: "field \<in> set (stale_fields h (stored_host ?id w)) \<Longrightarrow> field \<in> set HOST_SSH_SECRET_FIELDS \<and> field \<notin> set (secretFieldsFor h)" for field
    by (auto simp: stale_fields_def dest: host_fields_sub split: option.splits)
  have in_fs: "field \<in> set (secretFieldsFor h) \<Longrightarrow> chain u (host_entry ?id field) = stored (secret_for secrets field) (chain w (host_entry ?id field))" for field
    using wrt by (simp add: wrote_def)
  have out_fs: "k \<notin> host_entry ?id ` set (secretFieldsFor h) \<Longrightarrow> chain u k = chain w k" for k
    using wrt unfolding wrote_def by blast
  have acc: "host_entry i field \<in> host_entry ?id ` S \<longleftrightarrow> i = ?id \<and> field \<in> S"
    if "field \<in> set HOST_SSH_SECRET_FIELDS" "S \<subseteq> set HOST_SSH_SECRET_FIELDS" for i field S
    using that ssh_fields_sub by (auto simp: subset_iff)
  have same: "chain w' (host_entry i field) = chain w (host_entry i field)"
    if "field \<in> set HOST_SSH_SECRET_FIELDS" "i \<noteq> ?id \<or> field \<notin> set (secretFieldsFor h) \<and> field \<notin> set (stale_fields h (stored_host ?id w))" for i field
    using that stale host_fields_sub out_fs [of "host_entry i field"] by (auto simp: c cv acc subset_iff)
  have "entries_honest w' i" if "i \<notin> refused" for i
  proof (cases "i = ?id")
    case False
    then show ?thesis using that ready same find by (simp add: entries_honest_def write_ready_def)
  next
    case True
    have "chain w' (host_entry ?id field) \<noteq> None \<longleftrightarrow> storedFlag (Some ?r) field" if f: "field \<in> set HOST_SSH_SECRET_FIELDS" for field
    proof (cases "field \<in> set (secretFieldsFor h)")
      case True
      have "chain w' (host_entry ?id field) = stored (secret_for secrets field) (chain w (host_entry ?id field))"
        using True stale in_fs by (auto simp: c cv acc [OF f] subset_iff)
      moreover have "field_ready h secrets w field" using ready f by (simp add: write_ready_def)
      ultimately show ?thesis using True flagged_iff [of "secret_for secrets field" "chain w (host_entry ?id field)"]
        by (simp add: storedFlag_with_flags next_flags_def field_ready_def Let_def)
    next
      case False
      have "chain w' (host_entry ?id field) = None"
      proof (cases "field \<in> set (stale_fields h (stored_host ?id w))")
        case False
        then show ?thesis using \<open>field \<notin> set (secretFieldsFor h)\<close> same [OF f] ready f
          by (auto simp: write_ready_def field_ready_def Let_def)
      qed (auto simp: c)
      then show ?thesis using False by (simp add: storedFlag_with_flags)
    qed
    then show ?thesis using True find by (simp add: entries_honest_def)
  qed
  moreover have "nothing_else w'"
  proof -
    have w: "disk w' = cached w'" "\<And>a. chain w (HOST_KEYRING_SERVICE, a) \<noteq> Some []"
      "\<And>a. chain w (HOST_KEYRING_SERVICE, a) \<noteq> None \<Longrightarrow> \<exists>i. \<exists>field \<in> set HOST_SSH_SECRET_FIELDS. a = vaultAccount i field"
      using ready d s by (auto simp: nothing_else_def write_ready_def same_but_chain_def)
    have "chain u (HOST_KEYRING_SERVICE, a) \<noteq> Some [] \<and>
        (chain u (HOST_KEYRING_SERVICE, a) \<noteq> None \<longrightarrow> (\<exists>i. \<exists>field \<in> set HOST_SSH_SECRET_FIELDS. a = vaultAccount i field))" for a
    proof (cases "(HOST_KEYRING_SERVICE, a) \<in> host_entry ?id ` set (secretFieldsFor h)")
      case True
      then obtain field where f: "a = vaultAccount ?id field" "field \<in> set (secretFieldsFor h)" by auto
      then show ?thesis using in_fs [OF f(2)] stored_nonblank [OF w(2)] host_fields_sub [OF f(2)] by auto
    next
      case False
      then show ?thesis using out_fs [OF False] w(2,3) [of a] by simp
    qed
    then show ?thesis using w(1) unfolding nothing_else_def c cv by auto
  qed
  moreover have "\<forall>i \<in> refused. stored_host i w' = None" using ready find by (auto simp: write_ready_def)
  ultimately show ?thesis by (simp add: honest_hosts_def)
qed

abbreviation calm :: "nat \<Rightarrow> bool" where
  "calm \<equiv> \<lambda>_. False"

lemma honest_hosts_same: "honest_hosts refused w \<Longrightarrow> same_world w w' \<Longrightarrow> honest_hosts refused w'"
  by (simp add: honest_hosts_def nothing_else_def entries_honest_def same_world_def)

lemma writeHost_ready:
  assumes "write_ready refused h secrets w"
  shows "wp (writeHost calm clock h secrets expect) (\<lambda>r w'. case r of Inl e \<Rightarrow> same_world w w' | Inr x \<Rightarrow> honest_hosts refused w') w"
  by (rule wp_writeHost) (auto intro: saved_honest [OF assms])

lemma upsertHost_honest:
  assumes "honest_hosts refused w" and "host_id h \<notin> refused" and "truthful_for h secrets w"
  shows "wp (upsertHost calm clock h secrets expect) (\<lambda>r. honest_hosts refused) w"
  unfolding upsertHost_def
  by (rule wp_mono [OF writeHost_ready [OF honest_ready [OF assms]]]) (auto split: sum.splits intro: honest_hosts_same [OF assms(1)])

text \<open>The records a mutator that owns no secrets leaves: the same ids with the same flags.\<close>

lemma find_as_map_of: "map_option F (find (\<lambda>x. idf x = i) xs) = map_of (map (\<lambda>x. (idf x, F x)) xs) i"
  by (induction xs) auto

lemma storedFlag_map_option: "storedFlag e field = (case map_option (\<lambda>h. storedFlag (Some h)) e of None \<Rightarrow> False | Some f \<Rightarrow> f field)"
  by (cases e) auto

lemma honest_same_flags:
  assumes "honest_hosts refused w" and "disk w' = cached w'" and "chain w' = chain w"
    and "map (\<lambda>x. (host_id x, storedFlag (Some x))) (hosts_of (cached w')) = map (\<lambda>x. (host_id x, storedFlag (Some x))) (hosts_of (cached w))"
  shows "honest_hosts refused w'"
proof -
  have ids: "map host_id (hosts_of (cached w')) = map host_id (hosts_of (cached w))"
    using arg_cong [OF assms(4), of "map fst"] by (simp add: o_def)
  have "stored_host i w' = None \<longleftrightarrow> stored_host i w = None" for i
    using arg_cong [OF ids, of set] by (simp add: find_id_None)
  moreover have "storedFlag (stored_host i w') field = storedFlag (stored_host i w) field" for i field
    unfolding storedFlag_map_option [of "stored_host i w'"] storedFlag_map_option [of "stored_host i w"] find_as_map_of assms(4) ..
  ultimately show ?thesis using assms(1-3) by (simp add: honest_hosts_def nothing_else_def entries_honest_def)
qed

lemma patchHost_honest:
  assumes "honest_hosts refused w" and "device_patch patch"
  shows "wp (patchHost calm i patch) (\<lambda>r. honest_hosts refused) w"
proof (rule wp_patchHost, goal_cases)
  case (1 r w')
  then show ?case using honest_hosts_same [OF assms(1)] by blast
next
  case (2 r w' n x)
  have "host_id x = host_id (hosts_of (cached w) ! n)" "storedFlag (Some x) = storedFlag (Some (hosts_of (cached w) ! n))"
    using assms(2) 2(3) by (auto simp: device_patch_def)
  then show ?case using 2
    by (intro honest_same_flags [OF assms(1)]) (auto simp: persisted_def map_update list_update_same_conv)
qed

interpretation honest: patch_invariant "honest_hosts refused" calm for refused
  by unfold_locales (rule patchHost_honest)

lemma groups_honest:
  assumes "honest_hosts refused w"
  shows "wp (upsertGroup calm clock findIdentity grp) (\<lambda>r. honest_hosts refused) w"
    and "wp (deleteGroup calm clock i) (\<lambda>r. honest_hosts refused) w"
proof -
  note same = honest_hosts_same [OF assms] and flags = honest_same_flags [OF assms]
  have d: "disk w = cached w" using assms by (simp add: honest_hosts_def nothing_else_def)
  show "wp (upsertGroup calm clock findIdentity grp) (\<lambda>r. honest_hosts refused) w"
    unfolding upsertGroup_def host_reads Let_def
    by (intro vcg) (auto simp: world_simps persisted_def d intro: same intro!: flags)
  show "wp (deleteGroup calm clock i) (\<lambda>r. honest_hosts refused) w"
    unfolding deleteGroup_def host_reads Let_def
    by (intro vcg) (auto simp: world_simps persisted_def clear_group_def d intro: same intro!: flags)
qed

lemma find_filter_other: "find (\<lambda>x. idf x = j) (filter (\<lambda>x. idf x \<noteq> i) xs) = (if j = i then None else find (\<lambda>x. idf x = j) xs)"
  by (induction xs) (auto simp: find_None_iff)

lemma deleteHost_honest:
  assumes "honest_hosts refused w"
  shows "wp (deleteHost calm clock forwards i) (\<lambda>r. honest_hosts refused) w"
proof -
  have gone: "honest_hosts refused w'"
    if h: "stored_host i w = Some h" and w': "disk w' = cached w'" "hosts_of (cached w') = filter (\<lambda>x. host_id x \<noteq> i) (hosts_of (cached w))"
      "chain w' = (\<lambda>k. if k \<in> host_entry i ` set (secretFieldsFor h) then None else chain w k)" for h w'
  proof -
    have i: "i \<notin> refused" using assms h by (auto simp: honest_hosts_def)
    have "entries_honest w' j" if j: "j \<notin> refused" for j
    proof (cases "j = i")
      case True
      have "chain w' (host_entry i field) = None" if "field \<in> set HOST_SSH_SECRET_FIELDS" for field
      proof -
        have "chain w (host_entry i field) \<noteq> None \<longleftrightarrow> storedFlag (Some h) field"
          using assms that h i unfolding honest_hosts_def entries_honest_def by metis
        then show ?thesis using storedFlag_fields [of "Some h" field] by (auto simp: w'(3))
      qed
      then show ?thesis using True by (simp add: entries_honest_def w'(2) find_filter_other)
    next
      case False
      then have "chain w' (host_entry j field) = chain w (host_entry j field)" if "field \<in> set HOST_SSH_SECRET_FIELDS" for field
        using that host_fields_sub ssh_fields_sub by (auto simp: w'(3))
      then show ?thesis using False assms j by (simp add: entries_honest_def honest_hosts_def w'(2) find_filter_other)
    qed
    moreover have "\<forall>j \<in> refused. stored_host j w' = None" using assms by (simp add: honest_hosts_def w'(2) find_filter_other)
    moreover have "nothing_else w'" using assms w' by (auto simp: honest_hosts_def nothing_else_def)
    ultimately show ?thesis by (simp add: honest_hosts_def)
  qed
  have dropped: "honest_hosts refused w'"
    if "persisted [set_hosts (filter (\<lambda>x. host_id x \<noteq> i) (hosts_of (cached w))), set_host_graves g] ds u w'" "disk w' = cached w'"
      "stored_host i w = Some h" "chain u = (\<lambda>k. if k \<in> host_entry i ` set (secretFieldsFor h) then None else chain w k)" for h u w' g ds
    using that by (intro gone) (auto simp: persisted_def)
  show ?thesis unfolding deleteHost_def host_reads Let_def
    by (intro vcg) (auto simp: world_simps intro: honest_hosts_same [OF assms] elim!: dropped)
qed

section \<open>Duplicates\<close>

lemma copied_ready:
  assumes "honest_hosts refused w" and fresh: "stored_host copyId w = None" "copyId \<notin> refused"
    and cp: "copied src copyId s w v"
  shows "write_ready refused (copy_of_host copyId src) s v"
proof -
  have same: "cached v = cached w" "disk v = disk w" "\<And>k. k \<notin> host_entry copyId ` set (secretFieldsFor src) \<Longrightarrow> chain v k = chain w k"
    using cp by (auto simp: copied_def same_but_chain_def)
  have none: "chain w (host_entry copyId f) = None" if "f \<in> set HOST_SSH_SECRET_FIELDS" for f
    using assms(1) fresh that unfolding honest_hosts_def entries_honest_def by (metis storedFlag.simps(1))
  have new: "chain v (host_entry copyId f) = (if held (chain w (host_entry (host_id src) f)) then chain w (host_entry (host_id src) f) else None)"
    if "f \<in> set (secretFieldsFor src)" for f
    using that cp none host_fields_sub by (auto simp: copied_def split: if_splits)
  have "field_ready (copy_of_host copyId src) s v f" if f: "f \<in> set HOST_SSH_SECRET_FIELDS" for f
  proof (cases "f \<in> set (secretFieldsFor src)")
    case True
    then show ?thesis using cp new [OF True] same(1) fresh
      by (auto simp: field_ready_def copied_def held_def split: if_splits option.splits)
  next
    case False
    then have "host_entry copyId f \<notin> host_entry copyId ` set (secretFieldsFor src)"
      using f ssh_fields_sub host_fields_sub by auto
    then show ?thesis using False same(3) none [OF f] by (simp add: field_ready_def)
  qed
  moreover have "entries_honest v j" if "j \<noteq> copyId" "j \<notin> refused" for j
  proof -
    have "chain v (host_entry j f) = chain w (host_entry j f)" if "f \<in> set HOST_SSH_SECRET_FIELDS" for f
      using \<open>j \<noteq> copyId\<close> that ssh_fields_sub host_fields_sub by (intro same(3)) auto
    then show ?thesis using assms(1) same(1) that(2) by (simp add: entries_honest_def honest_hosts_def)
  qed
  moreover have "nothing_else v"
  proof -
    have "chain v (HOST_KEYRING_SERVICE, a) \<noteq> Some [] \<and>
        (chain v (HOST_KEYRING_SERVICE, a) \<noteq> None \<longrightarrow> (\<exists>i. \<exists>f \<in> set HOST_SSH_SECRET_FIELDS. a = vaultAccount i f))" for a
    proof (cases "(HOST_KEYRING_SERVICE, a) \<in> host_entry copyId ` set (secretFieldsFor src)")
      case True
      then obtain f where f: "a = vaultAccount copyId f" "f \<in> set (secretFieldsFor src)" by auto
      then show ?thesis using new [OF f(2)] host_fields_sub [OF f(2)] by (auto simp: held_def)
    next
      case False
      then show ?thesis using same(3) assms(1) by (auto simp: honest_hosts_def nothing_else_def)
    qed
    then show ?thesis using assms(1) same by (auto simp: honest_hosts_def nothing_else_def)
  qed
  moreover have "\<forall>i \<in> refused. stored_host i v = None" using assms(1) same(1) by (simp add: honest_hosts_def)
  ultimately show ?thesis using fresh(2) by (simp add: write_ready_def)
qed

text \<open>A copy whose record was refused: its secrets stay, and its id is one no host has.\<close>

lemma refused_copy_honest:
  assumes "write_ready refused (copy_of_host copyId src) s v" and "stored_host copyId v = None" and "same_world v w'"
  shows "honest_hosts (insert copyId refused) w'"
  using assms by (auto simp: write_ready_def honest_hosts_def nothing_else_def entries_honest_def same_world_def)

lemma duplicateHost_honest:
  assumes "honest_hosts refused w" and fresh: "copyId \<notin> host_ids (cached w)" "copyId \<notin> refused"
  shows "wp (duplicateHost calm clock copyId i)
    (\<lambda>r. case r of Inl e \<Rightarrow> honest_hosts (insert copyId refused) | Inr x \<Rightarrow> honest_hosts refused) w"
  unfolding duplicateHost_def host_reads
proof (intro vcg_get_bind vcg_option)
  fix v src assume v: "same_world w v" and src: "stored_host i w = Some src"
  have h: "honest_hosts refused v" and f: "stored_host copyId v = None"
    using honest_hosts_same [OF assms(1) v] v fresh by (auto simp: same_world_def find_id_None)
  have ne: "copyId \<noteq> host_id src" using fresh find_SomeD [OF src] by auto
  show "wp (io_bind (io_catch (copyHostSecrets calm src copyId) (\<lambda>e. io_bind (rollbackNewHost calm (copy_of_host copyId src)) (\<lambda>_. io_throw e)))
      (\<lambda>secrets. io_bind (writeHost calm clock (copy_of_host copyId src) secrets None) (\<lambda>r. io_return (Some r))))
     (\<lambda>r. case r of Inl e \<Rightarrow> honest_hosts (insert copyId refused) | Inr x \<Rightarrow> honest_hosts refused) v"
    unfolding wps
  proof (rule wp_copyHostSecrets [OF ne], goal_cases)
    case (1 s u)
    have ready: "write_ready refused (copy_of_host copyId src) s u" using copied_ready [OF h f fresh(2) 1] .
    have none: "stored_host copyId u = None" using f 1 by (simp add: copied_def same_but_chain_def)
    show ?case unfolding sum.case
      by (rule wp_mono [OF writeHost_ready [OF ready]]) (auto intro: refused_copy_honest [OF ready none] split: sum.splits)
  qed simp
qed (use honest_hosts_same [OF assms(1)] in \<open>auto simp: wps\<close>)

section \<open>The calm store\<close>

text \<open>
  The mutators while no call fails, with the ids given to duplicates that were refused. An input says
  a secret is already stored only when it is, and a new id is never one of a refused copy: ids are
  random.
\<close>

inductive calm_host_step :: "host_file world \<times> string set \<Rightarrow> host_file world \<times> string set \<Rightarrow> bool" where
  chs_upsertHost: "truthful_for h secrets w \<Longrightarrow> host_id h \<notin> refused \<Longrightarrow>
    calm_host_step (w, refused) (snd (upsertHost calm clock h secrets expect w), refused)"
| chs_duplicateHost: "copyId \<notin> host_ids (cached w) \<Longrightarrow> copyId \<notin> refused \<Longrightarrow>
    duplicateHost calm clock copyId i w = (r, w') \<Longrightarrow>
    calm_host_step (w, refused) (w', case r of Inl e \<Rightarrow> insert copyId refused | Inr x \<Rightarrow> refused)"
| chs_deleteHost: "calm_host_step (w, refused) (snd (deleteHost calm clock forwards i w), refused)"
| chs_upsertGroup: "calm_host_step (w, refused) (snd (upsertGroup calm clock findIdentity grp w), refused)"
| chs_deleteGroup: "calm_host_step (w, refused) (snd (deleteGroup calm clock i w), refused)"
| chs_markConnected: "calm_host_step (w, refused) (snd (markConnected calm clock i fp w), refused)"
| chs_pinFingerprint: "calm_host_step (w, refused) (snd (pinFingerprint calm i fp w), refused)"
| chs_forgetPin: "calm_host_step (w, refused) (snd (forgetPin calm i addr w), refused)"

definition calm_start :: "host_file world \<times> string set \<Rightarrow> bool" where
  "calm_start = (\<lambda>(w, refused). fresh_hosts w \<and> refused = {})"

definition calm_honest :: "host_file world \<times> string set \<Rightarrow> bool" where
  "calm_honest = (\<lambda>(w, refused). honest_hosts refused w)"

lemma calm_host_step_honest: "calm_host_step c c' \<Longrightarrow> calm_honest c \<Longrightarrow> calm_honest c'"
proof (induction rule: calm_host_step.induct)
  case (chs_duplicateHost copyId w refused clock i r w')
  then show ?case using wpD [OF duplicateHost_honest chs_duplicateHost(3)] by (auto simp: calm_honest_def split: sum.splits)
qed (auto simp: calm_honest_def intro: wp_result [OF upsertHost_honest] wp_result [OF deleteHost_honest]
    groups_honest [THEN wp_result] honest.connects_keep [THEN wp_result])

lemma calm_start_honest: "calm_start c \<Longrightarrow> calm_honest c"
  by (auto simp: calm_start_def calm_honest_def fresh_hosts_def honest_hosts_def nothing_else_def entries_honest_def
      empty_hosts_def hosts_of_def)

interpretation calm_hosts: invariant_system calm_start calm_host_step calm_honest
  by unfold_locales (auto intro: calm_start_honest calm_host_step_honest)

text \<open>
  C11: while no call fails, the flags of every listed host say exactly which of its secrets the
  keychain holds, and the file on disk is the one the session sees; through edits that change the
  protocol or move the credential into the vault, duplicates, connects and deletes, refused or not.
  Every secret of the hosts' service belongs to a listed host that claims it, or was copied for a
  duplicate that was then refused: if none was, nothing is orphaned.
\<close>

theorem host_flags_honest:
  assumes "reachable calm_start calm_host_step (w, refused)"
  shows "(\<forall>h \<in> set (hosts_of (cached w)). \<forall>field \<in> set HOST_SSH_SECRET_FIELDS.
        chain w (host_entry (host_id h) field) \<noteq> None \<longleftrightarrow> storedFlag (stored_host (host_id h) w) field)
    \<and> (\<forall>a. chain w (HOST_KEYRING_SERVICE, a) \<noteq> None \<longrightarrow>
        (\<exists>h \<in> set (hosts_of (cached w)). \<exists>field \<in> set (secretFieldsFor h). a = vaultAccount (host_id h) field \<and> storedFlag (Some h) field)
        \<or> (\<exists>i \<in> refused. \<exists>field \<in> set HOST_SSH_SECRET_FIELDS. a = vaultAccount i field))
    \<and> (\<forall>i \<in> refused. i \<notin> host_ids (cached w))
    \<and> disk w = cached w"
proof -
  have h: "honest_hosts refused w" using calm_hosts.reachable_inv [OF assms] by (simp add: calm_honest_def)
  have gone: "\<forall>i \<in> refused. i \<notin> host_ids (cached w)" using h by (simp add: honest_hosts_def find_id_None)
  have e: "chain w (host_entry i field) \<noteq> None \<longleftrightarrow> storedFlag (stored_host i w) field"
    if "i \<notin> refused" "field \<in> set HOST_SSH_SECRET_FIELDS" for i field
    using h that by (simp add: honest_hosts_def entries_honest_def)
  have "(\<exists>h \<in> set (hosts_of (cached w)). \<exists>field \<in> set (secretFieldsFor h). a = vaultAccount (host_id h) field \<and> storedFlag (Some h) field)
      \<or> (\<exists>i \<in> refused. \<exists>field \<in> set HOST_SSH_SECRET_FIELDS. a = vaultAccount i field)"
    if a: "chain w (HOST_KEYRING_SERVICE, a) \<noteq> None" for a
  proof -
    obtain i field where f: "a = vaultAccount i field" "field \<in> set HOST_SSH_SECRET_FIELDS"
      using h a unfolding honest_hosts_def nothing_else_def by blast
    show ?thesis
    proof (cases "i \<in> refused")
      case False
      then have s: "storedFlag (stored_host i w) field" using e f a by blast
      then obtain x where "stored_host i w = Some x" "field \<in> set (secretFieldsFor x)" using storedFlag_fields by blast
      then show ?thesis using f s find_SomeD [of "\<lambda>x. host_id x = i"] by metis
    qed (use f in blast)
  qed
  moreover have "disk w = cached w" using h by (simp add: honest_hosts_def nothing_else_def)
  ultimately show ?thesis using e gone by blast
qed

end
