(* ===== verification/Host_Pins.thy ===== *)
theory Host_Pins
  imports Host_Flags
begin

text \<open>
  Pinned server keys: the flat field a connect compares against is always the pin of the address the
  record names, and a landing from another device neither files nor erases a pin.
\<close>

section \<open>Pins\<close>

text \<open>The flat field every connect compares against is the pin of the address the record names.\<close>

definition projected :: "host \<Rightarrow> bool" where
  "projected h \<longleftrightarrow> hostFingerprint h = map_of (hostPins h) (h_host (base h))"

lemma hostPins_withPins [simp]: "hostPins (withPins h ps) = ps"
  by (cases ps) (auto simp: hostPins_def withPins_def Let_def)

lemma hostFingerprint_withPins [simp]: "hostFingerprint (withPins h ps) = map_of ps (h_host (base h))"
  by (simp add: withPins_def Let_def)

lemma hostPins_map_base:
  "h_pins (f (base h)) = h_pins (base h) \<Longrightarrow> h_host (f (base h)) = h_host (base h) \<Longrightarrow> hostPins (map_base f h) = hostPins h"
  by (simp add: hostPins_def split: option.splits)

lemma projected_simps [simp]:
  "projected (withPins h ps)" "projected (withFingerprint h fp)" "projected (written_host c h e)" "projected (landed_host u h e)"
  "projected (map_base (h_lastConnectedAt_update f) h) = projected h" "projected (clear_group c i h) = projected h"
  by (simp_all add: projected_def withFingerprint_def written_host_def landed_host_def clear_group_def hostPins_map_base)

lemmas written_projected = projected_simps(3)

definition pins_ok :: "host list \<Rightarrow> bool" where
  "pins_ok hosts \<longleftrightarrow> distinct (map host_id hosts) \<and> (\<forall>h \<in> set hosts. projected h)"

definition pins_inv :: "host_file world \<Rightarrow> bool" where
  "pins_inv w \<longleftrightarrow> pins_ok (hosts_of (cached w)) \<and> pins_ok (hosts_of (disk w))"

lemma pins_inv_same: "pins_inv w \<Longrightarrow> cached w' = cached w \<Longrightarrow> disk w' = disk w \<Longrightarrow> pins_inv w'"
  by (simp add: pins_inv_def)

lemma pins_inv_persisted:
  "persisted entries ds u w' \<Longrightarrow> pins_inv w \<Longrightarrow> disk u = disk w \<Longrightarrow> pins_ok (hosts_of (fold (\<lambda>f. f) entries (cached u))) \<Longrightarrow> pins_inv w'"
  by (auto simp: pins_inv_def persisted_def)

lemma pins_ok_edits:
  assumes "pins_ok hosts"
  shows "projected r \<Longrightarrow> pins_ok (put_record host_id r hosts)"
    and "pins_ok (filter (\<lambda>x. host_id x \<noteq> i) hosts)"
    and "pins_ok (map (clear_group c i) hosts)"
    and "projected x \<Longrightarrow> n < length hosts \<Longrightarrow> host_id x = host_id (hosts ! n) \<Longrightarrow> pins_ok (hosts[n := x])"
proof -
  show "pins_ok (put_record host_id r hosts)" if "projected r"
    using assms that set_put_record [of host_id r hosts] by (auto simp: pins_ok_def)
  show "pins_ok (filter (\<lambda>x. host_id x \<noteq> i) hosts)" using assms by (auto simp: pins_ok_def distinct_map_filter)
  have "host_id (clear_group c i h) = host_id h" for h by (simp add: clear_group_def)
  then show "pins_ok (map (clear_group c i) hosts)" using assms by (auto simp: pins_ok_def comp_def)
  show "pins_ok (hosts[n := x])" if "projected x" "n < length hosts" "host_id x = host_id (hosts ! n)"
  proof -
    have "map host_id (hosts[n := x]) = map host_id hosts" using that(2,3) by (simp add: map_update list_update_same_conv)
    then show ?thesis using assms that(1) set_update_subset_insert [of hosts n x] by (auto simp: pins_ok_def)
  qed
qed

lemma writeHost_pins:
  assumes "pins_inv w"
  shows "wp (writeHost fault clock h secrets expect) (\<lambda>r. pins_inv) w"
proof -
  have wr: "pins_inv v" if "host_write clock h secrets w u v" for u v
    using that assms pins_ok_edits(1) [OF _ written_projected]
    by (auto simp: host_write_def same_but_chain_def pins_inv_def [of w] elim!: pins_inv_persisted [OF _ assms])
  show ?thesis
    by (rule wp_writeHost) (auto simp: world_simps intro: pins_inv_same [OF assms] wr pins_inv_same [OF wr])
qed

lemma patchHost_pins:
  assumes "pins_inv w" and "device_patch patch"
  shows "wp (patchHost fault i patch) (\<lambda>r. pins_inv) w"
proof (rule wp_patchHost, goal_cases)
  case (1 r w')
  then show ?case using pins_inv_same [OF assms(1)] by (simp add: same_world_def)
next
  case (2 r w' n x)
  have "projected x" "host_id x = host_id (hosts_of (cached w) ! n)"
    using assms(2) 2(3) unfolding device_patch_def by (metis projected_simps(1,5))+
  then show ?case using assms(1) 2(1) by (intro pins_inv_persisted [OF 2(5) assms(1)]) (auto simp: pins_inv_def intro: pins_ok_edits)
qed

interpretation pinned: file_invariant pins_inv fault for fault
  by unfold_locales (auto intro: patchHost_pins pins_inv_same writeHost_pins)

lemma delete_pins:
  assumes "pins_inv w"
  shows "wp (deleteHost fault clock forwards i) (\<lambda>r. pins_inv) w"
    and "wp (upsertGroup fault clock findIdentity grp) (\<lambda>r. pins_inv) w"
    and "wp (deleteGroup fault clock i) (\<lambda>r. pins_inv) w"
proof -
  note same = pins_inv_same [OF assms] and kept = pins_inv_persisted [OF _ assms]
  have p: "pins_ok (hosts_of (cached w))" using assms by (simp add: pins_inv_def)
  show "wp (deleteHost fault clock forwards i) (\<lambda>r. pins_inv) w"
    unfolding deleteHost_def host_reads Let_def by (intro vcg) (auto simp: world_simps p intro: same pins_ok_edits [OF p] elim!: kept)
  show "wp (upsertGroup fault clock findIdentity grp) (\<lambda>r. pins_inv) w"
    unfolding upsertGroup_def host_reads Let_def by (intro vcg) (auto simp: world_simps p intro: same pins_ok_edits [OF p] elim!: kept)
  show "wp (deleteGroup fault clock i) (\<lambda>r. pins_inv) w"
    unfolding deleteGroup_def host_reads Let_def by (intro vcg) (auto simp: world_simps intro: same pins_ok_edits [OF p] elim!: kept)
qed

section \<open>Landings and pins\<close>

text \<open>A record of the list a landing loop works on: its pins are those the store had for it, or none.\<close>

definition old_pins :: "host list \<Rightarrow> string set \<Rightarrow> host list \<Rightarrow> bool" where
  "old_pins hosts buried xs \<longleftrightarrow> distinct (map host_id xs)
     \<and> (\<forall>h \<in> set xs. projected h \<and> (hostPins h = [] \<or> (\<exists>e \<in> set hosts. host_id e = host_id h \<and> hostPins h = hostPins e)))
     \<and> (\<forall>e \<in> set hosts. host_id e \<notin> buried \<longrightarrow> (\<exists>h \<in> set xs. host_id h = host_id e \<and> hostPins h = hostPins e))"

lemma hostPins_landed [simp]: "hostPins (landed_host u r e) = (case e of None \<Rightarrow> [] | Some x \<Rightarrow> hostPins x)"
  by (simp add: landed_host_def)

lemma host_id_landed [simp]: "host_id (landed_host u r e) = host_id r"
  by (simp add: landed_host_def)

lemma old_pins_revive:
  assumes "old_pins hosts buried xs" and "host_id r = i"
  shows "old_pins hosts buried (put_record host_id (landed_host u r (find (\<lambda>x. host_id x = i) xs)) xs)"
proof -
  let ?n = "landed_host u r (find (\<lambda>x. host_id x = i) xs)"
  have d: "distinct (map host_id xs)" using assms(1) by (simp add: old_pins_def)
  have found: "find (\<lambda>x. host_id x = i) xs = Some x \<longleftrightarrow> x \<in> set xs \<and> host_id x = i" for x by (rule find_id_iff [OF d])
  have n: "host_id ?n = i" "projected ?n" using assms(2) by auto
  have old: "hostPins ?n = [] \<or> (\<exists>e \<in> set hosts. host_id e = i \<and> hostPins ?n = hostPins e)"
    using assms(1) found unfolding old_pins_def by (fastforce split: option.splits)
  have kept: "\<exists>h \<in> insert ?n {x \<in> set xs. host_id x \<noteq> i}. host_id h = host_id e \<and> hostPins h = hostPins e"
    if e: "e \<in> set hosts" "host_id e \<notin> buried" for e
  proof -
    obtain h where h: "h \<in> set xs" "host_id h = host_id e" "hostPins h = hostPins e" using assms(1) e by (auto simp: old_pins_def)
    show ?thesis
    proof (cases "host_id h = i")
      case True
      then have "find (\<lambda>x. host_id x = i) xs = Some h" using h(1) found by blast
      then show ?thesis using h True n(1) by (auto simp: assms(2))
    next
      case False
      then show ?thesis using h by auto
    qed
  qed
  show ?thesis using assms(1) old kept n d
    unfolding old_pins_def set_put_record_iff [OF d] n(1) by (auto simp: assms(2))
qed

lemma old_pins_bury:
  assumes "old_pins hosts buried xs" and "i \<in> buried"
  shows "old_pins hosts buried (remove_first (\<lambda>x. host_id x = i) xs)"
proof -
  have d: "distinct (map host_id xs)" using assms(1) by (simp add: old_pins_def)
  show ?thesis using assms unfolding remove_first_filter [OF d] old_pins_def by (fastforce simp: distinct_map_filter)
qed

text \<open>The ids the tombstones of a set of landings name.\<close>

definition buried_hosts :: "host landing list \<Rightarrow> string set" where
  "buried_hosts ls = {js_text (gv_id g) | g. LandedGrave g \<in> set ls}"

lemma accepted_record:
  assumes "landingRefusal num (as_remote host_id (LandedRecord i r u sec)) kind = None"
  shows "\<exists>x. r = Some x \<and> host_id x = js_text i"
  using assms by (cases r; cases i)
    (auto simp: landingRefusal_def js_text_def split: if_splits)

lemma land_host_pins:
  assumes "old_pins hosts B (la_records acc)" and "buried_hosts [l] \<subseteq> B"
  shows "wp (land_host num fault graves l acc) (\<lambda>r w'. case r of Inl e \<Rightarrow> True | Inr a \<Rightarrow> old_pins hosts B (la_records a)) w"
proof (cases l)
  case (LandedGrave g)
  have "js_text (gv_id g) \<in> B" using assms(2) LandedGrave by (auto simp: buried_hosts_def)
  then have b: "old_pins hosts B (la_records (bury host_id (grave_tombstone g) acc))"
    using old_pins_bury [OF assms(1)] by (simp add: bury_def Let_def grave_tombstone_def)
  have r: "old_pins hosts B (la_records (refuse x acc))" for x using assms(1) by (simp add: refuse_def)
  show ?thesis using LandedGrave
    by (auto simp: land_host_def land_grave_def Let_def wps r b split: option.splits intro!: vcg_deleteAccounts)
next
  case (LandedRecord i r u sec)
  have r: "old_pins hosts B (la_records (refuse x acc))" for x using assms(1) by (simp add: refuse_def)
  show ?thesis
  proof (cases "landingRefusal num (as_remote host_id l) HOST_TOMBSTONE_KIND")
    case None
    then obtain x where x: "r = Some x" "host_id x = js_text i" using accepted_record LandedRecord by blast
    then show ?thesis using None LandedRecord assms(1) old_pins_revive [OF assms(1) x(2)]
      by (auto simp: land_host_def wps revive_def)
  qed (auto simp: land_host_def wps r)
qed

section \<open>Landings and secrets\<close>

definition buried_entries :: "host landing list \<Rightarrow> (string \<times> string) set" where
  "buried_entries ls = {host_entry i field | i field. i \<in> buried_hosts ls \<and> field \<in> set HOST_SSH_SECRET_FIELDS}"

lemma land_host_step: "landing_step (buried_entries [l]) w (land_host num fault graves l acc)"
proof (cases l)
  case (LandedGrave g)
  have "landing_step (buried_entries [l]) w
      (land_grave (\<lambda>h. deleteAccounts fault (host_id h) (secretFieldsFor h)) host_id HOST_TOMBSTONE_KIND g acc)"
  proof (rule land_grave_step)
    fix h and v :: "host_file world" assume h: "host_id h = js_text (gv_id g)"
    have sub: "host_entry (host_id h) ` set (secretFieldsFor h) \<subseteq> buried_entries [l]"
      using LandedGrave h host_fields_sub by (auto simp: buried_entries_def buried_hosts_def)
    show "wp (deleteAccounts fault (host_id h) (secretFieldsFor h))
        (\<lambda>_ w'. same_but_chain v w' \<and> keeps_secrets (buried_entries [l]) (chain v) (chain w')) v"
    proof (rule vcg_deleteAccounts, goal_cases)
      case (1 w' n)
      have "k \<in> buried_entries [l]" if "chain v k \<noteq> None" "chain w' k = None" for k using 1(2) [of k] that sub by auto
      then show ?case using 1(1) by (simp add: keeps_secrets_def)
    next
      case (2 w')
      have "k \<in> buried_entries [l]" if "chain v k \<noteq> None" "chain w' k = None" for k using that sub by (auto simp: 2(2) split: if_splits)
      then show ?case using 2(1) by (simp add: keeps_secrets_def)
    qed
  qed
  then show ?thesis using LandedGrave by (simp add: land_host_def split: option.splits)
next
  case (LandedRecord i r u sec)
  then show ?thesis by (simp add: land_host_def split: option.splits)
qed

lemma land_group_step: "landing_step {} w (land_group num graves l acc)"
  by (cases l) (auto simp: land_group_def split: option.splits)

lemma land_all_hosts:
  assumes "old_pins hosts B (la_records acc)" and "buried_hosts ls \<subseteq> B"
  shows "wp (land_all (land_host num fault graves) ls acc)
    (\<lambda>r w'. case r of Inl e \<Rightarrow> True | Inr a \<Rightarrow> old_pins hosts B (la_records a)) w"
  using assms
proof (induction ls arbitrary: acc w)
  case Nil
  then show ?case by (simp add: wps)
next
  case (Cons l ls)
  have "buried_hosts [l] \<subseteq> B" "buried_hosts ls \<subseteq> B" using Cons.prems(2) by (auto simp: buried_hosts_def)
  then show ?case unfolding land_all.simps wps
    by (intro wp_mono [OF land_host_pins [OF Cons.prems(1)]]) (auto split: sum.splits intro: Cons.IH)
qed

lemma old_pins_start: "pins_ok hosts \<Longrightarrow> old_pins hosts B hosts"
  by (auto simp: old_pins_def pins_ok_def)

text \<open>What an apply leaves: the pins, the disk, and which secrets it may have taken.\<close>

lemma applyRemoteHosts_wp:
  assumes "pins_inv w"
  shows "wp (applyRemoteHosts num fault clock hls gls) (\<lambda>r w'.
      old_pins (hosts_of (cached w)) (buried_hosts hls) (hosts_of (cached w')) \<and> pins_inv w'
      \<and> keeps_secrets (buried_entries hls) (chain w) (chain w')
      \<and> (\<forall>e. r = Inl e \<longrightarrow> e = HostStoreFailed \<and> (\<exists>n. fault n))) w"
proof -
  have ok: "pins_ok (hosts_of (cached w))" "pins_ok (hosts_of (disk w))" using assms by (auto simp: pins_inv_def)
  have sub: "pins_ok xs" if "old_pins hs B xs" for hs B xs using that by (auto simp: old_pins_def pins_ok_def)
  have u: "(\<Union>l \<in> set hls. buried_entries [l]) = buried_entries hls" by (force simp: buried_entries_def buried_hosts_def)
  have hosts: "wp (io_bind (land_all (land_host num fault graves) hls acc) f) Q v"
    if "old_pins hs (buried_hosts hls) (la_records acc)"
      and f: "\<And>a v'. old_pins hs (buried_hosts hls) (la_records a) \<Longrightarrow> same_but_chain v v' \<Longrightarrow>
        keeps_secrets (buried_entries hls) (chain v) (chain v') \<Longrightarrow> wp (f a) Q v'"
    for hs v graves acc Q and f :: "host landing_acc \<Rightarrow> store_refusal list host_io"
    unfolding wp_bind
    by (rule wp_mono [OF wp_conj [OF land_all_hosts [OF that(1) subset_refl, of num fault graves v]
        land_all_step [where S = "\<lambda>l. buried_entries [l]" and ls = hls, OF land_host_step, unfolded landing_step_def u]]])
      (auto split: sum.splits intro: f)
  have groups: "wp (io_bind (land_all (land_group num graves) gls acc) f) Q v"
    if f: "\<And>a v'. same_but_chain v v' \<Longrightarrow> keeps_secrets {} (chain v) (chain v') \<Longrightarrow> wp (f a) Q v'"
    for v graves acc Q and f :: "host_group landing_acc \<Rightarrow> store_refusal list host_io"
    unfolding wp_bind
    by (rule wp_mono [OF land_all_step [where S = "\<lambda>l. {}" and ls = gls, OF land_group_step, unfolded landing_step_def]])
      (auto intro: f)
  have es: "hosts_of (fold (\<lambda>f. f) ((if p then [set_hosts xs] else []) @ (if q then [set_groups ys] else []) @ host_graves_entry g) f)
      = (if p then xs else hosts_of f)" for p q xs ys g f by simp
  let ?Q = "\<lambda>r w'. old_pins (hosts_of (cached w)) (buried_hosts hls) (hosts_of (cached w')) \<and> pins_inv w'
      \<and> keeps_secrets (buried_entries hls) (chain w) (chain w') \<and> (\<forall>e. r = Inl e \<longrightarrow> e = HostStoreFailed \<and> (\<exists>n. fault n))"
  have idle: "?Q r w'" if "same_but_chain w w'" "keeps_secrets (buried_entries hls) (chain w) (chain w')"
    "\<forall>e. r = Inl e \<longrightarrow> e = HostStoreFailed \<and> (\<exists>n. fault n)" for r w'
    using that assms old_pins_start [OF ok(1)] by (simp add: same_but_chain_def pins_inv_def)
  have saved: "?Q r w'" if "persisted es [] v w'" "same_but_chain w v" "keeps_secrets (buried_entries hls) (chain w) (chain v)"
    "\<forall>e. r = Inl e \<longrightarrow> e = HostStoreFailed \<and> (\<exists>n. fault n)"
    "old_pins (hosts_of (cached w)) (buried_hosts hls) (hosts_of (fold (\<lambda>f. f) es (cached v)))" for r w' v es
    using that ok(2) sub by (auto simp: same_but_chain_def pins_inv_def persisted_def)
  show ?thesis unfolding applyRemoteHosts_def host_reads Let_def
  proof (intro vcg hosts [where hs = "hosts_of (cached w)"] groups, goal_cases)
    case (5 v1 v2 v3 a v4 b v5 w' n)
    then show ?case by (intro saved [OF 5(10)]) (auto simp: world_simps es intro: keeps_trans old_pins_start [OF ok(1)])
  next
    case (6 v1 v2 v3 a v4 b v5 w')
    then show ?case unfolding wps by (intro saved [OF 6(10)]) (auto simp: world_simps es intro: keeps_trans old_pins_start [OF ok(1)])
  next
    case (7 v1 v2 v3 a v4 b v5)
    then show ?case unfolding wps by (intro idle) (auto simp: world_simps intro: keeps_trans)
  qed (auto simp: world_simps old_pins_start [OF ok(1)] intro!: idle intro: pins_inv_same [OF assms])
qed

section \<open>The store with landings\<close>

inductive synced_step :: "host_file world \<Rightarrow> host_file world \<Rightarrow> bool" where
  sy_local: "host_step w w' \<Longrightarrow> synced_step w w'"
| sy_remote: "synced_step w (snd (applyRemoteHosts num fault clock hls gls w))"

lemma host_step_pins: "pins_inv w \<Longrightarrow> host_step w w' \<Longrightarrow> pins_inv w'"
  by (erule host_step.cases)
    (auto intro: pinned.upsertHost_keeps [THEN wp_result] pinned.duplicateHost_keeps [THEN wp_result] delete_pins [THEN wp_result]
      pinned.connects_keep [THEN wp_result])

lemma synced_step_pins: "pins_inv w \<Longrightarrow> synced_step w w' \<Longrightarrow> pins_inv w'"
proof (erule synced_step.cases)
  fix v num fault clock hls gls assume "pins_inv w" "w = v" "w' = snd (applyRemoteHosts num fault clock hls gls v)"
  then show "pins_inv w'" using wp_result [OF wp_mono [OF applyRemoteHosts_wp [of v num fault clock hls gls]], of pins_inv] by auto
qed (auto intro: host_step_pins)

lemma fresh_hosts_pins: "fresh_hosts w \<Longrightarrow> pins_inv w"
  by (simp add: fresh_hosts_def pins_inv_def pins_ok_def empty_hosts_def hosts_of_def)

interpretation synced_hosts: invariant_system fresh_hosts synced_step pins_inv
  by unfold_locales (auto intro: fresh_hosts_pins synced_step_pins)

abbreviation synced_reachable :: "host_file world \<Rightarrow> bool" where
  "synced_reachable \<equiv> reachable fresh_hosts synced_step"

definition repoint :: "string \<Rightarrow> host \<Rightarrow> host" where
  "repoint addr = map_base (h_host_update (\<lambda>_. addr))"

lemma nextPins_repoint:
  assumes "projected h"
  shows "nextPins (with_flags F (repoint b h)) (Some h) = hostPins h"
proof (cases "h_pins (base h)")
  case None
  show ?thesis
  proof (cases "hostFingerprint h")
    case fp: (Some f)
    then have "f \<noteq> []" using assms None by (auto simp: projected_def hostPins_def)
    then show ?thesis using None fp by (auto simp: nextPins_def repoint_def hostPins_def truthy_iff Let_def)
  qed (use None in \<open>simp add: nextPins_def repoint_def hostPins_def truthy_iff\<close>)
qed (simp add: nextPins_def repoint_def hostPins_def)

lemma written_repoint:
  assumes "projected h"
  shows "hostPins (written_host c (with_flags F (repoint b h)) (Some h)) = hostPins h"
    and "hostFingerprint (written_host c (with_flags F (repoint b h)) (Some h)) = map_of (hostPins h) b"
  using nextPins_repoint [OF assms] by (simp_all add: written_host_def hostPins_map_base repoint_def)

lemma upsertHost_returns:
  assumes "upsertHost fault clock h secrets expect w = (Inr r, w')"
  shows "r = stored_as clock h secrets w \<and> stored_host (host_id h) w' = Some r"
proof -
  have "wp (writeHost fault clock h secrets expect) (\<lambda>r w'. \<forall>x. r = Inr x \<longrightarrow> x = stored_as clock h secrets w \<and> stored_host (host_id h) w' = Some x) w"
  proof (rule wp_writeHost, goal_cases)
    case (6 u v w')
    then show ?case by (auto simp: host_write_def persisted_def same_but_chain_def find_put_record)
  qed auto
  then show ?thesis using assms by (simp add: wp_def upsertHost_def)
qed

lemma repoint_simps [simp]: "host_id (repoint b h) = host_id h" "h_host (base (repoint b h)) = b"
  by (simp_all add: repoint_def)

section \<open>Properties\<close>

text \<open>
  C12: in every file the host store can reach, by edits, connects, deletes and landings from other
  devices in any order and with any failing calls, the fingerprint a connect compares against is the
  pin recorded for the address the record names, and nothing when there is none.
\<close>

theorem pins_projected:
  assumes "synced_reachable w" and "f \<in> {cached w, disk w}" and "h \<in> set (hosts_of f)"
  shows "hostFingerprint h = map_of (hostPins h) (h_host (base h))"
  using synced_hosts.reachable_inv [OF assms(1)] assms(2,3) by (auto simp: pins_inv_def pins_ok_def projected_def)

text \<open>
  C13: a landing from another device neither files a pin nor erases one: every host it leaves carries
  the pins this device had for it, or none; a host the set does not delete keeps its pins. It takes
  secrets away only where a tombstone of the set names the host, and rejects only with the store file.
\<close>

theorem landing_keeps_pins:
  assumes "synced_reachable w" and "applyRemoteHosts num fault clock hls gls w = (r, w')"
  shows "(\<forall>h \<in> set (hosts_of (cached w')). hostPins h = []
        \<or> (\<exists>e \<in> set (hosts_of (cached w)). host_id e = host_id h \<and> hostPins h = hostPins e))
    \<and> (\<forall>e \<in> set (hosts_of (cached w)). host_id e \<notin> buried_hosts hls \<longrightarrow>
        (\<exists>h \<in> set (hosts_of (cached w')). host_id h = host_id e \<and> hostPins h = hostPins e))
    \<and> (\<forall>k. chain w k \<noteq> None \<and> chain w' k = None \<longrightarrow> k \<in> buried_entries hls)
    \<and> (\<forall>e. r = Inl e \<longrightarrow> e = HostStoreFailed)"
proof -
  have "old_pins (hosts_of (cached w)) (buried_hosts hls) (hosts_of (cached w'))"
    "keeps_secrets (buried_entries hls) (chain w) (chain w')" "\<forall>e. r = Inl e \<longrightarrow> e = HostStoreFailed"
    using wpD [OF applyRemoteHosts_wp [OF synced_hosts.reachable_inv [OF assms(1)]] assms(2)] by auto
  then show ?thesis unfolding old_pins_def keeps_secrets_def by blast
qed

text \<open>
  C14: re-pointing a host at another address and back again loses no pin: at the new address the
  record carries the pin recorded there, if any, and never the old machine's; back at the old
  address the fingerprint is the one it had.
\<close>

theorem repoint_round_trip:
  assumes "synced_reachable w" and "stored_host i w = Some h"
    and "upsertHost fault c1 (repoint b h) s1 e1 w = (Inr r1, w1)"
    and "upsertHost fault' c2 (repoint (h_host (base h)) r1) s2 e2 w1 = (Inr r2, w2)"
  shows "hostFingerprint r1 = map_of (hostPins h) b \<and> hostFingerprint r2 = hostFingerprint h \<and> hostPins r2 = hostPins h"
proof -
  have h: "h \<in> set (hosts_of (cached w))" "host_id h = i" using find_SomeD [OF assms(2)] by auto
  have p: "projected h" using synced_hosts.reachable_inv [OF assms(1)] h(1) by (auto simp: pins_inv_def pins_ok_def)
  have r1: "r1 = stored_as c1 (repoint b h) s1 w" "stored_host i w1 = Some r1" using upsertHost_returns [OF assms(3)] h(2) by auto
  then have pins1: "hostPins r1 = hostPins h" "hostFingerprint r1 = map_of (hostPins h) b" and p1: "projected r1" and i1: "host_id r1 = i"
    using written_repoint [OF p] assms(2) h(2) by auto
  have "r2 = stored_as c2 (repoint (h_host (base h)) r1) s2 w1" using upsertHost_returns [OF assms(4)] by simp
  then have "hostPins r2 = hostPins r1" "hostFingerprint r2 = map_of (hostPins r1) (h_host (base h))"
    using written_repoint [OF p1] r1(2) i1 by auto
  then show ?thesis using pins1 p by (simp add: projected_def)
qed

end
