(* ===== verification/Host_Witnesses.thy ===== *)
theory Host_Witnesses
  imports Host_Pins
begin

text \<open>
  Concrete runs of the host store: the properties applied to a bastion and a host behind it, and a
  save the store accepts although it breaks the route of another host.
\<close>

section \<open>A small inventory\<close>

definition demo_base :: host_base where
  "demo_base = \<lparr>h_id = ''h1'', h_name = ''web'', h_host = ''10.0.0.1'', h_port = 22, h_groupId = None, h_tags = None,
     h_icon = None, h_color = None, h_description = None, h_lastConnectedAt = None, h_pins = None, h_updatedAt = None\<rparr>"

definition demo_inline :: "string \<Rightarrow> ssh_credential_binding" where
  "demo_inline i = SshInline \<lparr>si_hostId = i, si_user = ''root'', si_authMode = AuthKey, si_hasPassword = False,
     si_hasPrivateKey = False, si_hasKeyPassphrase = False\<rparr>"

definition demo_ssh :: "string \<Rightarrow> string option \<Rightarrow> host" where
  "demo_ssh i jump = SshHost (demo_base\<lparr>h_id := i\<rparr>) \<lparr>s_credential = demo_inline i, s_proxyJumpId = jump, s_lastFingerprint = None\<rparr>"

definition demo_rdp :: "string \<Rightarrow> host" where
  "demo_rdp i = RdpHost (demo_base\<lparr>h_id := i\<rparr>) \<lparr>d_credential = RdpInline \<lparr>ri_hostId = i, ri_username = ''root'', ri_domain = None,
     ri_hasPassword = False\<rparr>, d_desktopWidth = 1600, d_desktopHeight = 900, d_sizeMode = SizePreset, d_certFingerprint = None,
     d_tunnel_sshHostId = None, d_clipboard = None\<rparr>"

definition no_hosts :: "host_file world" where
  "no_hosts = \<lparr>cached = empty_hosts, disk = empty_hosts, chain = (\<lambda>_. None), calls = 0, marks = []\<rparr>"

text \<open>A bastion, a host behind it with a private key, and a pinned key for the bastion.\<close>

definition demo_key :: host_secret_input where
  "demo_key = no_secrets\<lparr>hs_privateKey := SecText ''PEM''\<rparr>"

definition demo_hosts_1 :: "host_file world" where
  "demo_hosts_1 = snd (upsertHost calm 1 (demo_ssh ''b'' None) demo_key None no_hosts)"

definition demo_hosts_2 :: "host_file world" where
  "demo_hosts_2 = snd (upsertHost calm 2 (demo_ssh ''h1'' (Some ''b'')) no_secrets None demo_hosts_1)"

definition demo_hosts :: "host_file world" where
  "demo_hosts = snd (pinFingerprint calm ''b'' ''SHA256:x'' demo_hosts_2)"

lemma no_hosts_fresh: "fresh_hosts no_hosts"
  by (simp add: fresh_hosts_def no_hosts_def)

lemmas host_reach = reach_step [where start = fresh_hosts and step = host_step]
  reach_step [where start = calm_start and step = calm_host_step]
  reach_step [where start = fresh_hosts and step = synced_step]

lemma demo_hosts_reachable: "host_reachable demo_hosts"
  unfolding demo_hosts_def demo_hosts_2_def demo_hosts_1_def
  by (intro host_reach(1) [OF _ hst_pinFingerprint] host_reach(1) [OF _ hst_upsertHost] reach_start no_hosts_fresh)

lemma demo_hosts_synced: "synced_reachable demo_hosts"
  unfolding demo_hosts_def demo_hosts_2_def demo_hosts_1_def
  by (intro host_reach(3) [OF _ sy_local [OF hst_pinFingerprint]] host_reach(3) [OF _ sy_local [OF hst_upsertHost]] reach_start no_hosts_fresh)

text \<open>
  Another inventory: the host behind the bastion has a key of its own, the bastion becomes an RDP
  host, and then the host is duplicated, which is refused.
\<close>

definition demo_flip_1 :: "host_file world" where
  "demo_flip_1 = snd (upsertHost calm 2 (demo_ssh ''h1'' (Some ''b'')) demo_key None demo_hosts_1)"

definition demo_flip_2 :: "host_file world" where
  "demo_flip_2 = snd (upsertHost calm 3 (demo_rdp ''b'') no_secrets None demo_flip_1)"

definition demo_stray :: "host_file world" where
  "demo_stray = snd (duplicateHost calm 4 ''c'' ''h1'' demo_flip_2)"

definition demo_src :: host where
  "demo_src = the (stored_host ''h1'' demo_flip_2)"

lemma demo_src: "stored_host ''h1'' demo_flip_2 = Some demo_src"
proof -
  have "stored_host ''h1'' demo_flip_2 \<noteq> None" by code_simp
  then show ?thesis by (auto simp: demo_src_def)
qed

lemma demo_refused: "duplicateHost calm 4 ''c'' ''h1'' demo_flip_2 = (Inl (TargetIsRdp ''web'' ''jump host''), demo_stray)"
proof -
  have "owner_error (copy_of_host ''c'' demo_src) ''c'' = None"
    "reference_error (copy_of_host ''c'' demo_src) (hosts_of (cached demo_flip_2)) = Some (TargetIsRdp ''web'' ''jump host'')"
    by code_simp+
  then have "fst (duplicateHost calm 4 ''c'' ''h1'' demo_flip_2) = Inl (TargetIsRdp ''web'' ''jump host'')"
    using duplicateHost_refuses [OF demo_src, of "''c''"]
    by (simp add: wp_def case_prod_beta)
  then show ?thesis by (simp add: demo_stray_def prod_eq_iff)
qed

lemma demo_stray_copies:
  assumes "leaves_copies ''h1'' ''c'' demo_flip_2 demo_stray"
  shows "chain demo_stray (host_entry ''c'' HOST_SSH_PRIVATE_KEY_FIELD) = Some ''PEM''"
    and "chain demo_stray (host_entry ''h1'' HOST_SSH_PRIVATE_KEY_FIELD) = Some ''PEM''"
    and "''c'' \<notin> host_ids (cached demo_stray)" and "''h1'' \<in> host_ids (cached demo_stray)"
proof -
  have k: "chain demo_flip_2 (host_entry ''h1'' HOST_SSH_PRIVATE_KEY_FIELD) = Some ''PEM''" by code_simp
  have f: "HOST_SSH_PRIVATE_KEY_FIELD \<in> set (secretFieldsFor demo_src)" by code_simp
  have i: "''c'' \<notin> host_ids (cached demo_flip_2)" by code_simp
  have j: "''h1'' \<in> host_ids (cached demo_flip_2)" by code_simp
  have "\<forall>field \<in> set (secretFieldsFor demo_src). chain demo_stray (host_entry ''c'' field) =
      (if held (chain demo_flip_2 (host_entry ''h1'' field)) then chain demo_flip_2 (host_entry ''h1'' field)
       else chain demo_flip_2 (host_entry ''c'' field))"
    and rest: "\<forall>k. k \<notin> host_entry ''c'' ` set (secretFieldsFor demo_src) \<longrightarrow> chain demo_stray k = chain demo_flip_2 k"
    and same: "cached demo_stray = cached demo_flip_2"
    using assms demo_src by (auto simp: leaves_copies_def same_but_chain_def)
  then show "chain demo_stray (host_entry ''c'' HOST_SSH_PRIVATE_KEY_FIELD) = Some ''PEM''"
    using k f by (simp add: held_def)
  have "host_entry ''h1'' HOST_SSH_PRIVATE_KEY_FIELD \<notin> host_entry ''c'' ` set (secretFieldsFor demo_src)"
    using host_fields_sub ssh_fields_sub by fastforce
  then show "chain demo_stray (host_entry ''h1'' HOST_SSH_PRIVATE_KEY_FIELD) = Some ''PEM''" using rest k by simp
  show "''c'' \<notin> host_ids (cached demo_stray)" "''h1'' \<in> host_ids (cached demo_stray)" using i j same by simp_all
qed

lemma demo_stray_leaves: "leaves_copies ''h1'' ''c'' demo_flip_2 demo_stray"
  using wpD [OF duplicateHost_refused demo_refused] by (simp add: host_refusal_def)

lemma demo_stray_calm: "reachable calm_start calm_host_step (demo_stray, {''c''})"
proof -
  note t = truthful_for_def secret_for_def demo_key_def no_secrets_def
  have "calm_start (no_hosts, {})" using no_hosts_fresh by (simp add: calm_start_def)
  then have "reachable calm_start calm_host_step (demo_flip_2, {})"
    unfolding demo_flip_2_def demo_flip_1_def demo_hosts_1_def
    by (intro host_reach(2) [OF _ chs_upsertHost] reach_start) (simp_all add: t)
  moreover have "''c'' \<notin> host_ids (cached demo_flip_2)" by code_simp
  ultimately show ?thesis using host_reach(2) [OF _ chs_duplicateHost [OF _ _ demo_refused, of "{}"]] by simp
qed

definition demo_behind :: host where
  "demo_behind = map_base (h_updatedAt_update (\<lambda>_. Some 2)) (demo_ssh ''h1'' (Some ''b''))"

theorem host_references_hold_witness:
  "demo_behind \<in> set (hosts_of (disk demo_hosts)) \<and> route demo_behind = Some ''b'' \<and> ''b'' \<in> host_id ` set (hosts_of (disk demo_hosts))"
proof -
  have "demo_behind \<in> set (hosts_of (disk demo_hosts))" "route demo_behind = Some ''b''" by code_simp+
  then show ?thesis using host_references_hold [OF demo_hosts_reachable, of "disk demo_hosts"] by simp
qed

definition demo_group :: "string \<Rightarrow> string \<Rightarrow> string option \<Rightarrow> host_group" where
  "demo_group i n p = \<lparr>g_id = i, g_name = n, g_parentId = p, g_order = None, g_updatedAt = None, g_defaultIdentityId = None\<rparr>"

text \<open>A group inside a group; then the outer one is deleted and the inner one moves up.\<close>

definition demo_groups_1 :: "host_file world" where
  "demo_groups_1 = snd (upsertGroup calm 2 None (demo_group ''g2'' ''web'' (Some ''g1''))
     (snd (upsertGroup calm 1 None (demo_group ''g1'' ''prod'' None) no_hosts)))"

lemma demo_groups_reachable: "host_reachable demo_groups_1"
  unfolding demo_groups_1_def
  by (intro host_reach(1) [OF _ hst_upsertGroup] reach_start no_hosts_fresh)

theorem group_tree_sound_witness:
  "map g_parentId (groups_of (cached demo_groups_1)) = [None, Some ''g1''] \<and> parent_of (groups_of (cached demo_groups_1)) ''g2'' = Some ''g1''"
proof -
  have "(demo_group ''g2'' ''web'' (Some ''g1''))\<lparr>g_updatedAt := Some 2\<rparr> \<in> set (groups_of (cached demo_groups_1))"
    "map g_parentId (groups_of (cached demo_groups_1)) = [None, Some ''g1'']" by code_simp+
  moreover have "g_id ((demo_group ''g2'' ''web'' (Some ''g1''))\<lparr>g_updatedAt := Some 2\<rparr>) = ''g2''"
    "g_parentId ((demo_group ''g2'' ''web'' (Some ''g1''))\<lparr>g_updatedAt := Some 2\<rparr>) = Some ''g1''" by (simp_all add: demo_group_def)
  ultimately show ?thesis using group_tree_sound [OF demo_groups_reachable, of "cached demo_groups_1"] by (metis insertCI)
qed

text \<open>The bastion becomes an RDP host: its private key is released once the new record is saved.\<close>

abbreviation demo_flip :: "host_file world" where
  "demo_flip \<equiv> snd (upsertHost calm 3 (demo_rdp ''b'') no_secrets None demo_hosts_1)"


text \<open>Deleting the bastion is refused; the refused duplicate leaves the copied key under an id no host has.\<close>

theorem host_refusals_keep_witness:
  "same_world demo_hosts (snd (deleteHost calm 6 (\<lambda>_. True) ''b'' demo_hosts))
   \<and> leaves_copies ''h1'' ''c'' demo_flip_2 demo_stray
   \<and> chain demo_stray (host_entry ''c'' HOST_SSH_PRIVATE_KEY_FIELD) = Some ''PEM'' \<and> ''c'' \<notin> host_ids (cached demo_stray)"
proof -
  have e: "fst (deleteHost calm 6 (\<lambda>_. True) ''b'' demo_hosts) = Inl (HostInUse ''web'' [\<lparr>vr_id = ''h1'', vr_name = ''web''\<rparr>])"
    by code_simp
  have r: "host_refusal (HostInUse ''web'' [\<lparr>vr_id = ''h1'', vr_name = ''web''\<rparr>])" "host_refusal (TargetIsRdp ''web'' ''jump host'')"
    by (simp_all add: host_refusal_def)
  have d: "fst (duplicateHost calm 4 ''c'' ''h1'' demo_flip_2) = Inl (TargetIsRdp ''web'' ''jump host'')" by (simp add: demo_refused)
  have "leaves_copies ''h1'' ''c'' demo_flip_2 demo_stray"
    using host_refusals_keep [where copyId = "''c''" and i = "''h1''" and fault = calm and clock = 4 and w = demo_flip_2] d r(2)
    unfolding demo_stray_def by blast
  moreover have k: "keeps_on_refusal (deleteHost calm 6 (\<lambda>_. True) ''b'') demo_hosts" using host_refusals_keep by blast
  note keeps_on_refusalD [OF k e r(1)]
  ultimately show ?thesis using demo_stray_copies by blast
qed

theorem host_flags_honest_witness:
  "chain demo_stray (host_entry ''h1'' HOST_SSH_PRIVATE_KEY_FIELD) = Some ''PEM''
   \<and> storedFlag (stored_host ''h1'' demo_stray) HOST_SSH_PRIVATE_KEY_FIELD
   \<and> chain demo_stray (host_entry ''c'' HOST_SSH_PRIVATE_KEY_FIELD) = Some ''PEM'' \<and> ''c'' \<notin> host_ids (cached demo_stray)"
proof -
  note d = demo_stray_copies [OF demo_stray_leaves]
  obtain h where h: "h \<in> set (hosts_of (cached demo_stray))" "host_id h = ''h1''" using d(4) by auto
  have "HOST_SSH_PRIVATE_KEY_FIELD \<in> set HOST_SSH_SECRET_FIELDS" by (simp add: HOST_SSH_SECRET_FIELDS_def)
  then have "storedFlag (stored_host ''h1'' demo_stray) HOST_SSH_PRIVATE_KEY_FIELD"
    using host_flags_honest [OF demo_stray_calm] h d(2) by fastforce
  moreover have "''c'' \<notin> host_ids (cached demo_stray)" using host_flags_honest [OF demo_stray_calm] by blast
  ultimately show ?thesis using d(1,2) by blast
qed

definition demo_bastion :: host where
  "demo_bastion = the (stored_host ''b'' demo_hosts)"

theorem pins_projected_witness:
  "demo_bastion \<in> set (hosts_of (disk demo_hosts)) \<and> hostFingerprint demo_bastion = Some ''SHA256:x''"
proof -
  have m: "demo_bastion \<in> set (hosts_of (disk demo_hosts))" and "map_of (hostPins demo_bastion) (h_host (base demo_bastion)) = Some ''SHA256:x''"
    by code_simp+
  then show ?thesis using pins_projected [OF demo_hosts_synced _ m] by simp
qed

text \<open>Another device's copy of the bastion lands, with a pin of its own.\<close>

definition demo_landing :: "host landing" where
  "demo_landing = LandedRecord (JStr ''b'') (Some (withPins (demo_ssh ''b'' None) [(''10.0.0.1'', ''SHA256:evil'')])) 9 None"

abbreviation demo_landed :: "(host_store_error + store_refusal list) \<times> host_file world" where
  "demo_landed \<equiv> applyRemoteHosts (\<lambda>_. []) calm 10 [demo_landing] [] demo_hosts"

theorem landing_keeps_pins_witness:
  "map h_updatedAt (map base (hosts_of (cached (snd demo_landed)))) = [Some 9, Some 2]
   \<and> (\<exists>h \<in> set (hosts_of (cached (snd demo_landed))). host_id h = ''b'' \<and> hostPins h = [(''10.0.0.1'', ''SHA256:x'')])"
proof -
  have "map h_updatedAt (map base (hosts_of (cached (snd demo_landed)))) = [Some 9, Some 2]"
    "demo_bastion \<in> set (hosts_of (cached demo_hosts))" "host_id demo_bastion = ''b''" "hostPins demo_bastion = [(''10.0.0.1'', ''SHA256:x'')]"
    by code_simp+
  moreover have "''b'' \<notin> buried_hosts [demo_landing]" by (simp add: buried_hosts_def demo_landing_def)
  ultimately show ?thesis
    using landing_keeps_pins [OF demo_hosts_synced prod.collapse [symmetric], of "\<lambda>_. []" calm 10 "[demo_landing]" "[]"] by metis
qed

abbreviation demo_moved :: "(host_store_error + host) \<times> host_file world" where
  "demo_moved \<equiv> upsertHost calm 11 (repoint ''10.0.0.9'' demo_bastion) no_secrets None demo_hosts"

abbreviation demo_moved_back :: "(host_store_error + host) \<times> host_file world" where
  "demo_moved_back \<equiv> upsertHost calm 12 (repoint ''10.0.0.1'' (projr (fst demo_moved))) no_secrets None (snd demo_moved)"

theorem repoint_round_trip_witness:
  "hostFingerprint (projr (fst demo_moved)) = None \<and> hostFingerprint (projr (fst demo_moved_back)) = Some ''SHA256:x''"
proof -
  have b: "stored_host ''b'' demo_hosts = Some demo_bastion" "h_host (base demo_bastion) = ''10.0.0.1''"
    "hostFingerprint demo_bastion = Some ''SHA256:x''" "map_of (hostPins demo_bastion) ''10.0.0.9'' = None" by code_simp+
  have "isl (fst demo_moved) = False" "isl (fst demo_moved_back) = False" by code_simp+
  then have m: "demo_moved = (Inr (projr (fst demo_moved)), snd demo_moved)"
    "demo_moved_back = (Inr (projr (fst demo_moved_back)), snd demo_moved_back)"
    by (simp_all add: prod_eq_iff sum.collapse)
  show ?thesis using repoint_round_trip [OF demo_hosts_synced b(1) m(1)] m(2) b(2-4) by metis
qed

section \<open>A jump host that stops being one\<close>

lemma save_rdp_accepted:
  assumes "d_tunnel_sshHostId d = None" and "d_credential d = RdpInline c" and "ri_hostId c = h_id br" and "h_id br \<noteq> []"
  shows "wp (upsertHost calm clock (RdpHost br d) no_secrets None) (\<lambda>r w'. isl r = False \<and> disk w' = cached w'
     \<and> hosts_of (cached w') = put_record host_id (stored_as clock (RdpHost br d) no_secrets w) (hosts_of (cached w))) w"
proof -
  let ?h = "RdpHost br d"
  have ok: "owner_error ?h (host_id ?h) = None" "reference_error ?h hosts = None" for hosts
    using assms by (auto simp: check_owner_def reference_error_def)
  have cred: "wp (io_bind (nextCredential calm ?h no_secrets existing) f) Q v"
    if "wp (f (with_flags (next_flags no_secrets existing) ?h)) Q v" for existing f Q and v :: "host_file world"
    using that assms(2) by (simp add: nextCredential_def nextRdpCredential_def no_secrets_def writeHostSecret_def write_secret_def
        next_flags_def secret_for_def wps)
  show ?thesis unfolding upsertHost_def writeHost_def host_reads Let_def ok option.case
    by (intro vcg_get_bind vcg_references vcg_if vcg_throw vcg_persist_bind vcg_stale vcg_return cred)
      (auto simp: ok world_simps persisted_def)
qed

text \<open>
  C38: nothing checks the hosts reached through a host when it is saved. In every file the store can
  reach, a jump host may be saved as an RDP host, and the save is accepted: the hosts behind it stay in
  the file, but the route of each is refused at every connect, and so is its own next save.
\<close>

theorem jump_host_can_become_rdp:
  assumes "host_reachable w" and "SshHost ba sa \<in> set (hosts_of (cached w))" and "s_proxyJumpId sa = Some (h_id br)"
    and "d_tunnel_sshHostId d = None" and "d_credential d = RdpInline c" and "ri_hostId c = h_id br" and "h_id br \<noteq> []"
  shows "\<exists>x w'. upsertHost calm clock (RdpHost br d) no_secrets None w = (Inr x, w')
    \<and> SshHost ba sa \<in> set (hosts_of (disk w'))
    \<and> jumpChain (Some (h_id br)) (Some (h_id ba)) (hosts_of (disk w')) = Inl (JumpThroughRdp (h_name br))
    \<and> reference_error (SshHost ba sa) (hosts_of (disk w')) = Some (TargetIsRdp (h_name br) ''jump host'')"
proof -
  obtain r w' where u: "upsertHost calm clock (RdpHost br d) no_secrets None w = (r, w')" by fastforce
  let ?h = "stored_as clock (RdpHost br d) no_secrets w"
  have w': "isl r = False" "disk w' = cached w'" "hosts_of (cached w') = put_record host_id ?h (hosts_of (cached w))"
    using wpD [OF save_rdp_accepted [OF assms(4-7)] u] by simp_all
  have ok: "hosts_ok (hosts_of (cached w))" using host_machine.reachable_inv [OF assms(1)] by (simp add: host_inv_def host_ok_def)
  then have dist: "distinct (map host_id (hosts_of (cached w)))" and acy: "acyclic (links host_id route (hosts_of (cached w)))"
    by (simp_all add: hosts_ok_def links_ok_def)
  have "route (SshHost ba sa) = Some (h_id br)" using assms(3,7) by (simp add: route_Some_iff)
  then have "(h_id ba, h_id br) \<in> links host_id route (hosts_of (cached w))" using assms(2) unfolding links_def by force
  then have ne: "h_id ba \<noteq> h_id br" using acy unfolding acyclic_def by (metis r_into_trancl)
  have h: "isSshHost ?h = False" "h_name (base ?h) = h_name br" "host_id ?h = h_id br" by (simp_all add: written_host_def)
  have find: "find (\<lambda>x. host_id x = h_id br) (put_record host_id ?h (hosts_of (cached w))) = Some ?h"
    using h(3) by (simp add: find_put_record)
  have byid: "host_by_id (put_record host_id ?h (hosts_of (cached w))) (h_id br) = Some ?h"
    using find dist by (simp add: host_by_id_def find_id_iff rev_map [symmetric])
  obtain b' d' where r: "?h = RdpHost b' d'" using h(1) isSshHost.simps(1) by (metis host.exhaust)
  have kept: "SshHost ba sa \<in> set (put_record host_id ?h (hosts_of (cached w)))"
    using assms(2) ne h(3) dist by (auto simp: set_put_record_iff)
  obtain x where "r = Inr x" using w'(1) by (cases r) auto
  moreover have "jumpChain (Some (h_id br)) (Some (h_id ba)) (put_record host_id ?h (hosts_of (cached w))) = Inl (JumpThroughRdp (h_name br))"
    using byid r h(2) ne assms(7) by (simp add: jumpChain_def jump_walk.simps)
  moreover have "reference_error (SshHost ba sa) (put_record host_id ?h (hosts_of (cached w))) = Some (TargetIsRdp (h_name br) ''jump host'')"
    using assms(3,7) ne find h by (simp add: reference_error_def route_error_def target_error_def)
  ultimately show ?thesis using u w'(2,3) kept by auto
qed

theorem jump_host_can_become_rdp_witness:
  "\<exists>x w'. upsertHost calm 3 (demo_rdp ''b'') no_secrets None demo_hosts = (Inr x, w')
     \<and> jumpChain (Some ''b'') (Some ''h1'') (hosts_of (disk w')) = Inl (JumpThroughRdp ''web'')"
proof -
  obtain ba sa where s: "demo_behind = SshHost ba sa" "h_id ba = ''h1''" "s_proxyJumpId sa = Some ''b''"
    by (simp add: demo_behind_def demo_ssh_def)
  obtain br d c where r: "demo_rdp ''b'' = RdpHost br d" "h_id br = ''b''" "h_name br = ''web''" "d_tunnel_sshHostId d = None"
    "d_credential d = RdpInline c" "ri_hostId c = ''b''"
    by (simp add: demo_rdp_def demo_base_def)
  have "demo_behind \<in> set (hosts_of (cached demo_hosts))" by code_simp
  then show ?thesis
    using jump_host_can_become_rdp [OF demo_hosts_reachable, of ba sa br d c 3] s r by auto
qed

end
