(* ===== verification/Forward_Rules.thy ===== *)
theory Forward_Rules
  imports Landings Host_Types
begin

text \<open>
  The saved port-forward rules (\<^verbatim>\<open>src/modules/forwards/types.ts\<close>, \<^verbatim>\<open>src/modules/forwards/store.ts\<close>): one
  list of rules and its tombstones in one file. A rule rides an SSH host; it owns no secret, so no
  mutator touches the keychain. The host lookup \<open>upsertRule\<close> is handed is the argument \<open>hosts\<close>, which
  may reject (\<^const>\<open>None\<close>).
\<close>

section \<open>Rules\<close>

datatype forward_rule_type = RuleRemote | RuleDynamic

text \<open>Ports are JavaScript numbers, checked only on the way in.\<close>

record forward_rule =
  fr_id :: string
  fr_name :: string
  fr_hostId :: string
  fr_type :: "forward_rule_type option"
  fr_localPort :: js_num
  fr_remoteHost :: string
  fr_remotePort :: js_num
  fr_targetHost :: "string option"
  fr_targetPort :: "js_num option"
  fr_bindAddress :: "string option"
  fr_bindPort :: "js_num option"
  fr_startWithHost :: bool
  fr_startWithApp :: "bool option"
  fr_description :: "string option"
  fr_updatedAt :: "int option"

definition RULE_TOMBSTONE_KIND :: string where "RULE_TOMBSTONE_KIND = ''rule''"

record forward_file =
  ff_rules :: "forward_rule list option"
  ff_graves :: js

datatype forward_store_error =
    RuleNeedsName
  | RuleStartsTwice string
  | InvalidSocksPort string js_num
  | NeedsTargetHost string
  | InvalidTargetPort string "js_num option"
  | InvalidBindPort string js_num
  | NeedsRemoteHost string
  | InvalidLocalPort string js_num
  | InvalidRemotePort string js_num
  | RuleHostMissing string string
  | RuleHostIsRdp string string
  | HostLookupFailed
  | StopFailed string
  | ForwardStoreFailed

type_synonym 'a forward_io = "(forward_file, forward_store_error, 'a) io"

fun js_isInteger :: "js_num \<Rightarrow> bool" where
  "js_isInteger (Fin q) = (q = of_int \<lfloor>q\<rfloor>)"
| "js_isInteger _ = False"

fun js_between :: "int \<Rightarrow> js_num \<Rightarrow> int \<Rightarrow> bool" where
  "js_between a (Fin q) b = (of_int a \<le> q \<and> q \<le> of_int b)"
| "js_between a _ b = False"

definition isValidLocalPort :: "js_num \<Rightarrow> bool" where
  "isValidLocalPort port = (port = Fin 0 \<or> js_isInteger port \<and> js_between 1 port 65535)"

definition isValidRemotePort :: "js_num \<Rightarrow> bool" where
  "isValidRemotePort port = (js_isInteger port \<and> js_between 1 port 65535)"

section \<open>The file\<close>

definition rules_of :: "forward_file \<Rightarrow> forward_rule list" where
  "rules_of f = (case ff_rules f of None \<Rightarrow> [] | Some xs \<Rightarrow> xs)"

definition set_rules :: "forward_rule list \<Rightarrow> forward_file \<Rightarrow> forward_file" where
  "set_rules xs = ff_rules_update (\<lambda>_. Some xs)"

definition set_rule_graves :: "tombstone list \<Rightarrow> forward_file \<Rightarrow> forward_file" where
  "set_rule_graves ts = ff_graves_update (\<lambda>_. JArr (map tombstone_js ts))"

definition rule_graves_entry :: "tombstone list option \<Rightarrow> (forward_file \<Rightarrow> forward_file) list" where
  "rule_graves_entry g = (case g of None \<Rightarrow> [] | Some ts \<Rightarrow> [set_rule_graves ts])"

definition listRules :: "(nat \<Rightarrow> bool) \<Rightarrow> forward_rule list forward_io" where
  "listRules fault = store_get fault ForwardStoreFailed rules_of"

definition readRuleTombstones :: "(nat \<Rightarrow> bool) \<Rightarrow> int \<Rightarrow> tombstone list forward_io" where
  "readRuleTombstones fault clock =
     store_get fault ForwardStoreFailed (\<lambda>f. livingTombstones (ff_graves f) (of_int clock))"

definition dirtyRules :: "string list \<Rightarrow> dirty_id list" where
  "dirtyRules ids = map (\<lambda>i. \<lparr>dm_kind = RULE_TOMBSTONE_KIND, dm_id = i\<rparr>) ids"

section \<open>Saving a rule\<close>

text \<open>The refusals of \<open>upsertRule\<close> that look at the rule alone, in the order of the source.\<close>

definition ports_error :: "forward_rule \<Rightarrow> forward_store_error option" where
  "ports_error r =
     (case fr_type r of
        Some RuleDynamic \<Rightarrow>
          (if \<not> isValidLocalPort (fr_localPort r) then Some (InvalidSocksPort (fr_name r) (fr_localPort r)) else None)
      | Some RuleRemote \<Rightarrow>
          (if (case fr_targetHost r of None \<Rightarrow> True | Some t \<Rightarrow> js_trim t = []) then Some (NeedsTargetHost (fr_name r))
           else if (case fr_targetPort r of None \<Rightarrow> True | Some p \<Rightarrow> \<not> isValidRemotePort p)
             then Some (InvalidTargetPort (fr_name r) (fr_targetPort r))
           else (case fr_bindPort r of
               Some p \<Rightarrow> if \<not> isValidLocalPort p then Some (InvalidBindPort (fr_name r) p) else None
             | None \<Rightarrow> None))
      | None \<Rightarrow>
          (if js_trim (fr_remoteHost r) = [] then Some (NeedsRemoteHost (fr_name r))
           else if \<not> isValidLocalPort (fr_localPort r) then Some (InvalidLocalPort (fr_name r) (fr_localPort r))
           else if \<not> isValidRemotePort (fr_remotePort r) then Some (InvalidRemotePort (fr_name r) (fr_remotePort r))
           else None))"

definition rule_error :: "forward_rule \<Rightarrow> forward_store_error option" where
  "rule_error r =
     (if js_trim (fr_name r) = [] then Some RuleNeedsName
      else if fr_startWithHost r \<and> fr_startWithApp r = Some True then Some (RuleStartsTwice (fr_name r))
      else ports_error r)"

definition rule_host_error :: "forward_rule \<Rightarrow> (string \<Rightarrow> host option option) \<Rightarrow> forward_store_error option" where
  "rule_host_error r hosts =
     (case hosts (fr_hostId r) of
        None \<Rightarrow> Some HostLookupFailed
      | Some None \<Rightarrow> Some (RuleHostMissing (fr_name r) (fr_hostId r))
      | Some (Some h) \<Rightarrow> if isSshHost h then None else Some (RuleHostIsRdp (fr_name r) (fr_hostId r)))"

definition upsertRule ::
  "(nat \<Rightarrow> bool) \<Rightarrow> int \<Rightarrow> (string \<Rightarrow> host option option) \<Rightarrow> forward_rule \<Rightarrow> forward_rule forward_io" where
  "upsertRule fault clock hosts rule =
     (case rule_error rule of
        Some e \<Rightarrow> io_throw e
      | None \<Rightarrow>
        (case rule_host_error rule hosts of
           Some e \<Rightarrow> io_throw e
         | None \<Rightarrow>
           io_bind (listRules fault) (\<lambda>rules.
             let record = rule\<lparr>fr_updatedAt := Some clock\<rparr> in
             io_bind (readRuleTombstones fault clock) (\<lambda>graves.
             io_bind (persist fault ForwardStoreFailed
                 (set_rules (put_record fr_id record rules)
                  # rule_graves_entry (withoutTombstone graves [fr_id rule] (of_int clock)))
                 (dirtyRules [fr_id rule]))
               (\<lambda>_. io_return record)))))"

section \<open>Deleting\<close>

definition rule_grave :: "int \<Rightarrow> string \<Rightarrow> tombstone" where
  "rule_grave clock i = \<lparr>td_id = i, td_kind = RULE_TOMBSTONE_KIND, td_deletedAt = Fin (of_int clock)\<rparr>"

definition deleteRule :: "(nat \<Rightarrow> bool) \<Rightarrow> int \<Rightarrow> string \<Rightarrow> unit forward_io" where
  "deleteRule fault clock i =
     io_bind (listRules fault) (\<lambda>rules.
       if \<not> list_ex (\<lambda>r. fr_id r = i) rules then io_return ()
       else io_bind (readRuleTombstones fault clock) (\<lambda>graves.
         persist fault ForwardStoreFailed
           [set_rules (filter (\<lambda>r. fr_id r \<noteq> i) rules),
            set_rule_graves (withTombstone graves [rule_grave clock i] (of_int clock))]
           (dirtyRules [i])))"

definition dropRulesForHost :: "(nat \<Rightarrow> bool) \<Rightarrow> int \<Rightarrow> string \<Rightarrow> unit forward_io" where
  "dropRulesForHost fault clock hostId =
     io_bind (listRules fault) (\<lambda>rules.
       let dropped = filter (\<lambda>r. fr_hostId r = hostId) rules in
       if length dropped = 0 then io_return ()
       else io_bind (readRuleTombstones fault clock) (\<lambda>graves.
         persist fault ForwardStoreFailed
           [set_rules (filter (\<lambda>r. fr_hostId r \<noteq> hostId) rules),
            set_rule_graves (withTombstone graves (map (\<lambda>r. rule_grave clock (fr_id r)) dropped) (of_int clock))]
           (dirtyRules (map fr_id dropped))))"

text \<open>
  The clean-up \<open>deleteHost\<close> awaits (\<^verbatim>\<open>controller.ts\<close>): the forwards that ride the host are stopped one
  after the other, then the rules are dropped. Whether stopping one completes is the argument \<open>stops\<close>.
\<close>

fun release_each :: "(forward_rule \<Rightarrow> bool) \<Rightarrow> forward_rule list \<Rightarrow> unit forward_io" where
  "release_each stops [] = io_return ()"
| "release_each stops (r # rs) = (if stops r then release_each stops rs else io_throw (StopFailed (fr_id r)))"

definition releaseRulesForHost :: "(nat \<Rightarrow> bool) \<Rightarrow> int \<Rightarrow> (forward_rule \<Rightarrow> bool) \<Rightarrow> string \<Rightarrow> unit forward_io" where
  "releaseRulesForHost fault clock stops hostId =
     io_bind (listRules fault) (\<lambda>rules.
     io_bind (release_each stops (filter (\<lambda>r. fr_hostId r = hostId) rules)) (\<lambda>_.
       dropRulesForHost fault clock hostId))"

section \<open>Landings from another device\<close>

text \<open>
  \<open>startWithApp\<close> is device-local: what a landing says about it is ignored, the stored value is kept,
  unless the landing starts the rule with its host.
\<close>

definition landed_rule :: "int \<Rightarrow> forward_rule \<Rightarrow> forward_rule option \<Rightarrow> forward_rule" where
  "landed_rule u r existing =
     (let keepStartWithApp = (case existing of None \<Rightarrow> False | Some e \<Rightarrow> fr_startWithApp e = Some True) \<and> \<not> fr_startWithHost r
      in r\<lparr>fr_startWithApp := (if keepStartWithApp then Some True else None), fr_updatedAt := Some u\<rparr>)"

definition land_rule ::
  "(js_num \<Rightarrow> string) \<Rightarrow> tombstone list \<Rightarrow> forward_rule landing \<Rightarrow> forward_rule landing_acc \<Rightarrow> forward_rule landing_acc forward_io" where
  "land_rule num graves landing acc =
     (case landingRefusal num (as_remote fr_id landing) RULE_TOMBSTONE_KIND of
        Some r \<Rightarrow> io_return (refuse (RefusedLanding r) acc)
      | None \<Rightarrow>
        (case landing of
           LandedGrave g \<Rightarrow> io_return (bury fr_id (grave_tombstone g) acc)
         | LandedRecord i r u sec \<Rightarrow>
           (if superseded graves RULE_TOMBSTONE_KIND (js_text i) u then io_return acc
            else io_return (revive fr_id (landed_rule u (the r) (find (\<lambda>x. fr_id x = js_text i) (la_records acc))) acc))))"

definition applyRemoteRules ::
  "(js_num \<Rightarrow> string) \<Rightarrow> (nat \<Rightarrow> bool) \<Rightarrow> int \<Rightarrow> forward_rule landing list \<Rightarrow> store_refusal list forward_io" where
  "applyRemoteRules num fault clock landings =
     io_bind (listRules fault) (\<lambda>rules.
     io_bind (readRuleTombstones fault clock) (\<lambda>graves.
     io_bind (land_all (land_rule num graves) landings
         \<lparr>la_records = rules, la_touched = False, la_buried = [], la_revived = [], la_refusals = []\<rparr>) (\<lambda>a.
     let entries = (if la_touched a then [set_rules (la_records a)] else [])
           @ rule_graves_entry (landedTombstones num graves (la_revived a) (la_buried a) (of_int clock))
     in if 0 < length entries
        then io_bind (persist fault ForwardStoreFailed entries []) (\<lambda>_. io_return (la_refusals a))
        else io_return (la_refusals a))))"

end
