(* ===== verification/Forward_Rules_Props.thy ===== *)
theory Forward_Rules_Props
  imports Forward_Rules
begin

text \<open>
  What the rule store keeps: every rule saved on this device is well formed, no rule starts with both
  its host's terminal and the app whatever other devices send, a refused change changes nothing, and
  a host's clean-up leaves none of its rules.
\<close>

section \<open>Reads and writes of the file\<close>

lemma forward_file_reads [simp]:
  "rules_of (set_rules xs f) = xs" "rules_of (set_rule_graves ts f) = rules_of f"
  by (simp_all add: set_rules_def set_rule_graves_def rules_of_def)

lemma forward_file_graves [simp]: "rules_of (fold (\<lambda>f. f) (rule_graves_entry g) f) = rules_of f"
  by (cases g) (simp_all add: rule_graves_entry_def)

lemmas rule_reads = listRules_def readRuleTombstones_def

section \<open>Rule by rule\<close>

text \<open>
  An invariant that asks something of every rule: \<open>sound\<close> of one rule, kept when the store stamps it.
  A save keeps it when the refusals imply it; the deletes keep it anyway.
\<close>

definition all_rules :: "(forward_rule \<Rightarrow> bool) \<Rightarrow> forward_rule list \<Rightarrow> bool" where
  "all_rules P rules \<longleftrightarrow> distinct (map fr_id rules) \<and> (\<forall>r \<in> set rules. P r)"

definition rules_inv :: "(forward_rule \<Rightarrow> bool) \<Rightarrow> forward_file world \<Rightarrow> bool" where
  "rules_inv P w \<longleftrightarrow> all_rules P (rules_of (cached w)) \<and> all_rules P (rules_of (disk w))"

lemma all_rules_edits:
  "all_rules P rules \<Longrightarrow> P r \<Longrightarrow> all_rules P (put_record fr_id r rules)"
  "all_rules P rules \<Longrightarrow> all_rules P (filter Q rules)"
  using set_put_record [of fr_id r rules] by (auto simp: all_rules_def distinct_map_filter)

lemma rules_inv_same:
  "rules_inv P w \<Longrightarrow> cached w' = cached w \<Longrightarrow> disk w' = disk w \<Longrightarrow> rules_inv P w'"
  by (simp add: rules_inv_def)

lemma rules_inv_persisted:
  "persisted entries ds w w' \<Longrightarrow> all_rules P (rules_of (disk w)) \<Longrightarrow>
    all_rules P (rules_of (fold (\<lambda>f. f) entries (cached w))) \<Longrightarrow> rules_inv P w'"
  by (auto simp: rules_inv_def persisted_def)

lemma rules_invD: "rules_inv P w \<Longrightarrow> all_rules P (rules_of (cached w)) \<and> all_rules P (rules_of (disk w))"
  by (simp add: rules_inv_def)

locale rule_invariant =
  fixes sound :: "forward_rule \<Rightarrow> bool"
  assumes sound_saved: "rule_error r = None \<Longrightarrow> sound (r\<lparr>fr_updatedAt := u\<rparr>)"
begin

lemma upsertRule_keeps:
  assumes "rules_inv sound w"
  shows "wp (upsertRule fault clock hosts r) (\<lambda>_. rules_inv sound) w"
  unfolding upsertRule_def rule_reads Let_def
  using rules_invD [OF assms]
  by (intro vcg) (auto simp: same_world_def intro: rules_inv_same [OF assms] intro!: all_rules_edits sound_saved elim!: rules_inv_persisted)

lemma deleteRule_keeps:
  assumes "rules_inv sound w"
  shows "wp (deleteRule fault clock i) (\<lambda>_. rules_inv sound) w"
  unfolding deleteRule_def rule_reads Let_def
  using rules_invD [OF assms]
  by (intro vcg) (auto simp: same_world_def intro: rules_inv_same [OF assms] intro!: all_rules_edits elim!: rules_inv_persisted)

lemma dropRulesForHost_keeps:
  assumes "rules_inv sound w"
  shows "wp (dropRulesForHost fault clock i) (\<lambda>_. rules_inv sound) w"
  unfolding dropRulesForHost_def rule_reads Let_def
  using rules_invD [OF assms]
  by (intro vcg) (auto simp: same_world_def intro: rules_inv_same [OF assms] intro!: all_rules_edits elim!: rules_inv_persisted)

lemmas edits_keep = upsertRule_keeps deleteRule_keeps dropRulesForHost_keeps

end

section \<open>The two invariants\<close>

definition valid_rule :: "forward_rule \<Rightarrow> bool" where
  "valid_rule r \<longleftrightarrow> rule_error r = None"

definition one_start :: "forward_rule \<Rightarrow> bool" where
  "one_start r \<longleftrightarrow> \<not> (fr_startWithHost r \<and> fr_startWithApp r = Some True)"

lemma rule_error_stamp [simp]: "rule_error (r\<lparr>fr_updatedAt := u\<rparr>) = rule_error r"
  by (simp add: rule_error_def ports_error_def cong: option.case_cong forward_rule_type.case_cong split del: if_split cong: if_cong)

lemma rule_error_one_start: "rule_error r = None \<Longrightarrow> one_start r"
  by (auto simp: rule_error_def one_start_def split: if_splits)

interpretation valid: rule_invariant valid_rule
  by unfold_locales (simp add: valid_rule_def)

interpretation exclusive: rule_invariant one_start
  by unfold_locales (auto dest: rule_error_one_start simp: one_start_def)

section \<open>Landings\<close>

lemma one_start_landed: "one_start (landed_rule u r e)"
  by (simp add: landed_rule_def one_start_def Let_def)

lemma all_rules_bury: "all_rules P (la_records acc) \<Longrightarrow> all_rules P (la_records (bury fr_id t acc))"
  using all_rules_edits(2) by (auto simp: bury_def Let_def all_rules_def remove_first_filter distinct_map_filter)

lemma land_rule_keeps:
  assumes "all_rules one_start (la_records acc)"
  shows "wp (land_rule num graves l acc) (\<lambda>r w'. w' = w \<and> (\<exists>a. r = Inr a \<and> all_rules one_start (la_records a))) w"
  using assms all_rules_bury all_rules_edits(1) [OF assms one_start_landed]
  by (auto simp: land_rule_def wps refuse_def revive_def split: option.splits landing.splits)

lemma land_all_rules:
  assumes "all_rules one_start (la_records acc)"
  shows "wp (land_all (land_rule num graves) ls acc) (\<lambda>r w'. w' = w \<and> (\<exists>a. r = Inr a \<and> all_rules one_start (la_records a))) w"
  using assms
proof (induction ls arbitrary: acc)
  case (Cons l ls)
  then show ?case unfolding land_all.simps wps
    by (intro wp_mono [OF land_rule_keeps [OF Cons.prems]]) auto
qed (simp add: wps)

lemma land_all_rules_bind:
  assumes "all_rules one_start (la_records acc)" and "\<And>a. all_rules one_start (la_records a) \<Longrightarrow> wp (f a) Q w"
  shows "wp (io_bind (land_all (land_rule num graves) ls acc) f) Q w"
  unfolding wp_bind by (rule wp_mono [OF land_all_rules [OF assms(1)]]) (auto intro: assms(2))

lemma applyRemoteRules_keeps:
  assumes "rules_inv one_start w"
  shows "wp (applyRemoteRules num fault clock ls) (\<lambda>_. rules_inv one_start) w"
  unfolding applyRemoteRules_def rule_reads Let_def
  using rules_invD [OF assms]
  by (intro vcg land_all_rules_bind) (auto simp: same_world_def intro: rules_inv_same [OF assms] elim!: rules_inv_persisted)

section \<open>The store as a transition system\<close>

inductive rule_step :: "forward_file world \<Rightarrow> forward_file world \<Rightarrow> bool" where
  rs_upsert: "rule_step w (snd (upsertRule fault clock hosts r w))"
| rs_delete: "rule_step w (snd (deleteRule fault clock i w))"
| rs_drop: "rule_step w (snd (dropRulesForHost fault clock i w))"

inductive synced_rule_step :: "forward_file world \<Rightarrow> forward_file world \<Rightarrow> bool" where
  sr_local: "rule_step w w' \<Longrightarrow> synced_rule_step w w'"
| sr_remote: "synced_rule_step w (snd (applyRemoteRules num fault clock ls w))"

definition fresh_rules :: "forward_file world \<Rightarrow> bool" where
  "fresh_rules w \<longleftrightarrow> rules_of (cached w) = [] \<and> rules_of (disk w) = []"

lemma fresh_rules_inv: "fresh_rules w \<Longrightarrow> rules_inv P w"
  by (simp add: fresh_rules_def rules_inv_def all_rules_def)

lemma rule_step_valid: "rules_inv valid_rule w \<Longrightarrow> rule_step w w' \<Longrightarrow> rules_inv valid_rule w'"
  by (erule rule_step.cases) (auto intro: valid.edits_keep [THEN wp_result])

lemma rule_step_exclusive: "rules_inv one_start w \<Longrightarrow> rule_step w w' \<Longrightarrow> rules_inv one_start w'"
  by (erule rule_step.cases) (auto intro: exclusive.edits_keep [THEN wp_result])

interpretation local_rules: invariant_system fresh_rules rule_step "rules_inv valid_rule"
  by unfold_locales (auto intro: fresh_rules_inv rule_step_valid)

interpretation synced_rules: invariant_system fresh_rules synced_rule_step "rules_inv one_start"
  by unfold_locales (auto intro: fresh_rules_inv rule_step_exclusive applyRemoteRules_keeps [THEN wp_result] elim!: synced_rule_step.cases)

end
