(* ===== verification/Forward_Host_Props.thy ===== *)
theory Forward_Host_Props
  imports Forward_Rules_Props Host_Store
begin

text \<open>
  The properties of the rule store, alone and beside the host store: what deleting a host takes with
  it.
\<close>

section \<open>Rules and the hosts they ride\<close>

text \<open>What the clean-up of a host leaves in the rule file.\<close>

definition cleaned :: "int \<Rightarrow> string \<Rightarrow> forward_file world \<Rightarrow> forward_file world \<Rightarrow> bool" where
  "cleaned clock i w w' \<longleftrightarrow> rules_of (cached w') = filter (\<lambda>r. fr_hostId r \<noteq> i) (rules_of (cached w)) \<and> chain w' = chain w
     \<and> (\<forall>r \<in> set (rules_of (cached w)). fr_hostId r = i \<longrightarrow>
          rule_grave clock (fr_id r) \<in> set (livingTombstones (ff_graves (cached w')) (of_int clock))
          \<and> \<lparr>dm_kind = RULE_TOMBSTONE_KIND, dm_id = fr_id r\<rparr> \<in> set (marks w') \<and> r \<notin> set (rules_of (disk w')))"

lemma fresh_grave_living: "rule_grave clock i \<in> set (living (ts @ gs) (of_int clock)) \<longleftrightarrow>
    rule_grave clock i \<in> set (living ts (of_int clock)) \<or> rule_grave clock i \<in> set gs"
  unfolding living_eq by (auto simp: rule_grave_def in_window_def TOMBSTONE_TTL_MS_def)

lemma graves_of_set [simp]: "ff_graves (set_rule_graves ts f) = JArr (map tombstone_js ts)"
  by (simp add: set_rule_graves_def)

lemma dropRulesForHost_cleans:
  "wp (dropRulesForHost fault clock i) (\<lambda>r w'. r = Inr () \<longrightarrow> cleaned clock i w w') w"
  unfolding dropRulesForHost_def rule_reads Let_def
  by (intro vcg) (auto simp: same_world_def persisted_def cleaned_def filter_empty_conv withTombstone_def fresh_grave_living dirtyRules_def
      simp del: map_append intro!: filter_True [symmetric])

lemma release_each_bind:
  assumes "\<And>e. Q (Inl e) w" and "wp (f ()) Q w"
  shows "wp (io_bind (release_each stops rs) f) Q w"
  by (induction rs) (auto simp: wps assms)

lemma releaseRulesForHost_cleans:
  "wp (releaseRulesForHost fault clock stops i) (\<lambda>r w'. r = Inr () \<longrightarrow> cleaned clock i w w') w"
proof -
  have *: "cleaned clock i w w'" if "cleaned clock i v w'" "same_world w v" for v w'
    using that by (simp add: cleaned_def same_world_def)
  show ?thesis unfolding releaseRulesForHost_def rule_reads
    by (intro vcg_get_bind release_each_bind wp_mono [OF dropRulesForHost_cleans]) (auto intro: *)
qed

lemma deleteHost_awaits: "wp (deleteHost fault clock forwards i) (\<lambda>r w'. r = Inr () \<longrightarrow> forwards i) w"
  unfolding deleteHost_def listHosts_def readHostTombstones_def Let_def
  by (intro vcg) (auto simp: wp_def split: prod.splits)

lemma wp_fst: "wp m (\<lambda>r w'. r = Inr x \<longrightarrow> P w') w \<Longrightarrow> fst (m w) = Inr x \<Longrightarrow> P (snd (m w))"
  by (simp add: wp_def split: prod.splits)

lemma js_integer_between: "js_isInteger p \<and> js_between low p high \<longleftrightarrow> (\<exists>n. p = Fin (of_int n) \<and> low \<le> n \<and> n \<le> high)"
proof (cases p)
  case (Fin q)
  show ?thesis
  proof
    assume a: "js_isInteger p \<and> js_between low p high"
    then have q: "q = of_int \<lfloor>q\<rfloor>" "of_int low \<le> q" "q \<le> of_int high" using Fin by simp_all
    then have "low \<le> \<lfloor>q\<rfloor>" "\<lfloor>q\<rfloor> \<le> high" by (metis of_int_le_iff)+
    then show "\<exists>n. p = Fin (of_int n) \<and> low \<le> n \<and> n \<le> high" using q(1) Fin by auto
  qed (auto simp: Fin)
qed auto

section \<open>Properties\<close>

text \<open>
  C19: in every rule file this device can reach, by saves, deletes, clean-ups and landings from other
  devices with any failing calls: rule ids are unique, and no rule starts both with its host's terminal
  and with the app, although a landing is written without the check a save makes.
\<close>

theorem rules_start_once:
  assumes "reachable fresh_rules synced_rule_step w" and "f \<in> {cached w, disk w}"
  shows "distinct (map fr_id (rules_of f)) \<and> (\<forall>r \<in> set (rules_of f). \<not> (fr_startWithHost r \<and> fr_startWithApp r = Some True))"
  using synced_rules.reachable_inv [OF assms(1)] assms(2) by (auto simp: rules_inv_def all_rules_def one_start_def)

text \<open>
  C20: deleting a host takes its forward rules: if the delete completes, with the clean-up of the rules
  as the step it awaits, no rule rides the host any more, every rule of another host is as it was, each
  rule dropped has a tombstone that is alive and a dirty mark, and none of them is left on disk.
\<close>

theorem deleted_host_leaves_no_rule:
  assumes "fst (deleteHost fault clock (\<lambda>j. fst (releaseRulesForHost fault' clock' stops j rw) = Inr ()) i w) = Inr ()"
    and "rw' = snd (releaseRulesForHost fault' clock' stops i rw)"
  shows "rules_of (cached rw') = filter (\<lambda>r. fr_hostId r \<noteq> i) (rules_of (cached rw))
    \<and> (\<forall>r \<in> set (rules_of (cached rw)). fr_hostId r = i \<longrightarrow>
         rule_grave clock' (fr_id r) \<in> set (livingTombstones (ff_graves (cached rw')) (of_int clock'))
         \<and> \<lparr>dm_kind = RULE_TOMBSTONE_KIND, dm_id = fr_id r\<rparr> \<in> set (marks rw') \<and> r \<notin> set (rules_of (disk rw')))"
proof -
  have "fst (releaseRulesForHost fault' clock' stops i rw) = Inr ()"
    using wp_fst [OF deleteHost_awaits assms(1)] .
  then have "cleaned clock' i rw rw'" unfolding assms(2) using wp_fst [OF releaseRulesForHost_cleans] by blast
  then show ?thesis by (simp add: cleaned_def)
qed

definition port_in :: "int \<Rightarrow> js_num \<Rightarrow> bool" where
  "port_in low p \<longleftrightarrow> (\<exists>n. p = Fin (of_int n) \<and> low \<le> n \<and> n \<le> 65535)"

lemma remote_port: "isValidRemotePort p \<longleftrightarrow> port_in 1 p"
  by (simp add: isValidRemotePort_def js_integer_between port_in_def)

lemma local_port: "isValidLocalPort p \<longleftrightarrow> port_in 0 p"
proof -
  have "isValidLocalPort p \<longleftrightarrow> p = Fin (of_int 0) \<or> (\<exists>n. p = Fin (of_int n) \<and> 1 \<le> n \<and> n \<le> 65535)"
    unfolding isValidLocalPort_def js_integer_between by simp
  also have "\<dots> \<longleftrightarrow> port_in 0 p" unfolding port_in_def by (auto simp del: of_int_0 intro: exI [of _ 0])
  finally show ?thesis .
qed

text \<open>
  C21: every rule in a file this device wrote is well formed, whichever calls failed: it has a name; a
  local forward has a host to dial, a local port in 0..65535 and a remote port in 1..65535; a dynamic
  one a local port in 0..65535; a remote one a target with a port in 1..65535 and, if it names the
  port to bind, one in 0..65535. All of them are whole numbers.
\<close>

theorem rules_well_formed:
  assumes "reachable fresh_rules rule_step w" and "f \<in> {cached w, disk w}" and "r \<in> set (rules_of f)"
  shows "js_trim (fr_name r) \<noteq> [] \<and> (case fr_type r of
      None \<Rightarrow> js_trim (fr_remoteHost r) \<noteq> [] \<and> port_in 0 (fr_localPort r) \<and> port_in 1 (fr_remotePort r)
    | Some RuleDynamic \<Rightarrow> port_in 0 (fr_localPort r)
    | Some RuleRemote \<Rightarrow> (\<exists>t p. fr_targetHost r = Some t \<and> js_trim t \<noteq> [] \<and> fr_targetPort r = Some p \<and> port_in 1 p)
        \<and> (fr_bindPort r = None \<or> port_in 0 (the (fr_bindPort r))))"
proof -
  have "valid_rule r" using local_rules.reachable_inv [OF assms(1)] assms(2,3) by (auto simp: rules_inv_def all_rules_def)
  then show ?thesis unfolding valid_rule_def rule_error_def ports_error_def
    by (auto simp: local_port remote_port split: if_splits option.splits forward_rule_type.splits)
qed

section \<open>Witnesses\<close>

abbreviation steady :: "nat \<Rightarrow> bool" where
  "steady \<equiv> \<lambda>_. False"

definition no_rules :: "forward_file world" where
  "no_rules = \<lparr>cached = \<lparr>ff_rules = None, ff_graves = JUndef\<rparr>, disk = \<lparr>ff_rules = None, ff_graves = JUndef\<rparr>,
     chain = (\<lambda>_. None), calls = 0, marks = []\<rparr>"

definition demo_rule :: forward_rule where
  "demo_rule = \<lparr>fr_id = ''f1'', fr_name = ''db'', fr_hostId = ''h1'', fr_type = None, fr_localPort = Fin 0, fr_remoteHost = ''db.local'',
     fr_remotePort = Fin 5432, fr_targetHost = None, fr_targetPort = None, fr_bindAddress = None, fr_bindPort = None,
     fr_startWithHost = False, fr_startWithApp = Some True, fr_description = None, fr_updatedAt = None\<rparr>"

definition demo_rule_host :: host where
  "demo_rule_host = SshHost \<lparr>h_id = ''h1'', h_name = ''web'', h_host = ''10.0.0.1'', h_port = 22, h_groupId = None, h_tags = None,
     h_icon = None, h_color = None, h_description = None, h_lastConnectedAt = None, h_pins = None, h_updatedAt = None\<rparr>
     \<lparr>s_credential = SshBoundTo ''i1'', s_proxyJumpId = None, s_lastFingerprint = None\<rparr>"

definition demo_rules :: "forward_file world" where
  "demo_rules = snd (upsertRule steady 7 (\<lambda>i. Some (if i = ''h1'' then Some demo_rule_host else None)) demo_rule no_rules)"

text \<open>Another device turns the rule into one that starts with its host.\<close>

definition demo_rules_landed :: "forward_file world" where
  "demo_rules_landed = snd (applyRemoteRules (\<lambda>_. []) steady 8
     [LandedRecord (JStr ''f1'') (Some (demo_rule\<lparr>fr_startWithHost := True\<rparr>)) 9 None] demo_rules)"

lemma no_rules_fresh: "fresh_rules no_rules"
  by (simp add: fresh_rules_def no_rules_def rules_of_def)

lemmas rule_reach = reach_step [where start = fresh_rules and step = rule_step]
  reach_step [where start = fresh_rules and step = synced_rule_step]

lemma demo_rules_local: "reachable fresh_rules rule_step demo_rules"
  unfolding demo_rules_def by (intro rule_reach(1) [OF _ rs_upsert] reach_start no_rules_fresh)

lemma demo_rules_synced: "reachable fresh_rules synced_rule_step demo_rules_landed"
  unfolding demo_rules_landed_def demo_rules_def
  by (intro rule_reach(2) [OF _ sr_remote] rule_reach(2) [OF _ sr_local [OF rs_upsert]] reach_start no_rules_fresh)

theorem rules_start_once_witness:
  "rules_of (disk demo_rules_landed) = [demo_rule\<lparr>fr_startWithHost := True, fr_startWithApp := None, fr_updatedAt := Some 9\<rparr>]
   \<and> distinct (map fr_id (rules_of (disk demo_rules_landed)))"
proof -
  have "rules_of (disk demo_rules_landed) = [demo_rule\<lparr>fr_startWithHost := True, fr_startWithApp := None, fr_updatedAt := Some 9\<rparr>]"
    by code_simp
  then show ?thesis using rules_start_once [OF demo_rules_synced, of "disk demo_rules_landed"] by simp
qed

theorem rules_well_formed_witness:
  "demo_rule\<lparr>fr_updatedAt := Some 7\<rparr> \<in> set (rules_of (disk demo_rules)) \<and> port_in 1 (Fin 5432)"
proof -
  have "demo_rule\<lparr>fr_updatedAt := Some 7\<rparr> \<in> set (rules_of (disk demo_rules))" by code_simp
  then show ?thesis using rules_well_formed [OF demo_rules_local, of "disk demo_rules" "demo_rule\<lparr>fr_updatedAt := Some 7\<rparr>"]
    by (simp add: demo_rule_def)
qed

definition demo_host_world :: "host_file world" where
  "demo_host_world = \<lparr>cached = \<lparr>hf_hosts = Some [demo_rule_host], hf_groups = None, hf_graves = JUndef\<rparr>,
     disk = \<lparr>hf_hosts = Some [demo_rule_host], hf_groups = None, hf_graves = JUndef\<rparr>, chain = (\<lambda>_. None), calls = 0, marks = []\<rparr>"

theorem deleted_host_leaves_no_rule_witness:
  "rules_of (cached (snd (releaseRulesForHost steady 8 (\<lambda>_. True) ''h1'' demo_rules))) = []"
proof -
  have "fst (deleteHost steady 1 (\<lambda>j. fst (releaseRulesForHost steady 8 (\<lambda>_. True) j demo_rules) = Inr ()) ''h1'' demo_host_world) = Inr ()"
    by code_simp
  moreover have "filter (\<lambda>r. fr_hostId r \<noteq> ''h1'') (rules_of (cached demo_rules)) = []" by code_simp
  ultimately show ?thesis using deleted_host_leaves_no_rule by metis
qed

end
