(* ===== verification/Ssh_Endings.thy ===== *)
theory Ssh_Endings
  imports Main
begin

text \<open>
  The decisions behind reconnecting (\<^verbatim>\<open>src/modules/terminal/lib/ssh-exit-decision.ts\<close>): what to do when a
  shell channel ended, and when a connect failed before there was one. A thrown value is one of the
  two error classes the file defines, or anything else; its message is what \<open>describeError\<close>
  (\<^verbatim>\<open>src/lib/describeError.ts\<close>) makes of it.
\<close>

section \<open>A channel that ended\<close>

datatype ssh_ending = EndClean int | EndSignal string bool | EndAmbiguous string

datatype ssh_wire_exit = WireExit int | WireSignal string bool | WireDisconnected

datatype ssh_ending_action = UserClosed | ClosePane int | ParkKilled string bool | ReconnectEnding string

fun endingFromExitReason :: "ssh_wire_exit \<Rightarrow> int \<Rightarrow> ssh_ending" where
  "endingFromExitReason (WireExit _) code = EndClean code"
| "endingFromExitReason (WireSignal name dumped) code = EndSignal name dumped"
| "endingFromExitReason WireDisconnected code = EndAmbiguous ''remote closed''"

fun decide_ending :: "ssh_ending \<Rightarrow> ssh_ending_action" where
  "decide_ending (EndClean code) = ClosePane code"
| "decide_ending (EndSignal name dumped) = ParkKilled name dumped"
| "decide_ending (EndAmbiguous reason) = ReconnectEnding reason"

definition decideSshEnding :: "ssh_ending \<Rightarrow> bool \<Rightarrow> ssh_ending_action" where
  "decideSshEnding ending sshUserClose = (if sshUserClose then UserClosed else decide_ending ending)"

section \<open>A connect that failed\<close>

text \<open>What was thrown: an \<open>SshLocalConnectError\<close>, an \<open>SshAuthRejectedError\<close>, or any other value.\<close>

datatype thrown = LocalConnectError string | AuthRejectedError string | OtherThrown string

fun describeError :: "thrown \<Rightarrow> string" where
  "describeError (LocalConnectError m) = m"
| "describeError (AuthRejectedError m) = m"
| "describeError (OtherThrown m) = m"

datatype ssh_connect_failure = FailLocal string | FailRejected string | FailTransport string

datatype ssh_connect_action = ParkConnect string | ReconnectConnect string

definition classifySshConnectFailure :: "thrown \<Rightarrow> string \<Rightarrow> ssh_connect_failure" where
  "classifySshConnectFailure e message =
     (case e of LocalConnectError _ \<Rightarrow> FailLocal message | AuthRejectedError _ \<Rightarrow> FailRejected message | OtherThrown _ \<Rightarrow> FailTransport message)"

fun decideSshConnectFailure :: "ssh_connect_failure \<Rightarrow> ssh_connect_action" where
  "decideSshConnectFailure (FailLocal m) = ParkConnect m"
| "decideSshConnectFailure (FailRejected m) = ParkConnect m"
| "decideSshConnectFailure (FailTransport m) = ReconnectConnect m"

fun is_reconnect :: "ssh_connect_action \<Rightarrow> bool" where
  "is_reconnect (ReconnectConnect _) = True"
| "is_reconnect (ParkConnect _) = False"

definition hostKeyRefused :: "bool list \<Rightarrow> bool" where
  "hostKeyRefused answers = (False \<in> set answers)"

end
