(* ===== verification/Forward_Run.thy ===== *)
theory Forward_Run
  imports Forward_Rules Ssh_Endings Tab_Entries "HOL-Library.AList"
begin

text \<open>
  Running forwards: what the Port Forwarding page knows (\<^verbatim>\<open>src/modules/forwards/runtime.ts\<close>), what the
  terminals hold (\<^verbatim>\<open>hostOwned.ts\<close>), and the three modules that move a rule between them:
  \<^verbatim>\<open>controller.ts\<close> (Start and Stop on the page, and the retry ladder of the rules that start with the
  app) and \<^verbatim>\<open>autostart.ts\<close> (the rules a terminal brings up with its session).

  The code runs on one thread: a handler is atomic up to its next \<open>await\<close> on a call that leaves the
  process. What waits there is a \<open>forward_task\<close> of the state, and the answer to it may come at any
  later moment, in any order. Each function below is the code from one such point to the next.
\<close>

section \<open>Runtime entries\<close>

datatype forward_status = FwStopped | FwStarting | FwRunning | FwFailed

record runtime_entry =
  rt_status :: forward_status
  rt_boundPort :: "int option"
  rt_sessionId :: "nat option"
  rt_claim :: "nat option"
  rt_error :: "string option"

record owned_entry =
  oe_sessionId :: nat
  oe_boundPort :: int
  oe_generation :: nat

text \<open>The toasts of the page and the banners of a terminal, by what they say and about which rule.\<close>

datatype forward_toast = HostOwnedRefusal string | HostOwnedYield string | FailureToast string

datatype forward_banner =
    ForwardingBanner forward_rule int
  | FailedBanner forward_rule string
  | SkippedBanner forward_rule forward_status
  | OtherTerminalBanner forward_rule
  | YieldedBanner forward_rule
  | TypedSkippedBanner forward_rule
  | UnreadableBanner string

text \<open>
  What is waiting: a Start for its dial (with the number of the rung if the ladder made it), a Start
  for the close of the reference it gives back (superseded, or yielding to a terminal), a Stop for its
  close, a terminal's run for the rules, for a bind, or for the close of a listener it gives up, and a
  session's end for the close of one of its listeners.
\<close>

datatype forward_task =
    Dialing forward_rule nat "nat option"
  | Releasing forward_rule nat
  | Yielding forward_rule nat
  | Stopping forward_rule
  | Listing string nat nat
  | Binding nat nat forward_rule "forward_rule list"
  | Closing nat nat forward_banner "forward_rule list"
  | Draining nat "owned_entry list"

text \<open>
  The state of the modules. \<open>attempts\<close> and \<open>asked\<close> are the map \<open>startAttempts\<close>: the object a rule has
  on file, by a number, and the host-key questions that object holds. \<open>retries\<close> is \<open>forwardRetries\<close>,
  with what the timer will run. \<open>epochs\<close> and \<open>tab_count\<close> are \<open>tabsBySession\<close>: the epoch object of a
  session, by a number, and its count; \<open>handles\<close> are the detach functions not called yet. On the side
  of the backend, \<open>refs\<close> counts the references the page has taken and not given back, by claim, and
  \<open>unclosed\<close> lists the listeners of the terminals that nobody has asked to close.
\<close>

record forward_state =
  runtime :: "(string \<times> runtime_entry) list"
  hostOwned :: "(string \<times> owned_entry) list"
  attempts :: "string \<Rightarrow> nat option"
  asked :: "nat \<Rightarrow> string list"
  retries :: "string \<Rightarrow> (forward_rule \<times> nat) option"
  epochs :: "nat \<Rightarrow> nat option"
  tab_count :: "nat \<Rightarrow> nat"
  handles :: "(nat \<times> nat) list"
  fresh_object :: nat
  tasks :: "forward_task list"
  refs :: "nat \<Rightarrow> nat"
  unclosed :: "(nat \<times> int \<times> nat) list"
  toasts :: "forward_toast list"
  banners :: "(nat \<times> forward_banner) list"
  abandoned :: "string list"
  dismissed :: "string list"

definition launched :: forward_state where
  "launched = \<lparr>runtime = [], hostOwned = [], attempts = (\<lambda>_. None), asked = (\<lambda>_. []), retries = (\<lambda>_. None),
     epochs = (\<lambda>_. None), tab_count = (\<lambda>_. 0), handles = [], fresh_object = 0, tasks = [], refs = (\<lambda>_. 0), unclosed = [],
     toasts = [], banners = [], abandoned = [], dismissed = []\<rparr>"

section \<open>The two stores\<close>

definition set_runtime :: "string \<Rightarrow> runtime_entry \<Rightarrow> forward_state \<Rightarrow> forward_state" where
  "set_runtime i e s = s\<lparr>runtime := AList.update i e (runtime s)\<rparr>"

definition only_status :: "forward_status \<Rightarrow> runtime_entry" where
  "only_status st = \<lparr>rt_status = st, rt_boundPort = None, rt_sessionId = None, rt_claim = None, rt_error = None\<rparr>"

definition markStarting :: "string \<Rightarrow> forward_state \<Rightarrow> forward_state" where
  "markStarting i = set_runtime i (only_status FwStarting)"

definition markRunning :: "string \<Rightarrow> int \<Rightarrow> nat \<Rightarrow> nat \<Rightarrow> forward_state \<Rightarrow> forward_state" where
  "markRunning i port session claim =
     set_runtime i \<lparr>rt_status = FwRunning, rt_boundPort = Some port, rt_sessionId = Some session, rt_claim = Some claim, rt_error = None\<rparr>"

definition markFailed :: "string \<Rightarrow> string \<Rightarrow> forward_state \<Rightarrow> forward_state" where
  "markFailed i error = set_runtime i ((only_status FwFailed)\<lparr>rt_error := Some error\<rparr>)"

definition markStopped :: "string \<Rightarrow> forward_state \<Rightarrow> forward_state" where
  "markStopped i = set_runtime i (only_status FwStopped)"

text \<open>\<open>byRule[ruleId]?.status ?? "stopped"\<close> and its neighbours.\<close>

definition status_of :: "forward_state \<Rightarrow> string \<Rightarrow> forward_status" where
  "status_of s i = (case map_of (runtime s) i of None \<Rightarrow> FwStopped | Some e \<Rightarrow> rt_status e)"

definition claim_of :: "forward_state \<Rightarrow> string \<Rightarrow> nat option" where
  "claim_of s i = Option.bind (map_of (runtime s) i) rt_claim"

definition error_of :: "forward_state \<Rightarrow> string \<Rightarrow> string option" where
  "error_of s i = Option.bind (map_of (runtime s) i) rt_error"

definition owned_by :: "forward_state \<Rightarrow> string \<Rightarrow> owned_entry option" where
  "owned_by s i = map_of (hostOwned s) i"

definition claimHostOwned :: "string \<Rightarrow> owned_entry \<Rightarrow> forward_state \<Rightarrow> forward_state" where
  "claimHostOwned i e s = s\<lparr>hostOwned := AList.update i e (hostOwned s)\<rparr>"

definition releaseSession :: "nat \<Rightarrow> forward_state \<Rightarrow> forward_state" where
  "releaseSession session s = s\<lparr>hostOwned := filter (\<lambda>(i, e). oe_sessionId e \<noteq> session) (hostOwned s)\<rparr>"

section \<open>What leaves the process\<close>

definition await :: "forward_task \<Rightarrow> forward_state \<Rightarrow> forward_state" where
  "await t s = s\<lparr>tasks := tasks s @ [t]\<rparr>"

definition resume :: "forward_task \<Rightarrow> forward_state \<Rightarrow> forward_state" where
  "resume t s = s\<lparr>tasks := remove1 t (tasks s)\<rparr>"

definition toast :: "forward_toast \<Rightarrow> forward_state \<Rightarrow> forward_state" where
  "toast m s = s\<lparr>toasts := toasts s @ [m]\<rparr>"

definition banner :: "nat \<Rightarrow> forward_banner \<Rightarrow> forward_state \<Rightarrow> forward_state" where
  "banner session b s = s\<lparr>banners := banners s @ [(session, b)]\<rparr>"

text \<open>A close by claim spends one reference; a claim that has none left is a no-op.\<close>

definition take_ref :: "nat \<Rightarrow> forward_state \<Rightarrow> forward_state" where
  "take_ref c s = s\<lparr>refs := (refs s)(c := refs s c + 1)\<rparr>"

definition close_ref :: "nat \<Rightarrow> forward_state \<Rightarrow> forward_state" where
  "close_ref c s = s\<lparr>refs := (refs s)(c := refs s c - 1)\<rparr>"

definition open_listener :: "nat \<times> int \<times> nat \<Rightarrow> forward_state \<Rightarrow> forward_state" where
  "open_listener l s = s\<lparr>unclosed := unclosed s @ [l]\<rparr>"

definition close_listener :: "nat \<times> int \<times> nat \<Rightarrow> forward_state \<Rightarrow> forward_state" where
  "close_listener l s = s\<lparr>unclosed := remove1 l (unclosed s)\<rparr>"

definition listener_of :: "owned_entry \<Rightarrow> nat \<times> int \<times> nat" where
  "listener_of e = (oe_sessionId e, oe_boundPort e, oe_generation e)"

section \<open>What a failed bind says\<close>

text \<open>\<open>bindFailureText\<close> (\<^verbatim>\<open>page/derive.ts\<close>); how a port prints is the argument \<open>num\<close>.\<close>

definition includes_text :: "string \<Rightarrow> string \<Rightarrow> bool" where
  "includes_text s t = list_ex (\<lambda>n. take (length t) (drop n s) = t) [0..<Suc (length s)]"

definition bindFailureText :: "(js_num \<Rightarrow> string) \<Rightarrow> string \<Rightarrow> js_num \<Rightarrow> string" where
  "bindFailureText num error localPort =
     (let io = js_lower error in
      if includes_text io ''os error 10013'' \<or> includes_text io ''wsaeacces''
        \<or> includes_text io ''forbidden by its access permissions''
      then ''Windows reserves some port ranges for Hyper-V and WSL2, and they do not appear in netstat. Run netsh interface ipv4 show excludedportrange protocol=tcp to see them.''
      else if (includes_text io ''eacces'' \<or> includes_text io ''permission denied'')
        \<and> (case localPort of Fin q \<Rightarrow> 1 \<le> q \<and> q < 1024 | _ \<Rightarrow> False)
      then ''Port '' @ num localPort @ '' needs administrator rights. Pick a port above 1024.''
      else if (includes_text io ''eaddrinuse'' \<or> includes_text io ''address already in use'' \<or> includes_text io ''address in use''
        \<or> includes_text io ''os error 10048'' \<or> includes_text io ''only one usage of each socket address'') \<and> localPort \<noteq> Fin 0
      then ''Port '' @ num localPort @ '' is already in use on this machine.''
      else error)"

section \<open>The controller of the page\<close>

definition FORWARD_RECONNECT_BACKOFF_MS :: "nat list" where
  "FORWARD_RECONNECT_BACKOFF_MS = [1000, 3000, 7000, 15000, 30000]"

definition cancelForwardRetry :: "string \<Rightarrow> forward_state \<Rightarrow> forward_state" where
  "cancelForwardRetry i s = s\<lparr>retries := (retries s)(i := None)\<rparr>"

definition isCurrentAttempt :: "forward_state \<Rightarrow> string \<Rightarrow> nat \<Rightarrow> bool" where
  "isCurrentAttempt s i a = (attempts s i = Some a)"

text \<open>
  \<open>startRule\<close> up to its dial. A rule of either kind takes the same path; the kinds differ in the call
  they make and in the text of a failure. \<open>ladder\<close> is the number of earlier attempts when the ladder
  makes the call, \<^const>\<open>None\<close> when the user does.
\<close>

definition startRule :: "forward_rule \<Rightarrow> nat option \<Rightarrow> forward_state \<Rightarrow> forward_state" where
  "startRule rule ladder s0 =
     (let i = fr_id rule; s = cancelForwardRetry i s0 in
      if owned_by s i \<noteq> None then toast (HostOwnedRefusal (fr_name rule)) s
      else
        let a = fresh_object s
        in await (Dialing rule a ladder)
             (markStarting i (s\<lparr>fresh_object := a + 1, attempts := (attempts s)(i \<mapsto> a), asked := (asked s)(a := [])\<rparr>)))"

text \<open>The dial asks about a host key.\<close>

definition promptRaised :: "nat \<Rightarrow> string \<Rightarrow> forward_state \<Rightarrow> forward_state" where
  "promptRaised a promptId s = s\<lparr>asked := (asked s)(a := List.insert promptId (asked s a))\<rparr>"

text \<open>\<open>finally\<close>: only the attempt on file clears it.\<close>

definition settle :: "forward_rule \<Rightarrow> nat \<Rightarrow> forward_state \<Rightarrow> forward_state" where
  "settle rule a s = (if isCurrentAttempt s (fr_id rule) a then s\<lparr>attempts := (attempts s)(fr_id rule := None)\<rparr> else s)"

definition dialResolved ::
  "forward_rule \<Rightarrow> nat \<Rightarrow> nat option \<Rightarrow> int \<Rightarrow> nat \<Rightarrow> nat \<Rightarrow> forward_state \<Rightarrow> forward_state" where
  "dialResolved rule a ladder port session claim s0 =
     (let i = fr_id rule; s = take_ref claim (resume (Dialing rule a ladder) s0) in
      if \<not> isCurrentAttempt s i a then await (Releasing rule a) (close_ref claim s)
      else if owned_by s i \<noteq> None then await (Yielding rule a) (close_ref claim s)
      else settle rule a (markRunning i port session claim s))"

definition released :: "forward_rule \<Rightarrow> nat \<Rightarrow> forward_state \<Rightarrow> forward_state" where
  "released rule a s = settle rule a (resume (Releasing rule a) s)"

definition yielded :: "forward_rule \<Rightarrow> nat \<Rightarrow> forward_state \<Rightarrow> forward_state" where
  "yielded rule a s = settle rule a (toast (HostOwnedYield (fr_name rule)) (markStopped (fr_id rule) (resume (Yielding rule a) s)))"

text \<open>
  What a rung of the ladder does about a failed Start: park with one toast, give up after the last
  delay, or schedule the next rung.
\<close>

definition rungFailed :: "forward_rule \<Rightarrow> nat \<Rightarrow> thrown \<Rightarrow> forward_state \<Rightarrow> forward_state" where
  "rungFailed rule priorAttempts failure s =
     (let i = fr_id rule;
          txt = (case error_of s i of Some t \<Rightarrow> t | None \<Rightarrow> describeError failure);
          attempt = priorAttempts + 1
      in if \<not> is_reconnect (decideSshConnectFailure (classifySshConnectFailure failure [])) then toast (FailureToast txt) s
         else if length FORWARD_RECONNECT_BACKOFF_MS < attempt then toast (FailureToast txt) s
         else
           let delayMs = FORWARD_RECONNECT_BACKOFF_MS ! (attempt - 1);
               s1 = markFailed i (txt @ '' (retrying in '' @ show_nat (delayMs div 1000) @ ''s)'') s
           in s1\<lparr>retries := (retries s1)(i \<mapsto> (rule, attempt))\<rparr>)"

definition dialRejected ::
  "(js_num \<Rightarrow> string) \<Rightarrow> forward_rule \<Rightarrow> nat \<Rightarrow> nat option \<Rightarrow> thrown \<Rightarrow> forward_state \<Rightarrow> forward_state" where
  "dialRejected num rule a ladder e s0 =
     (let i = fr_id rule; s = resume (Dialing rule a ladder) s0 in
      if \<not> isCurrentAttempt s i a then settle rule a s
      else if owned_by s i \<noteq> None then settle rule a (toast (HostOwnedYield (fr_name rule)) (markStopped i s))
      else
        let txt = (if fr_type rule = None then bindFailureText num (describeError e) (fr_localPort rule) else describeError e);
            s1 = markFailed i txt (s\<lparr>dismissed := dismissed s @ asked s a\<rparr>)
        in case ladder of
             None \<Rightarrow> settle rule a (toast (FailureToast txt) s1)
           | Some priorAttempts \<Rightarrow> rungFailed rule priorAttempts e (settle rule a s1))"

definition pageMustStopFirst :: "forward_state \<Rightarrow> string \<Rightarrow> bool" where
  "pageMustStopFirst s i =
     (if owned_by s i \<noteq> None then False
      else if retries s i \<noteq> None then True
      else status_of s i = FwRunning \<or> status_of s i = FwStarting)"

definition stopRule :: "forward_rule \<Rightarrow> forward_state \<Rightarrow> forward_state" where
  "stopRule rule s0 =
     (let i = fr_id rule in
      if owned_by s0 i \<noteq> None then s0
      else
        let s1 = cancelForwardRetry i s0;
            asked_now = (case attempts s1 i of None \<Rightarrow> [] | Some a \<Rightarrow> asked s1 a);
            s2 = s1\<lparr>attempts := (attempts s1)(i := None), abandoned := abandoned s1 @ asked_now\<rparr>
        in case claim_of s2 i of
             Some c \<Rightarrow> await (Stopping rule) (close_ref c s2)
           | None \<Rightarrow> markStopped i s2)"

definition stopped :: "forward_rule \<Rightarrow> forward_state \<Rightarrow> forward_state" where
  "stopped rule s = markStopped (fr_id rule) (resume (Stopping rule) s)"

definition releaseRule :: "forward_rule \<Rightarrow> forward_state \<Rightarrow> forward_state" where
  "releaseRule rule s = (if pageMustStopFirst s (fr_id rule) then stopRule rule s else s)"

definition startForwardAutostart :: "forward_rule \<Rightarrow> forward_state \<Rightarrow> forward_state" where
  "startForwardAutostart rule s = startRule rule (Some 0) s"

text \<open>The timer of a rung fires: it takes its entry out and makes the next attempt.\<close>

definition retryFires :: "string \<Rightarrow> forward_rule \<Rightarrow> nat \<Rightarrow> forward_state \<Rightarrow> forward_state" where
  "retryFires i rule attempt s = startRule rule (Some attempt) (s\<lparr>retries := (retries s)(i := None)\<rparr>)"

section \<open>The rules of a terminal\<close>

definition still_live :: "forward_state \<Rightarrow> nat \<Rightarrow> nat \<Rightarrow> bool" where
  "still_live s session epoch = (epochs s session = Some epoch)"

text \<open>The loop of \<open>startHostForwards\<close> up to its next bind.\<close>

fun startHostForwards :: "nat \<Rightarrow> nat \<Rightarrow> forward_rule list \<Rightarrow> forward_state \<Rightarrow> forward_state" where
  "startHostForwards session epoch [] s = s"
| "startHostForwards session epoch (rule # rest) s =
     (if fr_type rule \<noteq> None then startHostForwards session epoch rest (banner session (TypedSkippedBanner rule) s)
      else if \<not> still_live s session epoch then s
      else if owned_by s (fr_id rule) \<noteq> None then startHostForwards session epoch rest (banner session (OtherTerminalBanner rule) s)
      else if status_of s (fr_id rule) = FwRunning \<or> status_of s (fr_id rule) = FwStarting
        then startHostForwards session epoch rest (banner session (SkippedBanner rule (status_of s (fr_id rule))) s)
      else await (Binding session epoch rule rest) s)"

definition rulesListed :: "string \<Rightarrow> nat \<Rightarrow> nat \<Rightarrow> forward_rule list \<Rightarrow> forward_state \<Rightarrow> forward_state" where
  "rulesListed hostId session epoch rules s =
     startHostForwards session epoch (filter (\<lambda>r. fr_hostId r = hostId \<and> fr_startWithHost r) rules)
       (resume (Listing hostId session epoch) s)"

definition rulesUnreadable :: "string \<Rightarrow> nat \<Rightarrow> nat \<Rightarrow> thrown \<Rightarrow> forward_state \<Rightarrow> forward_state" where
  "rulesUnreadable hostId session epoch e s =
     banner session (UnreadableBanner (describeError e)) (resume (Listing hostId session epoch) s)"

definition bindResolved ::
  "nat \<Rightarrow> nat \<Rightarrow> forward_rule \<Rightarrow> forward_rule list \<Rightarrow> int \<Rightarrow> nat \<Rightarrow> forward_state \<Rightarrow> forward_state" where
  "bindResolved session epoch rule rest port generation s0 =
     (let l = (session, port, generation); i = fr_id rule;
          s = open_listener l (resume (Binding session epoch rule rest) s0)
      in if \<not> still_live s session epoch then close_listener l s
         else if owned_by s i \<noteq> None then await (Closing session epoch (OtherTerminalBanner rule) rest) (close_listener l s)
         else
           let taken = status_of s i in
           if taken = FwRunning then await (Closing session epoch (YieldedBanner rule) rest) (close_listener l s)
           else
             let s1 = claimHostOwned i \<lparr>oe_sessionId = session, oe_boundPort = port, oe_generation = generation\<rparr> s;
                 s2 = (if taken = FwFailed then markStopped i s1 else s1)
             in startHostForwards session epoch rest (banner session (ForwardingBanner rule port) s2))"

definition bindRejected ::
  "nat \<Rightarrow> nat \<Rightarrow> forward_rule \<Rightarrow> forward_rule list \<Rightarrow> thrown \<Rightarrow> forward_state \<Rightarrow> forward_state" where
  "bindRejected session epoch rule rest e s =
     startHostForwards session epoch rest
       (banner session (FailedBanner rule (describeError e)) (resume (Binding session epoch rule rest) s))"

definition gaveUp :: "nat \<Rightarrow> nat \<Rightarrow> forward_banner \<Rightarrow> forward_rule list \<Rightarrow> forward_state \<Rightarrow> forward_state" where
  "gaveUp session epoch b rest s =
     startHostForwards session epoch rest (banner session b (resume (Closing session epoch b rest) s))"

text \<open>A tab attaches to a session; its detach is one entry of \<open>handles\<close>, so it counts once.\<close>

definition attachHostForwards :: "string \<Rightarrow> nat \<Rightarrow> forward_state \<Rightarrow> forward_state" where
  "attachHostForwards hostId session s0 =
     (let (epoch, s) =
        (case epochs s0 session of
           Some e \<Rightarrow> (e, s0)
         | None \<Rightarrow>
           let e = fresh_object s0
           in (e, await (Listing hostId session e)
                 (s0\<lparr>fresh_object := e + 1, epochs := (epochs s0)(session \<mapsto> e), tab_count := (tab_count s0)(e := 0)\<rparr>)))
      in s\<lparr>tab_count := (tab_count s)(epoch := tab_count s epoch + 1), handles := (session, epoch) # handles s\<rparr>)"

fun drain :: "nat \<Rightarrow> owned_entry list \<Rightarrow> forward_state \<Rightarrow> forward_state" where
  "drain session [] s = s"
| "drain session (e # es) s = await (Draining session es) (close_listener (session, oe_boundPort e, oe_generation e) s)"

definition stopHostForwards :: "nat \<Rightarrow> forward_state \<Rightarrow> forward_state" where
  "stopHostForwards session s =
     drain session (filter (\<lambda>e. oe_sessionId e = session) (map snd (hostOwned s))) (releaseSession session s)"

definition drained :: "nat \<Rightarrow> owned_entry list \<Rightarrow> forward_state \<Rightarrow> forward_state" where
  "drained session es s = drain session es (resume (Draining session es) s)"

definition detach :: "nat \<Rightarrow> nat \<Rightarrow> forward_state \<Rightarrow> forward_state" where
  "detach session epoch s0 =
     (let s = s0\<lparr>handles := remove1 (session, epoch) (handles s0), tab_count := (tab_count s0)(epoch := tab_count s0 epoch - 1)\<rparr> in
      if 0 < tab_count s epoch \<or> epochs s session \<noteq> Some epoch then s
      else stopHostForwards session (s\<lparr>epochs := (epochs s)(session := None)\<rparr>))"

section \<open>Every order of events\<close>

text \<open>
  What can happen next: the user or the launch acts on a rule, or any waiting call is answered. A
  close is answered either way alike: its rejection is caught where it is made. When a rule may be
  started and stopped is a parameter of the relation.
\<close>

inductive forward_step ::
  "(forward_rule \<Rightarrow> forward_state \<Rightarrow> bool) \<Rightarrow> (forward_rule \<Rightarrow> forward_state \<Rightarrow> bool) \<Rightarrow> forward_state \<Rightarrow> forward_state \<Rightarrow> bool"
  for may_start may_stop where
  fw_start: "may_start rule s \<Longrightarrow> forward_step may_start may_stop s (startRule rule None s)"
| fw_launch: "may_start rule s \<Longrightarrow> forward_step may_start may_stop s (startForwardAutostart rule s)"
| fw_stop: "may_stop rule s \<Longrightarrow> forward_step may_start may_stop s (stopRule rule s)"
| fw_release: "may_stop rule s \<Longrightarrow> forward_step may_start may_stop s (releaseRule rule s)"
| fw_retry: "retries s i = Some (rule, n) \<Longrightarrow> forward_step may_start may_stop s (retryFires i rule n s)"
| fw_prompt: "Dialing rule a ladder \<in> set (tasks s) \<Longrightarrow> forward_step may_start may_stop s (promptRaised a p s)"
| fw_dialed: "Dialing rule a ladder \<in> set (tasks s) \<Longrightarrow> forward_step may_start may_stop s (dialResolved rule a ladder port session c s)"
| fw_refused: "Dialing rule a ladder \<in> set (tasks s) \<Longrightarrow> forward_step may_start may_stop s (dialRejected num rule a ladder e s)"
| fw_released: "Releasing rule a \<in> set (tasks s) \<Longrightarrow> forward_step may_start may_stop s (released rule a s)"
| fw_yielded: "Yielding rule a \<in> set (tasks s) \<Longrightarrow> forward_step may_start may_stop s (yielded rule a s)"
| fw_stopped: "Stopping rule \<in> set (tasks s) \<Longrightarrow> forward_step may_start may_stop s (stopped rule s)"
| fw_attach: "forward_step may_start may_stop s (attachHostForwards hostId session s)"
| fw_detach: "(session, epoch) \<in> set (handles s) \<Longrightarrow> forward_step may_start may_stop s (detach session epoch s)"
| fw_listed: "Listing hostId session epoch \<in> set (tasks s) \<Longrightarrow> forward_step may_start may_stop s (rulesListed hostId session epoch rules s)"
| fw_unreadable: "Listing hostId session epoch \<in> set (tasks s) \<Longrightarrow> forward_step may_start may_stop s (rulesUnreadable hostId session epoch e s)"
| fw_bound: "Binding session epoch rule rest \<in> set (tasks s) \<Longrightarrow> forward_step may_start may_stop s (bindResolved session epoch rule rest port generation s)"
| fw_unbound: "Binding session epoch rule rest \<in> set (tasks s) \<Longrightarrow> forward_step may_start may_stop s (bindRejected session epoch rule rest e s)"
| fw_gave_up: "Closing session epoch b rest \<in> set (tasks s) \<Longrightarrow> forward_step may_start may_stop s (gaveUp session epoch b rest s)"
| fw_drained: "Draining session es \<in> set (tasks s) \<Longrightarrow> forward_step may_start may_stop s (drained session es s)"

abbreviation any_order :: "forward_state \<Rightarrow> forward_state \<Rightarrow> bool" where
  "any_order \<equiv> forward_step (\<lambda>_ _. True) (\<lambda>_ _. True)"

end
