(* ===== verification/Forward_Run_Inv.thy ===== *)
theory Forward_Run_Inv
  imports Forward_Run
begin

text \<open>
  What holds in every order of events: one owner per rule, a name for every listener of a terminal,
  no rule held for a session without tabs, and a ladder that stays within its delays.
\<close>

section \<open>Reading the state after an operation\<close>

lemma status_of_simps [simp]:
  "status_of (set_runtime i e s) j = (if j = i then rt_status e else status_of s j)"
  "claim_of (set_runtime i e s) j = (if j = i then rt_claim e else claim_of s j)"
  "owned_by (set_runtime i e s) j = owned_by s j"
  by (simp_all add: status_of_def claim_of_def owned_by_def set_runtime_def update_conv)

lemma only_status_simps [simp]:
  "rt_status (only_status st) = st" "rt_claim (only_status st) = None"
  by (simp_all add: only_status_def)

lemmas marks_defs = markStarting_def markRunning_def markFailed_def markStopped_def

text \<open>The three readers look at one field each.\<close>

lemma readers_cong:
  "runtime s' = runtime s \<Longrightarrow> status_of s' i = status_of s i"
  "runtime s' = runtime s \<Longrightarrow> claim_of s' i = claim_of s i"
  "runtime s' = runtime s \<Longrightarrow> error_of s' i = error_of s i"
  "hostOwned s' = hostOwned s \<Longrightarrow> owned_by s' i = owned_by s i"
  by (simp_all add: status_of_def claim_of_def error_of_def owned_by_def)

lemma update_absent: "map_of xs i = None \<Longrightarrow> AList.update i e xs = xs @ [(i, e)]"
  by (induction xs) (auto split: if_splits)

lemma startHostForwards_frame:
  obtains bs ts where "startHostForwards session epoch rules s = s\<lparr>banners := bs, tasks := tasks s @ ts\<rparr>"
    and "ts = [] \<or> (\<exists>r rest. ts = [Binding session epoch r rest])"
proof -
  have "\<exists>bs ts. startHostForwards session epoch rules s = s\<lparr>banners := bs, tasks := tasks s @ ts\<rparr>
      \<and> (ts = [] \<or> (\<exists>r rest. ts = [Binding session epoch r rest]))"
  proof (induction session epoch rules s rule: startHostForwards.induct)
    case (1 session epoch s)
    show ?case by (rule exI [of _ "banners s"], rule exI [of _ "[]"]) simp
  next
    case (2 session epoch rule rest s)
    have b: "\<exists>bs ts. startHostForwards session epoch rest (banner session x s) = s\<lparr>banners := bs, tasks := tasks s @ ts\<rparr>
        \<and> (ts = [] \<or> (\<exists>r rest. ts = [Binding session epoch r rest]))"
      if "\<exists>bs ts. startHostForwards session epoch rest (banner session x s) = (banner session x s)\<lparr>banners := bs, tasks := tasks s @ ts\<rparr>
        \<and> (ts = [] \<or> (\<exists>r rest. ts = [Binding session epoch r rest]))" for x
      using that by (simp add: banner_def)
    have stop: "\<exists>bs ts. s = s\<lparr>banners := bs, tasks := tasks s @ ts\<rparr> \<and> (ts = [] \<or> (\<exists>r rest. ts = [Binding session epoch r rest]))"
      by (rule exI [of _ "banners s"], rule exI [of _ "[]"]) simp
    have wait: "\<exists>bs ts. await (Binding session epoch rule rest) s = s\<lparr>banners := bs, tasks := tasks s @ ts\<rparr>
        \<and> (ts = [] \<or> (\<exists>r rest. ts = [Binding session epoch r rest]))"
      by (rule exI [of _ "banners s"], rule exI [of _ "[Binding session epoch rule rest]"]) (simp add: await_def)
    have t: "tasks (banner session x s) = tasks s" for x by (simp add: banner_def)
    show ?case using 2 b stop wait unfolding t by simp
  qed
  then show ?thesis using that by blast
qed

section \<open>The invariant\<close>

fun status_in :: "(string \<times> runtime_entry) list \<Rightarrow> string \<Rightarrow> forward_status" where
  "status_in rt i = (case map_of rt i of None \<Rightarrow> FwStopped | Some e \<Rightarrow> rt_status e)"

definition excl :: "(string \<times> runtime_entry) list \<Rightarrow> (string \<times> owned_entry) list \<Rightarrow> bool" where
  "excl rt ow \<longleftrightarrow> (\<forall>i. map_of ow i = None \<or> status_in rt i \<noteq> FwRunning)"

definition exclusive :: "forward_state \<Rightarrow> bool" where
  "exclusive s \<longleftrightarrow> excl (runtime s) (hostOwned s)"

definition held_live :: "forward_state \<Rightarrow> bool" where
  "held_live s \<longleftrightarrow> (\<forall>p \<in> set (hostOwned s). epochs s (oe_sessionId (snd p)) \<noteq> None)"

fun draining :: "forward_task \<Rightarrow> (nat \<times> int \<times> nat) list" where
  "draining (Draining session es) = map (\<lambda>e. (session, oe_boundPort e, oe_generation e)) es"
| "draining _ = []"

definition to_drain :: "forward_task list \<Rightarrow> (nat \<times> int \<times> nat) list" where
  "to_drain ts = concat (map draining ts)"

definition accounted :: "forward_state \<Rightarrow> bool" where
  "accounted s \<longleftrightarrow> mset (unclosed s) = mset (map (\<lambda>p. listener_of (snd p)) (hostOwned s)) + mset (to_drain (tasks s))"

definition counted :: "forward_state \<Rightarrow> bool" where
  "counted s \<longleftrightarrow> (\<forall>e. tab_count s e = length (filter (\<lambda>h. snd h = e) (handles s)))
     \<and> (\<forall>h \<in> set (handles s). epochs s (fst h) = Some (snd h))
     \<and> (\<forall>se e. epochs s se = Some e \<longrightarrow> 0 < tab_count s e \<and> e < fresh_object s)
     \<and> (\<forall>se se' e. epochs s se = Some e \<longrightarrow> epochs s se' = Some e \<longrightarrow> se = se')"

definition laddered :: "forward_state \<Rightarrow> bool" where
  "laddered s \<longleftrightarrow> (\<forall>i r n. retries s i = Some (r, n) \<longrightarrow> fr_id r = i \<and> n \<le> length FORWARD_RECONNECT_BACKOFF_MS)
     \<and> (\<forall>r a n. Dialing r a (Some n) \<in> set (tasks s) \<longrightarrow> n \<le> length FORWARD_RECONNECT_BACKOFF_MS)"

section \<open>Each step keeps it\<close>

lemmas call_defs = await_def resume_def toast_def banner_def take_ref_def close_ref_def open_listener_def close_listener_def
  cancelForwardRetry_def settle_def isCurrentAttempt_def still_live_def releaseSession_def

lemma drain_frame: "\<exists>ts u. drain session es s = s\<lparr>tasks := tasks s @ ts, unclosed := u\<rparr>
    \<and> (es = [] \<longrightarrow> ts = [] \<and> u = unclosed s)
    \<and> (\<forall>e rest. es = e # rest \<longrightarrow> ts = [Draining session rest] \<and> u = remove1 (session, oe_boundPort e, oe_generation e) (unclosed s))"
  by (cases es) (auto simp: await_def close_listener_def)

lemma startHostForwards_reads [simp]:
  "runtime (startHostForwards session epoch rules s) = runtime s"
  "hostOwned (startHostForwards session epoch rules s) = hostOwned s"
  "epochs (startHostForwards session epoch rules s) = epochs s"
  "unclosed (startHostForwards session epoch rules s) = unclosed s"
  "tab_count (startHostForwards session epoch rules s) = tab_count s"
  "handles (startHostForwards session epoch rules s) = handles s"
  "fresh_object (startHostForwards session epoch rules s) = fresh_object s"
  "retries (startHostForwards session epoch rules s) = retries s"
  "attempts (startHostForwards session epoch rules s) = attempts s"
  "refs (startHostForwards session epoch rules s) = refs s"
  by (rule startHostForwards_frame [of session epoch rules s]; simp)+

lemma drain_reads [simp]:
  "runtime (drain session es s) = runtime s" "hostOwned (drain session es s) = hostOwned s"
  "epochs (drain session es s) = epochs s" "tab_count (drain session es s) = tab_count s"
  "handles (drain session es s) = handles s" "fresh_object (drain session es s) = fresh_object s"
  "retries (drain session es s) = retries s" "attempts (drain session es s) = attempts s" "refs (drain session es s) = refs s"
  by (cases es; simp add: await_def close_listener_def)+

lemma excl_update: "excl rt ow \<Longrightarrow> rt_status e \<noteq> FwRunning \<or> map_of ow i = None \<Longrightarrow> excl (AList.update i e rt) ow"
  by (auto simp: excl_def update_conv)

lemma excl_claim: "excl rt ow \<Longrightarrow> status_in rt i \<noteq> FwRunning \<Longrightarrow> excl rt (AList.update i e ow)"
  by (auto simp: excl_def update_conv simp del: status_in.simps)

lemma map_of_filter_None: "map_of xs i = None \<Longrightarrow> map_of (filter P xs) i = None"
  by (induction xs) (auto split: if_splits)

lemma excl_filter: "excl rt ow \<Longrightarrow> excl rt (filter P ow)"
  unfolding excl_def by (metis map_of_filter_None)

lemma status_of_in: "status_of s i = status_in (runtime s) i"
  by (simp add: status_of_def)

lemmas handler_defs = startRule_def promptRaised_def dialResolved_def released_def yielded_def rungFailed_def dialRejected_def
  stopRule_def stopped_def releaseRule_def startForwardAutostart_def retryFires_def rulesListed_def rulesUnreadable_def
  bindResolved_def bindRejected_def gaveUp_def attachHostForwards_def drained_def detach_def stopHostForwards_def Let_def

lemmas excl_simps = exclusive_def handler_defs marks_defs set_runtime_def call_defs claimHostOwned_def owned_by_def status_of_in

lemma exclusive_step:
  assumes "exclusive s" and "forward_step may_start may_stop s s'"
  shows "exclusive s'"
proof -
  have e: "excl (runtime s) (hostOwned s)" using assms(1) by (simp add: exclusive_def)
  show ?thesis using assms(2)
    by (cases rule: forward_step.cases)
      (simp_all add: excl_simps e excl_update excl_claim excl_filter del: status_in.simps split: option.split)
qed

section \<open>Held rules have a tab\<close>

lemma update_values: "set (AList.update i e xs) \<subseteq> insert (i, e) (set xs)"
  by (induction xs) auto

lemma held_live_step:
  assumes "held_live s" and "forward_step may_start may_stop s s'"
  shows "held_live s'"
proof -
  have h: "p \<in> set (hostOwned s) \<Longrightarrow> \<exists>e. epochs s (oe_sessionId (snd p)) = Some e" for p
    using assms(1) by (auto simp: held_live_def)
  note h' = h [of "(i, e)" for i e, simplified]
  have u: "(j, f) \<in> set (AList.update i e (hostOwned s)) \<Longrightarrow> f = e \<or> (\<exists>x. epochs s (oe_sessionId f) = Some x)" for i j e f
    using update_values [of i e "hostOwned s"] h' [of j f] by auto
  show ?thesis using assms(2)
    by (cases rule: forward_step.cases)
      (auto simp: held_live_def handler_defs marks_defs set_runtime_def call_defs claimHostOwned_def split: option.split dest: u h')
qed

section \<open>Every listener is named\<close>

lemma to_drain_simps [simp]:
  "to_drain (ts @ [t]) = to_drain ts @ draining t" "draining t = [] \<Longrightarrow> to_drain (remove1 t ts) = to_drain ts"
  by (auto simp: to_drain_def) (induction ts, auto)

lemma to_drain_remove: "t \<in> set ts \<Longrightarrow> mset (to_drain ts) = mset (draining t) + mset (to_drain (remove1 t ts))"
  by (induction ts) (auto simp: to_drain_def)

lemma to_drain_loop [simp]: "to_drain (tasks (startHostForwards se ep rs v)) = to_drain (tasks v)"
  by (rule startHostForwards_frame [of se ep rs v]) (auto simp: to_drain_def)

lemma partition_session:
  "mset (map (\<lambda>p. listener_of (snd p)) ow) =
     mset (map (\<lambda>p. listener_of (snd p)) (filter (\<lambda>(i, e). oe_sessionId e \<noteq> session) ow))
     + mset (map (\<lambda>e. (session, oe_boundPort e, oe_generation e)) (filter (\<lambda>e. oe_sessionId e = session) (map snd ow)))"
  by (induction ow) (auto simp: listener_of_def)

text \<open>Draining a list of entries: what is unclosed and what is still to drain shrink together.\<close>

lemma drain_accounts:
  assumes "mset (unclosed v) = A + mset (map (\<lambda>e. (session, oe_boundPort e, oe_generation e)) es) + mset (to_drain (tasks v))"
  shows "mset (unclosed (drain session es v)) = A + mset (to_drain (tasks (drain session es v)))"
  using assms by (cases es) (auto simp: await_def close_listener_def)

lemma accounted_step:
  assumes "accounted s" and "forward_step may_start may_stop s s'"
  shows "accounted s'"
  using assms(2)
proof (cases rule: forward_step.cases)
  case (fw_detach session epoch)
  have "mset (unclosed s) = mset (map (\<lambda>p. listener_of (snd p)) (filter (\<lambda>(i, e). oe_sessionId e \<noteq> session) (hostOwned s)))
      + mset (map (\<lambda>e. (session, oe_boundPort e, oe_generation e)) (filter (\<lambda>e. oe_sessionId e = session) (map snd (hostOwned s))))
      + mset (to_drain (tasks s))"
    using assms(1) partition_session [of "hostOwned s" session] by (simp add: accounted_def)
  then show ?thesis using assms(1) unfolding fw_detach accounted_def detach_def stopHostForwards_def Let_def
    by (auto simp: releaseSession_def intro!: drain_accounts)
next
  case (fw_drained session es)
  have "mset (unclosed s) = mset (map (\<lambda>p. listener_of (snd p)) (hostOwned s))
      + mset (map (\<lambda>e. (session, oe_boundPort e, oe_generation e)) es) + mset (to_drain (tasks (resume (Draining session es) s)))"
    using assms(1) to_drain_remove [OF fw_drained(2)] by (simp add: accounted_def resume_def)
  then show ?thesis unfolding fw_drained accounted_def drained_def
    by (simp add: resume_def drain_accounts)
qed (use assms(1) in \<open>auto simp: accounted_def handler_defs marks_defs set_runtime_def call_defs claimHostOwned_def owned_by_def
      update_absent listener_of_def split: option.split if_splits\<close>)

section \<open>The ladder\<close>

lemma laddered_step:
  assumes "laddered s" and "forward_step may_start may_stop s s'"
  shows "laddered s'"
proof -
  have r: "retries s i = Some (r, n) \<Longrightarrow> fr_id r = i \<and> n \<le> length FORWARD_RECONNECT_BACKOFF_MS" for i r n
    using assms(1) by (auto simp: laddered_def)
  have d: "Dialing r a (Some n) \<in> set (tasks s) \<Longrightarrow> n \<le> length FORWARD_RECONNECT_BACKOFF_MS" for r a n
    using assms(1) by (auto simp: laddered_def)
  have f: "Dialing r a l \<in> set (tasks (startHostForwards se ep rs v)) \<longleftrightarrow> Dialing r a l \<in> set (tasks v)" for r a l se ep rs v
    by (rule startHostForwards_frame [of se ep rs v]) auto
  have g: "Dialing r a l \<in> set (tasks (drain se es v)) \<longleftrightarrow> Dialing r a l \<in> set (tasks v)" for r a l se es v
    by (cases es) (auto simp: await_def close_listener_def)
  have m: "x \<in> set (remove1 t ts) \<Longrightarrow> x \<in> set ts" for x t and ts :: "forward_task list"
    using set_remove1_subset by fastforce
  show ?thesis using assms(2)
    by (cases rule: forward_step.cases)
      (auto simp: laddered_def handler_defs marks_defs set_runtime_def call_defs claimHostOwned_def f g dest!: m dest: r d
        split: option.split if_splits)
qed

section \<open>Tabs and epochs\<close>

lemma counted_cong:
  "counted s \<Longrightarrow> tab_count s' = tab_count s \<Longrightarrow> handles s' = handles s \<Longrightarrow> epochs s' = epochs s \<Longrightarrow>
    fresh_object s \<le> fresh_object s' \<Longrightarrow> counted s'"
  unfolding counted_def by (metis order_less_le_trans)

lemma handles_remove1:
  "h \<in> set hs \<Longrightarrow> length (filter P hs) = (if P h then 1 else 0) + length (filter P (remove1 h hs))"
  by (induction hs) auto

lemma counted_attach:
  assumes "counted s"
  shows "counted (attachHostForwards hostId session s)"
proof (cases "epochs s session")
  case None
  let ?e = "fresh_object s"
  have n: "h \<in> set (handles s) \<Longrightarrow> snd h < ?e" for h using assms by (auto simp: counted_def)
  then have z: "filter (\<lambda>h. snd h = ?e) (handles s) = []" by (fastforce simp: filter_empty_conv)
  have e: "epochs s se \<noteq> Some ?e" for se using assms by (auto simp: counted_def)
  show ?thesis using assms None n z e unfolding counted_def attachHostForwards_def
    by (auto simp: Let_def await_def less_Suc_eq)
next
  case (Some e)
  then show ?thesis using assms unfolding counted_def attachHostForwards_def by auto
qed

lemma countedI:
  assumes "\<And>e. tab_count s e = length (filter (\<lambda>h. snd h = e) (handles s))"
    and "\<And>h. h \<in> set (handles s) \<Longrightarrow> epochs s (fst h) = Some (snd h)"
    and "\<And>se e. epochs s se = Some e \<Longrightarrow> 0 < tab_count s e \<and> e < fresh_object s"
    and "\<And>se se' e. epochs s se = Some e \<Longrightarrow> epochs s se' = Some e \<Longrightarrow> se = se'"
  shows "counted s"
  unfolding counted_def using assms by blast

lemma countedD:
  assumes "counted s"
  shows "tab_count s e = length (filter (\<lambda>h. snd h = e) (handles s))"
    and "h \<in> set (handles s) \<Longrightarrow> epochs s (fst h) = Some (snd h)"
    and "epochs s se = Some e \<Longrightarrow> 0 < tab_count s e \<and> e < fresh_object s"
    and "epochs s se = Some e \<Longrightarrow> epochs s se' = Some e \<Longrightarrow> se = se'"
  using assms unfolding counted_def by blast+

lemma counted_detach:
  assumes "counted s" and "(session, epoch) \<in> set (handles s)"
  shows "counted (detach session epoch s)"
proof -
  note c = countedD [OF assms(1)]
  have e: "epochs s session = Some epoch" using c(2) [OF assms(2)] by simp
  let ?hs = "remove1 (session, epoch) (handles s)"
  let ?tc = "(tab_count s)(epoch := tab_count s epoch - 1)"
  have n: "?tc x = length (filter (\<lambda>h. snd h = x) ?hs)" for x
    using c(1) [of x] c(1) [of epoch] handles_remove1 [OF assms(2), of "\<lambda>h. snd h = x"] by auto
  have k: "epochs s (fst h) = Some (snd h)" if "h \<in> set ?hs" for h using c(2) that set_remove1_subset by fastforce
  let ?v = "s\<lparr>handles := ?hs, tab_count := ?tc\<rparr>"
  show ?thesis
  proof (cases "0 < ?tc epoch")
    case True
    have left: "0 < ?tc x \<and> x < fresh_object s" if "epochs s se = Some x" for se x
      using c(3) [OF that] True by (cases "x = epoch") auto
    have "counted ?v"
    proof (rule countedI, goal_cases)
      case (1 x)
      show ?case using n [of x] by simp
    next
      case (2 h)
      then show ?case using k by simp
    next
      case (3 se x)
      then show ?case using left [of se x] by simp
    next
      case (4 se se' x)
      then show ?case using c(4) [of se x se'] by simp
    qed
    moreover have "detach session epoch s = ?v" using True by (simp add: detach_def Let_def)
    ultimately show ?thesis by simp
  next
    case False
    let ?w = "?v\<lparr>epochs := (epochs s)(session := None)\<rparr>"
    have "filter (\<lambda>h. snd h = epoch) ?hs = []" using n [of epoch] False by simp
    then have none: "h \<in> set ?hs \<Longrightarrow> snd h \<noteq> epoch" for h by (auto simp: filter_empty_conv)
    have other: "fst h \<noteq> session" if "h \<in> set ?hs" for h using k [OF that] none [OF that] e by auto
    have left: "0 < ?tc x \<and> x < fresh_object s" if "epochs s se = Some x" "se \<noteq> session" for se x
      using c(3) [OF that(1)] c(4) [OF that(1), of session] that(2) e by (cases "x = epoch") auto
    have "counted ?w"
    proof (rule countedI, goal_cases)
      case (1 x)
      show ?case using n [of x] by simp
    next
      case (2 h)
      then show ?case using k other by simp
    next
      case (3 se x)
      then show ?case using left [of se x] by (cases "se = session") simp_all
    next
      case (4 se se' x)
      then show ?case using c(4) [of se x se'] by (cases "se = session"; cases "se' = session") simp_all
    qed
    moreover have "detach session epoch s = stopHostForwards session ?w" using False e by (simp add: detach_def Let_def)
    ultimately show ?thesis by (auto simp: stopHostForwards_def releaseSession_def elim!: counted_cong)
  qed
qed

lemma counted_step:
  assumes "counted s" and "forward_step may_start may_stop s s'"
  shows "counted s'"
  using assms(2)
proof (cases rule: forward_step.cases)
  case (fw_attach hostId session)
  then show ?thesis using counted_attach [OF assms(1)] by simp
next
  case (fw_detach session epoch)
  then show ?thesis using counted_detach [OF assms(1)] by simp
qed (rule counted_cong [OF assms(1)]; simp add: handler_defs marks_defs set_runtime_def call_defs claimHostOwned_def split: option.split)+

section \<open>The machine\<close>

definition forward_inv :: "forward_state \<Rightarrow> bool" where
  "forward_inv s \<longleftrightarrow> exclusive s \<and> held_live s \<and> accounted s \<and> counted s \<and> laddered s"

lemma forward_inv_step: "forward_inv s \<Longrightarrow> forward_step may_start may_stop s t \<Longrightarrow> forward_inv t"
  unfolding forward_inv_def using exclusive_step held_live_step accounted_step counted_step laddered_step by blast

lemma launched_inv: "forward_inv launched"
  by (simp add: forward_inv_def launched_def exclusive_def excl_def held_live_def accounted_def to_drain_def counted_def laddered_def)

interpretation forwards: invariant_system "\<lambda>s. s = launched" any_order forward_inv
  by unfold_locales (auto intro: forward_inv_step launched_inv)

abbreviation forwards_reachable :: "forward_state \<Rightarrow> bool" where
  "forwards_reachable \<equiv> reachable (\<lambda>s. s = launched) any_order"

end
