(* ===== verification/Forward_Run_Props.thy ===== *)
theory Forward_Run_Props
  imports Forward_Run_Inv
begin

text \<open>
  The properties of running forwards in every order of events: who owns a rule, what is open in the
  backend and who names it, and how long the ladder tries.
\<close>

section \<open>Owners and listeners\<close>

lemma live_has_tab:
  assumes "counted s" and "epochs s session = Some epoch"
  shows "(session, epoch) \<in> set (handles s)"
proof -
  have "filter (\<lambda>h. snd h = epoch) (handles s) \<noteq> []"
    using countedD(1) [OF assms(1), of epoch] countedD(3) [OF assms] by auto
  then obtain h where h: "h \<in> set (handles s)" "snd h = epoch" by (auto simp: filter_empty_conv)
  then have "fst h = session" using countedD(2) [OF assms(1) h(1)] countedD(4) [OF assms(1) _ assms(2), of "fst h"] by simp
  then show ?thesis using h by (cases h) auto
qed

lemma owned_in: "owned_by s i = Some e \<Longrightarrow> (i, e) \<in> set (hostOwned s)"
  by (simp add: owned_by_def map_of_SomeD)

text \<open>
  C15: in every order of clicks, dials, binds, closes, attaches and detaches, a rule has one owner: the
  page never shows a rule running that a terminal holds. And a terminal holds a rule only while some
  tab is attached to the session that opened it, so no row stays "Running (with host)" for a session
  that is gone.
\<close>

theorem forward_has_one_owner:
  assumes "forwards_reachable s"
  shows "(owned_by s i = None \<or> status_of s i \<noteq> FwRunning)
    \<and> (\<forall>e. owned_by s i = Some e \<longrightarrow> (\<exists>epoch. (oe_sessionId e, epoch) \<in> set (handles s) \<and> epochs s (oe_sessionId e) = Some epoch))"
proof -
  have inv: "exclusive s" "held_live s" "counted s" using forwards.reachable_inv [OF assms] by (auto simp: forward_inv_def)
  have "\<exists>epoch. (oe_sessionId e, epoch) \<in> set (handles s) \<and> epochs s (oe_sessionId e) = Some epoch" if e: "owned_by s i = Some e" for e
    using inv(2) owned_in [OF e] live_has_tab [OF inv(3)] unfolding held_live_def by fastforce
  moreover have "owned_by s i = None \<or> status_of s i \<noteq> FwRunning"
    using inv(1) by (auto simp: exclusive_def excl_def owned_by_def status_of_in simp del: status_in.simps)
  ultimately show ?thesis by blast
qed

text \<open>
  C16: no listener a terminal opened is lost: each one nobody has asked the backend to close is the one
  the owner map names for its rule, or is on the list a session's end is working off, as often as it
  was opened. When every tab is closed and every call is answered, none is open.
\<close>

theorem terminal_listeners_named:
  assumes "forwards_reachable s"
  shows "mset (unclosed s) = mset (map (\<lambda>p. listener_of (snd p)) (hostOwned s)) + mset (to_drain (tasks s))
    \<and> (handles s = [] \<and> tasks s = [] \<longrightarrow> unclosed s = [])"
proof -
  have inv: "held_live s" "accounted s" "counted s" using forwards.reachable_inv [OF assms] by (auto simp: forward_inv_def)
  have "hostOwned s = []" if "handles s = []"
  proof (rule ccontr)
    assume "hostOwned s \<noteq> []"
    then obtain p where "p \<in> set (hostOwned s)" by (cases "hostOwned s") auto
    then obtain epoch where "epochs s (oe_sessionId (snd p)) = Some epoch" using inv(1) by (auto simp: held_live_def)
    then show False using live_has_tab [OF inv(3)] that by auto
  qed
  then show ?thesis using inv(2) by (auto simp: accounted_def to_drain_def)
qed

section \<open>The ladder\<close>

text \<open>
  The ladder on its own: rung \<open>n\<close> dials, the dial fails with \<open>f n\<close>, and a timer that was set fires.
\<close>

definition rung :: "(js_num \<Rightarrow> string) \<Rightarrow> forward_rule \<Rightarrow> thrown \<Rightarrow> nat \<Rightarrow> forward_state \<Rightarrow> forward_state" where
  "rung num rule e n s = dialRejected num rule (fresh_object s) (Some n) e (startRule rule (Some n) s)"

lemma remove1_append_new: "remove1 x (xs @ [x]) = (if x \<in> set xs then remove1 x xs @ [x] else xs)"
  by (induction xs) auto

lemma rung_simps:
  assumes "owned_by s (fr_id rule) = None"
  shows "retries (rung num rule e n s) (fr_id rule) =
      (if is_reconnect (decideSshConnectFailure (classifySshConnectFailure e [])) \<and> n < length FORWARD_RECONNECT_BACKOFF_MS
       then Some (rule, n + 1) else None)"
    and "toasts (rung num rule e n s) = toasts s @
      (if retries (rung num rule e n s) (fr_id rule) = None
       then [FailureToast (if fr_type rule = None then bindFailureText num (describeError e) (fr_localPort rule) else describeError e)] else [])"
    and "status_of (rung num rule e n s) (fr_id rule) = FwFailed"
    and "fresh_object (rung num rule e n s) = fresh_object s + 1"
    and "mset (tasks (rung num rule e n s)) = mset (tasks s)"
    and "hostOwned (rung num rule e n s) = hostOwned s" and "refs (rung num rule e n s) = refs s"
  using assms
  by (simp_all add: rung_def startRule_def dialRejected_def rungFailed_def Let_def call_defs marks_defs set_runtime_def owned_by_def
      status_of_def error_of_def update_conv)

lemma backoffs: "length FORWARD_RECONNECT_BACKOFF_MS = 5"
  by (simp add: FORWARD_RECONNECT_BACKOFF_MS_def)

text \<open>
  The whole ladder, when nothing else happens: a timer that was set fires and makes the next attempt.
\<close>

function climb :: "(js_num \<Rightarrow> string) \<Rightarrow> forward_rule \<Rightarrow> (nat \<Rightarrow> thrown) \<Rightarrow> nat \<Rightarrow> forward_state \<Rightarrow> forward_state" where
  "climb num rule f n s =
     (if owned_by s (fr_id rule) \<noteq> None then startRule rule (Some n) s
      else
        let s1 = rung num rule (f n) n s
        in case retries s1 (fr_id rule) of
             None \<Rightarrow> s1
           | Some (r, m) \<Rightarrow> climb num r f m (s1\<lparr>retries := (retries s1)(fr_id rule := None)\<rparr>))"
  by pat_completeness auto

termination
  by (relation "measure (\<lambda>(num, rule, f, n, s). Suc (length FORWARD_RECONNECT_BACKOFF_MS) - n)")
    (auto simp: rung_simps split: if_splits)

declare climb.simps [simp del]

lemma climb_ends:
  assumes "owned_by s (fr_id rule) = None" and "n \<le> length FORWARD_RECONNECT_BACKOFF_MS"
  shows "retries (climb num rule f n s) (fr_id rule) = None \<and> status_of (climb num rule f n s) (fr_id rule) = FwFailed
    \<and> (\<exists>txt. toasts (climb num rule f n s) = toasts s @ [FailureToast txt])
    \<and> mset (tasks (climb num rule f n s)) = mset (tasks s) \<and> refs (climb num rule f n s) = refs s
    \<and> fresh_object s < fresh_object (climb num rule f n s)
    \<and> fresh_object (climb num rule f n s) \<le> fresh_object s + (Suc (length FORWARD_RECONNECT_BACKOFF_MS) - n)
    \<and> (\<not> is_reconnect (decideSshConnectFailure (classifySshConnectFailure (f n) [])) \<longrightarrow>
         fresh_object (climb num rule f n s) = fresh_object s + 1)"
  using assms
proof (induction "length FORWARD_RECONNECT_BACKOFF_MS - n" arbitrary: n s rule: less_induct)
  case less
  let ?s1 = "rung num rule (f n) n s"
  note r = rung_simps [OF less.prems(1), of num "f n" n]
  show ?case
  proof (cases "retries ?s1 (fr_id rule)")
    case None
    then have "climb num rule f n s = ?s1" using less.prems(1) by (simp add: climb.simps [of num rule f n s] Let_def)
    then show ?thesis using r None less.prems(2) by simp
  next
    case (Some p)
    then have p: "p = (rule, n + 1)" "n < length FORWARD_RECONNECT_BACKOFF_MS"
      "is_reconnect (decideSshConnectFailure (classifySshConnectFailure (f n) []))"
      unfolding r(1) by (simp_all split: if_splits)
    let ?s2 = "?s1\<lparr>retries := (retries ?s1)(fr_id rule := None)\<rparr>"
    have c: "climb num rule f n s = climb num rule f (n + 1) ?s2"
      using less.prems(1) Some p(1) by (simp add: climb.simps [of num rule f n s] Let_def)
    have o: "owned_by ?s2 (fr_id rule) = None" using less.prems(1) r(6) by (simp add: owned_by_def)
    have eq: "toasts ?s2 = toasts s" "mset (tasks ?s2) = mset (tasks s)" "refs ?s2 = refs s" "fresh_object ?s2 = fresh_object s + 1"
      using r Some p(2,3) by simp_all
    have shorter: "length FORWARD_RECONNECT_BACKOFF_MS - (n + 1) < length FORWARD_RECONNECT_BACKOFF_MS - n"
      "n + 1 \<le> length FORWARD_RECONNECT_BACKOFF_MS" using p(2) by simp_all
    note ih = less.hyps [OF shorter(1) o shorter(2)]
    have n: "Suc (length FORWARD_RECONNECT_BACKOFF_MS) - n = Suc (Suc (length FORWARD_RECONNECT_BACKOFF_MS) - (n + 1))"
      using p(2) by simp
    have "fresh_object s < fresh_object (climb num rule f (n + 1) ?s2)"
      "fresh_object (climb num rule f (n + 1) ?s2) \<le> fresh_object s + (Suc (length FORWARD_RECONNECT_BACKOFF_MS) - n)"
      using ih p(2) eq(4) unfolding n by (simp_all del: fun_upd_apply)
    then show ?thesis using ih p(2,3) eq unfolding c by simp
  qed
qed

text \<open>
  C18: the ladder of a rule that starts with the app always ends, whatever each dial fails with: after
  at most six dials, and after the first when the failure is one no retry can fix, the row is failed,
  no timer is left, nothing is in flight, and the user has been told once.
\<close>

theorem ladder_gives_up:
  assumes "owned_by s (fr_id rule) = None" and "s' = climb num rule f 0 s"
  shows "retries s' (fr_id rule) = None \<and> status_of s' (fr_id rule) = FwFailed
    \<and> (\<exists>txt. toasts s' = toasts s @ [FailureToast txt]) \<and> mset (tasks s') = mset (tasks s) \<and> refs s' = refs s
    \<and> fresh_object s < fresh_object s' \<and> fresh_object s' \<le> fresh_object s + 6
    \<and> ((\<exists>m. f 0 = LocalConnectError m \<or> f 0 = AuthRejectedError m) \<longrightarrow> fresh_object s' = fresh_object s + 1)"
  using climb_ends [OF assms(1), of 0 num f] unfolding assms(2)
  by (auto simp: FORWARD_RECONNECT_BACKOFF_MS_def classifySshConnectFailure_def)

text \<open>
  Within any order of events the ladder keeps its bound: a timer that is set belongs to the
  rule it is filed under, and neither a timer nor a dial is ever beyond the last delay.
\<close>

theorem ladder_stays_bounded:
  assumes "forwards_reachable s"
  shows "(\<forall>i r n. retries s i = Some (r, n) \<longrightarrow> fr_id r = i \<and> n \<le> 5)
    \<and> (\<forall>r a n. Dialing r a (Some n) \<in> set (tasks s) \<longrightarrow> n \<le> 5)"
  using forwards.reachable_inv [OF assms] by (simp add: forward_inv_def laddered_def backoffs)

end
