(* ===== verification/Forward_Refs.thy ===== *)
theory Forward_Refs
  imports Forward_Run_Props
begin

text \<open>
  The references the page takes on shared SSH sessions: each one is named by a running row, as long
  as a row is not started or stopped again while the close of its last Stop or yield is still under
  way. Without that discipline a reference can be lost.
\<close>

section \<open>Rows and references\<close>

definition stopping :: "forward_state \<Rightarrow> string \<Rightarrow> bool" where
  "stopping s i \<longleftrightarrow> (\<exists>r. Stopping r \<in> set (tasks s) \<and> fr_id r = i)"

definition holders :: "forward_state \<Rightarrow> nat \<Rightarrow> string set" where
  "holders s c = {i. claim_of s i = Some c \<and> \<not> stopping s i}"

fun busy_task :: "string \<Rightarrow> forward_task \<Rightarrow> bool" where
  "busy_task i (Stopping r) = (fr_id r = i)"
| "busy_task i (Yielding r a) = (fr_id r = i)"
| "busy_task i _ = False"

definition idle :: "forward_rule \<Rightarrow> forward_state \<Rightarrow> bool" where
  "idle rule s \<longleftrightarrow> \<not> list_ex (busy_task (fr_id rule)) (tasks s)"

text \<open>A row offers Start when it is neither running nor starting (\<open>page/RuleCard.tsx\<close>).\<close>

definition startable :: "forward_rule \<Rightarrow> forward_state \<Rightarrow> bool" where
  "startable rule s \<longleftrightarrow> idle rule s \<and> status_of s (fr_id rule) \<noteq> FwRunning \<and> status_of s (fr_id rule) \<noteq> FwStarting"

abbreviation orderly :: "forward_state \<Rightarrow> forward_state \<Rightarrow> bool" where
  "orderly \<equiv> forward_step startable idle"

fun attempt_no :: "forward_task \<Rightarrow> nat list" where
  "attempt_no (Dialing r a l) = [a]"
| "attempt_no (Releasing r a) = [a]"
| "attempt_no (Yielding r a) = [a]"
| "attempt_no _ = []"

definition attempt_list :: "forward_task list \<Rightarrow> nat list" where
  "attempt_list ts = concat (map attempt_no ts)"

definition page_inv :: "forward_state \<Rightarrow> bool" where
  "page_inv s \<longleftrightarrow>
     (\<forall>i a. attempts s i = Some a \<longrightarrow> retries s i = None \<and> claim_of s i = None \<and> \<not> stopping s i)
   \<and> (\<forall>i. retries s i \<noteq> None \<longrightarrow> claim_of s i = None \<and> \<not> stopping s i)
   \<and> (\<forall>r a. Yielding r a \<in> set (tasks s) \<longrightarrow> attempts s (fr_id r) = Some a)
   \<and> (\<forall>i. claim_of s i \<noteq> None \<longrightarrow> status_of s i = FwRunning)
   \<and> distinct (attempt_list (tasks s)) \<and> (\<forall>a \<in> set (attempt_list (tasks s)). a < fresh_object s)"

definition refs_exact :: "forward_state \<Rightarrow> bool" where
  "refs_exact s \<longleftrightarrow> (\<forall>c. refs s c = card (holders s c))"

lemma page_invD:
  assumes "page_inv s"
  shows "attempts s i = Some a \<Longrightarrow> retries s i = None \<and> claim_of s i = None \<and> \<not> stopping s i"
    and "retries s i \<noteq> None \<Longrightarrow> claim_of s i = None \<and> \<not> stopping s i"
    and "Yielding r a \<in> set (tasks s) \<Longrightarrow> attempts s (fr_id r) = Some a"
    and "claim_of s i \<noteq> None \<Longrightarrow> status_of s i = FwRunning"
    and "distinct (attempt_list (tasks s))"
    and "a \<in> set (attempt_list (tasks s)) \<Longrightarrow> a < fresh_object s"
  using assms unfolding page_inv_def by blast+

lemma attempt_list_simps [simp]:
  "attempt_list (ts @ [t]) = attempt_list ts @ attempt_no t" "attempt_list [] = []"
  by (simp_all add: attempt_list_def)

lemma mset_attempt_remove: "t \<in> set ts \<Longrightarrow> mset (attempt_list ts) = mset (attempt_no t) + mset (attempt_list (remove1 t ts))"
  by (induction ts) (auto simp: attempt_list_def)

text \<open>An answered task takes its attempt with it.\<close>

lemma attempt_taken:
  assumes "distinct (attempt_list ts)" and "t \<in> set ts" and "attempt_no t = [a]"
  shows "distinct (attempt_list (remove1 t ts))" and "a \<notin> set (attempt_list (remove1 t ts))"
    and "insert a (set (attempt_list (remove1 t ts))) = set (attempt_list ts)"
proof -
  have m: "mset (attempt_list ts) = mset (a # attempt_list (remove1 t ts))" using mset_attempt_remove [OF assms(2)] assms(3) by simp
  have "distinct (a # attempt_list (remove1 t ts))" using m assms(1) by (metis mset_eq_imp_distinct_iff)
  then show "distinct (attempt_list (remove1 t ts))" "a \<notin> set (attempt_list (remove1 t ts))" by simp_all
  show "insert a (set (attempt_list (remove1 t ts))) = set (attempt_list ts)" using mset_eq_setD [OF m] by simp
qed

lemma attempt_removed:
  assumes "attempt_no t = []"
  shows "attempt_list (remove1 t ts) = attempt_list ts"
  using assms by (induction ts) (auto simp: attempt_list_def)

lemma yielding_no: "Yielding r a \<in> set ts \<Longrightarrow> a \<in> set (attempt_list ts)"
  by (force simp: attempt_list_def)

text \<open>What neither touches rows, attempts and timers nor the tasks of the page.\<close>

definition page_same :: "forward_state \<Rightarrow> forward_state \<Rightarrow> bool" where
  "page_same s s' \<longleftrightarrow> attempts s' = attempts s \<and> retries s' = retries s \<and> runtime s' = runtime s \<and> refs s' = refs s
     \<and> fresh_object s \<le> fresh_object s' \<and> attempt_list (tasks s') = attempt_list (tasks s)
     \<and> (\<forall>r a. (Yielding r a \<in> set (tasks s') \<longleftrightarrow> Yielding r a \<in> set (tasks s)) \<and> (Stopping r \<in> set (tasks s') \<longleftrightarrow> Stopping r \<in> set (tasks s)))"

lemma page_same_keeps:
  assumes "page_same s s'"
  shows "page_inv s \<Longrightarrow> page_inv s'" and "refs_exact s \<Longrightarrow> refs_exact s'"
proof -
  have r: "claim_of s' i = claim_of s i" "status_of s' i = status_of s i" "stopping s' i = stopping s i" for i
    using assms readers_cong(1,2) [of s' s i] by (auto simp: page_same_def stopping_def)
  show "page_inv s \<Longrightarrow> page_inv s'" using assms r unfolding page_inv_def page_same_def by fastforce
  show "refs_exact s \<Longrightarrow> refs_exact s'" using assms r by (simp add: refs_exact_def holders_def page_same_def)
qed

lemma startHostForwards_page:
  "attempt_list (tasks (startHostForwards se ep rs v)) = attempt_list (tasks v)"
  "Yielding r a \<in> set (tasks (startHostForwards se ep rs v)) \<longleftrightarrow> Yielding r a \<in> set (tasks v)"
  "Stopping r \<in> set (tasks (startHostForwards se ep rs v)) \<longleftrightarrow> Stopping r \<in> set (tasks v)"
  by (rule startHostForwards_frame [of se ep rs v]; auto simp: attempt_list_def)+

lemma drain_page:
  "attempt_list (tasks (drain se es v)) = attempt_list (tasks v)"
  "Yielding r a \<in> set (tasks (drain se es v)) \<longleftrightarrow> Yielding r a \<in> set (tasks v)"
  "Stopping r \<in> set (tasks (drain se es v)) \<longleftrightarrow> Stopping r \<in> set (tasks v)"
  by (cases es; auto simp: await_def close_listener_def)+

lemma in_remove1_other: "x \<noteq> t \<Longrightarrow> x \<in> set (remove1 t ts) \<longleftrightarrow> x \<in> set ts"
  by simp

lemma terminal_pages:
  "page_same s (attachHostForwards hostId session s)"
  "page_same s (detach session epoch s)"
  "page_same s (rulesListed hostId session epoch rules s)"
  "page_same s (rulesUnreadable hostId session epoch e s)"
  "page_same s (bindRejected session epoch rule rest e s)"
  "page_same s (gaveUp session epoch b rest s)"
  "page_same s (drained session es s)"
  "page_same s (promptRaised a p s)"
  unfolding page_same_def
  by (auto simp: handler_defs call_defs startHostForwards_page drain_page attempt_removed split: option.split)

text \<open>Rewriting the row of a rule that holds no reference, with one that holds none.\<close>

lemma page_mark:
  assumes "page_same s s'" and "claim_of s i = None" and "rt_claim e = None"
  shows "page_inv s \<Longrightarrow> page_inv (set_runtime i e s')" and "refs_exact s \<Longrightarrow> refs_exact (set_runtime i e s')"
proof -
  have c: "claim_of (set_runtime i e s') j = claim_of s j" for j
    using assms readers_cong(2) [of s' s j] by (auto simp: page_same_def)
  have r: "stopping (set_runtime i e s') j = stopping s j" "attempts (set_runtime i e s') = attempts s"
    "retries (set_runtime i e s') = retries s" "refs (set_runtime i e s') = refs s" for j
    using assms(1) by (auto simp: stopping_def set_runtime_def page_same_def)
  have t: "tasks (set_runtime i e s') = tasks s'" "fresh_object (set_runtime i e s') = fresh_object s'" by (simp_all add: set_runtime_def)
  have st: "claim_of s j \<noteq> None \<Longrightarrow> status_of (set_runtime i e s') j = status_of s j" for j
    using assms readers_cong(1) [of s' s j] by (auto simp: page_same_def)
  show "page_inv s \<Longrightarrow> page_inv (set_runtime i e s')"
    using assms(1) st unfolding page_inv_def c r t page_same_def by (auto 0 3)
  show "refs_exact s \<Longrightarrow> refs_exact (set_runtime i e s')" unfolding refs_exact_def holders_def c r .
qed

lemma bindResolved_page:
  assumes "page_inv s"
  shows "page_inv (bindResolved session epoch rule rest port generation s)"
    and "refs_exact s \<Longrightarrow> refs_exact (bindResolved session epoch rule rest port generation s)"
proof -
  let ?s' = "bindResolved session epoch rule rest port generation s"
  have "page_same s ?s' \<or> (\<exists>v. page_same s v \<and> claim_of s (fr_id rule) = None
      \<and> page_same (set_runtime (fr_id rule) (only_status FwStopped) v) ?s')"
  proof (cases "status_of s (fr_id rule) = FwFailed")
    case True
    then have "claim_of s (fr_id rule) = None" using page_invD(4) [OF assms] by fastforce
    moreover let ?v = "claimHostOwned (fr_id rule) \<lparr>oe_sessionId = session, oe_boundPort = port, oe_generation = generation\<rparr>
        (open_listener (session, port, generation) (resume (Binding session epoch rule rest) s))"
    have "page_same s ?v" by (auto simp: page_same_def call_defs claimHostOwned_def attempt_removed)
    moreover have "page_same s ?s' \<or> page_same (set_runtime (fr_id rule) (only_status FwStopped) ?v) ?s'"
      using True by (auto simp: page_same_def bindResolved_def Let_def call_defs claimHostOwned_def startHostForwards_page attempt_removed
          marks_defs set_runtime_def status_of_def owned_by_def)
    ultimately show ?thesis by blast
  next
    case False
    then have "page_same s ?s'"
      by (auto simp: page_same_def bindResolved_def Let_def call_defs claimHostOwned_def startHostForwards_page attempt_removed
          status_of_def owned_by_def)
    then show ?thesis by blast
  qed
  then show "page_inv ?s'" "refs_exact s \<Longrightarrow> refs_exact ?s'"
    using page_same_keeps page_mark [of s _ "fr_id rule" "only_status FwStopped"] assms by (metis only_status_simps(2))+
qed

text \<open>The operations of the page.\<close>

lemma holders_finite: "finite (holders s c)"
proof (rule finite_subset)
  show "holders s c \<subseteq> fst ` set (runtime s)"
    by (auto simp: holders_def claim_of_def bind_eq_Some_conv dest!: map_of_SomeD intro: rev_image_eqI)
qed simp

lemma idle_iff: "idle rule s \<longleftrightarrow> \<not> stopping s (fr_id rule) \<and> (\<forall>r a. Yielding r a \<in> set (tasks s) \<longrightarrow> fr_id r \<noteq> fr_id rule)"
proof -
  have "busy_task i t \<longleftrightarrow> (\<exists>r. t = Stopping r \<and> fr_id r = i) \<or> (\<exists>r a. t = Yielding r a \<and> fr_id r = i)" for i t
    by (cases t) auto
  then show ?thesis by (auto simp: idle_def list_ex_iff stopping_def)
qed

text \<open>A retry is only pending for an idle rule that holds nothing.\<close>

lemma retry_idle:
  assumes "page_inv s" and "retries s (fr_id rule) \<noteq> None"
  shows "idle rule s" and "claim_of s (fr_id rule) = None"
proof -
  note inv = page_invD [OF assms(1)]
  have "fr_id r \<noteq> fr_id rule" if "Yielding r a \<in> set (tasks s)" for r a
    using inv(3) [OF that] inv(1) [of "fr_id r" a] assms(2) by auto
  then show "idle rule s" "claim_of s (fr_id rule) = None" using inv(2) [OF assms(2)] by (auto simp: idle_iff)
qed

lemma startRule_page:
  assumes "page_inv s" and "idle rule s" and "claim_of s (fr_id rule) = None"
  shows "page_inv (startRule rule ladder s)" and "refs_exact s \<Longrightarrow> refs_exact (startRule rule ladder s)"
proof -
  let ?i = "fr_id rule" and ?a = "fresh_object s"
  let ?s' = "startRule rule ladder s"
  note inv = page_invD [OF assms(1)]
  have idle: "\<not> stopping s ?i" "\<And>r a. Yielding r a \<in> set (tasks s) \<Longrightarrow> fr_id r \<noteq> ?i" using assms(2) by (auto simp: idle_iff)
  have cl: "claim_of ?s' j = claim_of s j" for j
    using assms(3) by (auto simp: startRule_def Let_def call_defs marks_defs set_runtime_def claim_of_def update_conv only_status_def)
  have st: "claim_of s j \<noteq> None \<Longrightarrow> status_of ?s' j = status_of s j" for j
    using assms(3) by (auto simp: startRule_def Let_def call_defs marks_defs set_runtime_def claim_of_def status_of_def update_conv)
  have k: "stopping ?s' j = stopping s j" "refs ?s' = refs s" "Yielding r b \<in> set (tasks ?s') \<longleftrightarrow> Yielding r b \<in> set (tasks s)" for j r b
    by (auto simp: stopping_def startRule_def Let_def call_defs marks_defs set_runtime_def)
  have a: "attempts ?s' j = (if owned_by s ?i = None \<and> j = ?i then Some ?a else attempts s j)" "retries ?s' j = (if j = ?i then None else retries s j)"
    "attempt_list (tasks ?s') = attempt_list (tasks s) @ (if owned_by s ?i = None then [?a] else [])"
    "fresh_object ?s' = (if owned_by s ?i = None then ?a + 1 else ?a)" for j
    by (auto simp: startRule_def Let_def call_defs marks_defs set_runtime_def owned_by_def)
  show "page_inv ?s'" unfolding page_inv_def cl k a
  proof (intro conjI allI impI ballI, goal_cases)
    case (1 i x) then show ?case using inv(1) [of i x] by (auto split: if_splits)
  next
    case (2 i x) then show ?case using inv(1) [of i x] assms(3) by (auto split: if_splits)
  next
    case (3 i x) then show ?case using inv(1) [of i x] idle(1) by (auto split: if_splits)
  next
    case (4 i) then show ?case using inv(2) [of i] by (auto split: if_splits)
  next
    case (5 i) then show ?case using inv(2) [of i] by (auto split: if_splits)
  next
    case (6 r b) then show ?case using inv(3) [of r b] idle(2) [of r b] by auto
  next
    case (7 i) then show ?case using inv(4) [of i] st [of i] by simp
  next
    case 8 then show ?case using inv(5,6) by auto
  next
    case (9 b) then show ?case using inv(6) [of b] by (auto split: if_splits)
  qed
  show "refs_exact s \<Longrightarrow> refs_exact ?s'" unfolding refs_exact_def holders_def cl k .
qed

text \<open>An operation on one rule: the other rules are as they were.\<close>

lemma page_local:
  assumes "page_inv s"
    and other: "\<And>j. j \<noteq> i \<Longrightarrow> attempts s' j = attempts s j \<and> retries s' j = retries s j \<and> claim_of s' j = claim_of s j
      \<and> status_of s' j = status_of s j \<and> stopping s' j = stopping s j"
    and here: "\<And>a. attempts s' i = Some a \<Longrightarrow> retries s' i = None \<and> claim_of s' i = None \<and> \<not> stopping s' i"
      "retries s' i \<noteq> None \<Longrightarrow> claim_of s' i = None \<and> \<not> stopping s' i"
      "claim_of s' i \<noteq> None \<Longrightarrow> status_of s' i = FwRunning"
      "\<And>r b. Yielding r b \<in> set (tasks s') \<Longrightarrow> fr_id r = i \<Longrightarrow> attempts s' i = Some b"
    and there: "\<And>r b. Yielding r b \<in> set (tasks s') \<Longrightarrow> fr_id r \<noteq> i \<Longrightarrow> Yielding r b \<in> set (tasks s)"
    and list: "distinct (attempt_list (tasks s'))" "\<And>b. b \<in> set (attempt_list (tasks s')) \<Longrightarrow> b < fresh_object s'"
  shows "page_inv s'"
proof -
  note inv = page_invD [OF assms(1)]
  show ?thesis unfolding page_inv_def
  proof (intro conjI allI impI ballI list, goal_cases)
    case (1 j x) then show ?case using inv(1) [of j x] other [of j] here(1) [of x] by (cases "j = i") auto
  next
    case (2 j x) then show ?case using inv(1) [of j x] other [of j] here(1) [of x] by (cases "j = i") auto
  next
    case (3 j x) then show ?case using inv(1) [of j x] other [of j] here(1) [of x] by (cases "j = i") auto
  next
    case (4 j) then show ?case using inv(2) [of j] other [of j] here(2) by (cases "j = i") auto
  next
    case (5 j) then show ?case using inv(2) [of j] other [of j] here(2) by (cases "j = i") auto
  next
    case (6 r b) then show ?case using inv(3) [of r b] other [of "fr_id r"] here(4) there by (cases "fr_id r = i") auto
  next
    case (7 j) then show ?case using inv(4) [of j] other [of j] here(3) by (cases "j = i") auto
  qed
qed

lemma stopping_answered:
  assumes "tasks s' = remove1 t (tasks s) @ us" and "attempt_no t \<noteq> []" and "\<And>r. Stopping r \<notin> set us"
  shows "stopping s' j = stopping s j"
proof -
  have "Stopping r \<noteq> t" for r using assms(2) by auto
  then have "Stopping r \<in> set (tasks s') \<longleftrightarrow> Stopping r \<in> set (tasks s)" for r
    using assms(3) unfolding assms(1) by (auto simp: in_remove1_other)
  then show ?thesis by (simp add: stopping_def)
qed

text \<open>A waiting Start is answered: its attempt leaves the list, or stays as the task that follows.\<close>

lemma page_answered:
  assumes "page_inv s" and t: "t \<in> set (tasks s)" "attempt_no t = [a]"
    and ts: "tasks s' = remove1 t (tasks s) @ us"
    and us: "us = [] \<or> us = [Releasing rule a] \<or> us = [Yielding rule a] \<and> attempts s' (fr_id rule) = Some a"
    and at: "attempts s' = attempts s \<or> attempts s (fr_id rule) = Some a \<and> attempts s' = (attempts s)(fr_id rule := None)"
    and fr: "fresh_object s' = fresh_object s"
    and other: "\<And>j. j \<noteq> fr_id rule \<Longrightarrow> retries s' j = retries s j \<and> claim_of s' j = claim_of s j \<and> status_of s' j = status_of s j"
    and here: "\<And>a. attempts s' (fr_id rule) = Some a \<Longrightarrow> retries s' (fr_id rule) = None \<and> claim_of s' (fr_id rule) = None"
      "retries s' (fr_id rule) \<noteq> None \<Longrightarrow> claim_of s' (fr_id rule) = None \<and> \<not> stopping s (fr_id rule)"
      "claim_of s' (fr_id rule) \<noteq> None \<Longrightarrow> status_of s' (fr_id rule) = FwRunning"
  shows "page_inv s'"
proof -
  note inv = page_invD [OF assms(1)] and taken = attempt_taken [OF page_invD(5) [OF assms(1)] t]
  have st: "stopping s' j = stopping s j" for j by (rule stopping_answered [OF ts]) (use us t(2) in auto)
  have ye: "Yielding r b \<in> set (tasks s') \<Longrightarrow> Yielding r b \<in> set (remove1 t (tasks s)) \<or> us = [Yielding r b] \<and> r = rule \<and> b = a" for r b
    using us unfolding ts by auto
  have old: "Yielding r b \<in> set (remove1 t (tasks s)) \<Longrightarrow> Yielding r b \<in> set (tasks s) \<and> b \<noteq> a" for r b
    using taken(2) yielding_no set_remove1_subset by fastforce
  show "page_inv s'"
  proof (rule page_local [OF assms(1), of "fr_id rule"], goal_cases)
    case (1 j)
    then show ?case using other [OF 1] at st by auto
  next
    case (2 x)
    then show ?case using here(1) [OF 2] at st inv(1) [of "fr_id rule" x] by auto
  next
    case 3
    then show ?case using here(2) st by simp
  next
    case 4
    then show ?case using here(3) by simp
  next
    case (5 r b)
    then show ?case using ye [OF 5(1)] old [of r b] inv(3) [of r b] at us by auto
  next
    case (6 r b)
    then show ?case using ye [OF 6(1)] old [of r b] by auto
  next
    case 7
    show ?case using taken(1,2) us unfolding ts by auto
  next
    case (8 b)
    have "set (attempt_list (tasks s')) \<subseteq> insert a (set (attempt_list (remove1 t (tasks s))))"
      using us by (auto simp: ts)
    then have "b \<in> set (attempt_list (tasks s))" using 8 unfolding taken(3) by blast
    then show ?case using inv(6) fr by simp
  qed
qed

lemma holders_cong:
  "(\<And>j. claim_of s' j = claim_of s j) \<Longrightarrow> (\<And>j. stopping s' j = stopping s j) \<Longrightarrow> holders s' c = holders s c"
  by (simp add: holders_def)

lemma dialResolved_page:
  assumes "page_inv s" and t: "Dialing rule a ladder \<in> set (tasks s)"
  shows "page_inv (dialResolved rule a ladder port session c s)"
    and "refs_exact s \<Longrightarrow> refs_exact (dialResolved rule a ladder port session c s)"
proof -
  let ?i = "fr_id rule" and ?s' = "dialResolved rule a ladder port session c s"
  let ?goal = "page_inv ?s' \<and> (refs_exact s \<longrightarrow> refs_exact ?s')"
  note inv = page_invD [OF assms(1)]
  note simps = dialResolved_def Let_def call_defs marks_defs set_runtime_def owned_by_def
  have ?goal
  proof (cases "attempts s ?i = Some a")
    case False
    have ts: "tasks ?s' = remove1 (Dialing rule a ladder) (tasks s) @ [Releasing rule a]" "refs ?s' = refs s"
      using False by (auto simp: simps)
    have same: "attempts ?s' = attempts s" "retries ?s' = retries s" "fresh_object ?s' = fresh_object s" "runtime ?s' = runtime s"
      using False by (simp_all add: simps)
    note rd = readers_cong(1,2) [OF same(4)]
    have st: "stopping ?s' j = stopping s j" for j by (rule stopping_answered [OF ts(1)]) auto
    have "page_inv ?s'"
      by (rule page_answered [OF assms(1) t _ ts(1), of a rule]) (use inv(1,2,4) in \<open>auto simp: same rd\<close>)
    then show ?thesis by (simp add: refs_exact_def holders_def rd ts(2) st)
  next
    case cur: True
    show ?thesis
    proof (cases "owned_by s ?i")
      case None
      have ts: "tasks ?s' = remove1 (Dialing rule a ladder) (tasks s) @ []" "refs ?s' = (refs s)(c := refs s c + 1)"
        using cur None by (auto simp: simps)
      have same: "attempts ?s' = (attempts s)(?i := None)" "retries ?s' = retries s" "fresh_object ?s' = fresh_object s"
        using cur None by (simp_all add: simps)
      have rd: "claim_of ?s' j = (if j = ?i then Some c else claim_of s j)" "status_of ?s' j = (if j = ?i then FwRunning else status_of s j)" for j
        using cur None by (simp_all add: simps claim_of_def status_of_def update_conv)
      have st: "stopping ?s' j = stopping s j" for j by (rule stopping_answered [OF ts(1)]) auto
      have p: "page_inv ?s'"
        by (rule page_answered [OF assms(1) t _ ts(1), of a rule]) (use inv(1) [OF cur] cur in \<open>auto simp: same rd\<close>)
      have h: "holders ?s' d = (if d = c then insert ?i (holders s d) else holders s d)" for d
        using inv(1) [OF cur] by (auto simp: holders_def rd st)
      have "?i \<notin> holders s c" using inv(1) [OF cur] by (simp add: holders_def)
      then show ?thesis using p by (auto simp: refs_exact_def h ts(2) holders_finite)
    next
      case (Some e)
      have ts: "tasks ?s' = remove1 (Dialing rule a ladder) (tasks s) @ [Yielding rule a]" "refs ?s' = refs s"
        using cur Some by (auto simp: simps)
      have same: "attempts ?s' = attempts s" "retries ?s' = retries s" "fresh_object ?s' = fresh_object s" "runtime ?s' = runtime s"
        using cur Some by (simp_all add: simps)
      note rd = readers_cong(1,2) [OF same(4)]
      have st: "stopping ?s' j = stopping s j" for j by (rule stopping_answered [OF ts(1)]) auto
      have "page_inv ?s'"
        by (rule page_answered [OF assms(1) t _ ts(1), of a rule]) (use inv(1,2,4) cur in \<open>auto simp: same rd\<close>)
      then show ?thesis by (simp add: refs_exact_def holders_def rd ts(2) st)
    qed
  qed
  then show "page_inv ?s'" "refs_exact s \<Longrightarrow> refs_exact ?s'" by blast+
qed

text \<open>An answer that gives no reference: the row may be rewritten, and a timer set.\<close>

lemma page_dropped:
  fixes rule :: forward_rule
  assumes "page_inv s" and t: "t \<in> set (tasks s)" "attempt_no t = [a]"
    and ts: "tasks s' = remove1 t (tasks s)" "refs s' = refs s" "fresh_object s' = fresh_object s"
    and at: "attempts s' = attempts s \<or> attempts s (fr_id rule) = Some a \<and> attempts s' = (attempts s)(fr_id rule := None)"
    and other: "\<And>j. j \<noteq> fr_id rule \<Longrightarrow> retries s' j = retries s j \<and> claim_of s' j = claim_of s j \<and> status_of s' j = status_of s j"
    and here: "claim_of s' (fr_id rule) = claim_of s (fr_id rule)"
      "retries s' (fr_id rule) = retries s (fr_id rule) \<or> attempts s (fr_id rule) = Some a \<and> attempts s' (fr_id rule) = None"
      "status_of s' (fr_id rule) = status_of s (fr_id rule) \<or> claim_of s (fr_id rule) = None"
  shows "page_inv s' \<and> (refs_exact s \<longrightarrow> refs_exact s')"
proof -
  note inv = page_invD [OF assms(1)]
  have st: "stopping s' j = stopping s j" for j by (rule stopping_answered [of s' t s "[]"]) (use ts t(2) in auto)
  have cl: "claim_of s' j = claim_of s j" for j using other here(1) by (cases "j = fr_id rule") auto
  have "refs_exact s \<longrightarrow> refs_exact s'" by (simp add: refs_exact_def holders_def cl st ts(2))
  moreover have "page_inv s'"
    by (rule page_answered [OF assms(1) t, of s' "[]" rule])
      (use ts at other here cl inv(1) [of "fr_id rule"] inv(2,4) [of "fr_id rule"] in auto)
  ultimately show ?thesis by blast
qed

lemma current_finished:
  assumes "page_inv s" and "attempts s (fr_id rule) = Some a"
  shows "claim_of s (fr_id rule) = None"
  using page_invD(1) [OF assms] by simp

lemmas run_simps = Let_def call_defs marks_defs set_runtime_def owned_by_def claim_of_def status_of_def update_conv

lemma dialRejected_page:
  assumes "page_inv s" and t: "Dialing rule a ladder \<in> set (tasks s)"
  shows "page_inv (dialRejected num rule a ladder e s) \<and> (refs_exact s \<longrightarrow> refs_exact (dialRejected num rule a ladder e s))"
proof -
  have c: "attempts s (fr_id rule) = Some a \<Longrightarrow> Option.bind (map_of (runtime s) (fr_id rule)) rt_claim = None"
    using current_finished [OF assms(1)] by (simp add: claim_of_def)
  show ?thesis
    by (rule page_dropped [OF assms(1) t, of a _ rule])
      (auto simp: dialRejected_def rungFailed_def run_simps c only_status_def split: option.split)
qed

lemma released_page:
  assumes "page_inv s" and t: "Releasing rule a \<in> set (tasks s)"
  shows "page_inv (released rule a s) \<and> (refs_exact s \<longrightarrow> refs_exact (released rule a s))"
  by (rule page_dropped [OF assms(1) t, of a _ rule]) (auto simp: released_def run_simps)

lemma yielded_page:
  assumes "page_inv s" and t: "Yielding rule a \<in> set (tasks s)"
  shows "page_inv (yielded rule a s) \<and> (refs_exact s \<longrightarrow> refs_exact (yielded rule a s))"
proof -
  have a: "attempts s (fr_id rule) = Some a" using page_invD(3) [OF assms] .
  have c: "Option.bind (map_of (runtime s) (fr_id rule)) rt_claim = None"
    using current_finished [OF assms(1) a] by (simp add: claim_of_def)
  show ?thesis by (rule page_dropped [OF assms(1) t, of a _ rule]) (auto simp: yielded_def run_simps a c only_status_def)
qed

lemma stopRule_page:
  assumes "page_inv s" and "idle rule s"
  shows "page_inv (stopRule rule s)" and "refs_exact s \<Longrightarrow> refs_exact (stopRule rule s)"
proof -
  let ?i = "fr_id rule" and ?s' = "stopRule rule s"
  note inv = page_invD [OF assms(1)]
  have idle: "\<not> stopping s ?i" "\<And>r a. Yielding r a \<in> set (tasks s) \<Longrightarrow> fr_id r \<noteq> ?i" using assms(2) by (auto simp: idle_iff)
  have "page_inv ?s' \<and> (refs_exact s \<longrightarrow> refs_exact ?s')"
  proof (cases "owned_by s ?i")
    case (Some e)
    then show ?thesis using assms(1) by (simp add: stopRule_def)
  next
    case None
    have at: "attempts ?s' = (attempts s)(?i := None)" "retries ?s' = (retries s)(?i := None)" "fresh_object ?s' = fresh_object s"
      using None by (auto simp: stopRule_def run_simps split: option.split)
    have other: "claim_of ?s' j = claim_of s j" "status_of ?s' j = status_of s j" if "j \<noteq> ?i" for j
      using that None by (auto simp: stopRule_def run_simps split: option.split)
    have ts: "tasks ?s' = tasks s @ (if claim_of s ?i = None then [] else [Stopping rule])"
      and rf: "refs ?s' = (case claim_of s ?i of None \<Rightarrow> refs s | Some c \<Rightarrow> (refs s)(c := refs s c - 1))"
      and cl: "claim_of ?s' ?i = claim_of s ?i" and st: "claim_of s ?i \<noteq> None \<Longrightarrow> status_of ?s' ?i = status_of s ?i"
      using None by (auto simp: stopRule_def run_simps only_status_def split: option.split)
    have stp: "stopping ?s' j = (stopping s j \<or> j = ?i \<and> claim_of s ?i \<noteq> None)" for j
      by (auto simp: stopping_def ts)
    have "page_inv ?s'"
    proof (rule page_local [OF assms(1), of ?i], goal_cases)
      case (1 j)
      then show ?case using other by (simp add: at stp)
    next
      case 4
      then show ?case using inv(4) [of ?i] cl st by simp
    next
      case (5 r b)
      then show ?case using idle(2) [of r b] by (auto simp: ts split: if_splits)
    qed (use inv(5,6) in \<open>auto simp: at ts split: if_splits\<close>)
    moreover have "refs_exact ?s'" if ex: "refs_exact s"
    proof -
      have h: "holders ?s' d = (if claim_of s ?i = Some d then holders s d - {?i} else holders s d)" for d
        using other cl by (auto simp: holders_def stp) metis+
      have "?i \<in> holders s d" if "claim_of s ?i = Some d" for d using that idle(1) by (simp add: holders_def)
      then show ?thesis using ex unfolding refs_exact_def h rf by (auto split: option.split)
    qed
    ultimately show ?thesis by blast
  qed
  then show "page_inv ?s'" "refs_exact s \<Longrightarrow> refs_exact ?s'" by blast+
qed

lemma stopped_page:
  assumes "page_inv s" and t: "Stopping rule \<in> set (tasks s)"
  shows "page_inv (stopped rule s)" and "refs_exact s \<Longrightarrow> refs_exact (stopped rule s)"
proof -
  let ?i = "fr_id rule" and ?s' = "stopped rule s"
  note inv = page_invD [OF assms(1)]
  have i: "stopping s ?i" using t by (auto simp: stopping_def)
  then have none: "attempts s ?i = None" "retries s ?i = None" using inv(1) inv(2) by fastforce+
  have same: "attempts ?s' = attempts s" "retries ?s' = retries s" "refs ?s' = refs s" "fresh_object ?s' = fresh_object s"
    "tasks ?s' = remove1 (Stopping rule) (tasks s)" by (simp_all add: stopped_def run_simps)
  have rd: "claim_of ?s' j = (if j = ?i then None else claim_of s j)" "j \<noteq> ?i \<Longrightarrow> status_of ?s' j = status_of s j" for j
    by (simp_all add: stopped_def run_simps only_status_def)
  have stp: "stopping ?s' j = stopping s j" if "j \<noteq> ?i" for j
  proof -
    have "Stopping r \<in> set (remove1 (Stopping rule) (tasks s)) \<longleftrightarrow> Stopping r \<in> set (tasks s)" if "fr_id r = j" for r
      by (rule in_remove1_other) (use that \<open>j \<noteq> ?i\<close> in auto)
    then show ?thesis by (auto simp: stopping_def same)
  qed
  have ye: "Yielding r b \<in> set (tasks ?s') \<longleftrightarrow> Yielding r b \<in> set (tasks s)" for r b by (simp add: same in_remove1_other)
  show "page_inv ?s'"
  proof (rule page_local [OF assms(1), of ?i], goal_cases)
    case (5 r b)
    then show ?case using inv(3) [of r b] by (simp add: ye same)
  qed (use none inv(5,6) in \<open>auto simp: same rd stp ye attempt_removed\<close>)
  have "holders ?s' c = holders s c" for c
    using i stp by (auto simp: holders_def rd split: if_splits)
  then show "refs_exact s \<Longrightarrow> refs_exact ?s'" by (simp add: refs_exact_def same)
qed

section \<open>The orderly machine\<close>

definition orderly_inv :: "forward_state \<Rightarrow> bool" where
  "orderly_inv s \<longleftrightarrow> forward_inv s \<and> page_inv s \<and> refs_exact s"

lemma startable_free: "page_inv s \<Longrightarrow> startable rule s \<Longrightarrow> idle rule s \<and> claim_of s (fr_id rule) = None"
  using page_invD(4) [of s "fr_id rule"] unfolding startable_def by blast

lemma retryFires_page:
  assumes "page_inv s" and "laddered s" and "retries s i = Some (rule, n)"
  shows "page_inv (retryFires i rule n s) \<and> (refs_exact s \<longrightarrow> refs_exact (retryFires i rule n s))"
proof -
  have i: "fr_id rule = i" using assms(2,3) by (auto simp: laddered_def)
  have "retryFires i rule n s = startRule rule (Some n) s"
    unfolding retryFires_def startRule_def i by (simp add: cancelForwardRetry_def)
  then show ?thesis using startRule_page [OF assms(1)] retry_idle [OF assms(1), of rule] assms(3) i by simp
qed

lemma orderly_step:
  assumes "orderly_inv s" and "orderly s s'"
  shows "orderly_inv s'"
proof -
  have p: "page_inv s" and r: "refs_exact s" and l: "laddered s" using assms(1) by (auto simp: orderly_inv_def forward_inv_def)
  have "page_inv s' \<and> refs_exact s'"
    using assms(2)
  proof (cases rule: forward_step.cases)
    case (fw_start rule)
    then show ?thesis using startRule_page [OF p] startable_free [OF p] r by blast
  next
    case (fw_launch rule)
    then show ?thesis using startRule_page [OF p] startable_free [OF p] r unfolding startForwardAutostart_def by blast
  next
    case (fw_stop rule)
    then show ?thesis using stopRule_page [OF p] r by blast
  next
    case (fw_release rule)
    then show ?thesis using stopRule_page [OF p] r p by (simp add: releaseRule_def)
  next
    case (fw_retry i rule n)
    then show ?thesis using retryFires_page [OF p l] r by blast
  qed (simp_all add: r dialResolved_page [OF p] dialRejected_page [OF p] released_page [OF p] yielded_page [OF p] stopped_page [OF p]
      bindResolved_page [OF p] terminal_pages [THEN page_same_keeps(1) [OF _ p]] terminal_pages [THEN page_same_keeps(2) [OF _ r]])
  then show ?thesis using assms forward_inv_step unfolding orderly_inv_def by blast
qed

lemma launched_orderly: "orderly_inv launched"
  unfolding orderly_inv_def using launched_inv
  by (simp add: launched_def page_inv_def refs_exact_def holders_def claim_of_def stopping_def)

interpretation orderly: invariant_system "\<lambda>s. s = launched" orderly orderly_inv
  by unfold_locales (auto intro: orderly_step launched_orderly)

text \<open>
  C17: while a row is started only when it is down, and started or stopped only after its last Stop or
  yield is done, no reference to a shared session is lost or spent twice: the references the page owes
  under a claim are exactly the running rows that name it, and each can still give its own back. When
  no row is running, the page owes nothing.
\<close>

theorem page_references_exact:
  assumes "reachable (\<lambda>s. s = launched) orderly s"
  shows "refs s c = card {i. claim_of s i = Some c \<and> \<not> (\<exists>r. Stopping r \<in> set (tasks s) \<and> fr_id r = i)}
    \<and> (\<forall>i. claim_of s i \<noteq> None \<longrightarrow> status_of s i = FwRunning)
    \<and> ((\<forall>i. status_of s i \<noteq> FwRunning) \<longrightarrow> refs s c = 0)"
proof -
  have inv: "page_inv s" "refs_exact s" using orderly.reachable_inv [OF assms] by (auto simp: orderly_inv_def)
  have rc: "refs s c = card (holders s c)" using inv(2) by (simp add: refs_exact_def)
  have st: "claim_of s i \<noteq> None \<Longrightarrow> status_of s i = FwRunning" for i by (rule page_invD(4) [OF inv(1)])
  have "refs s c = 0" if "\<forall>i. status_of s i \<noteq> FwRunning"
  proof -
    have "holders s c = {}" using st that by (force simp: holders_def)
    then show ?thesis using rc by simp
  qed
  then show ?thesis using rc st unfolding holders_def stopping_def by blast
qed

section \<open>Without the discipline\<close>

lemmas run_reach = reach_step [where start = "\<lambda>s. s = launched" and step = any_order]
  reach_step [where start = "\<lambda>s. s = launched" and step = orderly]

text \<open>
  A running row is stopped, stopped again while the close is under way, the second Stop is answered,
  the row is started, its dial resolves with the claim \<open>c\<close>, and only then the first close is answered.
\<close>

definition stopped_again :: "forward_rule \<Rightarrow> forward_state \<Rightarrow> forward_state" where
  "stopped_again rule s = stopped rule (stopRule rule (stopRule rule s))"

definition started_between :: "forward_rule \<Rightarrow> int \<Rightarrow> nat \<Rightarrow> nat \<Rightarrow> forward_state \<Rightarrow> forward_state" where
  "started_between rule port session c s =
     stopped rule (dialResolved rule (fresh_object s) None port session c (startRule rule None (stopped_again rule s)))"

lemma stopped_again_facts:
  assumes "claim_of s (fr_id rule) = Some d" and "owned_by s (fr_id rule) = None"
  shows "mset (tasks (stopped_again rule s)) = mset (tasks s) + {#Stopping rule#}"
    and "refs (stopped_again rule s) = (refs s)(d := refs s d - 2)" and "hostOwned (stopped_again rule s) = hostOwned s"
    and "claim_of (stopped_again rule s) j = (if j = fr_id rule then None else claim_of s j)"
    and "fresh_object (stopped_again rule s) = fresh_object s"
  using assms
  by (auto simp: stopped_again_def stopped_def stopRule_def Let_def await_def resume_def close_ref_def cancelForwardRetry_def
      markStopped_def set_runtime_def only_status_def claim_of_def owned_by_def update_conv' numeral_2_eq_2 split: option.splits)

lemma started_between_facts:
  assumes "claim_of s (fr_id rule) = Some d" and "owned_by s (fr_id rule) = None" and "c \<noteq> d"
  shows "mset (tasks (started_between rule port session c s)) = mset (tasks s)"
    and "refs (started_between rule port session c s) c = refs s c + 1"
    and "claim_of (started_between rule port session c s) j = (if j = fr_id rule then None else claim_of s j)"
    and "status_of (started_between rule port session c s) (fr_id rule) = FwStopped"
  using assms stopped_again_facts [OF assms(1,2)]
  by (auto simp: started_between_def stopped_def startRule_def dialResolved_def isCurrentAttempt_def settle_def take_ref_def Let_def
      await_def resume_def cancelForwardRetry_def markStopped_def markStarting_def markRunning_def set_runtime_def only_status_def
      claim_of_def status_of_def owned_by_def update_conv' split: option.splits)

lemma started_between_reachable:
  assumes "forwards_reachable s" and "claim_of s (fr_id rule) = Some d" and "owned_by s (fr_id rule) = None" and "c \<noteq> d"
  shows "forwards_reachable (started_between rule port session c s)"
proof -
  let ?u = "stopRule rule (stopRule rule s)"
  have "Stopping rule \<in> set (tasks ?u)"
    using assms(2,3) by (simp add: stopRule_def Let_def await_def close_ref_def cancelForwardRetry_def claim_of_def owned_by_def)
  then have again: "forwards_reachable (stopped_again rule s)"
    unfolding stopped_again_def by (intro run_reach(1) [OF _ fw_stopped] run_reach(1) [OF _ fw_stop] assms(1) TrueI)
  let ?v = "startRule rule None (stopped_again rule s)"
  note f = stopped_again_facts [OF assms(2,3)]
  have dial: "Dialing rule (fresh_object s) None \<in> set (tasks ?v)"
    using f(3,5) assms(3) by (simp add: startRule_def Let_def await_def cancelForwardRetry_def owned_by_def markStarting_def set_runtime_def)
  have "Stopping rule \<in># mset (tasks (stopped_again rule s))" unfolding f(1) by simp
  then have "Stopping rule \<in> set (tasks (dialResolved rule (fresh_object s) None port session c ?v))"
    by (auto simp: startRule_def dialResolved_def settle_def take_ref_def close_ref_def Let_def await_def resume_def toast_def
        cancelForwardRetry_def markStarting_def markRunning_def set_runtime_def)
  then show ?thesis unfolding started_between_def
    by (intro run_reach(1) [OF _ fw_stopped] run_reach(1) [OF _ fw_dialed] run_reach(1) [OF _ fw_start] again dial TrueI)
qed

text \<open>
  C39: a running row stopped twice in a row and started again before the first close is answered loses
  the reference of the new Start. Whatever else is going on: the row then reads stopped, it names no
  claim, the calls in flight are those from before, and one reference under the new claim is still
  held, so its port stays bound and its session stays open; if no other row names that claim, no row
  can give it back.
\<close>

theorem second_stop_loses_reference:
  assumes "forwards_reachable s" and "claim_of s (fr_id rule) = Some d" and "owned_by s (fr_id rule) = None" and "c \<noteq> d"
  shows "let s' = stopped rule (dialResolved rule (fresh_object s) None port session c
        (startRule rule None (stopped rule (stopRule rule (stopRule rule s)))))
    in forwards_reachable s' \<and> mset (tasks s') = mset (tasks s) \<and> status_of s' (fr_id rule) = FwStopped
    \<and> (\<forall>i. claim_of s' i = (if i = fr_id rule then None else claim_of s i)) \<and> refs s' c = refs s c + 1"
  unfolding Let_def stopped_again_def [symmetric] started_between_def [symmetric]
  by (intro conjI allI started_between_reachable [OF assms] started_between_facts [OF assms(2-4)])

definition demo_forward :: forward_rule where
  "demo_forward = \<lparr>fr_id = ''f1'', fr_name = ''db'', fr_hostId = ''h1'', fr_type = None, fr_localPort = Fin 0, fr_remoteHost = ''db.local'',
     fr_remotePort = Fin 5432, fr_targetHost = None, fr_targetPort = None, fr_bindAddress = None, fr_bindPort = None,
     fr_startWithHost = True, fr_startWithApp = None, fr_description = None, fr_updatedAt = None\<rparr>"

definition demo_running :: forward_state where
  "demo_running = dialResolved demo_forward 0 None 4000 1 7 (startRule demo_forward None launched)"

lemma demo_running_reachable: "forwards_reachable demo_running"
  unfolding demo_running_def
  by (intro run_reach(1) [OF _ fw_dialed] run_reach(1) [OF _ fw_start] reach_start TrueI refl) code_simp

theorem second_stop_loses_reference_witness:
  "tasks demo_running = [] \<and> refs demo_running 8 = 0 \<and> (\<exists>s'. forwards_reachable s' \<and> tasks s' = [] \<and> status_of s' ''f1'' = FwStopped
     \<and> claim_of s' ''f1'' = None \<and> refs s' 8 = 1)"
proof -
  have c: "claim_of demo_running (fr_id demo_forward) = Some 7" by code_simp
  have o: "owned_by demo_running (fr_id demo_forward) = None" by code_simp
  have t: "tasks demo_running = []" and r: "refs demo_running 8 = 0" by code_simp+
  have "fr_id demo_forward = ''f1''" by (simp add: demo_forward_def)
  note f = this
  obtain s' where s': "forwards_reachable s'" "mset (tasks s') = mset (tasks demo_running)" "status_of s' ''f1'' = FwStopped"
    "\<forall>i. claim_of s' i = (if i = ''f1'' then None else claim_of demo_running i)" "refs s' 8 = refs demo_running 8 + 1"
    using second_stop_loses_reference [OF demo_running_reachable c o, of 8 4001 1] unfolding f Let_def by auto
  then have "tasks s' = []" "claim_of s' ''f1'' = None" "refs s' 8 = 1" using t r by simp_all
  then show ?thesis using s'(1,3) t r by blast
qed

end
