(* ===== verification/Forward_Witnesses.thy ===== *)
theory Forward_Witnesses
  imports Forward_Refs
begin

text \<open>
  Concrete runs of forwards: a terminal that brings a rule up and goes, a ladder that gives up, a row
  that runs.
\<close>

section \<open>Runs\<close>

text \<open>A tab attaches to session 1, its rule is listed and bound; then the tab goes and the close is answered.\<close>

definition demo_held :: forward_state where
  "demo_held = bindResolved 1 0 demo_forward [] 4000 5 (rulesListed ''h1'' 1 0 [demo_forward] (attachHostForwards ''h1'' 1 launched))"

definition demo_gone :: forward_state where
  "demo_gone = drained 1 [] (detach 1 0 demo_held)"

text \<open>A launch whose first dial failed in transport: the second is scheduled.\<close>

definition demo_retry :: forward_state where
  "demo_retry = dialRejected (\<lambda>_. []) demo_forward 0 (Some 0) (OtherThrown ''down'') (startForwardAutostart demo_forward launched)"

lemma demo_held_reachable: "forwards_reachable demo_held"
  unfolding demo_held_def
  by (intro run_reach(1) [OF _ fw_bound] run_reach(1) [OF _ fw_listed] run_reach(1) [OF _ fw_attach] reach_start refl; code_simp)

lemma demo_gone_reachable: "forwards_reachable demo_gone"
proof -
  have "(1, 0) \<in> set (handles demo_held)" "Draining 1 [] \<in> set (tasks (detach 1 0 demo_held))" by code_simp+
  then show ?thesis unfolding demo_gone_def
    by (intro run_reach(1) [OF _ fw_drained] run_reach(1) [OF _ fw_detach] demo_held_reachable)
qed

lemma demo_retry_reachable: "forwards_reachable demo_retry"
  unfolding demo_retry_def
  by (intro run_reach(1) [OF _ fw_refused] run_reach(1) [OF _ fw_launch] reach_start refl; code_simp)

lemma demo_running_orderly: "reachable (\<lambda>s. s = launched) orderly demo_running"
  unfolding demo_running_def
  by (intro run_reach(2) [OF _ fw_dialed] run_reach(2) [OF _ fw_start] reach_start refl; code_simp)

section \<open>The properties at these runs\<close>

theorem forward_has_one_owner_witness:
  "owned_by demo_held ''f1'' = Some \<lparr>oe_sessionId = 1, oe_boundPort = 4000, oe_generation = 5\<rparr>
   \<and> status_of demo_held ''f1'' \<noteq> FwRunning \<and> (\<exists>epoch. (1, epoch) \<in> set (handles demo_held))"
proof -
  have "owned_by demo_held ''f1'' = Some \<lparr>oe_sessionId = 1, oe_boundPort = 4000, oe_generation = 5\<rparr>" by code_simp
  then show ?thesis using forward_has_one_owner [OF demo_held_reachable, of "''f1''"] by auto
qed

theorem terminal_listeners_named_witness:
  "unclosed demo_held = [(1, 4000, 5)] \<and> unclosed demo_gone = []"
proof -
  have "unclosed demo_held = [(1, 4000, 5)]" "handles demo_gone = []" "tasks demo_gone = []" by code_simp+
  then show ?thesis using terminal_listeners_named [OF demo_gone_reachable] by simp
qed

theorem ladder_gives_up_witness:
  "status_of (climb (\<lambda>_. []) demo_forward (\<lambda>_. OtherThrown ''down'') 0 launched) ''f1'' = FwFailed
   \<and> fresh_object (climb (\<lambda>_. []) demo_forward (\<lambda>_. OtherThrown ''down'') 0 launched) \<le> 6"
proof -
  have "owned_by launched (fr_id demo_forward) = None" "fr_id demo_forward = ''f1''" "fresh_object launched = 0" by code_simp+
  then show ?thesis using ladder_gives_up [of launched demo_forward _ "\<lambda>_. []" "\<lambda>_. OtherThrown ''down''", OF _ refl] by simp
qed

theorem ladder_stays_bounded_witness:
  "retries demo_retry ''f1'' = Some (demo_forward, 1) \<and> fr_id demo_forward = ''f1'' \<and> (1::nat) \<le> 5"
proof -
  have "demo_retry = rung (\<lambda>_. []) demo_forward (OtherThrown ''down'') 0 launched" "owned_by launched (fr_id demo_forward) = None"
    by (simp_all add: demo_retry_def rung_def startForwardAutostart_def launched_def owned_by_def)
  then have "retries demo_retry ''f1'' = Some (demo_forward, 1)"
    using rung_simps(1) [of launched demo_forward "\<lambda>_. []" "OtherThrown ''down''" 0]
    by (simp add: demo_forward_def classifySshConnectFailure_def backoffs)
  then show ?thesis using conjunct1 [OF ladder_stays_bounded [OF demo_retry_reachable]] by simp
qed

theorem page_references_exact_witness:
  "claim_of demo_running ''f1'' = Some 7 \<and> tasks demo_running = [] \<and> refs demo_running 7 = card {i. claim_of demo_running i = Some 7}"
proof -
  have "claim_of demo_running ''f1'' = Some 7" "tasks demo_running = []" by code_simp+
  then show ?thesis using page_references_exact [OF demo_running_orderly, of 7] by simp
qed

end
