(* ===== verification/Store_Recovery.thy ===== *)
theory Store_Recovery
  imports Prelude
begin

text \<open>
  Crash recovery of a JSON store file (\<^verbatim>\<open>src/lib/storeRecovery.ts\<close>): what the primary file and its
  \<open>.bak\<close> snapshot look like, when the snapshot is put back and when a new one is taken.

  The file commands are the backend's. Every call is numbered, and the argument \<open>os\<close> gives the message
  of the calls that reject; a theorem for all \<open>os\<close> covers every pattern of failures. A write that rejects
  has no effect (temporary file and rename). \<open>JSON.parse\<close> is the argument \<open>parse\<close>: the theorems hold
  for every such function, except where they say that what was rendered can be read back.
\<close>

section \<open>Files as the process sees them\<close>

datatype store_file_state =
    SfOk | SfMissing | SfEmpty | SfNul | SfUnparseable | SfToolarge | SfUnreadable | SfUnreachable

datatype store_file_read =
    RdText string | RdBinary | RdToolarge | RdUnreadable string | RdMissing

record store_recovery =
  sr_found :: store_file_state
  sr_recovered :: bool
  sr_note :: "string option"

record store_snapshot =
  ss_taken :: bool
  ss_note :: "string option"

text \<open>The top level of a parsed file: an object, or anything else.\<close>

datatype 'v json = JsonObject "(string \<times> 'v) list" | JsonOther

fun state_name :: "store_file_state \<Rightarrow> string" where
  "state_name SfOk = ''ok''"
| "state_name SfMissing = ''missing''"
| "state_name SfEmpty = ''empty''"
| "state_name SfNul = ''nul''"
| "state_name SfUnparseable = ''unparseable''"
| "state_name SfToolarge = ''toolarge''"
| "state_name SfUnreadable = ''unreadable''"
| "state_name SfUnreachable = ''unreachable''"

definition SNAPSHOT_SUFFIX :: string where
  "SNAPSHOT_SUFFIX = ''.bak''"

definition is_slash :: "char \<Rightarrow> bool" where
  "is_slash c \<longleftrightarrow> c = CHR ''/'' \<or> c = CHR 0x5C"

definition storeFilePaths :: "string \<Rightarrow> string \<Rightarrow> string \<times> string" where
  "storeFilePaths dir fileName =
     (let primary = rev (dropWhile is_slash (rev dir)) @ ''/'' @ fileName in (primary, primary @ SNAPSHOT_SUFFIX))"

fun inspect :: "(string \<Rightarrow> 'v json option) \<Rightarrow> store_file_read \<Rightarrow> store_file_state" where
  "inspect parse RdMissing = SfMissing"
| "inspect parse RdBinary = SfNul"
| "inspect parse RdToolarge = SfToolarge"
| "inspect parse (RdUnreadable _) = SfUnreadable"
| "inspect parse (RdText c) =
     (if js_trim c = [] then SfEmpty
      else if c \<noteq> [] \<and> list_all (\<lambda>x. x = CHR 0x00) c then SfNul
      else case parse c of Some (JsonObject _) \<Rightarrow> SfOk | _ \<Rightarrow> SfUnparseable)"

declare inspect.simps(5) [simp del]

lemma inspect_ok_iff: "inspect parse r = SfOk \<longleftrightarrow> (\<exists>c fs. r = RdText c \<and> js_trim c \<noteq> []
    \<and> \<not> list_all (\<lambda>x. x = CHR 0x00) c \<and> parse c = Some (JsonObject fs))"
  by (cases r) (auto simp: inspect.simps split: option.splits json.splits)

lemma inspect_large_iff: "inspect parse r = SfToolarge \<longleftrightarrow> r = RdToolarge"
  by (cases r) (auto simp: inspect.simps split: option.splits json.splits)

definition ends_with :: "string \<Rightarrow> string \<Rightarrow> bool" where
  "ends_with s m \<longleftrightarrow> length s \<le> length m \<and> drop (length m - length s) m = s"

definition classifyReadFailure :: "string \<Rightarrow> store_file_read" where
  "classifyReadFailure message =
     (if ends_with ''(os error 2)'' (js_trim message) \<or> ends_with ''(os error 3)'' (js_trim message)
      then RdMissing else RdUnreadable message)"

section \<open>The file commands\<close>

datatype disk_file = TextFile string | BinaryFile | LargeFile

type_synonym faults = "nat \<Rightarrow> string option"

record file_system =
  fs_files :: "string \<Rightarrow> disk_file option"
  fs_calls :: nat

definition fs_dir :: "faults \<Rightarrow> string \<Rightarrow> file_system \<Rightarrow> (string + string) \<times> file_system" where
  "fs_dir os d w = ((case os (fs_calls w) of Some e \<Rightarrow> Inl e | None \<Rightarrow> Inr d), w\<lparr>fs_calls := fs_calls w + 1\<rparr>)"

definition fs_read :: "faults \<Rightarrow> string \<Rightarrow> file_system \<Rightarrow> store_file_read \<times> file_system" where
  "fs_read os p w =
     ((case os (fs_calls w) of
         Some e \<Rightarrow> classifyReadFailure e
       | None \<Rightarrow>
         (case fs_files w p of
            Some (TextFile c) \<Rightarrow> RdText c
          | Some BinaryFile \<Rightarrow> RdBinary
          | Some LargeFile \<Rightarrow> RdToolarge
          | None \<Rightarrow> classifyReadFailure ''No such file or directory (os error 2)'')),
      w\<lparr>fs_calls := fs_calls w + 1\<rparr>)"

definition fs_write :: "faults \<Rightarrow> string \<Rightarrow> string \<Rightarrow> file_system \<Rightarrow> (string + unit) \<times> file_system" where
  "fs_write os p c w =
     (case os (fs_calls w) of
        Some e \<Rightarrow> (Inl e, w\<lparr>fs_calls := fs_calls w + 1\<rparr>)
      | None \<Rightarrow> (Inr (), w\<lparr>fs_calls := fs_calls w + 1, fs_files := (fs_files w)(p \<mapsto> TextFile c)\<rparr>))"

section \<open>Recovery\<close>

definition recovery :: "store_file_state \<Rightarrow> bool \<Rightarrow> string option \<Rightarrow> store_recovery" where
  "recovery found recovered note = \<lparr>sr_found = found, sr_recovered = recovered, sr_note = note\<rparr>"

lemma recovery_simps [simp]:
  "sr_found (recovery f b n) = f" "sr_recovered (recovery f b n) = b" "sr_note (recovery f b n) = n"
  by (simp_all add: recovery_def)

text \<open>The verdict once both files were looked at and the snapshot is no use.\<close>

definition no_fallback :: "string \<Rightarrow> store_file_state \<Rightarrow> store_file_state \<Rightarrow> store_recovery" where
  "no_fallback fileName found fallback =
     (if found = SfMissing \<and> fallback = SfMissing then recovery found False None
      else if found = SfMissing \<and> (fallback = SfUnreadable \<or> fallback = SfToolarge)
      then recovery SfUnreadable False
        (Some (fileName @ '' is missing and its snapshot is '' @ state_name fallback @ '', so nothing here could be checked''))
      else recovery found False
        (Some (fileName @ '' is '' @ state_name found @ '' and its snapshot is '' @ state_name fallback)))"

definition recover_from_snapshot ::
  "faults \<Rightarrow> (string \<Rightarrow> 'v json option) \<Rightarrow> string \<Rightarrow> string \<times> string \<Rightarrow> store_file_state \<Rightarrow> file_system \<Rightarrow> store_recovery \<times> file_system" where
  "recover_from_snapshot os parse fileName paths found w =
     (let (backup, w1) = fs_read os (snd paths) w; fallback = inspect parse backup in
      case backup of
        RdText content \<Rightarrow>
          (if fallback \<noteq> SfOk then (no_fallback fileName found fallback, w1)
           else case fs_write os (fst paths) content w1 of
             (Inl e, w2) \<Rightarrow>
               (recovery found False (Some (fileName @ '' is '' @ state_name found @ '' and could not be restored from ''
                  @ fileName @ SNAPSHOT_SUFFIX @ '': '' @ e)), w2)
           | (Inr _, w2) \<Rightarrow>
               (recovery found True (Some (fileName @ '' was '' @ state_name found @ ''; restored from '' @ fileName
                  @ SNAPSHOT_SUFFIX)), w2))
      | _ \<Rightarrow> (no_fallback fileName found fallback, w1))"

definition recover ::
  "faults \<Rightarrow> string \<Rightarrow> (string \<Rightarrow> 'v json option) \<Rightarrow> string \<Rightarrow> file_system \<Rightarrow> (string + store_recovery) \<times> file_system" where
  "recover os d parse fileName w =
     (case fs_dir os d w of
        (Inl e, w1) \<Rightarrow> (Inl e, w1)
      | (Inr dir, w1) \<Rightarrow>
        (let paths = storeFilePaths dir fileName;
             (primaryRead, w2) = fs_read os (fst paths) w1;
             found = inspect parse primaryRead
         in if found = SfOk then (Inr (recovery found False None), w2)
            else case primaryRead of
              RdUnreadable reason \<Rightarrow>
                (Inr (recovery found False (Some (fileName @ '' could not be read, so it was left as it is: '' @ reason))), w2)
            | _ \<Rightarrow>
              (if found = SfToolarge
               then (Inr (recovery found False (Some (fileName @ '' is too large to check for corruption; left as it is''))), w2)
               else apfst Inr (recover_from_snapshot os parse fileName paths found w2))))"

definition recoverStoreFile ::
  "faults \<Rightarrow> string \<Rightarrow> (string \<Rightarrow> 'v json option) \<Rightarrow> string \<Rightarrow> file_system \<Rightarrow> store_recovery \<times> file_system" where
  "recoverStoreFile os d parse fileName w =
     (case recover os d parse fileName w of
        (Inl e, w1) \<Rightarrow> (recovery SfUnreachable False (Some (fileName @ '' could not be checked: '' @ e)), w1)
      | (Inr r, w1) \<Rightarrow> (r, w1))"

section \<open>Snapshot\<close>

definition snapshot_result :: "bool \<Rightarrow> string option \<Rightarrow> store_snapshot" where
  "snapshot_result taken note = \<lparr>ss_taken = taken, ss_note = note\<rparr>"

definition snapshotStoreFile ::
  "faults \<Rightarrow> string \<Rightarrow> (string \<Rightarrow> 'v json option) \<Rightarrow> string \<Rightarrow> file_system \<Rightarrow> store_snapshot \<times> file_system" where
  "snapshotStoreFile os d parse fileName w =
     (let failed = (\<lambda>e. snapshot_result False (Some (fileName @ SNAPSHOT_SUFFIX @ '' could not be written: '' @ e))) in
      case fs_dir os d w of
        (Inl e, w1) \<Rightarrow> (failed e, w1)
      | (Inr dir, w1) \<Rightarrow>
        (let paths = storeFilePaths dir fileName; (read, w2) = fs_read os (fst paths) w1 in
         case read of
           RdText content \<Rightarrow>
             (if inspect parse read \<noteq> SfOk then (snapshot_result False None, w2)
              else let (existing, w3) = fs_read os (snd paths) w2 in
                case existing of
                  RdUnreadable _ \<Rightarrow> (snapshot_result False (Some (fileName @ SNAPSHOT_SUFFIX
                     @ '' could not be read, so it was left as it is rather than replaced'')), w3)
                | RdToolarge \<Rightarrow> (snapshot_result False (Some (fileName @ SNAPSHOT_SUFFIX
                     @ '' could not be read, so it was left as it is rather than replaced'')), w3)
                | _ \<Rightarrow>
                  (case fs_write os (snd paths) content w3 of
                     (Inl e, w4) \<Rightarrow> (failed e, w4)
                   | (Inr _, w4) \<Rightarrow> (snapshot_result True None, w4)))
         | _ \<Rightarrow> (snapshot_result False None, w2)))"

lemma snapshot_result_simps [simp]: "ss_taken (snapshot_result b n) = b" "ss_note (snapshot_result b n) = n"
  by (simp_all add: snapshot_result_def)

section \<open>What recovery and snapshots do to the two files\<close>

lemma no_fallback_unrecovered [simp]: "sr_recovered (no_fallback f a b) = False"
  by (simp add: no_fallback_def)

lemma paths_differ [simp]: "fst (storeFilePaths d f) \<noteq> snd (storeFilePaths d f)"
  by (simp add: storeFilePaths_def Let_def SNAPSHOT_SUFFIX_def)

text \<open>A file with contents this store can use.\<close>

definition good :: "(string \<Rightarrow> 'v json option) \<Rightarrow> disk_file option \<Rightarrow> bool" where
  "good parse f \<longleftrightarrow> (\<exists>c. f = Some (TextFile c) \<and> inspect parse (RdText c) = SfOk)"

lemma classify_not_text [simp]: "classifyReadFailure m \<noteq> RdText c" "classifyReadFailure m \<noteq> RdBinary"
  "classifyReadFailure m \<noteq> RdToolarge"
  by (simp_all add: classifyReadFailure_def)

lemma absent_is_missing [simp]: "classifyReadFailure ''No such file or directory (os error 2)'' = RdMissing"
  by (simp add: classifyReadFailure_def ends_with_def js_trim_def is_js_space_def)

lemma fs_read_text: "fs_read os p w = (RdText c, w') \<Longrightarrow> fs_files w p = Some (TextFile c)"
  by (auto simp: fs_read_def split: option.splits disk_file.splits)

lemma fs_read_files: "fs_read os p w = (r, w') \<Longrightarrow> fs_files w' = fs_files w"
  by (auto simp: fs_read_def)

lemma fs_dir_files: "fs_dir os d w = (r, w') \<Longrightarrow> fs_files w' = fs_files w"
  by (auto simp: fs_dir_def)

lemma fs_dir_same: "fs_dir os d w = (Inr d', w') \<Longrightarrow> d' = d"
  by (auto simp: fs_dir_def split: option.splits)

lemma fs_write_cases:
  "fs_write os p c w = (r, w') \<Longrightarrow>
    (\<exists>e. r = Inl e \<and> fs_files w' = fs_files w) \<or> r = Inr () \<and> fs_files w' = (fs_files w)(p \<mapsto> TextFile c)"
  by (auto simp: fs_write_def split: option.splits)

text \<open>Either nothing was written, or a good snapshot was put where no good primary was seen.\<close>

lemma recover_from_snapshot_cases:
  assumes "recover_from_snapshot os parse fileName paths found w = (r, w')"
  shows "fs_files w' = fs_files w \<and> \<not> sr_recovered r
    \<or> (\<exists>c. fs_files w (snd paths) = Some (TextFile c) \<and> inspect parse (RdText c) = SfOk
         \<and> fs_files w' = (fs_files w)(fst paths \<mapsto> TextFile c) \<and> sr_recovered r \<and> sr_found r = found)"
proof -
  obtain b w1 where b: "fs_read os (snd paths) w = (b, w1)" by fastforce
  show ?thesis
  proof (cases "\<exists>c. b = RdText c \<and> inspect parse b = SfOk")
    case False
    then show ?thesis using assms b fs_read_files [OF b]
      by (auto simp: recover_from_snapshot_def Let_def split: store_file_read.splits if_splits)
  next
    case True
    then obtain c where c: "b = RdText c" "inspect parse (RdText c) = SfOk" by auto
    obtain x w2 where x: "fs_write os (fst paths) c w1 = (x, w2)" by fastforce
    show ?thesis using assms b c x fs_read_files [OF b] fs_write_cases [OF x] fs_read_text [of os "snd paths" w c w1]
      by (auto simp: recover_from_snapshot_def Let_def split: sum.splits)
  qed
qed

lemma recoverStoreFile_cases:
  assumes "recoverStoreFile os d parse fileName w = (r, w')" and "storeFilePaths d fileName = (primary, snapshot)"
  shows "fs_files w' = fs_files w \<and> \<not> sr_recovered r
    \<or> (\<exists>c. fs_files w snapshot = Some (TextFile c) \<and> inspect parse (RdText c) = SfOk
         \<and> fs_files w' = (fs_files w)(primary \<mapsto> TextFile c) \<and> sr_recovered r)"
proof -
  obtain q w1 where q: "fs_dir os d w = (q, w1)" by fastforce
  show ?thesis
  proof (cases q)
    case (Inl e)
    then show ?thesis using assms q fs_dir_files [OF q] by (auto simp: recoverStoreFile_def recover_def)
  next
    case (Inr dir)
    then have q: "fs_dir os d w = (Inr d, w1)" "fs_files w1 = fs_files w" using q fs_dir_same [of os d w dir w1] fs_dir_files [OF q] by auto
    obtain p w2 where p: "fs_read os primary w1 = (p, w2)" by fastforce
    show ?thesis
    proof (cases "inspect parse p = SfOk \<or> (\<exists>m. p = RdUnreadable m) \<or> inspect parse p = SfToolarge")
      case True
      then show ?thesis using assms q p fs_read_files [OF p]
        by (auto simp: recoverStoreFile_def recover_def Let_def split: store_file_read.splits)
    next
      case False
      obtain r' w3 where r': "recover_from_snapshot os parse fileName (primary, snapshot) (inspect parse p) w2 = (r', w3)"
        by fastforce
      have "r = r'" "w' = w3" using assms q p r' False
        by (auto simp: recoverStoreFile_def recover_def Let_def split: store_file_read.splits)
      then show ?thesis using recover_from_snapshot_cases [OF r'] fs_read_files [OF p] q by auto
    qed
  qed
qed

text \<open>A snapshot is written only with the contents of a good primary.\<close>

lemma snapshotStoreFile_cases:
  assumes "snapshotStoreFile os d parse fileName w = (r, w')" and "storeFilePaths d fileName = (primary, snapshot)"
  shows "fs_files w' = fs_files w \<and> \<not> ss_taken r
    \<or> (\<exists>c. fs_files w primary = Some (TextFile c) \<and> inspect parse (RdText c) = SfOk
         \<and> fs_files w' = (fs_files w)(snapshot \<mapsto> TextFile c) \<and> ss_taken r)"
proof -
  obtain q w1 where q: "fs_dir os d w = (q, w1)" by fastforce
  show ?thesis
  proof (cases q)
    case (Inl e)
    then show ?thesis using assms q fs_dir_files [OF q] by (auto simp: snapshotStoreFile_def Let_def)
  next
    case (Inr dir)
    then have q: "fs_dir os d w = (Inr d, w1)" "fs_files w1 = fs_files w" using q fs_dir_same [of os d w dir w1] fs_dir_files [OF q] by auto
    obtain p w2 where p: "fs_read os primary w1 = (p, w2)" by fastforce
    show ?thesis
    proof (cases "\<exists>c. p = RdText c \<and> inspect parse p = SfOk")
      case False
      then show ?thesis using assms q p fs_read_files [OF p]
        by (auto simp: snapshotStoreFile_def Let_def split: store_file_read.splits if_splits)
    next
      case True
      then obtain c where c: "p = RdText c" "inspect parse (RdText c) = SfOk" by auto
      obtain x w3 where x: "fs_read os snapshot w2 = (x, w3)" by fastforce
      obtain y w4 where y: "fs_write os snapshot c w3 = (y, w4)" by fastforce
      have c': "fs_files w primary = Some (TextFile c)" using fs_read_text [of os primary w1 c w2] p c(1) q(2) by simp
      show ?thesis using assms q p c c' x y fs_read_files [OF p] fs_read_files [OF x] fs_write_cases [OF y]
        by (auto simp: snapshotStoreFile_def Let_def
            split: store_file_read.splits if_splits sum.splits)
    qed
  qed
qed

section \<open>Without failures\<close>

text \<open>A good primary is left alone; a torn or missing one is replaced by a good snapshot.\<close>

definition no_faults :: faults where
  "no_faults = (\<lambda>_. None)"

lemma fs_calls_ok:
  assumes "os = no_faults"
  shows "fs_dir os d w = (Inr d, w\<lparr>fs_calls := fs_calls w + 1\<rparr>)"
    and "fs_write os p c w = (Inr (), w\<lparr>fs_calls := fs_calls w + 1, fs_files := (fs_files w)(p \<mapsto> TextFile c)\<rparr>)"
    and "fs_files w p = Some (TextFile c) \<Longrightarrow> fs_read os p w = (RdText c, w\<lparr>fs_calls := fs_calls w + 1\<rparr>)"
  using assms by (simp_all add: no_faults_def fs_dir_def fs_write_def fs_read_def)

lemma recover_good:
  assumes "os = no_faults" and "storeFilePaths d fileName = (primary, snapshot)" and "good parse (fs_files w primary)"
  shows "\<exists>w'. recoverStoreFile os d parse fileName w = (recovery SfOk False None, w') \<and> fs_files w' = fs_files w"
proof -
  obtain c where c: "fs_files w primary = Some (TextFile c)" "inspect parse (RdText c) = SfOk"
    using assms(3) by (auto simp: good_def)
  show ?thesis using assms(2) c fs_calls_ok [OF assms(1)]
    by (simp add: recoverStoreFile_def recover_def Let_def)
qed

lemma recover_torn:
  assumes "os = no_faults" and "storeFilePaths d fileName = (primary, snapshot)"
    and "\<not> good parse (fs_files w primary)" and "fs_files w primary \<noteq> Some LargeFile"
    and "fs_files w snapshot = Some (TextFile c)" and "inspect parse (RdText c) = SfOk"
  shows "\<exists>r w'. recoverStoreFile os d parse fileName w = (r, w') \<and> sr_recovered r
    \<and> fs_files w' = (fs_files w)(primary \<mapsto> TextFile c)"
proof -
  obtain p w1 where p: "fs_read os primary (w\<lparr>fs_calls := fs_calls w + 1\<rparr>) = (p, w1)" by fastforce
  have w1: "fs_files w1 = fs_files w" using fs_read_files [OF p] by simp
  have shape: "p = RdMissing \<or> p = RdBinary \<or> (\<exists>x. p = RdText x \<and> inspect parse p \<noteq> SfOk)"
    using p assms(1,3,4) by (auto simp: no_faults_def fs_read_def good_def split: option.splits disk_file.splits)
  then have bad: "inspect parse p \<noteq> SfOk" "\<nexists>m. p = RdUnreadable m" by auto
  have small: "inspect parse p \<noteq> SfToolarge" using shape by (auto simp: inspect_large_iff)
  obtain r w' where r: "recover_from_snapshot os parse fileName (primary, snapshot) (inspect parse p) w1 = (r, w')" by fastforce
  have "recoverStoreFile os d parse fileName w = (r, w')"
    using assms(2) p r bad small fs_calls_ok(1) [OF assms(1)]
    by (auto simp: recoverStoreFile_def recover_def Let_def split: store_file_read.splits)
  moreover have "sr_recovered r \<and> fs_files w' = (fs_files w)(primary \<mapsto> TextFile c)"
    using r assms(5,6) w1 fs_calls_ok(2) [OF assms(1)] fs_calls_ok(3) [OF assms(1), of w1 snapshot c]
    by (auto simp: recover_from_snapshot_def recovery_def)
  ultimately show ?thesis by blast
qed

end
