(* ===== verification/Store_File.thy ===== *)
theory Store_File
  imports Store_Recovery "HOL-Library.AList"
begin

text \<open>
  The whole-file key/value store and the recovered store around it (\<^verbatim>\<open>src/lib/fileKeyValueStore.ts\<close>,
  \<^verbatim>\<open>src/lib/recoveredStore.ts\<close>). The code of a function between two awaits is one function of the
  state here; the steps put them together in every order the event loop allows, with sets, change
  events and commits of another window in between, crashes and torn files.

  A value stands for a reference: two values are equal when \<open>Object.is\<close> says so. \<open>JSON.stringify\<close> and
  \<open>JSON.parse\<close> are the arguments \<open>render\<close> and \<open>parse\<close>.
\<close>

section \<open>The store in memory\<close>

type_synonym 'v obj = "(string \<times> 'v) list"

text \<open>\<open>{ ...a, ...b }\<close>, which keeps the place of a key that both have.\<close>

definition spread :: "'v obj \<Rightarrow> 'v obj \<Rightarrow> 'v obj" where
  "spread a b = fold (\<lambda>(k, v). AList.update k v) b a"

record 'v kv =
  kv_cache :: "'v obj"
  kv_pending :: "'v obj"
  kv_loaded :: bool
  kv_generation :: nat
  kv_refused :: "string option"

definition CONTENDED_ATTEMPTS :: nat where
  "CONTENDED_ATTEMPTS = 3"

definition createFileKeyValueStore :: "'v kv" where
  "createFileKeyValueStore =
     \<lparr>kv_cache = [], kv_pending = [], kv_loaded = False, kv_generation = 0, kv_refused = None\<rparr>"

fun parseMap :: "(string \<Rightarrow> 'v json option) \<Rightarrow> store_file_read \<Rightarrow> 'v obj" where
  "parseMap parse (RdText c) = (case parse c of Some (JsonObject fs) \<Rightarrow> fs | _ \<Rightarrow> [])"
| "parseMap parse _ = []"

fun refusal :: "store_file_read \<Rightarrow> string option" where
  "refusal RdToolarge = Some ''it is too large to read''"
| "refusal (RdUnreadable r) = Some (''it could not be read: '' @ r)"
| "refusal _ = None"

definition kv_set :: "string \<Rightarrow> 'v \<Rightarrow> 'v kv \<Rightarrow> 'v kv" where
  "kv_set k v s = s\<lparr>kv_pending := AList.update k v (kv_pending s)\<rparr>"

text \<open>What \<open>get\<close> answers once \<open>load\<close> has resolved; an absent key is \<^const>\<open>None\<close>.\<close>

definition kv_get :: "string \<Rightarrow> 'v kv \<Rightarrow> 'v option" where
  "kv_get k s = (case map_of (kv_pending s) k of Some v \<Rightarrow> Some v | None \<Rightarrow> map_of (kv_cache s) k)"

definition invalidate :: "'v kv \<Rightarrow> 'v kv" where
  "invalidate s = s\<lparr>kv_generation := kv_generation s + 1, kv_loaded := False, kv_cache := [], kv_refused := None\<rparr>"

text \<open>The end of \<open>fill\<close>: the bytes are installed, and trusted unless the file changed meanwhile.\<close>

definition fill_install :: "(string \<Rightarrow> 'v json option) \<Rightarrow> nat \<Rightarrow> store_file_read \<Rightarrow> 'v kv \<Rightarrow> 'v kv" where
  "fill_install parse gen read s =
     s\<lparr>kv_cache := parseMap parse read, kv_refused := refusal read, kv_loaded := (gen = kv_generation s)\<rparr>"

text \<open>The end of \<open>save\<close>: what was written is what the file says, and what changed since stays pending.\<close>

definition save_assign :: "'v obj \<Rightarrow> 'v kv \<Rightarrow> 'v kv" where
  "save_assign writing s =
     s\<lparr>kv_cache := spread (kv_cache s) writing,
       kv_pending := filter (\<lambda>(k, v). map_of writing k \<noteq> Some v) (kv_pending s)\<rparr>"

section \<open>Starting up\<close>

text \<open>The first \<open>get\<close>, while nothing else runs: one turn of \<open>fill\<close>, or the rejection of the path.\<close>

definition load_first ::
  "faults \<Rightarrow> string \<Rightarrow> (string \<Rightarrow> 'v json option) \<Rightarrow> string \<Rightarrow> file_system \<Rightarrow> (string + 'v kv) \<times> file_system" where
  "load_first os d parse fileName w =
     (case fs_dir os d w of
        (Inl e, w1) \<Rightarrow> (Inl e, w1)
      | (Inr dir, w1) \<Rightarrow>
        (let (read, w2) = fs_read os (fst (storeFilePaths dir fileName)) w1
         in (Inr (fill_install parse 0 read createFileKeyValueStore), w2)))"

record 'v started =
  sd_verdict :: "store_file_state \<times> bool"
  sd_notice :: "store_recovery option"
  sd_kv :: "'v kv"

definition join_notes :: "string list \<Rightarrow> string" where
  "join_notes ns = concat (case ns of [] \<Rightarrow> [] | x # xs \<Rightarrow> x # map (\<lambda>y. ''; '' @ y) xs)"

text \<open>\<open>initialize\<close>; \<open>listening\<close> is the message with which the subscription was refused, if it was.\<close>

definition initialize ::
  "faults \<Rightarrow> string \<Rightarrow> (string \<Rightarrow> 'v json option) \<Rightarrow> string \<Rightarrow> string option \<Rightarrow> file_system \<Rightarrow> 'v started \<times> file_system" where
  "initialize os d parse fileName listening w =
     (let (r, w1) = recoverStoreFile os d parse fileName w;
          notes1 = (case sr_note r of None \<Rightarrow> [] | Some n \<Rightarrow> [n]);
          notes2 = (case listening of None \<Rightarrow> []
                    | Some e \<Rightarrow> [fileName @ '' will not see other windows' changes: '' @ e]);
          (l, w2) = load_first os d parse fileName w1
      in case l of
        Inl e \<Rightarrow>
          (\<lparr>sd_verdict = (sr_found r, sr_recovered r),
             sd_notice = Some \<lparr>sr_found = sr_found r, sr_recovered = sr_recovered r,
               sr_note = Some (join_notes (notes1 @ notes2 @ [fileName @ '' could not be loaded: '' @ e]))\<rparr>,
             sd_kv = createFileKeyValueStore\<rparr>, w2)
      | Inr kv \<Rightarrow>
          (let (sn, w3) = snapshotStoreFile os d parse fileName w2;
               notes = notes1 @ notes2 @ (case ss_note sn of None \<Rightarrow> [] | Some n \<Rightarrow> [n])
           in (\<lparr>sd_verdict = (sr_found r, sr_recovered r),
                sd_notice = (if notes = [] then None else Some \<lparr>sr_found = sr_found r, sr_recovered = sr_recovered r,
                  sr_note = Some (join_notes notes)\<rparr>),
                sd_kv = kv\<rparr>, w3)))"

text \<open>Adding to the notice slot after startup, and the pass after a save.\<close>

definition addNote :: "string \<Rightarrow> store_recovery option \<Rightarrow> store_recovery option" where
  "addNote note notice =
     (case notice of
        None \<Rightarrow> Some \<lparr>sr_found = SfOk, sr_recovered = False, sr_note = Some note\<rparr>
      | Some n \<Rightarrow> Some (n\<lparr>sr_note := Some (case sr_note n of
          Some old \<Rightarrow> if old \<noteq> [] then old @ ''; '' @ note else note | None \<Rightarrow> note)\<rparr>))"

record notice_slot =
  ns_notice :: "store_recovery option"
  ns_reported :: "string option"

definition snapshotAfterSave ::
  "faults \<Rightarrow> string \<Rightarrow> (string \<Rightarrow> 'v json option) \<Rightarrow> string \<Rightarrow> notice_slot \<Rightarrow> file_system \<Rightarrow> notice_slot \<times> file_system" where
  "snapshotAfterSave os d parse fileName slot w =
     (let (sn, w1) = snapshotStoreFile os d parse fileName w in
      case ss_note sn of
        None \<Rightarrow> (slot\<lparr>ns_reported := None\<rparr>, w1)
      | Some note \<Rightarrow>
        (if ns_reported slot = Some note then (slot, w1)
         else (slot\<lparr>ns_reported := Some note, ns_notice := addNote note (ns_notice slot)\<rparr>, w1)))"

definition takeRecoveryNotice :: "notice_slot \<Rightarrow> store_recovery option \<times> notice_slot" where
  "takeRecoveryNotice slot = (ns_notice slot, slot\<lparr>ns_notice := None\<rparr>)"

section \<open>Reads and saves in flight\<close>

datatype fill_task = NoFill | FillWait nat nat | FillGot nat nat store_file_read

datatype 'v save_task =
    SvIdle | SvLoading nat | SvPath nat nat "'v obj" string | SvWriting "'v obj" string | SvLanded "'v obj"

text \<open>
  A store of one window: the files, the store in memory, the read and the save in flight. Ghost fields:
  the last value this session set for each key, the files it wrote, and all contents the primary ever had.
\<close>

record 'v store =
  st_fs :: file_system
  st_kv :: "'v kv"
  st_fill :: fill_task
  st_save :: "'v save_task"
  st_last :: "string \<Rightarrow> 'v option"
  st_written :: "string list"
  st_history :: "string list"

definition begin_fill :: "'v store \<Rightarrow> 'v store" where
  "begin_fill s = (if st_fill s = NoFill then s\<lparr>st_fill := FillWait (kv_generation (st_kv s)) 1\<rparr> else s)"

text \<open>From the end of \<open>await load()\<close> to the next await: refuse, or build the payload.\<close>

definition build :: "('v obj \<Rightarrow> string) \<Rightarrow> nat \<Rightarrow> 'v store \<Rightarrow> 'v store" where
  "build render attempt s =
     (case kv_refused (st_kv s) of
        Some _ \<Rightarrow> s\<lparr>st_save := SvIdle\<rparr>
      | None \<Rightarrow>
        s\<lparr>st_save := SvPath (kv_generation (st_kv s)) attempt (kv_pending (st_kv s))
            (render (spread (kv_cache (st_kv s)) (kv_pending (st_kv s))))\<rparr>)"

text \<open>A turn of the loop of \<open>save\<close>, up to its first pending await.\<close>

definition save_turn :: "('v obj \<Rightarrow> string) \<Rightarrow> nat \<Rightarrow> 'v store \<Rightarrow> 'v store" where
  "save_turn render attempt s =
     (if kv_loaded (st_kv s) then build render attempt s else begin_fill (s\<lparr>st_save := SvLoading attempt\<rparr>))"

fun fill_fails :: "'v store \<Rightarrow> 'v store" where
  "fill_fails s = s\<lparr>st_fill := NoFill, st_save := (case st_save s of SvLoading _ \<Rightarrow> SvIdle | t \<Rightarrow> t)\<rparr>"

definition fill_observes :: "faults \<Rightarrow> string \<Rightarrow> nat \<Rightarrow> nat \<Rightarrow> 'v store \<Rightarrow> 'v store" where
  "fill_observes os primary gen attempt s =
     (let (r, w) = fs_read os primary (st_fs s) in s\<lparr>st_fs := w, st_fill := FillGot gen attempt r\<rparr>)"

definition fill_resumes ::
  "(string \<Rightarrow> 'v json option) \<Rightarrow> ('v obj \<Rightarrow> string) \<Rightarrow> nat \<Rightarrow> nat \<Rightarrow> store_file_read \<Rightarrow> 'v store \<Rightarrow> 'v store" where
  "fill_resumes parse render gen attempt read s =
     (if gen \<noteq> kv_generation (st_kv s) \<and> attempt < CONTENDED_ATTEMPTS
      then s\<lparr>st_fill := FillWait (kv_generation (st_kv s)) (attempt + 1)\<rparr>
      else let s' = s\<lparr>st_fill := NoFill, st_kv := fill_install parse gen read (st_kv s)\<rparr> in
        case st_save s' of SvLoading n \<Rightarrow> build render n s' | _ \<Rightarrow> s')"

definition path_resolves :: "('v obj \<Rightarrow> string) \<Rightarrow> nat \<Rightarrow> nat \<Rightarrow> 'v obj \<Rightarrow> string \<Rightarrow> 'v store \<Rightarrow> 'v store" where
  "path_resolves render gen attempt writing payload s =
     (if gen \<noteq> kv_generation (st_kv s) \<and> attempt < CONTENDED_ATTEMPTS then save_turn render (attempt + 1) s
      else s\<lparr>st_save := SvWriting writing payload\<rparr>)"

definition write_lands :: "faults \<Rightarrow> string \<Rightarrow> 'v obj \<Rightarrow> string \<Rightarrow> 'v store \<Rightarrow> 'v store" where
  "write_lands os primary writing payload s =
     (case fs_write os primary payload (st_fs s) of
        (Inl _, w) \<Rightarrow> s\<lparr>st_fs := w, st_save := SvIdle\<rparr>
      | (Inr _, w) \<Rightarrow> s\<lparr>st_fs := w, st_save := SvLanded writing, st_written := payload # st_written s,
          st_history := payload # st_history s\<rparr>)"

definition save_resumes :: "'v obj \<Rightarrow> 'v store \<Rightarrow> 'v store" where
  "save_resumes writing s = s\<lparr>st_kv := save_assign writing (st_kv s), st_save := SvIdle\<rparr>"

end
