(* ===== verification/Store_File_Run.thy ===== *)
theory Store_File_Run
  imports Store_File
begin

text \<open>
  The store file over time. \<open>store_step\<close> has the moves of one running window and of its peers;
  \<open>life_step\<close> adds crashes (the process is started again on whatever the disk holds) and files torn by a
  power cut. Every backend call may fail: each step picks its own pattern of failures.
\<close>

section \<open>Assumptions about the surroundings\<close>

text \<open>
  \<open>JSON.stringify\<close> and \<open>JSON.parse\<close>: an object reads back as it was, its text is neither blank nor NUL,
  and a parsed object has each key once.
\<close>

definition json_ok :: "(string \<Rightarrow> 'v json option) \<Rightarrow> ('v obj \<Rightarrow> string) \<Rightarrow> bool" where
  "json_ok parse render \<longleftrightarrow>
     (\<forall>m. distinct (map fst m) \<longrightarrow> parse (render m) = Some (JsonObject m) \<and> inspect parse (RdText (render m)) = SfOk)
     \<and> (\<forall>c fs. parse c = Some (JsonObject fs) \<longrightarrow> distinct (map fst fs))"

text \<open>A call that fails on a file that is there does not report that there is none.\<close>

definition honest :: "faults \<Rightarrow> bool" where
  "honest os \<longleftrightarrow> (\<forall>n m. os n = Some m \<longrightarrow> classifyReadFailure m \<noteq> RdMissing)"

section \<open>One window running\<close>

definition at_primary :: "string \<times> string \<Rightarrow> 'v store \<Rightarrow> disk_file option" where
  "at_primary paths s = fs_files (st_fs s) (fst paths)"

definition at_snapshot :: "string \<times> string \<Rightarrow> 'v store \<Rightarrow> disk_file option" where
  "at_snapshot paths s = fs_files (st_fs s) (snd paths)"

text \<open>Another window replaces the file by a rendered object with property \<open>peer\<close>.\<close>

definition peer_commit :: "('v obj \<Rightarrow> string) \<Rightarrow> string \<times> string \<Rightarrow> 'v obj \<Rightarrow> 'v store \<Rightarrow> 'v store" where
  "peer_commit render paths m s =
     s\<lparr>st_fs := (st_fs s)\<lparr>fs_files := (fs_files (st_fs s))(fst paths \<mapsto> TextFile (render m))\<rparr>,
       st_history := render m # st_history s\<rparr>"

inductive store_step ::
  "(string \<Rightarrow> 'v json option) \<Rightarrow> ('v obj \<Rightarrow> string) \<Rightarrow> string \<Rightarrow> string \<Rightarrow> ('v obj \<Rightarrow> bool) \<Rightarrow> 'v store \<Rightarrow> 'v store \<Rightarrow> bool"
  for parse render d fileName peer where
  step_set: "store_step parse render d fileName peer s
     (s\<lparr>st_kv := kv_set k v (st_kv s), st_last := (st_last s)(k \<mapsto> v)\<rparr>)"
| step_get: "\<not> kv_loaded (st_kv s) \<Longrightarrow> store_step parse render d fileName peer s (begin_fill s)"
| step_event: "store_step parse render d fileName peer s (s\<lparr>st_kv := invalidate (st_kv s)\<rparr>)"
| step_peer: "peer m \<Longrightarrow> distinct (map fst m) \<Longrightarrow>
     store_step parse render d fileName peer s (peer_commit render (storeFilePaths d fileName) m s)"
| step_fill_fails: "st_fill s = FillWait gen n \<Longrightarrow> store_step parse render d fileName peer s (fill_fails s)"
| step_observes: "honest os \<Longrightarrow> st_fill s = FillWait gen n \<Longrightarrow>
     store_step parse render d fileName peer s (fill_observes os (fst (storeFilePaths d fileName)) gen n s)"
| step_resumes: "st_fill s = FillGot gen n r \<Longrightarrow>
     store_step parse render d fileName peer s (fill_resumes parse render gen n r s)"
| step_save: "st_save s = SvIdle \<Longrightarrow> store_step parse render d fileName peer s (save_turn render 1 s)"
| step_path_fails: "st_save s = SvPath gen n wr p \<Longrightarrow> store_step parse render d fileName peer s (s\<lparr>st_save := SvIdle\<rparr>)"
| step_path: "st_save s = SvPath gen n wr p \<Longrightarrow>
     store_step parse render d fileName peer s (path_resolves render gen n wr p s)"
| step_lands: "st_save s = SvWriting wr p \<Longrightarrow>
     store_step parse render d fileName peer s (write_lands os (fst (storeFilePaths d fileName)) wr p s)"
| step_saved: "st_save s = SvLanded wr \<Longrightarrow> store_step parse render d fileName peer s (save_resumes wr s)"
| step_snapshot: "store_step parse render d fileName peer s
     (s\<lparr>st_fs := snd (snapshotAfterSave os d parse fileName slot (st_fs s))\<rparr>)"

section \<open>Crashes and torn files\<close>

definition relaunch ::
  "faults \<Rightarrow> string \<Rightarrow> (string \<Rightarrow> 'v json option) \<Rightarrow> string \<Rightarrow> string option \<Rightarrow> 'v store \<Rightarrow> 'v store" where
  "relaunch os d parse fileName listening s =
     (let (sd, w) = initialize os d parse fileName listening (st_fs s) in
      s\<lparr>st_fs := w, st_kv := sd_kv sd, st_fill := NoFill, st_save := SvIdle, st_last := Map.empty, st_written := []\<rparr>)"

definition tear :: "string \<times> string \<Rightarrow> disk_file option \<Rightarrow> 'v store \<Rightarrow> 'v store" where
  "tear paths f s = s\<lparr>st_fs := (st_fs s)\<lparr>fs_files := (fs_files (st_fs s))(fst paths := f)\<rparr>\<rparr>"

inductive life_step ::
  "(string \<Rightarrow> 'v json option) \<Rightarrow> ('v obj \<Rightarrow> string) \<Rightarrow> string \<Rightarrow> string \<Rightarrow> ('v obj \<Rightarrow> bool) \<Rightarrow> 'v store \<Rightarrow> 'v store \<Rightarrow> bool"
  for parse render d fileName peer where
  life_run: "store_step parse render d fileName peer s t \<Longrightarrow> life_step parse render d fileName peer s t"
| life_crash: "life_step parse render d fileName peer s (relaunch os d parse fileName listening s)"
| life_tear: "\<not> good parse f \<Longrightarrow> f \<noteq> Some LargeFile \<Longrightarrow>
     life_step parse render d fileName peer s (tear (storeFilePaths d fileName) f s)"

section \<open>Objects\<close>

lemma keys_update: "fst ` set (AList.update k v m) = insert k (fst ` set m)"
  by (induction m) auto

lemma spread_Nil [simp]: "spread a [] = a"
  by (simp add: spread_def)

lemma spread_Cons [simp]: "spread a ((k, v) # b) = spread (AList.update k v a) b"
  by (simp add: spread_def)

lemma keys_spread: "fst ` set (spread a b) = fst ` set a \<union> fst ` set b"
proof (induction b arbitrary: a)
  case (Cons x b)
  then show ?case by (cases x) (simp add: keys_update)
qed simp

lemma distinct_spread: "distinct (map fst a) \<Longrightarrow> distinct (map fst (spread a b))"
  by (induction b arbitrary: a) (auto simp: distinct_update)

lemma map_of_spread: "distinct (map fst b) \<Longrightarrow> map_of (spread a b) k = (case map_of b k of Some v \<Rightarrow> Some v | None \<Rightarrow> map_of a k)"
proof (induction b arbitrary: a)
  case (Cons x b)
  have "map_of b (fst x) = None" using Cons.prems by (simp add: map_of_eq_None_iff)
  then show ?case using Cons by (cases x) (auto simp: update_conv split: option.splits)
qed simp

lemma json_okD:
  "json_ok parse render \<Longrightarrow> distinct (map fst m) \<Longrightarrow> parse (render m) = Some (JsonObject m)"
  "json_ok parse render \<Longrightarrow> distinct (map fst m) \<Longrightarrow> inspect parse (RdText (render m)) = SfOk"
  "json_ok parse render \<Longrightarrow> parse c = Some (JsonObject fs) \<Longrightarrow> distinct (map fst fs)"
  by (auto simp: json_ok_def)

lemma good_render: "json_ok parse render \<Longrightarrow> distinct (map fst m) \<Longrightarrow> good parse (Some (TextFile (render m)))"
  by (simp add: good_def json_okD)

lemma distinct_parseMap: "json_ok parse render \<Longrightarrow> distinct (map fst (parseMap parse r))"
  by (cases r) (auto simp: json_okD split: option.splits json.splits)

section \<open>No save loses a key\<close>

text \<open>A file whose object has the key.\<close>

definition has_key :: "(string \<Rightarrow> 'v json option) \<Rightarrow> string \<Rightarrow> disk_file option \<Rightarrow> bool" where
  "has_key parse k f \<longleftrightarrow> (\<exists>c fs. f = Some (TextFile c) \<and> inspect parse (RdText c) = SfOk
     \<and> parse c = Some (JsonObject fs) \<and> k \<in> fst ` set fs)"

fun save_carries :: "(string \<Rightarrow> 'v json option) \<Rightarrow> string \<Rightarrow> 'v save_task \<Rightarrow> bool" where
  "save_carries parse k (SvPath gen n wr p) = has_key parse k (Some (TextFile p))"
| "save_carries parse k (SvWriting wr p) = has_key parse k (Some (TextFile p))"
| "save_carries parse k _ = True"

definition keeps_key :: "(string \<Rightarrow> 'v json option) \<Rightarrow> string \<times> string \<Rightarrow> string \<Rightarrow> 'v store \<Rightarrow> bool" where
  "keeps_key parse paths k s \<longleftrightarrow> has_key parse k (at_primary paths s)
     \<and> (kv_loaded (st_kv s) \<longrightarrow> kv_refused (st_kv s) = None \<longrightarrow> k \<in> fst ` set (kv_cache (st_kv s)))
     \<and> (\<forall>gen n r. st_fill s = FillGot gen n r \<longrightarrow> refusal r = None \<longrightarrow> k \<in> fst ` set (parseMap parse r))
     \<and> save_carries parse k (st_save s)"

text \<open>The objects in memory have each key once.\<close>

definition distinct_kv :: "'v kv \<Rightarrow> bool" where
  "distinct_kv kv \<longleftrightarrow> distinct (map fst (kv_cache kv)) \<and> distinct (map fst (kv_pending kv))"

definition distinct_store :: "'v store \<Rightarrow> bool" where
  "distinct_store s \<longleftrightarrow> distinct_kv (st_kv s) \<and> (\<forall>gen n wr p. st_save s = SvPath gen n wr p \<longrightarrow> distinct (map fst wr))
     \<and> (\<forall>wr p. st_save s = SvWriting wr p \<longrightarrow> distinct (map fst wr))
     \<and> (\<forall>wr. st_save s = SvLanded wr \<longrightarrow> distinct (map fst wr))"

text \<open>A value set in this session is still pending, or a file this session wrote says it.\<close>

definition file_says :: "(string \<Rightarrow> 'v json option) \<Rightarrow> string \<Rightarrow> string \<Rightarrow> 'v \<Rightarrow> bool" where
  "file_says parse c k v \<longleftrightarrow> (\<exists>fs. parse c = Some (JsonObject fs) \<and> map_of fs k = Some v)"

definition kept_sets :: "(string \<Rightarrow> 'v json option) \<Rightarrow> 'v store \<Rightarrow> bool" where
  "kept_sets parse s \<longleftrightarrow>
     (\<forall>k v. st_last s k = Some v \<longrightarrow> map_of (kv_pending (st_kv s)) k = Some v \<or> (\<exists>c \<in> set (st_written s). file_says parse c k v))
     \<and> (\<forall>wr. st_save s = SvLanded wr \<longrightarrow> (\<forall>k v. map_of wr k = Some v \<longrightarrow> (\<exists>c \<in> set (st_written s). file_says parse c k v)))
     \<and> (\<forall>gen n wr p. st_save s = SvPath gen n wr p \<or> st_save s = SvWriting wr p \<longrightarrow>
          (\<forall>k v. map_of wr k = Some v \<longrightarrow> file_says parse p k v))"

lemmas store_defs = kv_set_def invalidate_def fill_install_def save_assign_def begin_fill_def save_resumes_def

lemma distinct_filter_fst: "distinct (map fst m) \<Longrightarrow> distinct (map fst (filter P m))"
  by (induction m) auto

lemma distinct_step:
  assumes "json_ok parse render" and "store_step parse render d f peer s t" and "distinct_store s"
  shows "distinct_store t"
  using assms(2,3)
proof (cases rule: store_step.cases)
  case (step_resumes gen n r)
  then show ?thesis using assms(3) distinct_parseMap [OF assms(1)]
    by (auto simp: distinct_store_def distinct_kv_def fill_resumes_def fill_install_def build_def Let_def
        split: save_task.splits option.splits)
next
  case (step_save)
  then show ?thesis using assms(3)
    by (auto simp: distinct_store_def distinct_kv_def save_turn_def build_def begin_fill_def split: option.splits)
next
  case (step_path gen n wr p)
  then show ?thesis using assms(3)
    by (auto simp: distinct_store_def distinct_kv_def path_resolves_def save_turn_def build_def begin_fill_def split: option.splits)
next
  case (step_lands wr p os)
  then show ?thesis using assms(3)
    by (auto simp: distinct_store_def distinct_kv_def write_lands_def split: prod.splits sum.splits)
qed (auto simp: distinct_store_def distinct_kv_def store_defs distinct_update distinct_spread distinct_filter_fst
      peer_commit_def fill_observes_def Let_def split: prod.splits save_task.splits)

lemma has_key_render:
  "json_ok parse render \<Longrightarrow> distinct (map fst m) \<Longrightarrow> k \<in> fst ` set m \<Longrightarrow> has_key parse k (Some (TextFile (render m)))"
  by (auto simp: has_key_def json_okD)

text \<open>What \<open>build\<close> sends has the key, once the cache has it.\<close>

lemma build_carries:
  assumes "json_ok parse render" and "distinct_kv (st_kv s)"
    and "kv_refused (st_kv s) = None \<Longrightarrow> k \<in> fst ` set (kv_cache (st_kv s))"
  shows "save_carries parse k (st_save (build render n s))"
  using assms by (auto simp: build_def distinct_kv_def keys_spread distinct_spread has_key_render split: option.splits)

lemma build_frame [simp]:
  "st_fs (build render n s) = st_fs s" "st_kv (build render n s) = st_kv s" "st_fill (build render n s) = st_fill s"
  "st_last (build render n s) = st_last s" "st_written (build render n s) = st_written s"
  "st_history (build render n s) = st_history s"
  by (simp_all add: build_def split: option.splits)

lemma build_save [simp]: "st_save (build render n s) \<noteq> SvLanded wr" "st_save (build render n s) \<noteq> SvWriting wr p"
  by (simp_all add: build_def split: option.splits)

lemma begin_fill_frame [simp]:
  "st_fs (begin_fill s) = st_fs s" "st_kv (begin_fill s) = st_kv s" "st_save (begin_fill s) = st_save s"
  "st_last (begin_fill s) = st_last s" "st_written (begin_fill s) = st_written s" "st_history (begin_fill s) = st_history s"
  by (simp_all add: begin_fill_def)

lemma begin_fill_got [simp]: "st_fill (begin_fill s) = FillGot gen n r \<longleftrightarrow> st_fill s = FillGot gen n r"
  by (simp add: begin_fill_def)

lemma save_turn_frame [simp]:
  "st_fs (save_turn render n s) = st_fs s" "st_kv (save_turn render n s) = st_kv s"
  "st_fill (save_turn render n s) = FillGot gen i r \<longleftrightarrow> st_fill s = FillGot gen i r"
  "st_last (save_turn render n s) = st_last s" "st_written (save_turn render n s) = st_written s"
  "st_history (save_turn render n s) = st_history s"
  by (simp_all add: save_turn_def begin_fill_def)

lemma save_turn_carries:
  assumes "json_ok parse render" and "distinct_kv (st_kv s)" and "keeps_key parse paths k s"
  shows "save_carries parse k (st_save (save_turn render n s))"
  using assms(3) build_carries [OF assms(1,2), of k n] by (auto simp: save_turn_def keeps_key_def)

text \<open>A read shows the key or says why nothing was seen.\<close>

lemma read_shows_key:
  assumes "honest os" and "has_key parse k (fs_files w p)" and "fs_read os p w = (r, w')" and "refusal r = None"
  shows "k \<in> fst ` set (parseMap parse r)"
proof (cases "os (fs_calls w)")
  case None
  then show ?thesis using assms by (auto simp: fs_read_def has_key_def)
next
  case (Some m)
  then have "r = classifyReadFailure m" "classifyReadFailure m \<noteq> RdMissing" using assms(1,3) by (auto simp: fs_read_def honest_def)
  then show ?thesis using assms(4) by (auto simp: classifyReadFailure_def split: if_splits)
qed

lemma snapshot_keeps_primary:
  "fs_files (snd (snapshotAfterSave os d parse f slot w)) (fst (storeFilePaths d f)) = fs_files w (fst (storeFilePaths d f))"
proof -
  obtain r w' where r: "snapshotStoreFile os d parse f w = (r, w')" by fastforce
  obtain p q where pq: "storeFilePaths d f = (p, q)" by fastforce
  have "p \<noteq> q" using paths_differ [of d f] pq by simp
  then show ?thesis using snapshotStoreFile_cases [OF r pq] r pq
    by (auto simp: snapshotAfterSave_def Let_def split: option.splits)
qed

lemma key_step:
  assumes "json_ok parse render" and "\<And>m. peer m \<Longrightarrow> k \<in> fst ` set m"
    and "store_step parse render d f peer s t" and "distinct_store s" and "keeps_key parse (storeFilePaths d f) k s"
  shows "keeps_key parse (storeFilePaths d f) k t"
  using assms(3)
proof (cases rule: store_step.cases)
  case (step_peer m)
  then show ?thesis using assms(2,5) has_key_render [OF assms(1)]
    by (auto simp: keeps_key_def peer_commit_def at_primary_def)
next
  case (step_observes os gen n)
  obtain r w where r: "fs_read os (fst (storeFilePaths d f)) (st_fs s) = (r, w)" by fastforce
  show ?thesis using step_observes assms(5) r fs_read_files [OF r] read_shows_key [OF step_observes(2) _ r]
    by (auto simp: keeps_key_def fill_observes_def at_primary_def)
next
  case (step_resumes gen n r)
  let ?s = "s\<lparr>st_fill := NoFill, st_kv := fill_install parse gen r (st_kv s)\<rparr>"
  have d: "distinct_kv (st_kv ?s)"
    using assms(4) distinct_parseMap [OF assms(1)] by (simp add: distinct_store_def distinct_kv_def fill_install_def)
  have "k \<in> fst ` set (kv_cache (st_kv ?s))" if "kv_refused (st_kv ?s) = None"
    using that assms(5) step_resumes(2) by (auto simp: keeps_key_def fill_install_def)
  then show ?thesis using step_resumes assms(5) build_carries [OF assms(1) d, of k]
    by (auto simp: keeps_key_def fill_resumes_def at_primary_def Let_def split: save_task.splits)
next
  case step_save
  have d: "distinct_kv (st_kv s)" using assms(4) by (simp add: distinct_store_def)
  show ?thesis using step_save assms(5) save_turn_carries [OF assms(1) d assms(5), of 1]
    by (auto simp: keeps_key_def at_primary_def)
next
  case (step_path gen n wr p)
  have d: "distinct_kv (st_kv s)" using assms(4) by (simp add: distinct_store_def)
  show ?thesis using step_path assms(5) save_turn_carries [OF assms(1) d assms(5), of "n + 1"]
    by (auto simp: keeps_key_def at_primary_def path_resolves_def)
next
  case (step_lands wr p os)
  obtain r w where r: "fs_write os (fst (storeFilePaths d f)) p (st_fs s) = (r, w)" by fastforce
  show ?thesis using step_lands assms(5) r fs_write_cases [OF r]
    by (auto simp: keeps_key_def at_primary_def write_lands_def)
next
  case (step_snapshot os slot)
  then show ?thesis using assms(5) by (simp add: keeps_key_def at_primary_def snapshot_keeps_primary)
qed (use assms(5) in \<open>auto simp: keeps_key_def at_primary_def store_defs keys_spread split: save_task.splits\<close>)

text \<open>No value set in this session is lost.\<close>

lemma fill_install_pending [simp]: "kv_pending (fill_install parse gen r s) = kv_pending s"
  by (simp add: fill_install_def)

lemma build_says:
  assumes "json_ok parse render" and "distinct_kv (st_kv s)"
    and "st_save (build render n s) = SvPath gen m wr p" and "map_of wr k = Some v"
  shows "file_says parse p k v"
  using assms by (auto simp: build_def distinct_kv_def file_says_def json_okD distinct_spread map_of_spread split: option.splits)

lemma sets_step:
  assumes "json_ok parse render" and "store_step parse render d f peer s t" and "distinct_store s" and "kept_sets parse s"
  shows "kept_sets parse t"
  using assms(2)
proof (cases rule: store_step.cases)
  case (step_resumes gen n r)
  let ?s = "\<lambda>g. s\<lparr>st_fill := NoFill, st_kv := fill_install parse g r (st_kv s)\<rparr>"
  have d: "distinct_kv (st_kv (?s g))" for g
    using assms(3) distinct_parseMap [OF assms(1)] by (simp add: distinct_store_def distinct_kv_def fill_install_def)
  show ?thesis using step_resumes assms(4)
    by (auto simp: kept_sets_def fill_resumes_def Let_def dest: build_says [OF assms(1) d] split: save_task.splits)
next
  case step_save
  have d: "distinct_kv (st_kv s)" using assms(3) by (simp add: distinct_store_def)
  show ?thesis using step_save assms(4)
    by (auto simp: kept_sets_def save_turn_def dest: build_says [OF assms(1) d])
next
  case (step_path gen n wr p)
  have d: "distinct_kv (st_kv s)" using assms(3) by (simp add: distinct_store_def)
  show ?thesis using step_path assms(4)
    by (auto simp: kept_sets_def path_resolves_def save_turn_def dest: build_says [OF assms(1) d])
next
  case (step_lands wr p os)
  then show ?thesis using assms(4) by (auto simp: kept_sets_def write_lands_def split: prod.splits sum.splits)
next
  case (step_saved wr)
  have "distinct (map fst (kv_pending (st_kv s)))" using assms(3) by (simp add: distinct_store_def distinct_kv_def)
  then have keep: "map_of (filter (\<lambda>(k, v). map_of wr k \<noteq> Some v) (kv_pending (st_kv s))) k = Some v"
    if "map_of (kv_pending (st_kv s)) k = Some v" "map_of wr k \<noteq> Some v" for k v
    using that by (auto simp: map_of_eq_Some_iff distinct_filter_fst)
  have "map_of (filter (\<lambda>(k, v). map_of wr k \<noteq> Some v) (kv_pending (st_kv s))) k = Some v
      \<or> (\<exists>c \<in> set (st_written s). file_says parse c k v)" if "st_last s k = Some v" for k v
  proof (cases "map_of wr k = Some v")
    case True
    then show ?thesis using assms(4) step_saved(2) by (auto simp: kept_sets_def)
  next
    case False
    then show ?thesis using assms(4) that keep by (auto simp: kept_sets_def)
  qed
  then show ?thesis using step_saved by (auto simp: kept_sets_def save_resumes_def save_assign_def)
qed (use assms(4) in \<open>auto simp: kept_sets_def store_defs update_conv peer_commit_def fill_observes_def
      Let_def split: prod.splits save_task.splits\<close>)

end
