(* ===== verification/Store_File_Orderly.thy ===== *)
theory Store_File_Orderly
  imports Store_File_Run
begin

text \<open>
  When the store file is exact. Another window's update can be lost in three ways, all of which
  \<^verbatim>\<open>fileKeyValueStore.ts\<close> leaves open or says it accepts: a write of this window is under way, or begun,
  when the peer's commit has not been heard of yet; three attempts in a row find the file changed; and
  a read of the old bytes is answered after a write. \<open>orderly_step\<close> has every other interleaving. In
  those runs a write replaces exactly the file that is there, so the two checks of the generation leave
  no other race.
\<close>

section \<open>Orderly runs\<close>

text \<open>The file, the payload of a write and the object in memory as maps.\<close>

definition file_map :: "(string \<Rightarrow> 'v json option) \<Rightarrow> string \<times> string \<Rightarrow> 'v store \<Rightarrow> string \<rightharpoonup> 'v" where
  "file_map parse paths s =
     (case at_primary paths s of Some (TextFile c) \<Rightarrow> map_of (parseMap parse (RdText c)) | _ \<Rightarrow> Map.empty)"

definition payload_map :: "(string \<Rightarrow> 'v json option) \<Rightarrow> string \<Rightarrow> string \<rightharpoonup> 'v" where
  "payload_map parse p = map_of (parseMap parse (RdText p))"

fun landed :: "'v save_task \<Rightarrow> bool" where
  "landed (SvLanded wr) = True"
| "landed _ = False"

fun writing_now :: "'v save_task \<Rightarrow> bool" where
  "writing_now (SvWriting wr p) = True"
| "writing_now (SvLanded wr) = True"
| "writing_now _ = False"

text \<open>No read and no save has found the file changed as often as it may try.\<close>

definition uncontended :: "'v store \<Rightarrow> bool" where
  "uncontended s \<longleftrightarrow>
     (\<forall>gen n r. st_fill s = FillGot gen n r \<longrightarrow> gen \<noteq> kv_generation (st_kv s) \<longrightarrow> n < CONTENDED_ATTEMPTS)
     \<and> (\<forall>gen n wr p. st_save s = SvPath gen n wr p \<longrightarrow> gen \<noteq> kv_generation (st_kv s) \<longrightarrow> n < CONTENDED_ATTEMPTS)"

text \<open>
  A turn of this window from \<open>s\<close> to \<open>t\<close> while \<open>unheard\<close> change events are on their way: a write begins only
  when there are none, and lands only when no read that will be trusted holds older bytes.
\<close>

definition well_timed :: "'v store \<Rightarrow> nat \<Rightarrow> 'v store \<Rightarrow> bool" where
  "well_timed s unheard t \<longleftrightarrow> uncontended s
     \<and> (writing_now (st_save t) \<and> \<not> writing_now (st_save s) \<longrightarrow> unheard = 0)
     \<and> (landed (st_save t) \<and> \<not> landed (st_save s) \<longrightarrow> (\<forall>n r. st_fill s \<noteq> FillGot (kv_generation (st_kv s)) n r))"

text \<open>
  The peers commit any object, but not while a write of this window is under way; each commit is
  followed by its change event, after any number of other turns. Change events that stand for no
  commit of a peer are turns of this window.
\<close>

inductive orderly_step ::
  "(string \<Rightarrow> 'v json option) \<Rightarrow> ('v obj \<Rightarrow> string) \<Rightarrow> string \<Rightarrow> string \<Rightarrow> 'v store \<times> nat \<Rightarrow> 'v store \<times> nat \<Rightarrow> bool"
  for parse render d f where
  ord_own: "store_step parse render d f (\<lambda>m. False) s t \<Longrightarrow> well_timed s unheard t \<Longrightarrow>
     orderly_step parse render d f (s, unheard) (t, unheard)"
| ord_peer: "distinct (map fst m) \<Longrightarrow> \<not> writing_now (st_save s) \<Longrightarrow>
     orderly_step parse render d f (s, unheard) (peer_commit render (storeFilePaths d f) m s, Suc unheard)"
| ord_event: "orderly_step parse render d f (s, Suc unheard) (s\<lparr>st_kv := invalidate (st_kv s)\<rparr>, unheard)"

lemma store_step_mono: "store_step parse render d f p s t \<Longrightarrow> (\<And>m. p m \<Longrightarrow> q m) \<Longrightarrow> store_step parse render d f q s t"
  by (induction rule: store_step.induct) (fast intro: store_step.intros)+

lemma orderly_is_run: "orderly_step parse render d f c c' \<Longrightarrow> store_step parse render d f (\<lambda>m. True) (fst c) (fst c')"
  by (induction rule: orderly_step.induct) (auto intro: store_step_mono step_peer step_event)

section \<open>What an orderly run keeps\<close>

fun task_ok :: "(string \<Rightarrow> 'v json option) \<Rightarrow> (string \<rightharpoonup> 'v) \<Rightarrow> nat \<Rightarrow> 'v save_task \<Rightarrow> bool" where
  "task_ok parse F gen (SvPath g n wr p) = (g = gen \<longrightarrow> payload_map parse p = F ++ map_of wr)"
| "task_ok parse F gen (SvWriting wr p) = (payload_map parse p = F ++ map_of wr)"
| "task_ok parse F gen (SvLanded wr) = (F ++ map_of wr = F)"
| "task_ok parse F gen _ = True"

text \<open>What \<open>save\<close> has written and not yet taken over.\<close>

fun landed_of :: "'v save_task \<Rightarrow> 'v obj" where
  "landed_of (SvLanded wr) = wr"
| "landed_of _ = []"

fun carried_by :: "'v save_task \<Rightarrow> 'v obj" where
  "carried_by (SvPath g n wr p) = wr"
| "carried_by (SvWriting wr p) = wr"
| "carried_by (SvLanded wr) = wr"
| "carried_by _ = []"

text \<open>The store knows the file as it is, in the cache it trusts, the read it will trust and the payload it will write.\<close>

definition up_to_date :: "(string \<Rightarrow> 'v json option) \<Rightarrow> (string \<rightharpoonup> 'v) \<Rightarrow> 'v store \<Rightarrow> bool" where
  "up_to_date parse F s \<longleftrightarrow>
     (kv_loaded (st_kv s) \<longrightarrow> kv_refused (st_kv s) = None \<longrightarrow> map_of (kv_cache (st_kv s)) ++ map_of (landed_of (st_save s)) = F)
     \<and> (\<forall>n r. st_fill s = FillGot (kv_generation (st_kv s)) n r \<longrightarrow> refusal r = None \<longrightarrow> map_of (parseMap parse r) = F)
     \<and> task_ok parse F (kv_generation (st_kv s)) (st_save s)"

definition stamped :: "'v store \<Rightarrow> bool" where
  "stamped s \<longleftrightarrow> (\<forall>g n. st_fill s = FillWait g n \<longrightarrow> g \<le> kv_generation (st_kv s))
     \<and> (\<forall>g n r. st_fill s = FillGot g n r \<longrightarrow> g \<le> kv_generation (st_kv s))
     \<and> (\<forall>g n wr p. st_save s = SvPath g n wr p \<longrightarrow> g \<le> kv_generation (st_kv s))"

definition still_pending :: "'v store \<Rightarrow> bool" where
  "still_pending s \<longleftrightarrow> dom (map_of (carried_by (st_save s))) \<subseteq> dom (map_of (kv_pending (st_kv s)))"

definition orderly_inv ::
  "(string \<Rightarrow> 'v json option) \<Rightarrow> ('v obj \<Rightarrow> string) \<Rightarrow> string \<times> string \<Rightarrow> 'v store \<times> nat \<Rightarrow> bool" where
  "orderly_inv parse render paths c \<longleftrightarrow> json_ok parse render \<and> distinct_store (fst c) \<and> kept_sets parse (fst c)
     \<and> stamped (fst c) \<and> still_pending (fst c) \<and> (writing_now (st_save (fst c)) \<longrightarrow> snd c = 0)
     \<and> (snd c = 0 \<longrightarrow> up_to_date parse (file_map parse paths (fst c)) (fst c))"

lemma spread_map: "distinct (map fst b) \<Longrightarrow> map_of (spread a b) = map_of a ++ map_of b"
  by (auto simp: fun_eq_iff map_of_spread map_add_def)

lemma read_map:
  assumes "honest os" and "fs_read os (fst paths) (st_fs s) = (r, w)" and "refusal r = None"
  shows "map_of (parseMap parse r) = file_map parse paths s"
proof (cases "os (fs_calls (st_fs s))")
  case None
  then show ?thesis using assms
    by (auto simp: fs_read_def file_map_def at_primary_def classifyReadFailure_def split: option.splits disk_file.splits)
next
  case (Some m)
  then have "r = classifyReadFailure m" "classifyReadFailure m \<noteq> RdMissing" using assms(1,2) by (auto simp: fs_read_def honest_def)
  then show ?thesis using assms(3) by (auto simp: classifyReadFailure_def split: if_splits)
qed

text \<open>The payload of \<open>build\<close> is the cache with everything pending over it.\<close>

lemma build_facts:
  "landed_of (st_save (build render n s)) = []" "\<not> writing_now (st_save (build render n s))"
  "dom (map_of (carried_by (st_save (build render n s)))) \<subseteq> dom (map_of (kv_pending (st_kv s)))"
  "st_save (build render n s) = SvPath g m wr p \<Longrightarrow> g = kv_generation (st_kv s)"
  by (auto simp: build_def split: option.splits)

lemma build_task:
  assumes "json_ok parse render" and "distinct_kv (st_kv s)"
    and "kv_refused (st_kv s) = None \<Longrightarrow> map_of (kv_cache (st_kv s)) = F"
  shows "task_ok parse F g (st_save (build render n s))"
  using assms json_okD(1) [OF assms(1), of "spread (kv_cache (st_kv s)) (kv_pending (st_kv s))"]
  by (auto simp: build_def payload_map_def spread_map distinct_kv_def distinct_spread split: option.splits)

lemma save_turn_facts:
  "landed_of (st_save (save_turn render n s)) = []" "\<not> writing_now (st_save (save_turn render n s))"
  "dom (map_of (carried_by (st_save (save_turn render n s)))) \<subseteq> dom (map_of (kv_pending (st_kv s)))"
  "st_save (save_turn render n s) = SvPath g m wr p \<Longrightarrow> g = kv_generation (st_kv s)"
  "st_fill (save_turn render n s) = FillWait g i \<Longrightarrow> st_fill s = FillWait g i \<or> g = kv_generation (st_kv s)"
  using build_facts(3) [of render n s]
  by (auto simp: save_turn_def begin_fill_def build_facts(1,2) dest: build_facts(4) split: if_splits)

lemma save_turn_task:
  assumes "json_ok parse render" and "distinct_kv (st_kv s)"
    and "kv_loaded (st_kv s) \<Longrightarrow> kv_refused (st_kv s) = None \<Longrightarrow> map_of (kv_cache (st_kv s)) = F"
  shows "task_ok parse F g (st_save (save_turn render n s))"
  using build_task [OF assms(1,2)] assms(3) by (auto simp: save_turn_def)

lemma fill_install_facts [simp]:
  "kv_generation (fill_install parse g r kv) = kv_generation kv" "kv_loaded (fill_install parse g r kv) \<longleftrightarrow> g = kv_generation kv"
  "kv_refused (fill_install parse g r kv) = refusal r" "kv_cache (fill_install parse g r kv) = parseMap parse r"
  by (simp_all add: fill_install_def)

lemma stamped_frame:
  "stamped s \<Longrightarrow> kv_generation (st_kv s) \<le> kv_generation (st_kv t) \<Longrightarrow>
    (\<And>g n. st_fill t = FillWait g n \<Longrightarrow> st_fill s = FillWait g n \<or> g \<le> kv_generation (st_kv s)) \<Longrightarrow>
    (\<And>g n r. st_fill t = FillGot g n r \<Longrightarrow> (\<exists>r. st_fill s = FillGot g n r) \<or> st_fill s = FillWait g n) \<Longrightarrow>
    (\<And>g n wr p. st_save t = SvPath g n wr p \<Longrightarrow> (\<exists>wr p. st_save s = SvPath g n wr p) \<or> g \<le> kv_generation (st_kv s)) \<Longrightarrow> stamped t"
  unfolding stamped_def by (meson le_trans)

lemma fill_resumes_cases:
  assumes "gen \<noteq> kv_generation (st_kv s) \<Longrightarrow> n < CONTENDED_ATTEMPTS \<Longrightarrow>
      Q (s\<lparr>st_fill := FillWait (kv_generation (st_kv s)) (n + 1)\<rparr>)"
    and "\<And>u m. gen = kv_generation (st_kv s) \<or> \<not> n < CONTENDED_ATTEMPTS \<Longrightarrow> st_save s = SvLoading m \<Longrightarrow>
      u = s\<lparr>st_fill := NoFill, st_kv := fill_install parse gen r (st_kv s)\<rparr> \<Longrightarrow> Q (build render m u)"
    and "gen = kv_generation (st_kv s) \<or> \<not> n < CONTENDED_ATTEMPTS \<Longrightarrow> (\<And>m. st_save s \<noteq> SvLoading m) \<Longrightarrow>
      Q (s\<lparr>st_fill := NoFill, st_kv := fill_install parse gen r (st_kv s)\<rparr>)"
  shows "Q (fill_resumes parse render gen n r s)"
  using assms unfolding fill_resumes_def Let_def by (auto split: save_task.split)

lemma stamped_step:
  assumes "store_step parse render d f peer s t" and "stamped s"
  shows "stamped t"
  using assms(1)
proof (cases rule: store_step.cases)
  case (step_resumes gen n r)
  have "stamped (fill_resumes parse render gen n r s)"
    by (rule fill_resumes_cases; rule stamped_frame [OF assms(2)]) (auto dest: build_facts(4))
  then show ?thesis using step_resumes by simp
next
  case step_save
  then show ?thesis by (auto intro!: stamped_frame [OF assms(2)] dest: save_turn_facts(4,5))
next
  case (step_path gen n wr p)
  then show ?thesis
    by (auto simp: path_resolves_def intro!: stamped_frame [OF assms(2)] dest: save_turn_facts(4,5) split: if_splits)
next
  case (step_lands wr p os)
  then show ?thesis by (auto simp: write_lands_def intro!: stamped_frame [OF assms(2)] split: prod.splits sum.splits)
qed (auto simp: store_defs peer_commit_def fill_observes_def Let_def intro!: stamped_frame [OF assms(2)]
      split: prod.splits save_task.splits if_splits)

lemma pending_update: "dom (map_of a) \<subseteq> dom (map_of b) \<Longrightarrow> dom (map_of a) \<subseteq> dom (map_of (AList.update k v b))"
  by (auto simp: update_conv')

lemma pending_step:
  assumes "store_step parse render d f peer s t" and "still_pending s"
  shows "still_pending t"
  using assms(1)
proof (cases rule: store_step.cases)
  case (step_resumes gen n r)
  have "still_pending (fill_resumes parse render gen n r s)"
  proof (rule fill_resumes_cases, goal_cases)
    case (2 u m)
    then show ?case using build_facts(3) [of render m u] by (simp add: still_pending_def)
  qed (use assms(2) in \<open>auto simp: still_pending_def\<close>)
  then show ?thesis using step_resumes by simp
next
  case step_save
  then show ?thesis using save_turn_facts(3) [of render 1 s] by (simp add: still_pending_def)
next
  case (step_path gen n wr p)
  then show ?thesis using assms(2) save_turn_facts(3) [of render "n + 1" s] by (simp add: still_pending_def path_resolves_def)
next
  case (step_lands wr p os)
  then show ?thesis using assms(2) by (auto simp: still_pending_def write_lands_def split: prod.splits sum.splits)
next
  case (step_set k v)
  then show ?thesis using assms(2) pending_update by (simp add: still_pending_def kv_set_def)
qed (use assms(2) in \<open>auto simp: still_pending_def store_defs peer_commit_def fill_observes_def Let_def
      split: prod.splits save_task.splits if_splits\<close>)

lemma map_add_twice [simp]: "F ++ m ++ m = F ++ m"
  by (auto simp: fun_eq_iff map_add_def split: option.split)

lemma landed_in_file: "task_ok parse F g t \<Longrightarrow> F ++ map_of (landed_of t) = F"
  by (cases t) simp_all

lemma task_ok_event:
  assumes "stamped s" and "task_ok parse F (kv_generation (st_kv s)) (st_save s) \<or> \<not> writing_now (st_save s)"
  shows "task_ok parse F (Suc (kv_generation (st_kv s))) (st_save s)"
  using assms by (cases "st_save s") (auto simp: stamped_def)

text \<open>A turn that leaves the file, the read and the save alone leaves the store up to date.\<close>

lemma file_map_frame: "at_primary paths t = at_primary paths s \<Longrightarrow> file_map parse paths t = file_map parse paths s"
  by (simp add: file_map_def)

lemma up_to_date_turn:
  assumes js: "json_ok parse render" and dist: "distinct_store s" and step: "store_step parse render d f (\<lambda>m. False) s t"
    and timed: "well_timed s 0 t" and ok: "up_to_date parse (file_map parse (storeFilePaths d f) s) s"
    and stamps: "stamped s"
  shows "up_to_date parse (file_map parse (storeFilePaths d f) t) t"
  using step
proof (cases rule: store_step.cases)
  case (step_observes os gen n)
  obtain r w where r: "fs_read os (fst (storeFilePaths d f)) (st_fs s) = (r, w)" by fastforce
  have "file_map parse (storeFilePaths d f) t = file_map parse (storeFilePaths d f) s"
    using step_observes r fs_read_files [OF r] by (intro file_map_frame) (simp add: at_primary_def fill_observes_def)
  then show ?thesis using step_observes ok r read_map [OF step_observes(2) r] by (auto simp: up_to_date_def fill_observes_def)
next
  case (step_resumes gen n r)
  have F: "file_map parse (storeFilePaths d f) t = file_map parse (storeFilePaths d f) s"
    using step_resumes by (intro file_map_frame) (auto simp: at_primary_def fill_resumes_def Let_def split: save_task.split)
  have calm: "gen \<noteq> kv_generation (st_kv s) \<Longrightarrow> n < CONTENDED_ATTEMPTS"
    using timed step_resumes(2) by (auto simp: well_timed_def uncontended_def)
  have "up_to_date parse (file_map parse (storeFilePaths d f) s) (fill_resumes parse render gen n r s)"
  proof (rule fill_resumes_cases, goal_cases)
    case (2 u m)
    have d: "distinct_kv (st_kv u)"
      using dist 2(3) distinct_parseMap [OF js] by (simp add: distinct_store_def distinct_kv_def fill_install_def)
    have c: "map_of (kv_cache (st_kv u)) = file_map parse (storeFilePaths d f) s" if "kv_refused (st_kv u) = None"
      using that 2 calm ok step_resumes(2) by (auto simp: up_to_date_def)
    show ?case using c build_task [OF js d c] 2(3) by (simp add: up_to_date_def build_facts)
  next
    case 3
    then have g: "gen = kv_generation (st_kv s)" using calm by blast
    then show ?case using ok step_resumes(2) landed_in_file by (auto simp: up_to_date_def)
  qed (use ok in \<open>simp add: up_to_date_def\<close>)
  then show ?thesis using F step_resumes by simp
next
  case step_save
  have F: "file_map parse (storeFilePaths d f) t = file_map parse (storeFilePaths d f) s"
    using step_save by (intro file_map_frame) (simp add: at_primary_def)
  have d: "distinct_kv (st_kv s)" using dist by (simp add: distinct_store_def)
  show ?thesis unfolding F using step_save ok save_turn_task [OF js d, of "file_map parse (storeFilePaths d f) s"]
    by (simp add: up_to_date_def save_turn_facts)
next
  case (step_path gen n wr p)
  have F: "file_map parse (storeFilePaths d f) t = file_map parse (storeFilePaths d f) s"
    using step_path by (intro file_map_frame) (simp add: at_primary_def path_resolves_def)
  have d: "distinct_kv (st_kv s)" using dist by (simp add: distinct_store_def)
  have "gen \<noteq> kv_generation (st_kv s) \<Longrightarrow> n < CONTENDED_ATTEMPTS"
    using timed step_path(2) by (auto simp: well_timed_def uncontended_def)
  then show ?thesis unfolding F using step_path ok save_turn_task [OF js d, of "file_map parse (storeFilePaths d f) s"]
    by (auto simp: up_to_date_def path_resolves_def save_turn_facts)
next
  case (step_lands wr p os)
  obtain r w where r: "fs_write os (fst (storeFilePaths d f)) p (st_fs s) = (r, w)" by fastforce
  show ?thesis
  proof (cases r)
    case (Inl e)
    then have "file_map parse (storeFilePaths d f) t = file_map parse (storeFilePaths d f) s"
      using step_lands r fs_write_cases [OF r] by (intro file_map_frame) (simp add: at_primary_def write_lands_def)
    then show ?thesis using Inl step_lands r ok by (simp add: up_to_date_def write_lands_def)
  next
    case (Inr x)
    then have t: "t = s\<lparr>st_fs := w, st_save := SvLanded wr, st_written := p # st_written s, st_history := p # st_history s\<rparr>"
      using step_lands r by (simp add: write_lands_def)
    have "file_map parse (storeFilePaths d f) t = payload_map parse p"
      using t Inr fs_write_cases [OF r] by (simp add: file_map_def payload_map_def at_primary_def)
    then have F: "file_map parse (storeFilePaths d f) t = file_map parse (storeFilePaths d f) s ++ map_of wr"
      using ok step_lands(2) by (simp add: up_to_date_def)
    have "\<forall>i q. st_fill s \<noteq> FillGot (kv_generation (st_kv s)) i q"
      using timed step_lands(2) t by (simp add: well_timed_def)
    then show ?thesis unfolding F using t ok step_lands(2) by (simp add: up_to_date_def)
  qed
next
  case (step_saved wr)
  have F: "file_map parse (storeFilePaths d f) t = file_map parse (storeFilePaths d f) s"
    using step_saved by (intro file_map_frame) (simp add: at_primary_def save_resumes_def)
  have "distinct (map fst wr)" using dist step_saved(2) by (simp add: distinct_store_def)
  then show ?thesis unfolding F using step_saved ok by (simp add: up_to_date_def save_resumes_def save_assign_def spread_map)
next
  case step_event
  have F: "file_map parse (storeFilePaths d f) t = file_map parse (storeFilePaths d f) s"
    using step_event by (intro file_map_frame) (simp add: at_primary_def)
  have "st_fill s \<noteq> FillGot (Suc (kv_generation (st_kv s))) n r" for n r using stamps by (auto simp: stamped_def)
  then show ?thesis unfolding F using step_event ok task_ok_event [OF stamps] by (simp add: up_to_date_def invalidate_def)
next
  case (step_snapshot os slot)
  then have "file_map parse (storeFilePaths d f) t = file_map parse (storeFilePaths d f) s"
    by (intro file_map_frame) (simp add: at_primary_def snapshot_keeps_primary)
  then show ?thesis using step_snapshot ok by (simp add: up_to_date_def)
qed (use ok in \<open>auto simp: up_to_date_def kv_set_def begin_fill_def file_map_def at_primary_def split: save_task.splits if_splits\<close>)

text \<open>A store just opened on whatever file is there.\<close>

definition just_opened :: "(string \<Rightarrow> 'v json option) \<Rightarrow> ('v obj \<Rightarrow> string) \<Rightarrow> 'v store \<times> nat \<Rightarrow> bool" where
  "just_opened parse render c \<longleftrightarrow> json_ok parse render \<and> snd c = 0 \<and> st_kv (fst c) = createFileKeyValueStore
     \<and> st_fill (fst c) = NoFill \<and> st_save (fst c) = SvIdle \<and> st_last (fst c) = Map.empty \<and> st_written (fst c) = []"

lemma orderly_inv_step:
  assumes inv: "orderly_inv parse render (storeFilePaths d f) c" and step: "orderly_step parse render d f c c'"
  shows "orderly_inv parse render (storeFilePaths d f) c'"
proof -
  have run: "store_step parse render d f (\<lambda>m. True) (fst c) (fst c')" using orderly_is_run [OF step] .
  have js: "json_ok parse render" and dist: "distinct_store (fst c)" and stamps: "stamped (fst c)"
    using inv by (simp_all add: orderly_inv_def)
  have keep: "distinct_store (fst c')" "kept_sets parse (fst c')" "stamped (fst c')" "still_pending (fst c')"
    using distinct_step [OF js run] sets_step [OF js run] stamped_step [OF run] pending_step [OF run] inv
    by (simp_all add: orderly_inv_def)
  from step have "(writing_now (st_save (fst c')) \<longrightarrow> snd c' = 0)
      \<and> (snd c' = 0 \<longrightarrow> up_to_date parse (file_map parse (storeFilePaths d f) (fst c')) (fst c'))"
  proof (cases rule: orderly_step.cases)
    case (ord_own s t unheard)
    then show ?thesis using inv up_to_date_turn [OF js, of s d f t] dist stamps
      by (auto simp: orderly_inv_def well_timed_def)
  next
    case (ord_peer m s unheard)
    then show ?thesis by (simp add: peer_commit_def)
  next
    case (ord_event s unheard)
    have st: "stamped s" and w: "\<not> writing_now (st_save s)" using inv ord_event stamps by (simp_all add: orderly_inv_def)
    have "st_fill s \<noteq> FillGot (Suc (kv_generation (st_kv s))) n r" for n r using st by (auto simp: stamped_def)
    then show ?thesis using ord_event w task_ok_event [OF st] by (simp add: up_to_date_def invalidate_def)
  qed
  then show ?thesis using js keep by (simp add: orderly_inv_def)
qed

interpretation orderly_file: invariant_system "just_opened parse render" "orderly_step parse render d f"
  "orderly_inv parse render (storeFilePaths d f)"
  for parse :: "string \<Rightarrow> 'v json option" and render d f
proof unfold_locales
  show "orderly_inv parse render (storeFilePaths d f) c" if "just_opened parse render c" for c :: "'v store \<times> nat"
    using that by (simp add: just_opened_def orderly_inv_def distinct_store_def distinct_kv_def createFileKeyValueStore_def
        kept_sets_def stamped_def still_pending_def up_to_date_def)
qed (rule orderly_inv_step)

text \<open>What a write leaves, if its payload is the file with what it carries put over it.\<close>

lemma landing_file:
  assumes "task_ok parse (file_map parse paths s) g (SvWriting wr p)"
  shows "file_map parse paths (write_lands os (fst paths) wr p s) \<in> {file_map parse paths s, file_map parse paths s ++ map_of wr}"
proof -
  obtain r w where r: "fs_write os (fst paths) p (st_fs s) = (r, w)" by fastforce
  show ?thesis using fs_write_cases [OF r]
  proof (elim disjE exE conjE)
    fix e assume "r = Inl e" "fs_files w = fs_files (st_fs s)"
    then have "at_primary paths (write_lands os (fst paths) wr p s) = at_primary paths s"
      using r by (simp add: write_lands_def at_primary_def)
    then show ?thesis using file_map_frame by blast
  next
    assume "r = Inr ()" "fs_files w = (fs_files (st_fs s))(fst paths \<mapsto> TextFile p)"
    then have "file_map parse paths (write_lands os (fst paths) wr p s) = payload_map parse p"
      using r by (simp add: write_lands_def file_map_def payload_map_def at_primary_def)
    then show ?thesis using assms by simp
  qed
qed

text \<open>What the store answers: what the session has set and not saved, over what the file says.\<close>

lemma answers_file:
  assumes "up_to_date parse F s" and "still_pending s" and "kv_loaded (st_kv s)" and "kv_refused (st_kv s) = None"
  shows "kv_get k (st_kv s) = (F ++ map_of (kv_pending (st_kv s))) k"
proof -
  have c: "map_of (kv_cache (st_kv s)) ++ map_of (landed_of (st_save s)) = F" using assms(1,3,4) by (simp add: up_to_date_def)
  have "map_of (kv_cache (st_kv s)) k = F k" if "map_of (kv_pending (st_kv s)) k = None"
  proof -
    have "map_of (carried_by (st_save s)) k = None" using assms(2) that by (auto simp: still_pending_def)
    then have "map_of (landed_of (st_save s)) k = None" by (cases "st_save s") auto
    then show ?thesis unfolding c [symmetric] by (simp add: map_add_def)
  qed
  then show ?thesis by (auto simp: kv_get_def map_add_def split: option.split)
qed

end
