(* ===== verification/Store_File_Props.thy ===== *)
theory Store_File_Props
  imports Store_File_Orderly
begin

text \<open>
  The promises of the store file: a save changes only the keys it carries and no value set is lost,
  a good copy outlives every crash, a committed file comes back; and one race in which a saved value is
  read back as it was before.
\<close>

section \<open>One session\<close>

text \<open>A store just opened on a file that has the key \<open>k\<close>, beside windows that keep it.\<close>

definition opened ::
  "(string \<Rightarrow> 'v json option) \<Rightarrow> ('v obj \<Rightarrow> string) \<Rightarrow> string \<times> string \<Rightarrow> ('v obj \<Rightarrow> bool) \<Rightarrow> string \<Rightarrow> 'v store \<Rightarrow> bool" where
  "opened parse render paths peer k s \<longleftrightarrow> json_ok parse render \<and> (\<forall>m. peer m \<longrightarrow> k \<in> fst ` set m)
     \<and> has_key parse k (at_primary paths s) \<and> st_kv s = createFileKeyValueStore
     \<and> st_fill s = NoFill \<and> st_save s = SvIdle \<and> st_last s = Map.empty \<and> st_written s = []"

definition session_inv ::
  "(string \<Rightarrow> 'v json option) \<Rightarrow> ('v obj \<Rightarrow> string) \<Rightarrow> string \<times> string \<Rightarrow> ('v obj \<Rightarrow> bool) \<Rightarrow> string \<Rightarrow> 'v store \<Rightarrow> bool" where
  "session_inv parse render paths peer k s \<longleftrightarrow> json_ok parse render \<and> (\<forall>m. peer m \<longrightarrow> k \<in> fst ` set m)
     \<and> distinct_store s \<and> keeps_key parse paths k s \<and> kept_sets parse s"

interpretation session: invariant_system "opened parse render (storeFilePaths d f) peer k"
  "store_step parse render d f peer" "session_inv parse render (storeFilePaths d f) peer k"
  for parse :: "string \<Rightarrow> 'v json option" and render d f peer k
proof unfold_locales
  show "session_inv parse render (storeFilePaths d f) peer k s" if "opened parse render (storeFilePaths d f) peer k s"
    for s :: "'v store"
    using that by (simp add: opened_def session_inv_def distinct_store_def distinct_kv_def createFileKeyValueStore_def
        keeps_key_def kept_sets_def)
  show "session_inv parse render (storeFilePaths d f) peer k t"
    if "session_inv parse render (storeFilePaths d f) peer k s" "store_step parse render d f peer s t" for s t :: "'v store"
    using that distinct_step [of parse render d f peer s t] key_step [of parse render peer k d f s t]
      sets_step [of parse render d f peer s t] unfolding session_inv_def by blast
qed

text \<open>
  C22: Saving loses nothing, as far as the file can be kept whole per window. In every orderly run, with
  peers committing any objects and failing calls, a write of this window changes exactly the keys it
  carries: whether it fails or lands, every other key of the file stays as the last peer left it; and
  once every change was heard of, a loaded store answers what the session has set and not saved, over
  what the file says. In every interleaving whatever, a key of the file that no peer drops stays in
  the file, and every value set in the session is still pending or was in a file the session wrote.
  Outside orderly runs the update of a peer can be lost, as the code says.
\<close>
theorem saves_lose_nothing:
  "(reachable (just_opened parse render) (orderly_step parse render d f) (s, unheard) \<longrightarrow>
      (\<forall>wr p os. st_save s = SvWriting wr p \<longrightarrow>
         file_map parse (storeFilePaths d f) (write_lands os (fst (storeFilePaths d f)) wr p s)
           \<in> {file_map parse (storeFilePaths d f) s, file_map parse (storeFilePaths d f) s ++ map_of wr})
      \<and> (unheard = 0 \<and> kv_loaded (st_kv s) \<and> kv_refused (st_kv s) = None \<longrightarrow>
         (\<forall>j. kv_get j (st_kv s) = (file_map parse (storeFilePaths d f) s ++ map_of (kv_pending (st_kv s))) j)))
   \<and> (reachable (opened parse render (storeFilePaths d f) peer k) (store_step parse render d f peer) t \<longrightarrow>
      has_key parse k (at_primary (storeFilePaths d f) t)
      \<and> (\<forall>j v. st_last t j = Some v \<longrightarrow>
           map_of (kv_pending (st_kv t)) j = Some v \<or> (\<exists>c \<in> set (st_written t). file_says parse c j v)))"
proof (intro conjI impI allI)
  assume o: "reachable (just_opened parse render) (orderly_step parse render d f) (s, unheard)"
  note inv = orderly_file.reachable_inv [OF o, unfolded orderly_inv_def fst_conv snd_conv]
  show "file_map parse (storeFilePaths d f) (write_lands os (fst (storeFilePaths d f)) wr p s)
      \<in> {file_map parse (storeFilePaths d f) s, file_map parse (storeFilePaths d f) s ++ map_of wr}"
    if "st_save s = SvWriting wr p" for wr p os
    using inv that by (intro landing_file) (simp add: up_to_date_def)
  show "kv_get j (st_kv s) = (file_map parse (storeFilePaths d f) s ++ map_of (kv_pending (st_kv s))) j"
    if "unheard = 0 \<and> kv_loaded (st_kv s) \<and> kv_refused (st_kv s) = None" for j
    using inv that by (intro answers_file) auto
next
  assume r: "reachable (opened parse render (storeFilePaths d f) peer k) (store_step parse render d f peer) t"
  show "map_of (kv_pending (st_kv t)) j = Some v \<or> (\<exists>c \<in> set (st_written t). file_says parse c j v)"
    if "st_last t j = Some v" for j v
    using session.reachable_inv [OF r] that by (auto simp: session_inv_def keeps_key_def kept_sets_def)
  show "has_key parse k (at_primary (storeFilePaths d f) t)"
    using session.reachable_inv [OF r] by (simp add: session_inv_def keeps_key_def)
qed

section \<open>Crashes\<close>

text \<open>
  The snapshot is good, and what is good on disk was in the file at some time. A file too large to read
  is left out: it is neither restored nor replaced.
\<close>

definition backed_up :: "(string \<Rightarrow> 'v json option) \<Rightarrow> string \<times> string \<Rightarrow> 'v store \<Rightarrow> bool" where
  "backed_up parse paths s \<longleftrightarrow>
     (\<exists>c \<in> set (st_history s). at_snapshot paths s = Some (TextFile c) \<and> inspect parse (RdText c) = SfOk)
     \<and> (\<forall>c. at_primary paths s = Some (TextFile c) \<longrightarrow> inspect parse (RdText c) = SfOk \<longrightarrow> c \<in> set (st_history s))
     \<and> at_primary paths s \<noteq> Some LargeFile"

lemma load_first_files: "load_first os d parse f w = (r, w') \<Longrightarrow> fs_files w' = fs_files w"
  by (auto simp: load_first_def Let_def dest!: fs_dir_files fs_read_files split: prod.splits sum.splits)

text \<open>The files after start-up: recovery may restore the primary, then the snapshot may be renewed.\<close>

lemma initialize_files:
  assumes "initialize os d parse f listening w = (sd, w')"
  obtains r w1 w2 where "recoverStoreFile os d parse f w = (r, w1)" and "fs_files w2 = fs_files w1"
    and "fs_files w' = fs_files w2 \<or> (\<exists>sn. snapshotStoreFile os d parse f w2 = (sn, w'))"
proof -
  obtain r w1 where r: "recoverStoreFile os d parse f w = (r, w1)" by fastforce
  obtain l w2 where l: "load_first os d parse f w1 = (l, w2)" by fastforce
  show ?thesis
  proof (cases l)
    case (Inl e)
    then have "w' = w2" using assms r l by (simp add: initialize_def Let_def)
    then show ?thesis using that r load_first_files [OF l] by blast
  next
    case (Inr kv)
    obtain sn w3 where sn: "snapshotStoreFile os d parse f w2 = (sn, w3)" by fastforce
    then have "w' = w3" using assms r l Inr by (simp add: initialize_def Let_def)
    then show ?thesis using that r load_first_files [OF l] sn by blast
  qed
qed

definition safe_pair :: "(string \<Rightarrow> 'v json option) \<Rightarrow> string list \<Rightarrow> disk_file option \<Rightarrow> disk_file option \<Rightarrow> bool" where
  "safe_pair parse history p b \<longleftrightarrow>
     (\<exists>c \<in> set history. b = Some (TextFile c) \<and> inspect parse (RdText c) = SfOk)
     \<and> (\<forall>c. p = Some (TextFile c) \<longrightarrow> inspect parse (RdText c) = SfOk \<longrightarrow> c \<in> set history) \<and> p \<noteq> Some LargeFile"

lemma backed_up_pair: "backed_up parse paths s \<longleftrightarrow> safe_pair parse (st_history s) (at_primary paths s) (at_snapshot paths s)"
  by (simp add: backed_up_def safe_pair_def)

lemma safe_recover:
  assumes "recoverStoreFile os d parse f w = (r, w')" and "storeFilePaths d f = (p, b)"
    and "safe_pair parse h (fs_files w p) (fs_files w b)"
  shows "safe_pair parse h (fs_files w' p) (fs_files w' b)"
  using recoverStoreFile_cases [OF assms(1,2)] assms(3) paths_differ [of d f] assms(2) by (auto simp: safe_pair_def)

lemma safe_snapshot:
  assumes "snapshotStoreFile os d parse f w = (r, w')" and "storeFilePaths d f = (p, b)"
    and "safe_pair parse h (fs_files w p) (fs_files w b)"
  shows "safe_pair parse h (fs_files w' p) (fs_files w' b)"
  using snapshotStoreFile_cases [OF assms(1,2)] assms(3) paths_differ [of d f] assms(2) by (auto simp: safe_pair_def)

lemma safe_more: "safe_pair parse h p b \<Longrightarrow> safe_pair parse (c # h) p b"
  by (auto simp: safe_pair_def)

lemma snapshotAfterSave_files:
  "snapshotStoreFile os d parse f w = (sn, w') \<Longrightarrow> snd (snapshotAfterSave os d parse f slot w) = w'"
  by (simp add: snapshotAfterSave_def Let_def split: option.splits)

lemma safe_run:
  assumes "store_step parse render d f peer s t" and "backed_up parse (storeFilePaths d f) s"
  shows "backed_up parse (storeFilePaths d f) t"
proof -
  obtain p b where pb: "storeFilePaths d f = (p, b)" by fastforce
  have ne: "p \<noteq> b" using paths_differ [of d f] pb by simp
  have safe: "safe_pair parse (st_history s) (fs_files (st_fs s) p) (fs_files (st_fs s) b)"
    using assms(2) pb by (simp add: backed_up_pair at_primary_def at_snapshot_def)
  from assms(1) show ?thesis
  proof (cases rule: store_step.cases)
    case (step_observes os gen n)
    obtain r w where r: "fs_read os p (st_fs s) = (r, w)" by fastforce
    then show ?thesis using step_observes safe pb fs_read_files [OF r]
      by (simp add: backed_up_pair at_primary_def at_snapshot_def fill_observes_def)
  next
    case (step_lands wr c os)
    obtain r w where r: "fs_write os p c (st_fs s) = (r, w)" by fastforce
    show ?thesis using step_lands safe pb ne r fs_write_cases [OF r] safe_more
      by (auto simp: backed_up_pair at_primary_def at_snapshot_def write_lands_def safe_pair_def)
  next
    case (step_snapshot os slot)
    obtain sn w where sn: "snapshotStoreFile os d parse f (st_fs s) = (sn, w)" by fastforce
    then show ?thesis using step_snapshot safe pb safe_snapshot [OF sn pb safe] snapshotAfterSave_files [OF sn]
      by (simp add: backed_up_pair at_primary_def at_snapshot_def)
  qed (use safe pb ne in \<open>auto simp: backed_up_pair at_primary_def at_snapshot_def peer_commit_def fill_resumes_def
      path_resolves_def save_resumes_def Let_def safe_pair_def split: save_task.splits\<close>)
qed

lemma safe_relaunch:
  assumes "backed_up parse (storeFilePaths d f) s"
  shows "backed_up parse (storeFilePaths d f) (relaunch os d parse f listening s)"
proof -
  obtain p b where pb: "storeFilePaths d f = (p, b)" by fastforce
  have safe: "safe_pair parse (st_history s) (fs_files (st_fs s) p) (fs_files (st_fs s) b)"
    using assms pb by (simp add: backed_up_pair at_primary_def at_snapshot_def)
  obtain sd w where i: "initialize os d parse f listening (st_fs s) = (sd, w)" by fastforce
  obtain r w1 w2 where r: "recoverStoreFile os d parse f (st_fs s) = (r, w1)" "fs_files w2 = fs_files w1"
    "fs_files w = fs_files w2 \<or> (\<exists>sn. snapshotStoreFile os d parse f w2 = (sn, w))"
    using initialize_files [OF i] .
  have "safe_pair parse (st_history s) (fs_files w2 p) (fs_files w2 b)"
    using safe_recover [OF r(1) pb safe] r(2) by simp
  then have "safe_pair parse (st_history s) (fs_files w p) (fs_files w b)"
    using r(3) safe_snapshot [OF _ pb] by metis
  then show ?thesis using i pb by (simp add: relaunch_def backed_up_pair at_primary_def at_snapshot_def)
qed

interpretation life: invariant_system "backed_up parse (storeFilePaths d f)" "life_step parse render d f peer"
  "backed_up parse (storeFilePaths d f)"
  for parse :: "string \<Rightarrow> 'v json option" and render d f peer
proof unfold_locales
  show "backed_up parse (storeFilePaths d f) t"
    if "backed_up parse (storeFilePaths d f) s" "life_step parse render d f peer s t" for s t :: "'v store"
    using that(2)
  proof (cases rule: life_step.cases)
    case life_run
    then show ?thesis using safe_run that(1) by blast
  next
    case (life_crash os listening)
    then show ?thesis using safe_relaunch that(1) by blast
  next
    case (life_tear g)
    then show ?thesis using that(1) paths_differ [of d f] not_sym [OF paths_differ [of d f]]
      by (auto simp: tear_def backed_up_pair at_primary_def at_snapshot_def safe_pair_def good_def)
  qed
qed

lemma snapshot_clean:
  assumes "os = no_faults" and "storeFilePaths d f = (p, b)" and "fs_files w p = Some (TextFile c)"
    and "inspect parse (RdText c) = SfOk" and "fs_files w b = Some (TextFile c')"
  shows "\<exists>sn w'. snapshotStoreFile os d parse f w = (sn, w') \<and> fs_files w' = (fs_files w)(b \<mapsto> TextFile c)"
proof -
  have "snapshotStoreFile os d parse f w = (snapshot_result True None,
      w\<lparr>fs_calls := fs_calls w + 4, fs_files := (fs_files w)(b \<mapsto> TextFile c)\<rparr>)"
    using assms(2-5) by (simp add: snapshotStoreFile_def Let_def fs_calls_ok [OF assms(1)])
  then show ?thesis by simp
qed

text \<open>A start without failures on a backed-up file: both copies are good and equal, and the store has read them.\<close>

lemma initialize_clean:
  assumes "os = no_faults" and "storeFilePaths d f = (p, b)" and "safe_pair parse h (fs_files w p) (fs_files w b)"
  shows "\<exists>sd w' c. initialize os d parse f listening w = (sd, w') \<and> c \<in> set h \<and> inspect parse (RdText c) = SfOk
    \<and> fs_files w' p = Some (TextFile c) \<and> fs_files w' b = Some (TextFile c)
    \<and> (fst (sd_verdict sd) = SfOk \<or> snd (sd_verdict sd)) \<and> sd_kv sd = fill_install parse 0 (RdText c) createFileKeyValueStore
    \<and> (good parse (fs_files w p) \<longrightarrow> fs_files w p = Some (TextFile c))
    \<and> (\<not> good parse (fs_files w p) \<longrightarrow> fs_files w b = Some (TextFile c))"
proof -
  obtain cb where cb: "cb \<in> set h" "fs_files w b = Some (TextFile cb)" "inspect parse (RdText cb) = SfOk"
    using assms(3) by (auto simp: safe_pair_def)
  have ne: "p \<noteq> b" using paths_differ [of d f] assms(2) by simp
  obtain r w1 where r: "recoverStoreFile os d parse f w = (r, w1)" by fastforce
  have "\<exists>c. c \<in> set h \<and> inspect parse (RdText c) = SfOk \<and> fs_files w1 p = Some (TextFile c)
      \<and> (\<exists>c'. fs_files w1 b = Some (TextFile c')) \<and> (sr_found r = SfOk \<or> sr_recovered r)
      \<and> (good parse (fs_files w p) \<longrightarrow> fs_files w p = Some (TextFile c))
      \<and> (\<not> good parse (fs_files w p) \<longrightarrow> fs_files w b = Some (TextFile c))"
  proof (cases "good parse (fs_files w p)")
    case True
    then show ?thesis using recover_good [OF assms(1,2) True] r cb assms(3) by (auto simp: good_def safe_pair_def)
  next
    case False
    moreover have "fs_files w p \<noteq> Some LargeFile" using assms(3) by (simp add: safe_pair_def)
    ultimately show ?thesis using recover_torn [OF assms(1,2) False _ cb(2,3)] r cb ne by auto
  qed
  then obtain c c' where c: "c \<in> set h" "inspect parse (RdText c) = SfOk" "fs_files w1 p = Some (TextFile c)"
    "fs_files w1 b = Some (TextFile c')" "sr_found r = SfOk \<or> sr_recovered r"
    "good parse (fs_files w p) \<longrightarrow> fs_files w p = Some (TextFile c)"
    "\<not> good parse (fs_files w p) \<longrightarrow> fs_files w b = Some (TextFile c)"
    by blast
  let ?w2 = "w1\<lparr>fs_calls := fs_calls w1 + 2\<rparr>"
  have l: "load_first os d parse f w1 = (Inr (fill_install parse 0 (RdText c) createFileKeyValueStore), ?w2)"
    using c(3) assms(2) fs_calls_ok [OF assms(1)] by (simp add: load_first_def)
  obtain sn w3 where sn: "snapshotStoreFile os d parse f ?w2 = (sn, w3)" "fs_files w3 = (fs_files w1)(b \<mapsto> TextFile c)"
    using snapshot_clean [OF assms(1,2), of ?w2 c parse c'] c(2-4) by auto
  obtain sd where sd: "initialize os d parse f listening w = (sd, w3)" "sd_verdict sd = (sr_found r, sr_recovered r)"
    "sd_kv sd = fill_install parse 0 (RdText c) createFileKeyValueStore"
    using r l sn(1) by (simp add: initialize_def Let_def)
  show ?thesis
    by (rule exI [of _ sd], rule exI [of _ w3], rule exI [of _ c]) (use sd sn(2) c ne in simp)
qed

text \<open>
  C23: Once a snapshot was taken, a good copy of the file outlives everything: in every history of
  commits with failing calls, other windows, crashes at any point and torn files, a start whose calls
  succeed finds a file that was once in place, keeps both copies of it and serves it.
\<close>
theorem crash_keeps_a_good_copy:
  assumes "reachable (backed_up parse (storeFilePaths d f)) (life_step parse render d f peer) s"
    and "t = relaunch no_faults d parse f listening s"
  shows "\<exists>c \<in> set (st_history s). inspect parse (RdText c) = SfOk
    \<and> at_primary (storeFilePaths d f) t = Some (TextFile c) \<and> at_snapshot (storeFilePaths d f) t = Some (TextFile c)
    \<and> kv_loaded (st_kv t) \<and> kv_refused (st_kv t) = None \<and> kv_cache (st_kv t) = parseMap parse (RdText c)"
proof -
  obtain p b where pb: "storeFilePaths d f = (p, b)" by fastforce
  have "safe_pair parse (st_history s) (fs_files (st_fs s) p) (fs_files (st_fs s) b)"
    using life.reachable_inv [OF assms(1)] pb by (simp add: backed_up_pair at_primary_def at_snapshot_def)
  from initialize_clean [OF refl pb this, of listening] show ?thesis using assms(2) pb
    by (auto simp: relaunch_def at_primary_def at_snapshot_def fill_install_def createFileKeyValueStore_def)
qed

section \<open>A committed file\<close>

text \<open>What happens to a file between two working sessions: starts that may fail half-way, and power cuts.\<close>

inductive mishap :: "(string \<Rightarrow> 'v json option) \<Rightarrow> string \<Rightarrow> string \<Rightarrow> 'v store \<Rightarrow> 'v store \<Rightarrow> bool" for parse d f where
  mishap_start: "mishap parse d f s (relaunch os d parse f listening s)"
| mishap_tear: "\<not> good parse g \<Longrightarrow> g \<noteq> Some LargeFile \<Longrightarrow> mishap parse d f s (tear (storeFilePaths d f) g s)"

text \<open>Both copies hold \<open>c\<close>, or the primary is torn.\<close>

definition holds :: "(string \<Rightarrow> 'v json option) \<Rightarrow> string \<times> string \<Rightarrow> string \<Rightarrow> 'v store \<Rightarrow> bool" where
  "holds parse paths c s \<longleftrightarrow> safe_pair parse [c] (at_primary paths s) (at_snapshot paths s)"

lemma mishap_holds:
  assumes "mishap parse d f s t" and "holds parse (storeFilePaths d f) c s"
  shows "holds parse (storeFilePaths d f) c t"
proof -
  have e: "holds parse (storeFilePaths d f) c u = backed_up parse (storeFilePaths d f) (u\<lparr>st_history := [c]\<rparr>)" for u :: "'a store"
    by (simp add: holds_def backed_up_pair at_primary_def at_snapshot_def)
  have m: "life_step parse render d f peer (s\<lparr>st_history := [c]\<rparr>) (t\<lparr>st_history := [c]\<rparr>)" for render peer
    using assms(1)
  proof (cases rule: mishap.cases)
    case (mishap_start os listening)
    then have "t\<lparr>st_history := [c]\<rparr> = relaunch os d parse f listening (s\<lparr>st_history := [c]\<rparr>)"
      by (simp add: relaunch_def split: prod.splits)
    then show ?thesis using life_crash by metis
  next
    case (mishap_tear g)
    then have "t\<lparr>st_history := [c]\<rparr> = tear (storeFilePaths d f) g (s\<lparr>st_history := [c]\<rparr>)" by (simp add: tear_def)
    then show ?thesis using life_tear mishap_tear by metis
  qed
  show ?thesis using life.inv_step [OF _ m] assms(2) unfolding e by blast
qed

text \<open>
  C24: A committed file comes back: after a complete commit of an object, any number of failing starts
  and torn files, the next start whose calls succeed reads exactly that object.
\<close>
theorem committed_object_comes_back:
  assumes "json_ok parse render" and "distinct (map fst m)"
    and "at_primary (storeFilePaths d f) s = Some (TextFile (render m))"
    and "at_snapshot (storeFilePaths d f) s = Some (TextFile (render m))"
    and "(mishap parse d f)\<^sup>*\<^sup>* s t"
  shows "kv_cache (st_kv (relaunch no_faults d parse f listening t)) = m
    \<and> at_primary (storeFilePaths d f) (relaunch no_faults d parse f listening t) = Some (TextFile (render m))"
proof -
  obtain p b where pb: "storeFilePaths d f = (p, b)" by fastforce
  have "holds parse (storeFilePaths d f) (render m) s"
    using assms(1-4) by (simp add: holds_def safe_pair_def json_okD)
  with assms(5) have "holds parse (storeFilePaths d f) (render m) t"
    by (induction rule: rtranclp_induct) (auto intro: mishap_holds)
  then have "safe_pair parse [render m] (fs_files (st_fs t) p) (fs_files (st_fs t) b)"
    using pb by (simp add: holds_def at_primary_def at_snapshot_def)
  from initialize_clean [OF refl pb this, of listening] show ?thesis using pb json_okD(1) [OF assms(1,2)]
    by (auto simp: relaunch_def at_primary_def fill_install_def)
qed

end
