(* ===== verification/Store_File_Witnesses.thy ===== *)
theory Store_File_Witnesses
  imports Store_File_Props
begin

text \<open>
  A codec that meets the assumption on \<open>JSON\<close>, runs that meet the hypotheses of the properties, and the
  race in which a read that began during a save hides what was saved.
\<close>

section \<open>A codec\<close>

text \<open>Each character behind a \<open>c\<close>, a full stop at the end of a string, a comma before each entry.\<close>

fun enc_string :: "string \<Rightarrow> string" where
  "enc_string [] = [CHR ''.'']"
| "enc_string (c # cs) = CHR ''c'' # c # enc_string cs"

fun dec_string :: "string \<Rightarrow> (string \<times> string) option" where
  "dec_string (x # xs) =
     (if x = CHR ''.'' then Some ([], xs)
      else case xs of [] \<Rightarrow> None | c # ys \<Rightarrow> map_option (\<lambda>(s, r). (c # s, r)) (dec_string ys))"
| "dec_string [] = None"

fun enc_entries :: "string obj \<Rightarrow> string" where
  "enc_entries [] = []"
| "enc_entries ((k, v) # m) = CHR '','' # enc_string k @ enc_string v @ enc_entries m"

fun dec_entries :: "nat \<Rightarrow> string \<Rightarrow> string obj option" where
  "dec_entries n [] = Some []"
| "dec_entries 0 (x # xs) = None"
| "dec_entries (Suc n) (x # xs) =
     (case dec_string xs of None \<Rightarrow> None | Some (k, ys) \<Rightarrow>
       (case dec_string ys of None \<Rightarrow> None | Some (v, zs) \<Rightarrow> map_option (\<lambda>m. (k, v) # m) (dec_entries n zs)))"

definition demo_render :: "string obj \<Rightarrow> string" where
  "demo_render m = CHR ''{'' # enc_entries m"

definition demo_parse :: "string \<Rightarrow> string json option" where
  "demo_parse s = (case s of [] \<Rightarrow> None | x # xs \<Rightarrow>
     (case dec_entries (length xs) xs of None \<Rightarrow> None | Some m \<Rightarrow> if distinct (map fst m) then Some (JsonObject m) else None))"

lemma dec_enc_string [simp]: "dec_string (enc_string s @ r) = Some (s, r)"
  by (induction s) auto

lemma dec_enc_entries: "length m \<le> n \<Longrightarrow> dec_entries n (enc_entries m) = Some m"
proof (induction m arbitrary: n rule: enc_entries.induct)
  case (2 k v m)
  then obtain i where "n = Suc i" "length m \<le> i" by (cases n) auto
  then show ?case using 2 by simp
qed simp

lemma length_enc_entries: "length m \<le> length (enc_entries m)"
  by (induction m rule: enc_entries.induct) auto

lemma demo_json_ok: "json_ok demo_parse demo_render"
proof -
  have "js_trim (CHR ''{'' # xs) \<noteq> []" for xs
  proof
    assume "js_trim (CHR ''{'' # xs) = []"
    moreover have "\<not> is_js_space (CHR ''{'')" by (simp add: is_js_space_def)
    ultimately have "\<forall>x \<in> set (CHR ''{'' # xs). is_js_space x" by (auto simp: js_trim_def)
    then show False by (simp add: is_js_space_def)
  qed
  then show ?thesis
    by (auto simp: json_ok_def demo_parse_def demo_render_def dec_enc_entries length_enc_entries inspect.simps(5)
        split: list.splits option.splits if_splits)
qed

section \<open>Stores\<close>

abbreviation demo_dir :: string where "demo_dir \<equiv> ''/data''"
abbreviation demo_file :: string where "demo_file \<equiv> ''hosts.json''"

definition stored :: "(string \<Rightarrow> 'v json option) \<Rightarrow> ('v obj \<Rightarrow> string) \<Rightarrow> string \<times> string \<Rightarrow> 'v obj \<Rightarrow> 'v store" where
  "stored parse render paths m =
     \<lparr>st_fs = \<lparr>fs_files = [fst paths \<mapsto> TextFile (render m), snd paths \<mapsto> TextFile (render m)], fs_calls = 0\<rparr>,
      st_kv = createFileKeyValueStore, st_fill = NoFill, st_save = SvIdle, st_last = Map.empty, st_written = [],
      st_history = [render m]\<rparr>"

lemma stored_files [simp]:
  "at_primary (storeFilePaths d f) (stored parse render (storeFilePaths d f) m) = Some (TextFile (render m))"
  "at_snapshot (storeFilePaths d f) (stored parse render (storeFilePaths d f) m) = Some (TextFile (render m))"
  by (simp_all add: at_primary_def at_snapshot_def stored_def)

lemma stored_opened:
  assumes "json_ok parse render" and "distinct (map fst m)" and "k \<in> fst ` set m" and "\<forall>x. peer x \<longrightarrow> k \<in> fst ` set x"
  shows "opened parse render (storeFilePaths d f) peer k (stored parse render (storeFilePaths d f) m)"
  using assms has_key_render [OF assms(1-3)] by (simp add: opened_def) (simp add: stored_def)

lemma stored_backed_up:
  "json_ok parse render \<Longrightarrow> distinct (map fst m) \<Longrightarrow>
    backed_up parse (storeFilePaths d f) (stored parse render (storeFilePaths d f) m)"
  by (simp add: backed_up_def json_okD) (simp add: stored_def)

section \<open>A read that began during a save\<close>

text \<open>One turn of a window: what the step relation allows, as a chain of states.\<close>

lemma no_faults_honest [simp]: "honest no_faults"
  by (simp add: honest_def no_faults_def)

lemma read_clean: "fs_files w p = Some (TextFile c) \<Longrightarrow> fs_read no_faults p w = (RdText c, w\<lparr>fs_calls := fs_calls w + 1\<rparr>)"
  by (rule fs_calls_ok(3)) simp_all

lemma write_clean:
  "fs_write no_faults p c w = (Inr (), w\<lparr>fs_calls := fs_calls w + 1, fs_files := (fs_files w)(p \<mapsto> TextFile c)\<rparr>)"
  by (rule fs_calls_ok(2)) simp

lemmas turn_simps = save_turn_def begin_fill_def fill_observes_def fill_resumes_def fill_install_def build_def
  path_resolves_def write_lands_def save_resumes_def save_assign_def kv_set_def invalidate_def
  read_clean write_clean Let_def CONTENDED_ATTEMPTS_def

text \<open>
  C40: A saved value can be read back as it was before: a change event during a save lets another read
  start on the old bytes; when that read ends after the save it is trusted, so the store answers the
  value the save replaced, and the next save of another key writes that value back to disk.
\<close>
theorem late_read_undoes_save:
  assumes "json_ok parse render" and "k \<noteq> j"
  shows "\<exists>t u. (store_step parse render d f peer)\<^sup>*\<^sup>* (stored parse render (storeFilePaths d f) [(k, a)]) t
    \<and> st_save t = SvIdle \<and> st_last t k = Some b \<and> at_primary (storeFilePaths d f) t = Some (TextFile (render [(k, b)]))
    \<and> kv_loaded (st_kv t) \<and> kv_get k (st_kv t) = Some a
    \<and> (store_step parse render d f peer)\<^sup>*\<^sup>* t u
    \<and> st_last u k = Some b \<and> at_primary (storeFilePaths d f) u = Some (TextFile (render [(k, a), (j, c)]))"
proof -
  let ?step = "store_step parse render d f peer" and ?p = "fst (storeFilePaths d f)"
  have js: "parse (render [(k, a)]) = Some (JsonObject [(k, a)])" using assms(1) by (simp add: json_okD)
  define s0 where "s0 = stored parse render (storeFilePaths d f) [(k, a)]"
  define s1 where "s1 = s0\<lparr>st_kv := kv_set k b (st_kv s0), st_last := (st_last s0)(k \<mapsto> b)\<rparr>"
  define s2 where "s2 = save_turn render 1 s1"
  define s3 where "s3 = fill_observes no_faults ?p 0 1 s2"
  define s4 where "s4 = fill_resumes parse render 0 1 (RdText (render [(k, a)])) s3"
  define s5 where "s5 = path_resolves render 0 1 [(k, b)] (render [(k, b)]) s4"
  define s6 where "s6 = s5\<lparr>st_kv := invalidate (st_kv s5)\<rparr>"
  define s7 where "s7 = begin_fill s6"
  define s8 where "s8 = fill_observes no_faults ?p 1 1 s7"
  define s9 where "s9 = write_lands no_faults ?p [(k, b)] (render [(k, b)]) s8"
  define s10 where "s10 = save_resumes [(k, b)] s9"
  define s11 where "s11 = fill_resumes parse render 1 1 (RdText (render [(k, a)])) s10"
  note fresh = s0_def stored_def createFileKeyValueStore_def js
  note at2 = s2_def s1_def fresh turn_simps and at4 = s4_def s3_def s2_def s1_def fresh turn_simps
  note at6 = s6_def s5_def at4 and at8 = s8_def s7_def s6_def s5_def at4
  note at10 = s10_def s9_def at8
  have "?step s0 s1" unfolding s1_def by (rule step_set)
  moreover have "?step s1 s2" unfolding s2_def by (rule step_save) (simp add: s1_def fresh)
  moreover have "?step s2 s3" unfolding s3_def by (rule step_observes) (simp_all add: at2)
  moreover have "?step s3 s4" unfolding s4_def by (rule step_resumes) (simp add: s3_def at2)
  moreover have "?step s4 s5" unfolding s5_def by (rule step_path) (simp add: at4)
  moreover have "?step s5 s6" unfolding s6_def by (rule step_event)
  moreover have "?step s6 s7" unfolding s7_def by (rule step_get) (simp add: at6)
  moreover have "?step s7 s8" unfolding s8_def by (rule step_observes) (simp_all add: s7_def at6)
  moreover have "?step s8 s9" unfolding s9_def by (rule step_lands) (simp add: at8)
  moreover have "?step s9 s10" unfolding s10_def by (rule step_saved) (simp add: s9_def at8)
  moreover have "?step s10 s11" unfolding s11_def by (rule step_resumes) (simp add: at10)
  ultimately have run: "?step\<^sup>*\<^sup>* s0 s11" by (meson converse_rtranclp_into_rtranclp rtranclp.rtrancl_refl)
  have t: "st_save s11 = SvIdle" "st_last s11 k = Some b" "st_kv s11 = \<lparr>kv_cache = [(k, a)], kv_pending = [],
      kv_loaded = True, kv_generation = 1, kv_refused = None\<rparr>" "fs_files (st_fs s11) ?p = Some (TextFile (render [(k, b)]))"
    by (simp_all add: s11_def at10)
  define u1 where "u1 = s11\<lparr>st_kv := kv_set j c (st_kv s11), st_last := (st_last s11)(j \<mapsto> c)\<rparr>"
  define u2 where "u2 = save_turn render 1 u1"
  define u3 where "u3 = path_resolves render 1 1 [(j, c)] (render [(k, a), (j, c)]) u2"
  define u4 where "u4 = write_lands no_faults ?p [(j, c)] (render [(k, a), (j, c)]) u3"
  have "?step s11 u1" unfolding u1_def by (rule step_set)
  moreover have "?step u1 u2" unfolding u2_def by (rule step_save) (simp add: u1_def t)
  moreover have "?step u2 u3" unfolding u3_def by (rule step_path) (use assms(2) in \<open>simp add: u2_def u1_def t turn_simps\<close>)
  moreover have "?step u3 u4" unfolding u4_def by (rule step_lands) (simp add: u3_def u2_def u1_def t turn_simps)
  ultimately have "?step\<^sup>*\<^sup>* s11 u4" by (meson converse_rtranclp_into_rtranclp rtranclp.rtrancl_refl)
  moreover have "st_last u4 k = Some b" "fs_files (st_fs u4) ?p = Some (TextFile (render [(k, a), (j, c)]))"
    using assms(2) by (simp_all add: u4_def u3_def u2_def u1_def t turn_simps)
  ultimately show ?thesis using run t unfolding s0_def by (auto simp: at_primary_def kv_get_def)
qed

theorem late_read_undoes_save_witness:
  "\<exists>t u. (store_step demo_parse demo_render demo_dir demo_file (\<lambda>m. True))\<^sup>*\<^sup>*
       (stored demo_parse demo_render (storeFilePaths demo_dir demo_file) [(''hosts'', ''one'')]) t
    \<and> st_save t = SvIdle \<and> st_last t ''hosts'' = Some ''two''
    \<and> at_primary (storeFilePaths demo_dir demo_file) t = Some (TextFile (demo_render [(''hosts'', ''two'')]))
    \<and> kv_loaded (st_kv t) \<and> kv_get ''hosts'' (st_kv t) = Some ''one''
    \<and> (store_step demo_parse demo_render demo_dir demo_file (\<lambda>m. True))\<^sup>*\<^sup>* t u
    \<and> st_last u ''hosts'' = Some ''two''
    \<and> at_primary (storeFilePaths demo_dir demo_file) u = Some (TextFile (demo_render [(''hosts'', ''one''), (''groups'', [])]))"
  by (rule late_read_undoes_save [OF demo_json_ok]) simp

section \<open>Witnesses\<close>

text \<open>A session that saves a value while the file holds the key.\<close>

abbreviation demo_store :: "string store" where
  "demo_store \<equiv> stored demo_parse demo_render (storeFilePaths demo_dir demo_file) [(''hosts'', ''one'')]"

definition demo_session :: "string store" where
  "demo_session = save_turn demo_render 1
     (demo_store\<lparr>st_kv := kv_set ''groups'' ''two'' (st_kv demo_store), st_last := (st_last demo_store)(''groups'' \<mapsto> ''two'')\<rparr>)"

lemma demo_session_reachable:
  "reachable (opened demo_parse demo_render (storeFilePaths demo_dir demo_file) (\<lambda>m. False) ''hosts'')
     (store_step demo_parse demo_render demo_dir demo_file (\<lambda>m. False)) demo_session"
proof -
  let ?r = "reachable (opened demo_parse demo_render (storeFilePaths demo_dir demo_file) (\<lambda>m. False) ''hosts'')
     (store_step demo_parse demo_render demo_dir demo_file (\<lambda>m. False))"
  have "?r demo_store" by (rule reach_start) (rule stored_opened [OF demo_json_ok]; simp)
  from reach_step [OF this step_set]
  have "?r (demo_store\<lparr>st_kv := kv_set ''groups'' ''two'' (st_kv demo_store),
     st_last := (st_last demo_store)(''groups'' \<mapsto> ''two'')\<rparr>)" .
  then show ?thesis unfolding demo_session_def by (rule reach_step) (rule step_save, simp add: stored_def)
qed

text \<open>
  An orderly run: a save reads the file, another window commits before the answer is used, the change
  event comes, the read is made again, and the write is about to land.
\<close>

definition demo_peer :: "string obj" where
  "demo_peer = [(''hosts'', ''one''), (''keys'', ''new'')]"

lemma demo_orderly:
  "\<exists>s p. reachable (just_opened demo_parse demo_render) (orderly_step demo_parse demo_render demo_dir demo_file) (s, 0)
     \<and> st_save s = SvWriting [(''groups'', ''two'')] p
     \<and> file_map demo_parse (storeFilePaths demo_dir demo_file) s = map_of demo_peer"
proof -
  let ?step = "orderly_step demo_parse demo_render demo_dir demo_file" and ?p = "fst (storeFilePaths demo_dir demo_file)"
  let ?reach = "reachable (just_opened demo_parse demo_render) ?step"
  define old where "old = demo_render [(''hosts'', ''one'')]"
  define new where "new = demo_render demo_peer"
  have js: "demo_parse old = Some (JsonObject [(''hosts'', ''one'')])" "demo_parse new = Some (JsonObject demo_peer)"
    unfolding old_def new_def by (rule json_okD(1) [OF demo_json_ok]; simp add: demo_peer_def)+
  define s1 where "s1 = demo_store\<lparr>st_kv := kv_set ''groups'' ''two'' (st_kv demo_store),
     st_last := (st_last demo_store)(''groups'' \<mapsto> ''two'')\<rparr>"
  define s2 where "s2 = save_turn demo_render 1 s1"
  define s3 where "s3 = fill_observes no_faults ?p 0 1 s2"
  define s4 where "s4 = peer_commit demo_render (storeFilePaths demo_dir demo_file) demo_peer s3"
  define s5 where "s5 = s4\<lparr>st_kv := invalidate (st_kv s4)\<rparr>"
  define s6 where "s6 = fill_resumes demo_parse demo_render 0 1 (RdText old) s5"
  define s7 where "s7 = fill_observes no_faults ?p 1 2 s6"
  define s8 where "s8 = fill_resumes demo_parse demo_render 1 2 (RdText new) s7"
  define payload where "payload = demo_render (spread demo_peer [(''groups'', ''two'')])"
  define s9 where "s9 = path_resolves demo_render 1 1 [(''groups'', ''two'')] payload s8"
  note fresh = stored_def createFileKeyValueStore_def js old_def [symmetric]
  note at3 = s3_def s2_def s1_def fresh turn_simps
  note at6 = s6_def s5_def s4_def peer_commit_def new_def [symmetric] at3
  note at9 = s9_def s8_def s7_def payload_def at6
  note timed = well_timed_def uncontended_def
  have "?reach (demo_store, 0)"
    by (rule reach_start) (simp add: just_opened_def demo_json_ok stored_def)
  moreover have "?step (demo_store, 0) (s1, 0)" unfolding s1_def by (rule ord_own [OF step_set]) (simp add: timed stored_def)
  moreover have "?step (s1, 0) (s2, 0)" unfolding s2_def by (rule ord_own [OF step_save]) (simp_all add: timed s1_def fresh turn_simps)
  moreover have "?step (s2, 0) (s3, 0)" unfolding s3_def by (rule ord_own [OF step_observes]) (simp_all add: timed s2_def s1_def fresh turn_simps)
  moreover have "?step (s3, 0) (s4, 1)" unfolding s4_def One_nat_def by (rule ord_peer) (simp_all add: at3 demo_peer_def)
  moreover have "?step (s4, 1) (s5, 0)" unfolding s5_def One_nat_def by (rule ord_event)
  moreover have "?step (s5, 0) (s6, 0)" unfolding s6_def
    by (rule ord_own [OF step_resumes]) (simp_all add: timed s5_def s4_def peer_commit_def at3)
  moreover have "?step (s6, 0) (s7, 0)" unfolding s7_def by (rule ord_own [OF step_observes]) (simp_all add: timed at6)
  moreover have "?step (s7, 0) (s8, 0)" unfolding s8_def by (rule ord_own [OF step_resumes]) (simp_all add: timed s7_def at6)
  moreover have "?step (s8, 0) (s9, 0)" unfolding s9_def by (rule ord_own [OF step_path]) (simp_all add: timed payload_def s8_def s7_def at6)
  ultimately have "?reach (s9, 0)" by (meson reach_step)
  moreover have "st_save s9 = SvWriting [(''groups'', ''two'')] payload" by (simp add: at9)
  moreover have "file_map demo_parse (storeFilePaths demo_dir demo_file) s9 = map_of demo_peer"
    by (simp add: file_map_def at_primary_def at9)
  ultimately show ?thesis by blast
qed

theorem saves_lose_nothing_witness:
  "(\<exists>s p. reachable (just_opened demo_parse demo_render) (orderly_step demo_parse demo_render demo_dir demo_file) (s, 0)
      \<and> st_save s = SvWriting [(''groups'', ''two'')] p
      \<and> file_map demo_parse (storeFilePaths demo_dir demo_file)
          (write_lands no_faults (fst (storeFilePaths demo_dir demo_file)) [(''groups'', ''two'')] p s) ''keys'' = Some ''new'')
   \<and> has_key demo_parse ''hosts'' (at_primary (storeFilePaths demo_dir demo_file) demo_session)
   \<and> (map_of (kv_pending (st_kv demo_session)) ''groups'' = Some ''two''
       \<or> (\<exists>c \<in> set (st_written demo_session). file_says demo_parse c ''groups'' ''two''))"
proof -
  obtain s p where s: "reachable (just_opened demo_parse demo_render) (orderly_step demo_parse demo_render demo_dir demo_file) (s, 0)"
    "st_save s = SvWriting [(''groups'', ''two'')] p"
    "file_map demo_parse (storeFilePaths demo_dir demo_file) s = map_of demo_peer" using demo_orderly by blast
  have "file_map demo_parse (storeFilePaths demo_dir demo_file)
      (write_lands no_faults (fst (storeFilePaths demo_dir demo_file)) [(''groups'', ''two'')] p s)
      \<in> {map_of demo_peer, map_of demo_peer ++ map_of [(''groups'', ''two'')]}"
    using saves_lose_nothing [THEN conjunct1, THEN mp, OF s(1), THEN conjunct1, rule_format, OF s(2), of no_faults] unfolding s(3) .
  then have "file_map demo_parse (storeFilePaths demo_dir demo_file)
      (write_lands no_faults (fst (storeFilePaths demo_dir demo_file)) [(''groups'', ''two'')] p s) ''keys'' = Some ''new''"
    by (auto simp: demo_peer_def)
  moreover have "st_last demo_session ''groups'' = Some ''two''" by (simp add: demo_session_def)
  ultimately show ?thesis using saves_lose_nothing [THEN conjunct2, THEN mp, OF demo_session_reachable] s(1,2) by blast
qed

text \<open>The file is torn, and the next start puts it back.\<close>

theorem crash_keeps_a_good_copy_witness:
  "\<exists>c \<in> set (st_history demo_store). inspect demo_parse (RdText c) = SfOk
    \<and> at_primary (storeFilePaths demo_dir demo_file)
        (relaunch no_faults demo_dir demo_parse demo_file None (tear (storeFilePaths demo_dir demo_file) None demo_store))
        = Some (TextFile c)"
proof -
  let ?r = "reachable (backed_up demo_parse (storeFilePaths demo_dir demo_file))
      (life_step demo_parse demo_render demo_dir demo_file (\<lambda>m. True))"
  have "?r demo_store" by (rule reach_start) (rule stored_backed_up [OF demo_json_ok]; simp)
  then have "?r (tear (storeFilePaths demo_dir demo_file) None demo_store)"
    by (rule reach_step) (rule life_tear; simp add: good_def)
  from crash_keeps_a_good_copy [OF this refl] show ?thesis by (auto simp: tear_def)
qed

theorem committed_object_comes_back_witness:
  "kv_cache (st_kv (relaunch no_faults demo_dir demo_parse demo_file None
     (tear (storeFilePaths demo_dir demo_file) (Some BinaryFile) demo_store))) = [(''hosts'', ''one'')]"
proof -
  have "(mishap demo_parse demo_dir demo_file)\<^sup>*\<^sup>* demo_store
      (tear (storeFilePaths demo_dir demo_file) (Some BinaryFile) demo_store)"
    by (rule r_into_rtranclp, rule mishap_tear) (simp_all add: good_def)
  from committed_object_comes_back [OF demo_json_ok _ _ _ this, of "[(''hosts'', ''one'')]"] show ?thesis by simp
qed

end
