(* ===== verification/Spec2Isabelle.thy ===== *)
theory Spec2Isabelle
  imports Tab_Props Pane_Props Vault_Props Group_Tree Tombstones Workspace_Props Vault_Store_Props Host_Witnesses Forward_Host_Props Forward_Witnesses Store_File_Witnesses
begin

text \<open>
  A verification library for Tervia (\<^verbatim>\<open>src/src/\<close>), a terminal and remote-desktop client. The front
  end keeps its data in four places that this library models: the window (tabs, each a tree of
  panes, and a rail of pages), the record files (hosts, groups, vault identities and keys, forward
  rules, their tombstones, workspaces), the operating system's keychain, which holds every secret
  under an account named by record id and field, and the forwards that are running on shared SSH
  sessions.

  \<^bold>\<open>Theories and the code they model.\<close>
  \<^item> \<open>Prelude\<close>: shared list, option and string lemmas, JavaScript values, comparison functions, the
    locale \<open>invariant_system\<close> of transition systems with an invariant.
  \<^item> \<open>Panes\<close>, \<open>Pane_Edit\<close>, \<open>Pane_Props\<close>: \<^verbatim>\<open>modules/terminal/lib/panes.ts\<close>. A pane tree is the datatype
    \<open>pane_node\<close>; every setter, split, removal, rotation, drag and drop is a function on it. Shown:
    well-formedness is kept, what each operation does to the list of leaves, canonical form.
  \<^item> \<open>Paths\<close>: \<^verbatim>\<open>lib/path.ts\<close>.
  \<^item> \<open>Tab_Types\<close>, \<open>Tab_Entries\<close>: \<^verbatim>\<open>modules/tabs/lib/tabTypes.ts\<close>, \<^verbatim>\<open>tabHelpers.ts\<close>, \<^verbatim>\<open>tabView.ts\<close>,
    \<^verbatim>\<open>pages.ts\<close>, \<^verbatim>\<open>entries.ts\<close>, \<^verbatim>\<open>closable.ts\<close>.
  \<^item> \<open>Tabs\<close>, \<open>Tabs_Inv\<close>, \<open>Tab_Machine\<close>, \<open>Tab_Props\<close>: \<^verbatim>\<open>useTabs.ts\<close> and \<^verbatim>\<open>useAuxTabs.ts\<close>. The hook state is
    the record \<open>tabs_state\<close> (tabs, view, and the two id counters held in refs); each callback is a
    function on it, the callbacks in any order are the relation \<open>tabs_step\<close>, and \<open>tabs_inv\<close> holds in
    every reachable state.
  \<^item> \<open>Workspace_Save\<close>, \<open>Workspace_Props\<close>: \<^verbatim>\<open>modules/workspaces/serialize.ts\<close>, composed with the tab
    machine.
  \<^item> \<open>Vault_Types\<close>, \<open>Host_Types\<close>, \<open>Vault_Resolve\<close>, \<open>Jumps\<close>, \<open>Vault_Props\<close>: the records of
    \<^verbatim>\<open>modules/vault/types.ts\<close> and \<^verbatim>\<open>modules/hosts/types.ts\<close>, resolution of a credential
    (\<^verbatim>\<open>modules/vault/resolve.ts\<close>, \<^verbatim>\<open>refs.ts\<close>) and of a jump chain (\<^verbatim>\<open>modules/hosts/jumps.ts\<close>).
  \<^item> \<open>Group_Tree\<close>: \<^verbatim>\<open>modules/hosts/groupTree.ts\<close>, through the locale \<open>forest\<close> of acyclic parent maps.
  \<^item> \<open>Tombstones\<close>: \<^verbatim>\<open>lib/tombstones.ts\<close>.
  \<^item> \<open>Io_Port\<close>: what a store calls (\<^verbatim>\<open>lib/recoveredStore.ts\<close>, \<^verbatim>\<open>lib/dirtySink.ts\<close>, \<^verbatim>\<open>modules/vault/adapters.ts\<close>)
    as a state and error monad over \<open>world\<close> (the file as the session sees it, the file on disk, the
    keychain, the dirty marks), with weakest preconditions and a rule per call (\<open>vcg\<close>). Every call
    that can reject is numbered, and \<open>fault\<close> says which do: a theorem for all \<open>fault\<close> covers every
    pattern of failures.
  \<^item> \<open>Store_Recovery\<close>, \<open>Store_File\<close>, \<open>Store_File_Run\<close>, \<open>Store_File_Orderly\<close>, \<open>Store_File_Props\<close>, \<open>Store_File_Witnesses\<close>:
    \<^verbatim>\<open>lib/storeRecovery.ts\<close>, \<^verbatim>\<open>lib/fileKeyValueStore.ts\<close>, \<^verbatim>\<open>lib/recoveredStore.ts\<close>. A store file is a primary and
    a snapshot; the read and the save in flight are fields of the state, and \<open>store_step\<close> resumes them
    between events and commits of other windows, \<open>life_step\<close> adds crashes and torn files. \<open>orderly_step\<close>
    leaves out the races the code does not close (a commit of a peer that is not heard of when a write
    of this window begins, three contended attempts, a read of old bytes answered after a write). Shown:
    in orderly runs a write changes exactly the keys it carries and a loaded store answers what the
    file says; in every run no value set is lost, a good copy outlives every crash, a committed object
    comes back. A file this application writes is taken to stay below the size it can read back, and a
    power cut tears the primary only.
  \<^item> \<open>Landings\<close>: the loops in which the stores take what another device sent.
  \<^item> \<open>Vault_Store\<close>, \<open>Vault_Store_Props\<close>: \<^verbatim>\<open>modules/vault/store.ts\<close>. Shown: no key reference dangles, no
    delete leaves a secret behind, honest flags, what a landing may take away.
  \<^item> \<open>Record_Links\<close>, \<open>Host_Store\<close>, \<open>Host_Store_Inv\<close>, \<open>Host_Store_Wp\<close>, \<open>Host_Store_Props\<close>, \<open>Host_Flags\<close>,
    \<open>Host_Pins\<close>, \<open>Host_Witnesses\<close>: \<^verbatim>\<open>modules/hosts/store.ts\<close>. \<open>Record_Links\<close> is the theory of lists whose
    records name each other; the locales \<open>patch_invariant\<close> and \<open>file_invariant\<close> carry an invariant
    through the mutators and are interpreted three times (references, flags, pins). \<open>Host_Flags\<close> carries
    along the ids of duplicates that were refused: what such a duplicate had copied stays in the
    keychain, and nothing else is left there by a run without failures.
  \<^item> \<open>Forward_Rules\<close>, \<open>Forward_Rules_Props\<close>, \<open>Forward_Host_Props\<close>: \<^verbatim>\<open>modules/forwards/store.ts\<close> and its types,
    alone and beside the host store.
  \<^item> \<open>Ssh_Endings\<close>: \<^verbatim>\<open>modules/terminal/lib/ssh-exit-decision.ts\<close>.
  \<^item> \<open>Forward_Run\<close>, \<open>Forward_Run_Inv\<close>, \<open>Forward_Run_Props\<close>, \<open>Forward_Refs\<close>, \<open>Forward_Witnesses\<close>: running
    forwards (\<^verbatim>\<open>modules/forwards/runtime.ts\<close>, \<^verbatim>\<open>hostOwned.ts\<close>, \<^verbatim>\<open>controller.ts\<close>, \<^verbatim>\<open>autostart.ts\<close>). What waits at an
    \<open>await\<close> is a task of the state; \<open>forward_step\<close> answers any of them in any order. What follows a rejected
    dial in the same run of microtasks (the rung of the ladder) is part of the same step. Shown: one owner
    per rule, no lost listener, exact references, the end of the retry ladder.

  \<^bold>\<open>How the parts meet.\<close> A saved workspace is restored into the tab machine (\<open>Workspace_Props\<close>); a host's
  credential is resolved through the vault and its jump chain (\<open>Vault_Resolve\<close>, \<open>Jumps\<close>); deleting a host
  awaits the clean-up of its forward rules (\<open>Forward_Host_Props\<close>); the three record stores share the
  port, the tombstones and the landing loops.

  \<^bold>\<open>Bounds and fuel.\<close> No definition runs on fuel. A contended read or save gives up after
  \<open>CONTENDED_ATTEMPTS\<close> turns, as in the code. Loops that follow ids (jump chains, group parents)
  carry the set of ids seen and end by a measure; the retry ladder ends by the number of its delays.
  Ids and counters of the window are natural numbers; times are integers, JavaScript numbers that come
  from outside are \<open>js_num\<close>.

  \<^bold>\<open>Parameters.\<close> Clocks, fresh ids, how a number prints, the comparison of names, the answers of calls
  that leave the process, \<open>JSON\<close> (what was rendered reads back), and lookups that one module injects into another are arguments of the
  definitions, so that a theorem holds for all of them.

  \<^bold>\<open>Not modelled.\<close> The React components and the canvas, editor and terminal widgets they drive (effects
  on third-party objects); timers other than the retry ladder's; the native backend (Rust); change
  subscriptions of the record stores and the text of toasts; the reference counts of shared SSH sessions
  (the running forwards name a reference by its claim); the actions of the workspace store; the sync
  scheduler, backup files and their import, settings and shortcuts. A call to the backend is atomic: it has its
  effect and answers, or rejects without one.
\<close>

end
